(* ===== verification/Prelude.thy ===== *)
theory Prelude
  imports Main "HOL-Library.Word"
begin

text \<open>
  Shared vocabulary of the development: the arithmetic of the 64-bit \<open>size_t\<close> and
  \<open>ssize_t\<close>, the outcomes of a C++ operation on mutable state (it returns, or it runs
  into an assertion, an exception or undefined behaviour), memory images of integers in
  host and network order, and the list lemmas the components share. The Makefile compiles
  the library without \<open>NDEBUG\<close>, so a failing \<open>assert\<close> stops the program and is a
  fault of the model.
\<close>

named_theorems sz_simps
  \<open>size_t and ssize_t arithmetic on values that do not wrap\<close>

subsection \<open>Machine sizes\<close>

text \<open>
  A \<open>size_t\<close> is a natural number below \<open>2 ^ 64\<close>; sums and differences wrap. An
  \<open>ssize_t\<close> is an integer in two's complement. \<open>vec_max\<close> is the largest size a
  \<open>std::vector<char>\<close> accepts before \<open>resize\<close> throws \<open>std::length_error\<close>.
\<close>

definition sz_add :: "nat \<Rightarrow> nat \<Rightarrow> nat" where
  "sz_add a b = (a + b) mod 2 ^ 64"

definition sz_sub :: "nat \<Rightarrow> nat \<Rightarrow> nat" where
  "sz_sub a b = (a + (2 ^ 64 - b mod 2 ^ 64)) mod 2 ^ 64"

definition to_ssize :: "nat \<Rightarrow> int" where
  "to_ssize n = (if n < 2 ^ 63 then int n else int n - 2 ^ 64)"

definition of_ssize :: "int \<Rightarrow> nat" where
  "of_ssize i = nat (i mod 2 ^ 64)"

definition vec_max :: nat where
  "vec_max = 2 ^ 63 - 1"

lemma sz_add_exact [sz_simps]: "a + b < 2 ^ 64 \<Longrightarrow> sz_add a b = a + b"
  by (simp add: sz_add_def)

lemma sz_sub_exact [sz_simps]: "b \<le> a \<Longrightarrow> a < 2 ^ 64 \<Longrightarrow> sz_sub a b = a - b"
proof -
  assume "b \<le> a" and a: "a < 2 ^ 64"
  then have "b < 2 ^ 64" by linarith
  then have "a + (2 ^ 64 - b mod 2 ^ 64) = (a - b) + 2 ^ 64"
    using \<open>b \<le> a\<close> by simp
  then show ?thesis using a by (simp add: sz_sub_def)
qed

lemma sz_add_less: "sz_add a b < 2 ^ 64"
  by (simp add: sz_add_def)

lemma to_ssize_exact [sz_simps]: "n < 2 ^ 63 \<Longrightarrow> to_ssize n = int n"
  by (simp add: to_ssize_def)

lemma of_ssize_exact [sz_simps]: "n < 2 ^ 64 \<Longrightarrow> of_ssize (int n) = n"
  by (simp add: of_ssize_def)

lemma of_ssize_nonneg [sz_simps]: "0 \<le> i \<Longrightarrow> i < 2 ^ 64 \<Longrightarrow> of_ssize i = nat i"
  by (simp add: of_ssize_def)

lemma of_ssize_minus_one: "of_ssize (- 1) = 2 ^ 64 - 1"
  by (simp add: of_ssize_def)

subsection \<open>Outcomes\<close>

text \<open>
  \<open>Ret r s\<close> is an operation that returned \<open>r\<close> and left the state \<open>s\<close>. A \<open>Fault\<close>
  is an execution the code does not survive: a failed assertion, a null or wild pointer, an
  access outside an allocation (undefined behaviour), an exception of the standard library,
  an uncaught exception of the library itself, a call that nothing can end, or a loop bound exceeded (\<open>Diverges\<close>, which
  the development shows unreachable where a loop is modelled with a bound).
\<close>

datatype fault =
    AssertFailed
  | NullPointer
  | WildPointer
  | OutOfBounds
  | LengthError
  | LogicErrorThrown
  | BlockedForever
  | Diverges

datatype ('r, 's) outcome = Ret 'r 's | Fault fault

fun bind_out :: "('r, 's) outcome \<Rightarrow> ('r \<Rightarrow> 's \<Rightarrow> ('q, 't) outcome) \<Rightarrow> ('q, 't) outcome" where
  "bind_out (Ret r s) k = k r s"
| "bind_out (Fault e) k = Fault e"

text \<open>The \<open>if(!step) return false; rest\<close> of the code, and equally its \<open>step && rest\<close>.\<close>

definition and_then :: "(bool, 's) outcome \<Rightarrow> ('s \<Rightarrow> (bool, 's) outcome) \<Rightarrow> (bool, 's) outcome" where
  "and_then m k = bind_out m (\<lambda>ok s. if ok then k s else Ret False s)"

definition map_ret :: "('r \<Rightarrow> 'q) \<Rightarrow> ('r, 's) outcome \<Rightarrow> ('q, 's) outcome" where
  "map_ret f m = bind_out m (\<lambda>r s. Ret (f r) s)"

lemma and_then_simps [simp]:
  "and_then (Ret True s) k = k s"
  "and_then (Ret False s) k = Ret False s"
  "and_then (Fault e) k = Fault e"
  by (simp_all add: and_then_def)

lemma map_ret_simps [simp]:
  "map_ret f (Ret r s) = Ret (f r) s"
  "map_ret f (Fault e) = Fault e"
  by (simp_all add: map_ret_def)

lemma bind_out_eq_Ret:
  "bind_out m k = Ret r t \<longleftrightarrow> (\<exists>q s. m = Ret q s \<and> k q s = Ret r t)"
  by (cases m) auto

lemma bind_out_assoc: "bind_out (bind_out m f) g = bind_out m (\<lambda>r s. bind_out (f r s) g)"
  by (cases m) auto

lemma and_then_eq_True:
  "and_then m k = Ret True t \<longleftrightarrow> (\<exists>s. m = Ret True s \<and> k s = Ret True t)"
  by (cases m) (auto simp: and_then_def)

text \<open>A state invariant that an operation keeps whenever it returns.\<close>

definition keeps :: "('s \<Rightarrow> bool) \<Rightarrow> ('r, 's) outcome \<Rightarrow> bool" where
  "keeps P m = (case m of Ret r s \<Rightarrow> P s | Fault e \<Rightarrow> True)"

lemma keeps_simps [simp]: "keeps P (Ret r s) = P s" "keeps P (Fault e)"
  by (simp_all add: keeps_def)

lemma keeps_bind [intro]:
  "keeps P m \<Longrightarrow> (\<And>r s. P s \<Longrightarrow> keeps Q (k r s)) \<Longrightarrow> keeps Q (bind_out m k)"
  by (cases m) auto

lemma keeps_and_then [intro]:
  "keeps P m \<Longrightarrow> (\<And>s. P s \<Longrightarrow> keeps P (k s)) \<Longrightarrow> keeps P (and_then m k)"
  by (auto simp: and_then_def)

lemma keeps_map_ret [simp]: "keeps P (map_ret f m) = keeps P m"
  by (cases m) simp_all

lemma keepsD: "keeps P m \<Longrightarrow> m = Ret r s \<Longrightarrow> P s"
  by simp

subsection \<open>Byte blocks\<close>

text \<open>\<open>patch k p xs\<close> is \<open>memcpy\<close> of \<open>p\<close> to offset \<open>k\<close> of the block \<open>xs\<close>.\<close>

definition patch :: "nat \<Rightarrow> 'a list \<Rightarrow> 'a list \<Rightarrow> 'a list" where
  "patch k p xs = take k xs @ p @ drop (k + length p) xs"

definition slice :: "nat \<Rightarrow> nat \<Rightarrow> 'a list \<Rightarrow> 'a list" where
  "slice k n xs = take n (drop k xs)"

lemma length_patch [simp]: "k + length p \<le> length xs \<Longrightarrow> length (patch k p xs) = length xs"
  by (simp add: patch_def)

lemma length_slice [simp]: "length (slice k n xs) = min n (length xs - k)"
  by (simp add: slice_def)

lemma slice_zero [simp]: "slice k 0 xs = []"
  by (simp add: slice_def)

lemma patch_nil [simp]: "patch k [] xs = xs"
  by (simp add: patch_def)

lemma patch_end: "length xs = m + length p \<Longrightarrow> patch m p xs = take m xs @ p"
  by (simp add: patch_def)

lemma slice_patch_same:
  "k + length p \<le> length xs \<Longrightarrow> slice k (length p) (patch k p xs) = p"
  by (simp add: slice_def patch_def)

lemma slice_patch_before:
  "j + n \<le> k \<Longrightarrow> k \<le> length xs \<Longrightarrow> slice j n (patch k p xs) = slice j n xs"
  by (auto simp: slice_def patch_def drop_take min_def)

lemma slice_append: "slice k (m + n) xs = slice k m xs @ slice (k + m) n xs"
  by (simp add: slice_def take_add add.commute)

lemma slice_append_left: "k + n \<le> length xs \<Longrightarrow> slice k n (xs @ ys) = slice k n xs"
  by (simp add: slice_def)

lemma slice_take: "k + n \<le> m \<Longrightarrow> slice k n (take m xs) = slice k n xs"
  by (simp add: slice_def drop_take min_def)

lemma take_slice: "m \<le> n \<Longrightarrow> take m (slice k n xs) = slice k m xs"
  by (simp add: slice_def min_def)

lemma drop_slice: "drop m (slice k n xs) = slice (k + m) (n - m) xs"
  by (simp add: slice_def drop_take add.commute)

lemma nth_slice: "i < n \<Longrightarrow> k + i < length xs \<Longrightarrow> slice k n xs ! i = xs ! (k + i)"
  by (simp add: slice_def)

lemma nth_patch:
  assumes "k + length p \<le> length xs" and "i < length xs"
  shows "patch k p xs ! i = (if k \<le> i \<and> i < k + length p then p ! (i - k) else xs ! i)"
  using assms by (auto simp: patch_def nth_append)

lemma slice_patch_inside:
  assumes "off + length p \<le> n" and "k + n \<le> length xs"
  shows "slice k n (patch (k + off) p xs) = patch off p (slice k n xs)"
  using assms by (intro nth_equalityI) (auto simp: nth_slice nth_patch)

text \<open>\<open>std::vector::resize\<close>: cut the block or pad it.\<close>

definition resized :: "nat \<Rightarrow> 'a \<Rightarrow> 'a list \<Rightarrow> 'a list" where
  "resized n z xs = take n xs @ replicate (n - length xs) z"

lemma length_resized [simp]: "length (resized n z xs) = n"
  by (simp add: resized_def)

lemma take_resized: "m \<le> n \<Longrightarrow> m \<le> length xs \<Longrightarrow> take m (resized n z xs) = take m xs"
  by (simp add: resized_def min_def)

subsection \<open>Characters, octets and memory images of integers\<close>

text \<open>
  The byte container of the code holds \<open>char\<close>s; an octet read as \<open>uint8_t\<close> is an
  \<open>8 word\<close>. Multi-byte integers are copied with \<open>memcpy\<close>, so they appear in the
  buffer as their memory image on the host, which is little-endian on the platforms the
  Makefile targets. \<open>htons\<close> and \<open>htonl\<close> reverse the octets there.
\<close>

definition char_of_u8 :: "8 word \<Rightarrow> char" where
  "char_of_u8 w = char_of (unat w)"

definition u8_of_char :: "char \<Rightarrow> 8 word" where
  "u8_of_char c = word_of_nat (of_char c)"

lemma u8_of_char_of_u8 [simp]: "u8_of_char (char_of_u8 w) = w"
proof -
  have "unat w < 256" using unsigned_less [of w] by simp
  then show ?thesis by (simp add: u8_of_char_def char_of_u8_def)
qed

lemma char_of_u8_of_char [simp]: "char_of_u8 (u8_of_char c) = c"
proof -
  have "(of_char c :: nat) < 256" by simp
  then have "unat (word_of_nat (of_char c) :: 8 word) = of_char c"
    by (simp add: unat_of_nat)
  then show ?thesis by (simp add: u8_of_char_def char_of_u8_def)
qed

definition mem16 :: "16 word \<Rightarrow> char list" where
  "mem16 w = [char_of_u8 (ucast w), char_of_u8 (ucast (drop_bit 8 w))]"

definition mem32 :: "32 word \<Rightarrow> char list" where
  "mem32 w = [char_of_u8 (ucast w), char_of_u8 (ucast (drop_bit 8 w)),
              char_of_u8 (ucast (drop_bit 16 w)), char_of_u8 (ucast (drop_bit 24 w))]"

fun load16 :: "char list \<Rightarrow> 16 word" where
  "load16 (a # b # _) = or (ucast (u8_of_char a)) (push_bit 8 (ucast (u8_of_char b)))"
| "load16 _ = 0"

fun load32 :: "char list \<Rightarrow> 32 word" where
  "load32 (a # b # c # d # _) =
     or (or (ucast (u8_of_char a)) (push_bit 8 (ucast (u8_of_char b))))
        (or (push_bit 16 (ucast (u8_of_char c))) (push_bit 24 (ucast (u8_of_char d))))"
| "load32 _ = 0"

definition htons :: "16 word \<Rightarrow> 16 word" where
  "htons w = or (push_bit 8 w) (drop_bit 8 w)"

definition htonl :: "32 word \<Rightarrow> 32 word" where
  "htonl w = or (or (push_bit 24 w) (push_bit 16 (take_bit 8 (drop_bit 8 w))))
                (or (push_bit 8 (take_bit 8 (drop_bit 16 w))) (drop_bit 24 w))"

abbreviation (input) ntohs :: "16 word \<Rightarrow> 16 word" where "ntohs \<equiv> htons"
abbreviation (input) ntohl :: "32 word \<Rightarrow> 32 word" where "ntohl \<equiv> htonl"

lemma load16_mem16 [simp]: "load16 (mem16 w @ r) = w"
  by (simp add: mem16_def bit_eq_iff bit_simps) (auto dest: bit_imp_le_length)

lemma byte_index_cases:
  assumes "n < (32::nat)"
  obtains i where "i < 8" and "n = i \<or> n = 8 + i \<or> n = 16 + i \<or> n = 24 + i"
proof
  show "n mod 8 < 8" by simp
  have "n div 8 < 4" using assms by simp
  then have "n div 8 = 0 \<or> n div 8 = 1 \<or> n div 8 = 2 \<or> n div 8 = 3" by linarith
  moreover have "8 * (n div 8) + n mod 8 = n" by simp
  ultimately show "n = n mod 8 \<or> n = 8 + n mod 8 \<or> n = 16 + n mod 8 \<or> n = 24 + n mod 8"
    by linarith
qed

lemma load32_mem32 [simp]: "load32 (mem32 w @ r) = w"
proof (rule bit_word_eqI)
  fix n assume "n < LENGTH(32)"
  then have "n < 32" by simp
  then show "bit (load32 (mem32 w @ r)) n = bit w n"
    by (elim byte_index_cases disjE) (simp_all add: mem32_def bit_simps)
qed

lemma htons_htons [simp]: "htons (htons w) = w"
  by (simp add: htons_def bit_eq_iff bit_simps) (auto dest: bit_imp_le_length)

lemma htonl_htonl [simp]: "htonl (htonl w) = w"
proof (rule bit_word_eqI)
  fix n assume "n < LENGTH(32)"
  then have "n < 32" by simp
  then show "bit (htonl (htonl w)) n = bit w n"
    by (elim byte_index_cases disjE) (simp_all add: htonl_def bit_simps)
qed

lemma length_mem [simp]: "length (mem16 w) = 2" "length (mem32 v) = 4"
  by (simp_all add: mem16_def mem32_def)

subsection \<open>Decimal numbers\<close>

text \<open>Numbers as \<open>operator<<\<close> of an \<open>std::ostream\<close> prints them.\<close>

fun dec_of_nat :: "nat \<Rightarrow> char list" where
  "dec_of_nat n =
     (if n < 10 then [char_of (48 + n)] else dec_of_nat (n div 10) @ [char_of (48 + n mod 10)])"

declare dec_of_nat.simps [simp del]

definition dec_of_int :: "int \<Rightarrow> char list" where
  "dec_of_int i = (if i < 0 then CHR ''-'' # dec_of_nat (nat (- i)) else dec_of_nat (nat i))"

text \<open>\<open>atoi\<close> on a string of digits: white space and an optional sign first, then digits up to
  the first other character. Values beyond \<open>int\<close> are undefined in C; the model leaves the
  number unbounded and its users bound it.\<close>

definition is_digit :: "char \<Rightarrow> bool" where
  "is_digit c = (48 \<le> (of_char c :: nat) \<and> (of_char c :: nat) \<le> 57)"

definition is_space :: "char \<Rightarrow> bool" where
  "is_space c = ((of_char c :: nat) = 32 \<or> (9 \<le> (of_char c :: nat) \<and> (of_char c :: nat) \<le> 13))"

fun digits_val :: "nat \<Rightarrow> char list \<Rightarrow> nat" where
  "digits_val acc [] = acc"
| "digits_val acc (c # cs) =
     (if is_digit c then digits_val (10 * acc + (of_char c - 48)) cs else acc)"

definition atoi :: "char list \<Rightarrow> int" where
  "atoi s = (case dropWhile is_space s of
       [] \<Rightarrow> 0
     | c # cs \<Rightarrow> if c = CHR ''-'' then - int (digits_val 0 cs)
                else if c = CHR ''+'' then int (digits_val 0 cs)
                else int (digits_val 0 (c # cs)))"

lemma of_char_char_of_small [simp]: "n < 256 \<Longrightarrow> (of_char (char_of n :: char) :: nat) = n"
  by simp

lemma dec_of_nat_digits: "\<forall>c \<in> set (dec_of_nat n). is_digit c"
  by (induction n rule: dec_of_nat.induct) (subst dec_of_nat.simps, auto simp: is_digit_def)

lemma dec_of_nat_not_Nil [simp]: "dec_of_nat n \<noteq> []"
  by (subst dec_of_nat.simps) simp

lemma digits_val_append:
  "\<forall>c \<in> set xs. is_digit c \<Longrightarrow> digits_val a (xs @ ys) = digits_val (digits_val a xs) ys"
  by (induction xs arbitrary: a) auto

lemma digits_val_dec: "digits_val 0 (dec_of_nat n) = n"
proof (induction n rule: dec_of_nat.induct)
  case (1 n)
  show ?case
  proof (cases "n < 10")
    case True
    then show ?thesis by (subst dec_of_nat.simps) (auto simp: is_digit_def)
  next
    case False
    then have "dec_of_nat n = dec_of_nat (n div 10) @ [char_of (48 + n mod 10)]"
      by (subst dec_of_nat.simps) simp
    then have "digits_val 0 (dec_of_nat n) = digits_val (n div 10) [char_of (48 + n mod 10)]"
      using 1 False by (simp only: digits_val_append [OF dec_of_nat_digits]) simp
    moreover have "n mod 10 \<le> 9" using mod_less_divisor [of 10 n] by simp
    ultimately show ?thesis by (simp add: is_digit_def)
  qed
qed

lemma digits_val_stop: "\<not> is_digit c \<Longrightarrow> digits_val a (c # cs) = a"
  by simp

lemma digit_not_space: "is_digit c \<Longrightarrow> \<not> is_space c"
  and digit_not_sign: "is_digit c \<Longrightarrow> c \<noteq> CHR ''-'' \<and> c \<noteq> CHR ''+''"
  by (auto simp: is_digit_def is_space_def)

lemma atoi_dec: "atoi (dec_of_nat n) = int n"
proof -
  obtain c cs where d: "dec_of_nat n = c # cs" by (cases "dec_of_nat n") auto
  then have "is_digit c" using dec_of_nat_digits [of n] by simp
  then show ?thesis
    using d digits_val_dec [of n] digit_not_space [of c] digit_not_sign [of c]
    by (simp add: atoi_def)
qed

end
