(* ===== verification/StreamBuf.thy ===== *)
theory StreamBuf
  imports Prelude
begin

text \<open>
  \<open>StreamBuffer\<close> (\<open>StreamBuffer.hpp\<close>, \<open>StreamBuffer.cpp\<close>): a growable byte vector with
  an origin, a reading and a writing position. The members keep their names without the
  underscore; a \<open>size_t*\<close> out-parameter is part of the result, and a caller that fills the
  memory behind \<open>Write()\<close> itself uses \<^verbatim>\<open>fill_writable\<close>. Every operation of the class is
  here, with the \<open>size_t\<close> arithmetic as it wraps.
\<close>

record stream_buffer =
  bytes :: "char list"
  limit :: nat
  opos :: nat
  rpos :: nat
  wpos :: nat

definition DEFAULT_BUFFER_SIZE :: nat where "DEFAULT_BUFFER_SIZE = 4096"
definition MAX_BUFFER_SIZE :: nat where "MAX_BUFFER_SIZE = 1024 * 1024"

subsection \<open>Construction, copying, swapping\<close>

text \<open>The vector is allocated with zeros before the body asserts the limit.\<close>

definition sb_new :: "nat \<Rightarrow> nat \<Rightarrow> (unit, stream_buffer) outcome" where
  "sb_new init lim =
     (if vec_max < init then Fault LengthError
      else if init \<le> lim
      then Ret () \<lparr>bytes = replicate init (CHR 0x00), limit = lim, opos = 0, rpos = 0, wpos = 0\<rparr>
      else Fault AssertFailed)"

definition sb_new_data :: "char list \<Rightarrow> nat \<Rightarrow> nat \<Rightarrow> (unit, stream_buffer) outcome" where
  "sb_new_data p init lim =
     (if vec_max < init then Fault LengthError
      else if length p \<le> init \<and> init \<le> lim
      then Ret () \<lparr>bytes = patch 0 p (replicate init (CHR 0x00)), limit = lim,
                   opos = 0, rpos = 0, wpos = length p\<rparr>
      else Fault AssertFailed)"

definition sb_size :: "stream_buffer \<Rightarrow> nat" where
  "sb_size b = sz_sub (length (bytes b)) (opos b)"

definition sb_copy :: "stream_buffer \<Rightarrow> (unit, stream_buffer) outcome" where
  "sb_copy b =
     (let n = sz_sub (wpos b) (opos b) in
      if vec_max < sb_size b then Fault LengthError
      else if length (bytes b) < opos b + n \<or> sb_size b < n then Fault OutOfBounds
      else Ret () \<lparr>bytes = patch 0 (slice (opos b) n (bytes b)) (replicate (sb_size b) (CHR 0x00)),
                   limit = limit b, opos = 0, rpos = 0, wpos = n\<rparr>)"

definition vec_resize :: "nat \<Rightarrow> stream_buffer \<Rightarrow> (unit, stream_buffer) outcome" where
  "vec_resize n b =
     (if vec_max < n then Fault LengthError
      else Ret () (b\<lparr>bytes := resized n (CHR 0x00) (bytes b)\<rparr>))"

text \<open>
  \<open>operator=\<close> on two distinct objects: the source of the copy is at the origin of the
  \<^emph>\<open>assigned\<close> buffer (\<open>b.Begin() + _opos\<close>), as the code has it.
\<close>

definition sb_assign :: "stream_buffer \<Rightarrow> stream_buffer \<Rightarrow> (unit, stream_buffer) outcome" where
  "sb_assign this b =
     bind_out (vec_resize (sb_size b) this) (\<lambda>_ t.
       let n = sz_sub (wpos b) (opos b) in
       if length (bytes b) < opos t + n \<or> length (bytes t) < n then Fault OutOfBounds
       else Ret () (t\<lparr>bytes := patch 0 (slice (opos t) n (bytes b)) (bytes t), limit := limit b,
                      opos := 0, rpos := sz_sub (rpos b) (opos b), wpos := n\<rparr>))"

definition sb_swap :: "stream_buffer \<Rightarrow> stream_buffer \<Rightarrow> stream_buffer \<times> stream_buffer" where
  "sb_swap this b =
     (this\<lparr>bytes := bytes b, limit := limit b, opos := opos b, rpos := rpos b, wpos := wpos b\<rparr>,
      b\<lparr>bytes := bytes this, limit := limit this, opos := opos this, rpos := rpos this,
        wpos := wpos this\<rparr>)"

subsection \<open>Discarding data\<close>

definition sb_empty :: "stream_buffer \<Rightarrow> bool" where
  "sb_empty b = (opos b = wpos b)"

definition sb_clear :: "stream_buffer \<Rightarrow> stream_buffer" where
  "sb_clear b = b\<lparr>wpos := 0, rpos := 0, opos := 0\<rparr>"

definition sb_flush_n :: "nat \<Rightarrow> stream_buffer \<Rightarrow> int \<times> stream_buffer" where
  "sb_flush_n n b =
     (if sz_sub (wpos b) (opos b) < n then (- 1, b)
      else let b1 = b\<lparr>opos := sz_add (opos b) n\<rparr>;
               b2 = (if opos b1 = wpos b1 then sb_clear b1 else b1)
           in (to_ssize (sz_sub (wpos b2) (opos b2)), b2))"

definition sb_flush :: "stream_buffer \<Rightarrow> int \<times> stream_buffer" where
  "sb_flush b =
     (let b1 = b\<lparr>opos := rpos b\<rparr>;
          b2 = (if opos b1 = wpos b1 then sb_clear b1 else b1)
      in (to_ssize (sz_sub (wpos b2) (opos b2)), b2))"

subsection \<open>Writing\<close>

definition sb_writable :: "stream_buffer \<Rightarrow> nat" where
  "sb_writable b = sz_sub (length (bytes b)) (wpos b)"

text \<open>
  \<open>Reclaim\<close>: \<open>std::rotate(begin, begin + _opos, begin + _wpos - _opos)\<close>. The standard
  requires the middle to lie between first and last; the last position is
  \<open>_wpos - _opos\<close>, as the code has it.
\<close>

definition sb_reclaim :: "stream_buffer \<Rightarrow> (unit, stream_buffer) outcome" where
  "sb_reclaim b =
     (if wpos b < opos b \<or> wpos b - opos b < opos b \<or> length (bytes b) < wpos b - opos b
      then Fault OutOfBounds
      else let l = wpos b - opos b in
        Ret () (b\<lparr>bytes := slice (opos b) (l - opos b) (bytes b) @ take (opos b) (bytes b)
                           @ drop l (bytes b),
                  wpos := l, rpos := sz_sub (rpos b) (opos b), opos := 0\<rparr>))"

text \<open>\<open>Writable(n)\<close>: make room for \<open>n\<close> more bytes within the limit.\<close>

definition sb_reserve :: "nat \<Rightarrow> stream_buffer \<Rightarrow> (bool, stream_buffer) outcome" where
  "sb_reserve n b =
     (if n = 0 \<or> n \<le> sb_writable b then Ret True b
      else if 0 < limit b \<and> limit b < sz_add (sz_sub (wpos b) (opos b)) n then Ret False b
      else bind_out
        (if 0 < limit b \<and> limit b < sz_add (wpos b) n then sb_reclaim b else Ret () b)
        (\<lambda>_ b1. bind_out (vec_resize (sz_add (wpos b1) n) b1)
          (\<lambda>_ b2. Ret (n \<le> sb_writable b2) b2)))"

text \<open>
  \<open>Write(size_t n, size_t* offset)\<close>: \<open>Some off\<close> is the result true with the position
  stored to \<open>*offset\<close>, \<open>None\<close> is false with \<open>*offset\<close> untouched.
\<close>

definition sb_advance :: "nat \<Rightarrow> stream_buffer \<Rightarrow> nat option \<times> stream_buffer" where
  "sb_advance n b =
     (if length (bytes b) < sz_add (wpos b) n then (None, b)
      else (Some (wpos b), b\<lparr>wpos := sz_add (wpos b) n\<rparr>))"

text \<open>Bytes stored behind the pointer that \<open>Write()\<close> returns, by \<open>memcpy\<close> or by \<open>recv\<close>.\<close>

definition fill_writable :: "char list \<Rightarrow> stream_buffer \<Rightarrow> (unit, stream_buffer) outcome" where
  "fill_writable p b =
     (if length (bytes b) < wpos b + length p then Fault OutOfBounds
      else Ret () (b\<lparr>bytes := patch (wpos b) p (bytes b)\<rparr>))"

definition sb_write :: "char list \<Rightarrow> stream_buffer \<Rightarrow> (nat option, stream_buffer) outcome" where
  "sb_write p b =
     bind_out (sb_reserve (length p) b) (\<lambda>ok b1.
       if \<not> ok then Ret None b1
       else bind_out (fill_writable p b1) (\<lambda>_ b2.
         case sb_advance (length p) b2 of (off, b3) \<Rightarrow> Ret off b3))"

text \<open>
  The two delimited forms return \<open>Write(p, n, offset) && Write(delim)\<close>; the offset of the
  first write is stored even when the second fails.
\<close>

definition sb_write_delim ::
  "char list \<Rightarrow> char list \<Rightarrow> stream_buffer \<Rightarrow> (bool \<times> nat option, stream_buffer) outcome" where
  "sb_write_delim p delim b =
     bind_out (sb_write p b) (\<lambda>off b1.
       if off = None then Ret (False, None) b1
       else map_ret (\<lambda>r. (r \<noteq> None, off)) (sb_write delim b1))"

subsection \<open>Sequential reading\<close>

definition sb_readable :: "stream_buffer \<Rightarrow> nat" where
  "sb_readable b = sz_sub (wpos b) (rpos b)"

text \<open>
  \<open>std::find\<close> and \<open>std::find_first_of\<close> from \<open>Read()\<close> to \<open>Write()\<close>: the distance of
  the first byte that satisfies the test, \<open>None\<close> when the end is reached.
\<close>

fun find_byte :: "(char \<Rightarrow> bool) \<Rightarrow> char list \<Rightarrow> nat option" where
  "find_byte t [] = None"
| "find_byte t (c # cs) = (if t c then Some 0 else map_option Suc (find_byte t cs))"

definition sb_scan :: "(char \<Rightarrow> bool) \<Rightarrow> stream_buffer \<Rightarrow> (int, stream_buffer) outcome" where
  "sb_scan t b =
     (if wpos b < rpos b \<or> length (bytes b) < wpos b then Fault OutOfBounds
      else case find_byte t (slice (rpos b) (wpos b - rpos b) (bytes b)) of
             None \<Rightarrow> Ret (- 1) b
           | Some i \<Rightarrow> Ret (int i) b)"

definition sb_readable_char :: "char \<Rightarrow> stream_buffer \<Rightarrow> (int, stream_buffer) outcome" where
  "sb_readable_char delim b =
     (if sb_readable b < 1 then Ret (- 1) b else sb_scan (\<lambda>c. c = delim) b)"

definition sb_readable_str :: "char list \<Rightarrow> stream_buffer \<Rightarrow> (int, stream_buffer) outcome" where
  "sb_readable_str delim b =
     (if sb_readable b < length delim then Ret (- 1) b
      else sb_scan (\<lambda>c. c \<in> set delim) b)"

definition sb_skip :: "nat \<Rightarrow> stream_buffer \<Rightarrow> nat option \<times> stream_buffer" where
  "sb_skip n b =
     (if wpos b < sz_add (rpos b) n then (None, b)
      else (Some (rpos b), b\<lparr>rpos := sz_add (rpos b) n\<rparr>))"

text \<open>
  \<open>Read(void* p, size_t n, size_t* offset)\<close>: on success the bytes copied to \<open>p\<close> and the
  offset. When it returns false the caller's memory is not used by any caller here.
\<close>

definition sb_read ::
  "nat \<Rightarrow> stream_buffer \<Rightarrow> ((char list \<times> nat) option, stream_buffer) outcome" where
  "sb_read n b =
     (if sb_readable b < n then Ret None b
      else if length (bytes b) < rpos b + n then Fault OutOfBounds
      else case sb_skip n b of
             (None, b1) \<Rightarrow> Ret None b1
           | (Some off, b1) \<Rightarrow> Ret (Some (slice (rpos b) n (bytes b), off)) b1)"

subsection \<open>Random access\<close>

text \<open>\<open>return false\<close> in a function of type \<open>ssize_t\<close> is the value 0.\<close>

definition sb_peekable :: "nat \<Rightarrow> stream_buffer \<Rightarrow> int" where
  "sb_peekable off b =
     (if sz_sub (wpos b) (opos b) < off then 0
      else to_ssize (sz_sub (sz_sub (wpos b) (opos b)) off))"

text \<open>
  \<open>Peekable(offset, delim)\<close> scans from the address \<open>(const char* )Peekable(offset)\<close>: a
  length used as a pointer.
\<close>

definition sb_peekable_char :: "nat \<Rightarrow> char \<Rightarrow> stream_buffer \<Rightarrow> (int, stream_buffer) outcome" where
  "sb_peekable_char off delim b =
     (if of_ssize (sb_peekable off b) < 1 then Ret (- 1) b else Fault WildPointer)"

definition sb_peekable_str ::
  "nat \<Rightarrow> char list \<Rightarrow> stream_buffer \<Rightarrow> (int, stream_buffer) outcome" where
  "sb_peekable_str off delim b =
     (if of_ssize (sb_peekable off b) < length delim then Ret (- 1) b else Fault WildPointer)"

text \<open>
  \<open>Peek(offset)\<close>, the pointer: \<open>None\<close> is the null pointer, \<open>Some i\<close> points at index
  \<open>i\<close> of the vector.
\<close>

definition sb_peek_ptr :: "nat \<Rightarrow> stream_buffer \<Rightarrow> nat option" where
  "sb_peek_ptr off b =
     (if sz_sub (wpos b) (opos b) < off then None else Some (opos b + off))"

text \<open>A \<open>memcpy\<close> of zero bytes from or to the null pointer copies nothing.\<close>

definition sb_peek :: "nat \<Rightarrow> nat \<Rightarrow> stream_buffer \<Rightarrow> (char list option, stream_buffer) outcome" where
  "sb_peek off n b =
     (if of_ssize (sb_peekable off b) < n then Ret None b
      else case sb_peek_ptr off b of
             None \<Rightarrow> if n = 0 then Ret (Some []) b else Fault NullPointer
           | Some i \<Rightarrow> if length (bytes b) < i + n then Fault OutOfBounds
                      else Ret (Some (slice i n (bytes b))) b)"

definition sb_update :: "nat \<Rightarrow> char list \<Rightarrow> stream_buffer \<Rightarrow> (bool, stream_buffer) outcome" where
  "sb_update off p b =
     (if of_ssize (sb_peekable off b) < length p then Ret False b
      else case sb_peek_ptr off b of
             None \<Rightarrow> if p = [] then Ret True b else Fault NullPointer
           | Some i \<Rightarrow> if length (bytes b) < i + length p then Fault OutOfBounds
                      else Ret True (b\<lparr>bytes := patch i p (bytes b)\<rparr>))"

subsection \<open>Well-formed buffers and their contents\<close>

text \<open>
  The picture in the class comment: \<open>opos \<le> rpos \<le> wpos \<le> size\<close>. \<open>sb_data\<close> is the
  accessible data, \<open>sb_unread\<close> the part from the reading position. \<open>sb_cap\<close> is the position
  up to which a write needs no reclaiming of flushed space.
\<close>

definition sb_wf :: "stream_buffer \<Rightarrow> bool" where
  "sb_wf b \<longleftrightarrow> opos b \<le> rpos b \<and> rpos b \<le> wpos b \<and> wpos b \<le> length (bytes b)
             \<and> length (bytes b) \<le> vec_max \<and> limit b < 2 ^ 64"

definition sb_data :: "stream_buffer \<Rightarrow> char list" where
  "sb_data b = slice (opos b) (wpos b - opos b) (bytes b)"

definition sb_unread :: "stream_buffer \<Rightarrow> char list" where
  "sb_unread b = slice (rpos b) (wpos b - rpos b) (bytes b)"

definition sb_seen :: "stream_buffer \<Rightarrow> char list" where
  "sb_seen b = slice (opos b) (rpos b - opos b) (bytes b)"

definition sb_cap :: "stream_buffer \<Rightarrow> nat" where
  "sb_cap b = max (length (bytes b)) (if limit b = 0 then vec_max else min (limit b) vec_max)"

definition sb_room :: "nat \<Rightarrow> stream_buffer \<Rightarrow> bool" where
  "sb_room n b \<longleftrightarrow> wpos b + n \<le> sb_cap b"

lemma sb_wfD:
  assumes "sb_wf b"
  shows "opos b \<le> rpos b" "rpos b \<le> wpos b" "opos b \<le> wpos b" "wpos b \<le> length (bytes b)"
    "length (bytes b) < 2 ^ 63" "wpos b < 2 ^ 63" "rpos b < 2 ^ 63" "opos b < 2 ^ 63"
    "limit b < 2 ^ 64"
  using assms by (auto simp: sb_wf_def vec_max_def)

lemma sz_sub_wf:
  assumes "sb_wf b"
  shows "sz_sub (wpos b) (opos b) = wpos b - opos b"
    and "sz_sub (wpos b) (rpos b) = wpos b - rpos b"
    and "sz_sub (rpos b) (opos b) = rpos b - opos b"
    and "sz_sub (length (bytes b)) (wpos b) = length (bytes b) - wpos b"
    and "sz_sub (length (bytes b)) (opos b) = length (bytes b) - opos b"
  using sb_wfD [OF assms] by (simp_all add: sz_sub_exact)

lemmas sb_sizes = sb_size_def sb_writable_def sb_readable_def

lemma sb_size_wf: "sb_wf b \<Longrightarrow> sb_size b = length (bytes b) - opos b"
  and sb_writable_wf: "sb_wf b \<Longrightarrow> sb_writable b = length (bytes b) - wpos b"
  and sb_readable_wf: "sb_wf b \<Longrightarrow> sb_readable b = wpos b - rpos b"
  by (simp_all add: sb_sizes sz_sub_wf)

lemma length_sb_data: "sb_wf b \<Longrightarrow> length (sb_data b) = wpos b - opos b"
  and length_sb_unread: "sb_wf b \<Longrightarrow> length (sb_unread b) = wpos b - rpos b"
  and length_sb_seen: "sb_wf b \<Longrightarrow> length (sb_seen b) = rpos b - opos b"
  by (auto simp: sb_wf_def sb_data_def sb_unread_def sb_seen_def)

lemma sb_data_whole: "opos b = 0 \<Longrightarrow> wpos b = length (bytes b) \<Longrightarrow> sb_data b = bytes b"
  by (simp add: sb_data_def slice_def)

lemma sb_readable_unread: "sb_wf b \<Longrightarrow> sb_readable b = length (sb_unread b)"
  by (simp add: sb_readable_wf length_sb_unread)

lemma sb_data_split: "sb_wf b \<Longrightarrow> sb_data b = sb_seen b @ sb_unread b"
proof -
  assume "sb_wf b"
  then have "wpos b - opos b = (rpos b - opos b) + (wpos b - rpos b)"
    and "opos b + (rpos b - opos b) = rpos b"
    by (auto simp: sb_wf_def)
  then show ?thesis
    using slice_append [of "opos b" "rpos b - opos b" "wpos b - rpos b" "bytes b"]
    by (simp only: sb_data_def sb_seen_def sb_unread_def)
qed

subsection \<open>Writing within the capacity\<close>

text \<open>
  \<open>sb_extends p b c\<close>: \<open>c\<close> is \<open>b\<close> with the bytes \<open>p\<close> appended at the writing position
  and nothing else changed that a reader can see.
\<close>

definition sb_extends :: "char list \<Rightarrow> stream_buffer \<Rightarrow> stream_buffer \<Rightarrow> bool" where
  "sb_extends p b c \<longleftrightarrow> sb_wf c \<and> opos c = opos b \<and> rpos c = rpos b \<and> limit c = limit b
     \<and> wpos c = wpos b + length p \<and> sb_cap c = sb_cap b
     \<and> take (wpos c) (bytes c) = take (wpos b) (bytes b) @ p"

lemma sb_extendsD:
  assumes "sb_extends p b c"
  shows "sb_wf c" "opos c = opos b" "rpos c = rpos b" "limit c = limit b"
    "wpos c = wpos b + length p" "sb_cap c = sb_cap b"
    "take (wpos c) (bytes c) = take (wpos b) (bytes b) @ p"
  using assms unfolding sb_extends_def by blast+

lemma slice_of_take: "k \<le> m \<Longrightarrow> slice k (m - k) xs = drop k (take m xs)"
  by (simp add: slice_def take_drop)

lemma sb_extends_refl: "sb_wf b \<Longrightarrow> sb_extends [] b b"
  by (simp add: sb_extends_def)

lemma sb_extends_trans:
  "sb_extends p b c \<Longrightarrow> sb_extends q c d \<Longrightarrow> sb_extends (p @ q) b d"
  by (auto simp: sb_extends_def)

lemma sb_extends_unread: "sb_wf b \<Longrightarrow> sb_extends p b c \<Longrightarrow> sb_unread c = sb_unread b @ p"
  by (auto simp: sb_unread_def sb_wf_def sb_extends_def slice_of_take)

lemma sb_extends_seen: "sb_wf b \<Longrightarrow> sb_extends p b c \<Longrightarrow> sb_seen c = sb_seen b"
proof -
  assume wf: "sb_wf b" and ext: "sb_extends p b c"
  have "slice (opos b) (rpos b - opos b) (take (wpos c) (bytes c))
      = slice (opos b) (rpos b - opos b) (take (wpos b) (bytes b) @ p)"
    by (simp only: sb_extendsD(7) [OF ext])
  then show ?thesis
    using sb_wfD [OF wf] sb_extendsD [OF ext]
    by (simp add: sb_seen_def slice_take slice_append_left)
qed

lemma sb_extends_data: "sb_wf b \<Longrightarrow> sb_extends p b c \<Longrightarrow> sb_data c = sb_data b @ p"
  using sb_extends_seen sb_extends_unread sb_data_split sb_extendsD(1) by fastforce

lemma sb_room_mono: "sb_room n b \<Longrightarrow> m \<le> n \<Longrightarrow> sb_room m b"
  by (simp add: sb_room_def)

lemma sb_room_extends: "sb_room (length p + n) b \<Longrightarrow> sb_extends p b c \<Longrightarrow> sb_room n c"
  by (auto simp: sb_room_def sb_extends_def)

lemma sb_cap_less: "sb_wf b \<Longrightarrow> sb_cap b \<le> vec_max"
  by (auto simp: sb_cap_def sb_wf_def)

lemma sb_reserve_room:
  assumes wf: "sb_wf b" and room: "sb_room n b"
  shows "\<exists>c. sb_reserve n b = Ret True c \<and> sb_extends [] b c \<and> wpos c + n \<le> length (bytes c)"
proof (cases "n = 0 \<or> n \<le> sb_writable b")
  case True
  then show ?thesis
    using wf sb_wfD [OF wf]
    by (auto simp: sb_reserve_def sb_writable_wf sb_extends_refl)
next
  case False
  then have big: "length (bytes b) < wpos b + n"
    using wf sb_wfD(4) [OF wf] by (auto simp: sb_writable_wf)
  have le: "wpos b + n \<le> vec_max" and lim: "limit b = 0 \<or> wpos b + n \<le> limit b"
    using room big sb_cap_less [OF wf] by (auto simp: sb_room_def sb_cap_def split: if_splits)
  have small: "wpos b + n < 2 ^ 64" using le by (simp add: vec_max_def)
  let ?c = "b\<lparr>bytes := resized (wpos b + n) (CHR 0x00) (bytes b)\<rparr>"
  have "sb_reserve n b = Ret True ?c"
    using False big le lim small sb_wfD [OF wf]
    by (auto simp: sb_reserve_def sz_sub_wf [OF wf] sz_add_exact vec_resize_def
        sb_writable_def sz_sub_exact vec_max_def)
  moreover have "sb_extends [] b ?c"
    using wf le lim big by (auto simp: sb_extends_def sb_wf_def sb_cap_def take_resized)
  ultimately show ?thesis by simp
qed

lemma sb_fill_advance:
  assumes wf: "sb_wf c" and fits: "wpos c + length p \<le> length (bytes c)"
  shows "fill_writable p c = Ret () (c\<lparr>bytes := patch (wpos c) p (bytes c)\<rparr>)"
    and "sb_advance (length p) (c\<lparr>bytes := patch (wpos c) p (bytes c)\<rparr>)
      = (Some (wpos c), c\<lparr>bytes := patch (wpos c) p (bytes c), wpos := wpos c + length p\<rparr>)"
    and "sb_extends p c (c\<lparr>bytes := patch (wpos c) p (bytes c), wpos := wpos c + length p\<rparr>)"
proof -
  have small: "wpos c + length p < 2 ^ 64" using fits sb_wfD [OF wf] by simp
  show "fill_writable p c = Ret () (c\<lparr>bytes := patch (wpos c) p (bytes c)\<rparr>)"
    using fits by (simp add: fill_writable_def)
  show "sb_advance (length p) (c\<lparr>bytes := patch (wpos c) p (bytes c)\<rparr>)
      = (Some (wpos c), c\<lparr>bytes := patch (wpos c) p (bytes c), wpos := wpos c + length p\<rparr>)"
    using fits small by (simp add: sb_advance_def sz_add_exact)
  show "sb_extends p c (c\<lparr>bytes := patch (wpos c) p (bytes c), wpos := wpos c + length p\<rparr>)"
    using wf fits by (auto simp: sb_extends_def sb_wf_def sb_cap_def patch_def)
qed

theorem sb_write_room:
  assumes wf: "sb_wf b" and room: "sb_room (length p) b"
  shows "\<exists>c. sb_write p b = Ret (Some (wpos b)) c \<and> sb_extends p b c"
proof -
  obtain c where c: "sb_reserve (length p) b = Ret True c" "sb_extends [] b c"
    "wpos c + length p \<le> length (bytes c)"
    using sb_reserve_room [OF wf room] by blast
  note d = sb_extendsD [OF c(2)] and f = sb_fill_advance [OF sb_extendsD(1) [OF c(2)] c(3)]
  have "sb_write p b = Ret (Some (wpos b)) (c\<lparr>bytes := patch (wpos c) p (bytes c), wpos := wpos c + length p\<rparr>)"
    using c(1) f(1,2) d(5) by (simp add: sb_write_def)
  then show ?thesis
    using sb_extends_trans [OF c(2) f(3)] by auto
qed

subsection \<open>Reading\<close>

lemma sb_skip_wf:
  assumes wf: "sb_wf b" and n: "n < 2 ^ 63"
  shows "sb_skip n b =
    (if n \<le> length (sb_unread b) then (Some (rpos b), b\<lparr>rpos := rpos b + n\<rparr>) else (None, b))"
  using sb_wfD [OF wf] n
  by (auto simp: sb_skip_def sz_add_exact length_sb_unread [OF wf])

definition sb_consumes :: "nat \<Rightarrow> stream_buffer \<Rightarrow> stream_buffer \<Rightarrow> bool" where
  "sb_consumes n b c \<longleftrightarrow> n \<le> length (sb_unread b) \<and> c = b\<lparr>rpos := rpos b + n\<rparr>"

lemma sb_consumes_refl [simp]: "sb_consumes 0 b b"
  by (simp add: sb_consumes_def)

lemma sb_consumes_wf: "sb_wf b \<Longrightarrow> sb_consumes n b c \<Longrightarrow> sb_wf c"
  by (auto simp: sb_consumes_def length_sb_unread sb_wf_def)

lemma sb_consumes_unread: "sb_wf b \<Longrightarrow> sb_consumes n b c \<Longrightarrow> sb_unread c = drop n (sb_unread b)"
  by (auto simp: sb_consumes_def sb_unread_def drop_slice)

lemma sb_consumes_data: "sb_consumes n b c \<Longrightarrow> sb_data c = sb_data b"
  by (auto simp: sb_consumes_def sb_data_def)

lemma sb_consumes_trans:
  "sb_wf b \<Longrightarrow> sb_consumes m b c \<Longrightarrow> sb_consumes n c d \<Longrightarrow> sb_consumes (m + n) b d"
  using sb_consumes_unread [of b m c] by (auto simp: sb_consumes_def add.assoc)

theorem sb_read_wf:
  assumes wf: "sb_wf b"
  shows "sb_read n b =
    (if n \<le> length (sb_unread b)
     then Ret (Some (take n (sb_unread b), rpos b)) (b\<lparr>rpos := rpos b + n\<rparr>)
     else Ret None b)"
proof (cases "n \<le> length (sb_unread b)")
  case True
  then have n: "n \<le> wpos b - rpos b" using wf by (simp add: length_sb_unread)
  then have "n < 2 ^ 63" "rpos b + n \<le> length (bytes b)" using sb_wfD [OF wf] by auto
  then show ?thesis
    using True n wf
    by (simp add: sb_read_def sb_readable_wf sb_skip_wf) (simp add: sb_unread_def take_slice)
next
  case False
  then show ?thesis using wf by (simp add: sb_read_def sb_readable_unread)
qed

lemma sb_scan_wf:
  "sb_wf b \<Longrightarrow> sb_scan t b =
     Ret (case find_byte t (sb_unread b) of None \<Rightarrow> - 1 | Some i \<Rightarrow> int i) b"
  by (auto simp: sb_scan_def sb_wf_def sb_unread_def split: option.splits)

lemma find_byte_None: "find_byte t cs = None \<longleftrightarrow> (\<forall>c \<in> set cs. \<not> t c)"
  by (induction cs) auto

lemma find_byte_Some:
  "find_byte t cs = Some i \<longleftrightarrow> i < length cs \<and> t (cs ! i) \<and> (\<forall>c \<in> set (take i cs). \<not> t c)"
proof (induction cs arbitrary: i)
  case Nil
  then show ?case by simp
next
  case (Cons c cs)
  then show ?case by (cases i) auto
qed

lemma find_byte_append:
  "\<forall>c \<in> set xs. \<not> t c \<Longrightarrow> t d \<Longrightarrow> find_byte t (xs @ d # ys) = Some (length xs)"
  by (induction xs) auto

subsection \<open>Flushing, peeking and updating\<close>

lemma sb_clear_wf: "sb_wf b \<Longrightarrow> sb_wf (sb_clear b)"
  by (simp add: sb_clear_def sb_wf_def)

lemma sb_flush_wf: "sb_wf b \<Longrightarrow> sb_wf (snd (sb_flush b))"
  by (simp add: sb_flush_def sb_clear_def sb_wf_def Let_def)

lemma sb_flush_contents:
  "sb_wf b \<Longrightarrow> sb_unread (snd (sb_flush b)) = sb_unread b \<and> sb_seen (snd (sb_flush b)) = []
     \<and> fst (sb_flush b) = int (length (sb_unread b))"
  using sb_wfD [of b]
  by (auto simp: sb_flush_def sb_clear_def sb_unread_def sb_seen_def Let_def sz_sub_exact
      to_ssize_exact)

text \<open>
  \<open>Flush(n)\<close> moves the origin only: past the reading position it leaves \<open>rpos < opos\<close>.
\<close>

lemma sb_flush_n_wf:
  assumes wf: "sb_wf b"
  shows "sb_wf (snd (sb_flush_n n b)) \<longleftrightarrow>
    n \<le> length (sb_seen b) \<or> length (sb_data b) \<le> n"
  using sb_wfD [OF wf] wf
  by (auto simp: sb_flush_n_def sb_clear_def sb_wf_def Let_def sz_sub_exact sz_add_exact
      length_sb_seen [OF wf] length_sb_data [OF wf])

lemma sb_flush_n_data:
  assumes wf: "sb_wf b" and n: "n \<le> length (sb_data b)"
  shows "sb_data (snd (sb_flush_n n b)) = drop n (sb_data b)
     \<and> fst (sb_flush_n n b) = int (length (sb_data b) - n)"
  using sb_wfD [OF wf] n
  by (auto simp: sb_flush_n_def sb_clear_def Let_def sz_sub_exact sz_add_exact to_ssize_exact
      length_sb_data [OF wf]) (auto simp: sb_data_def drop_slice)

lemma sb_peekable_wf:
  "sb_wf b \<Longrightarrow> sb_peekable off b = int (length (sb_data b) - off)"
  using sb_wfD [of b]
  by (auto simp: sb_peekable_def sz_sub_exact to_ssize_exact length_sb_data)

lemma of_ssize_peekable: "sb_wf b \<Longrightarrow> of_ssize (sb_peekable off b) = length (sb_data b) - off"
  using sb_wfD [of b] by (simp add: sb_peekable_wf of_ssize_exact length_sb_data)

theorem sb_peek_wf:
  assumes wf: "sb_wf b"
  shows "sb_peek off n b =
    (if n \<le> length (sb_data b) - off then Ret (Some (slice off n (sb_data b))) b
     else Ret None b)"
proof (cases "n \<le> length (sb_data b) - off")
  case True
  then have le: "off \<le> wpos b - opos b \<Longrightarrow> off + n \<le> wpos b - opos b"
    using wf by (simp add: length_sb_data)
  have "slice off n (sb_data b) = slice (opos b + off) n (bytes b)"
    if "off \<le> wpos b - opos b"
    using le [OF that] by (simp add: sb_data_def slice_def drop_take min_def add.commute)
  then show ?thesis
    using True le sb_wfD [OF wf] wf
    by (auto simp: sb_peek_def of_ssize_peekable sb_peek_ptr_def sz_sub_wf length_sb_data)
next
  case False
  then show ?thesis using wf by (simp add: sb_peek_def of_ssize_peekable)
qed

theorem sb_update_wf:
  assumes wf: "sb_wf b"
  shows "sb_update off p b =
    (if p = [] then Ret True b
     else if off + length p \<le> length (sb_data b)
     then Ret True (b\<lparr>bytes := patch (opos b + off) p (bytes b)\<rparr>)
     else Ret False b)"
  using sb_wfD [OF wf] wf
  by (auto simp: sb_update_def of_ssize_peekable sb_peek_ptr_def sz_sub_wf length_sb_data)

lemma sb_update_data:
  assumes wf: "sb_wf b" and fits: "off + length p \<le> length (sb_data b)"
  shows "sb_data (b\<lparr>bytes := patch (opos b + off) p (bytes b)\<rparr>) = patch off p (sb_data b)"
    and "sb_wf (b\<lparr>bytes := patch (opos b + off) p (bytes b)\<rparr>)"
proof -
  have f: "opos b + off + length p \<le> wpos b" using fits sb_wfD [OF wf] wf
    by (simp add: length_sb_data)
  then show "sb_wf (b\<lparr>bytes := patch (opos b + off) p (bytes b)\<rparr>)"
    using wf by (simp add: sb_wf_def)
  show "sb_data (b\<lparr>bytes := patch (opos b + off) p (bytes b)\<rparr>) = patch off p (sb_data b)"
    using f sb_wfD [OF wf] unfolding sb_data_def
    by (simp add: slice_patch_inside)
qed

subsection \<open>Writing in general: the limit, reclaiming, preservation\<close>

lemma sb_reclaim_cases:
  assumes wf: "sb_wf b"
  shows "sb_reclaim b =
    (if length (sb_data b) < opos b then Fault OutOfBounds
     else Ret () (b\<lparr>bytes := take (length (sb_data b) - opos b) (sb_data b) @ take (opos b) (bytes b)
                              @ drop (length (sb_data b)) (bytes b),
                    wpos := length (sb_data b), rpos := length (sb_seen b), opos := 0\<rparr>))"
  using sb_wfD [OF wf]
  by (auto simp: sb_reclaim_def length_sb_data [OF wf] length_sb_seen [OF wf] sz_sub_exact Let_def)
    (auto simp: sb_data_def take_slice)

lemma sb_reclaim_wf: "sb_wf b \<Longrightarrow> keeps (\<lambda>c. sb_wf c \<and> limit c = limit b \<and>
    length (bytes c) = length (bytes b) \<and> wpos c = wpos b - opos b) (sb_reclaim b)"
  by (auto simp: sb_reclaim_cases length_sb_data length_sb_seen sb_wf_def)

lemma vec_resize_wf:
  "sb_wf b \<Longrightarrow> wpos b \<le> n \<Longrightarrow>
    keeps (\<lambda>c. sb_wf c \<and> limit c = limit b \<and> length (bytes c) = n \<and> wpos c = wpos b) (vec_resize n b)"
  by (auto simp: vec_resize_def sb_wf_def)

lemma sb_reserve_bound:
  assumes wf: "sb_wf b" and n: "n \<le> vec_max"
  shows "keeps (\<lambda>c. sb_wf c \<and> limit c = limit b \<and>
    (0 < limit b \<longrightarrow> length (bytes c) \<le> max (length (bytes b)) (limit b))) (sb_reserve n b)"
proof -
  have wrap: "sz_add k n = k + n" if "k < 2 ^ 63" for k
    using that n by (simp add: sz_add_exact vec_max_def)
  let ?P = "\<lambda>c. sb_wf c \<and> limit c = limit b \<and> length (bytes c) = length (bytes b)
    \<and> (0 < limit b \<longrightarrow> wpos c + n \<le> limit b)"
  have *: "keeps ?P (if 0 < limit b \<and> limit b < sz_add (wpos b) n then sb_reclaim b else Ret () b)"
    if "\<not> (0 < limit b \<and> limit b < sz_add (sz_sub (wpos b) (opos b)) n)"
    using that wf sb_reclaim_wf [OF wf] sb_wfD [OF wf]
    by (cases "sb_reclaim b") (auto simp: wrap sz_sub_exact)
  have step: "keeps (\<lambda>c. sb_wf c \<and> limit c = limit b \<and>
      (0 < limit b \<longrightarrow> length (bytes c) \<le> max (length (bytes b)) (limit b)))
    (bind_out (vec_resize (sz_add (wpos c) n) c) (\<lambda>_ d. Ret (n \<le> sb_writable d) d))"
    if c: "?P c" for c
    using vec_resize_wf [of c "wpos c + n"] c wrap [OF sb_wfD(6)]
    by (cases "vec_resize (sz_add (wpos c) n) c") auto
  show ?thesis
  proof (cases "n = 0 \<or> n \<le> sb_writable b \<or>
      (0 < limit b \<and> limit b < sz_add (sz_sub (wpos b) (opos b)) n)")
    case True
    then show ?thesis using wf by (auto simp: sb_reserve_def)
  next
    case False
    then have n1: "\<not> (n = 0 \<or> n \<le> sb_writable b)"
      and n2: "\<not> (0 < limit b \<and> limit b < sz_add (sz_sub (wpos b) (opos b)) n)"
      by blast+
    have eq: "sb_reserve n b = bind_out
        (if 0 < limit b \<and> limit b < sz_add (wpos b) n then sb_reclaim b else Ret () b)
        (\<lambda>_ c. bind_out (vec_resize (sz_add (wpos c) n) c) (\<lambda>_ d. Ret (n \<le> sb_writable d) d))"
      by (simp only: sb_reserve_def if_not_P [OF n1] if_not_P [OF n2])
    from * [OF n2] show ?thesis
      unfolding eq by (rule keeps_bind) (rule step)
  qed
qed

text \<open>Every write keeps the buffer well-formed and its memory within the limit.\<close>

lemma sb_write_keeps:
  assumes wf: "sb_wf b" and n: "length p \<le> vec_max"
  shows "keeps (\<lambda>c. sb_wf c \<and> limit c = limit b \<and>
    (0 < limit b \<longrightarrow> length (bytes c) \<le> max (length (bytes b)) (limit b))) (sb_write p b)"
proof -
  have fill: "keeps (\<lambda>c. sb_wf c \<and> limit c = limit b \<and>
      (0 < limit b \<longrightarrow> length (bytes c) \<le> max (length (bytes b)) (limit b)))
    (bind_out (fill_writable p c) (\<lambda>_ d. case sb_advance (length p) d of (off, e) \<Rightarrow> Ret off e))"
    if c: "sb_wf c" "limit c = limit b"
      "0 < limit b \<longrightarrow> length (bytes c) \<le> max (length (bytes b)) (limit b)" for c
    using c sb_wfD [OF c(1)] n
    by (auto simp: fill_writable_def sb_advance_def sz_add_exact sb_wf_def vec_max_def)
  show ?thesis
    unfolding sb_write_def
    by (rule keeps_bind [OF sb_reserve_bound [OF wf n]]) (auto intro: fill)
qed

text \<open>
  What a write does when it must reclaim flushed space: the last \<open>opos\<close> accessible bytes
  are replaced by the bytes flushed before them (and where the accessible data is shorter
  than the flushed prefix the rotated range is invalid).
\<close>

lemma sb_write_reclaim:
  assumes wf: "sb_wf b" and p: "p \<noteq> []"
    and full: "length (bytes b) < wpos b + length p"
    and lim: "0 < limit b" "limit b < wpos b + length p"
    and fits: "length (sb_data b) + length p \<le> limit b" "limit b \<le> vec_max"
  shows "if length (sb_data b) < opos b then sb_write p b = Fault OutOfBounds
    else \<exists>c. sb_write p b = Ret (Some (length (sb_data b))) c \<and> opos c = 0 \<and>
      sb_data c = take (length (sb_data b) - opos b) (sb_data b) @ take (opos b) (bytes b) @ p"
proof -
  note d = sb_wfD [OF wf]
  have len: "length (sb_data b) = wpos b - opos b" by (rule length_sb_data [OF wf])
  have small: "length p < 2 ^ 63" using fits by (simp add: vec_max_def)
  have res: "sb_reserve (length p) b = bind_out (sb_reclaim b)
      (\<lambda>_ b1. bind_out (vec_resize (sz_add (wpos b1) (length p)) b1)
        (\<lambda>_ b2. Ret (length p \<le> sb_writable b2) b2))"
    using p full lim fits d small
    by (auto simp: sb_reserve_def sb_writable_wf [OF wf] sz_sub_exact sz_add_exact len)
  show ?thesis
  proof (cases "length (sb_data b) < opos b")
    case True
    then show ?thesis by (simp add: sb_write_def res sb_reclaim_cases [OF wf])
  next
    case False
    let ?l = "length (sb_data b)"
    let ?t = "take (?l - opos b) (sb_data b) @ take (opos b) (bytes b) @ drop ?l (bytes b)"
    let ?xs = "resized (?l + length p) (CHR 0x00) ?t"
    have lt: "length ?t = length (bytes b)" using False d len by auto
    have lx: "length ?xs = ?l + length p" by simp
    have wrap: "sz_add ?l (length p) = ?l + length p" "sz_sub (?l + length p) ?l = length p"
      using small d len by (auto simp: sz_add_exact sz_sub_exact)
    let ?c = "b\<lparr>bytes := patch ?l p ?xs, wpos := ?l + length p, rpos := length (sb_seen b), opos := 0\<rparr>"
    have eq: "sb_write p b = Ret (Some ?l) ?c"
      using False fits wrap
      by (simp add: sb_write_def res sb_reclaim_cases [OF wf] vec_resize_def sb_writable_def
          fill_writable_def sb_advance_def)
    have "take ?l ?xs = take ?l ?t"
      by (rule take_resized) (use False d len in auto)
    also have "\<dots> = take (?l - opos b) (sb_data b) @ take (opos b) (bytes b)"
      using False d len by (auto simp: min_def)
    finally have "take ?l ?xs = take (?l - opos b) (sb_data b) @ take (opos b) (bytes b)" .
    then have "patch ?l p ?xs = (take (?l - opos b) (sb_data b) @ take (opos b) (bytes b)) @ p"
      by (simp only: patch_end [OF lx])
    moreover have "sb_data ?c = bytes ?c"
      by (rule sb_data_whole) (use False d len in simp_all)
    ultimately show ?thesis using eq False by simp
  qed
qed

subsection \<open>Copies\<close>

lemma sb_copy_wf:
  assumes wf: "sb_wf b"
  shows "\<exists>c. sb_copy b = Ret () c \<and> sb_wf c \<and> sb_data c = sb_data b \<and> sb_unread c = sb_data b
    \<and> limit c = limit b \<and> length (bytes c) = sb_size b"
proof -
  note d = sb_wfD [OF wf]
  let ?xs = "patch 0 (sb_data b) (replicate (sb_size b) (CHR 0x00))"
  have lx: "length ?xs = sb_size b" "length (sb_data b) \<le> sb_size b"
    using d wf by (simp_all add: sb_size_wf length_sb_data)
  have "sb_copy b = Ret () \<lparr>bytes = ?xs, limit = limit b, opos = 0, rpos = 0, wpos = wpos b - opos b\<rparr>"
    using d wf by (auto simp: sb_copy_def sz_sub_exact sb_size_wf vec_max_def Let_def sb_data_def)
  moreover have "take (wpos b - opos b) ?xs = sb_data b"
    by (simp add: patch_def length_sb_data [OF wf])
  ultimately show ?thesis
    using lx d by (auto simp: sb_data_def [of "stream_buffer.make _ _ _ _ _"] sb_wf_def vec_max_def
        length_sb_data [OF wf] sb_size_wf [OF wf]) (auto simp: sb_data_def sb_unread_def slice_def)
qed

lemma sb_assign_wf:
  assumes a: "sb_wf a" and wf: "sb_wf b"
  shows "sb_assign a b =
    (if length (bytes b) < opos a + length (sb_data b) then Fault OutOfBounds
     else Ret () (a\<lparr>bytes := patch 0 (slice (opos a) (length (sb_data b)) (bytes b))
                               (resized (length (bytes b) - opos b) (CHR 0x00) (bytes a)),
                      limit := limit b, opos := 0, rpos := length (sb_seen b),
                      wpos := length (sb_data b)\<rparr>))"
  using sb_wfD [OF a] sb_wfD [OF wf]
  by (auto simp: sb_assign_def vec_resize_def sb_size_wf [OF wf] vec_max_def sz_sub_exact
      length_sb_data [OF wf] length_sb_seen [OF wf] Let_def)

subsection \<open>Properties\<close>

text \<open>
  Reclaiming: when a write must reclaim flushed space, \<open>Reclaim\<close> rotates the wrong range:
  the last \<open>opos\<close> bytes of the accessible data are replaced by the bytes flushed before them
  (undefined behaviour where the accessible data is shorter than the flushed prefix), although
  \<open>Write\<close> reports success.
\<close>

theorem write_reclaim_replaces_tail:
  assumes "sb_wf b" and "p \<noteq> []"
    and "length (bytes b) < wpos b + length p"
    and "0 < limit b" and "limit b < wpos b + length p"
    and "length (sb_data b) + length p \<le> limit b" and "limit b \<le> vec_max"
  shows "if length (sb_data b) < opos b then sb_write p b = Fault OutOfBounds
    else \<exists>c. sb_write p b = Ret (Some (length (sb_data b))) c \<and> opos c = 0 \<and>
      sb_data c = take (length (sb_data b) - opos b) (sb_data b) @ take (opos b) (bytes b) @ p"
  using assms by (rule sb_write_reclaim)

theorem write_reclaim_replaces_tail_witness:
  "\<exists>c. sb_write ''X'' \<lparr>bytes = ''abcdefgh'', limit = 8, opos = 2, rpos = 2, wpos = 8\<rparr> = Ret (Some 6) c
    \<and> opos c = 0 \<and> sb_data c = ''cdefabX''"
proof -
  let ?b = "\<lparr>bytes = ''abcdefgh'', limit = 8, opos = 2, rpos = 2, wpos = 8\<rparr>"
  have d: "sb_data ?b = ''cdefgh''" by (simp add: sb_data_def slice_def)
  have l: "length (sb_data ?b) = 6" by (simp add: d)
  have "sb_wf ?b" by (simp add: sb_wf_def vec_max_def)
  then show ?thesis
    using write_reclaim_replaces_tail [of ?b "''X''", unfolded l] by (simp add: d vec_max_def)
qed

text \<open>
  \<open>Flush(n)\<close>: on a well-formed buffer it keeps the invariant exactly when it discards no
  unread byte or everything; otherwise the reading position is left behind the origin.
\<close>

theorem flush_n_keeps_order_iff:
  assumes "sb_wf b"
  shows "sb_wf (snd (sb_flush_n n b)) \<longleftrightarrow> n \<le> length (sb_seen b) \<or> length (sb_data b) \<le> n"
  using assms by (rule sb_flush_n_wf)

theorem flush_n_keeps_order_iff_witness:
  "\<not> sb_wf (snd (sb_flush_n 3 \<lparr>bytes = ''abcdefgh'', limit = 8, opos = 0, rpos = 1, wpos = 8\<rparr>))"
  by (subst flush_n_keeps_order_iff) (simp_all add: sb_wf_def sb_seen_def sb_data_def vec_max_def)

text \<open>
  Copying: the copy constructor yields a well-formed buffer of the accessible data, with
  everything unread again and the limit kept. Assignment reads the source from the origin of
  the buffer assigned \<^emph>\<open>to\<close>: its result holds the source's data when the two origins agree,
  and it reads outside the source where the target's origin is too far.
\<close>

theorem copy_and_assign_contents:
  assumes "sb_wf b" and "sb_wf a"
  shows "(\<exists>c. sb_copy b = Ret () c \<and> sb_wf c \<and> sb_data c = sb_data b \<and> sb_unread c = sb_data b
      \<and> limit c = limit b)
    \<and> (if length (bytes b) < opos a + length (sb_data b) then sb_assign a b = Fault OutOfBounds
       else \<exists>c. sb_assign a b = Ret () c \<and> limit c = limit b
         \<and> sb_data c = slice (opos a) (length (sb_data b)) (bytes b))"
proof -
  have res: "sb_data (a\<lparr>bytes := patch 0 p xs, limit := l, opos := 0, rpos := r, wpos := n\<rparr>) = p"
    if "length p = n" for p xs l r n
    using that by (simp add: sb_data_def slice_def patch_def)
  have copy: "\<exists>c. sb_copy b = Ret () c \<and> sb_wf c \<and> sb_data c = sb_data b \<and> sb_unread c = sb_data b
      \<and> limit c = limit b"
    using sb_copy_wf [OF assms(1)] by blast
  show ?thesis
  proof (cases "length (bytes b) < opos a + length (sb_data b)")
    case True
    then show ?thesis using copy by (simp add: sb_assign_wf [OF assms(2,1)])
  next
    case False
    then have "length (slice (opos a) (length (sb_data b)) (bytes b)) = length (sb_data b)" by simp
    from res [OF this] False copy show ?thesis by (simp add: sb_assign_wf [OF assms(2,1)])
  qed
qed

theorem copy_and_assign_contents_witness:
  "\<exists>c. sb_assign \<lparr>bytes = ''......'', limit = 8, opos = 1, rpos = 1, wpos = 6\<rparr>
       \<lparr>bytes = ''abcd'', limit = 8, opos = 0, rpos = 0, wpos = 2\<rparr> = Ret () c
     \<and> limit c = 8 \<and> sb_data c = ''bc''"
  using copy_and_assign_contents [of "\<lparr>bytes = ''abcd'', limit = 8, opos = 0, rpos = 0, wpos = 2\<rparr>"
      "\<lparr>bytes = ''......'', limit = 8, opos = 1, rpos = 1, wpos = 6\<rparr>"]
  by (simp add: sb_wf_def sb_data_def slice_def vec_max_def)

end
