(* ===== verification/StreamSpec.thy ===== *)
theory StreamSpec
  imports StreamBuf
begin

text \<open>
  What a \<open>StreamBuffer\<close> promises: a byte queue with a rewindable front, stated on pairs of
  lists, and the proof that runs of the buffer's operations refine it as long as no flushed
  space has to be reclaimed. The locale \<open>byte_stream\<close> is the interface the serialisers
  and the sockets rely on, interpreted on the buffer itself.
\<close>

subsection \<open>The interface\<close>

locale byte_stream =
  fixes inv :: "'b \<Rightarrow> bool"
    and unread :: "'b \<Rightarrow> char list"
    and room :: "nat \<Rightarrow> 'b \<Rightarrow> bool"
    and put :: "char list \<Rightarrow> 'b \<Rightarrow> (nat option, 'b) outcome"
    and get :: "nat \<Rightarrow> 'b \<Rightarrow> ((char list \<times> nat) option, 'b) outcome"
  assumes put: "inv b \<Longrightarrow> room (length p) b \<Longrightarrow>
      \<exists>off c. put p b = Ret (Some off) c \<and> inv c \<and> unread c = unread b @ p"
    and put_room: "inv b \<Longrightarrow> room (length p + n) b \<Longrightarrow> put p b = Ret (Some off) c \<Longrightarrow> room n c"
    and room_mono: "room n b \<Longrightarrow> m \<le> n \<Longrightarrow> room m b"
    and get: "inv b \<Longrightarrow> n \<le> length (unread b) \<Longrightarrow>
      \<exists>off c. get n b = Ret (Some (take n (unread b), off)) c \<and> inv c \<and> unread c = drop n (unread b)"
    and get_short: "inv b \<Longrightarrow> length (unread b) < n \<Longrightarrow> get n b = Ret None b"

text \<open>Write a list of blocks; read blocks of given lengths, concatenating what they return.\<close>

fun put_all ::
  "(char list \<Rightarrow> 'b \<Rightarrow> (nat option, 'b) outcome) \<Rightarrow> char list list \<Rightarrow> 'b \<Rightarrow> (bool, 'b) outcome" where
  "put_all w [] b = Ret True b"
| "put_all w (p # ps) b = and_then (map_ret (\<lambda>r. r \<noteq> None) (w p b)) (put_all w ps)"

fun get_all ::
  "(nat \<Rightarrow> 'b \<Rightarrow> ((char list \<times> nat) option, 'b) outcome) \<Rightarrow> nat list \<Rightarrow> 'b
    \<Rightarrow> (char list list option, 'b) outcome" where
  "get_all g [] b = Ret (Some []) b"
| "get_all g (n # ns) b = bind_out (g n b) (\<lambda>r c.
     case r of None \<Rightarrow> Ret None c
     | Some (p, _) \<Rightarrow> map_ret (map_option ((#) p)) (get_all g ns c))"

context byte_stream
begin

lemma put_all_unread:
  "inv b \<Longrightarrow> room (length (concat ps)) b \<Longrightarrow>
    \<exists>c. put_all put ps b = Ret True c \<and> inv c \<and> unread c = unread b @ concat ps"
proof (induction ps arbitrary: b)
  case Nil
  then show ?case by simp
next
  case (Cons p ps)
  then have "room (length p) b" by (auto intro: room_mono)
  with Cons.prems obtain off d where
    d: "put p b = Ret (Some off) d" "inv d" "unread d = unread b @ p"
    using put by blast
  moreover have "room (length (concat ps)) d"
    using Cons.prems d(1) put_room by simp
  ultimately show ?case using Cons.IH [of d] by auto
qed

lemma get_all_unread:
  "inv b \<Longrightarrow> unread b = concat ps @ rest \<Longrightarrow>
    \<exists>c. get_all get (map length ps) b = Ret (Some ps) c \<and> inv c \<and> unread c = rest"
proof (induction ps arbitrary: b)
  case Nil
  then show ?case by simp
next
  case (Cons p ps)
  then have "length p \<le> length (unread b)" by simp
  with Cons.prems obtain off d where
    d: "get (length p) b = Ret (Some (p, off)) d" "inv d" "unread d = concat ps @ rest"
    using get [of b "length p"] by auto
  then show ?case using Cons.IH [of d] by auto
qed

lemma fifo:
  assumes "inv b" and "unread b = []" and "room (length (concat ps)) b"
  shows "\<exists>c d. put_all put ps b = Ret True c \<and> get_all get (map length ps) c = Ret (Some ps) d
    \<and> inv d \<and> unread d = []"
  using put_all_unread [OF assms(1,3)] get_all_unread [of _ ps "[]"] assms(2) by fastforce

end

interpretation stream_buffer: byte_stream sb_wf sb_unread sb_room sb_write sb_read
proof
  fix b :: stream_buffer and p :: "char list"
  assume "sb_wf b" "sb_room (length p) b"
  then show "\<exists>off c. sb_write p b = Ret (Some off) c \<and> sb_wf c \<and> sb_unread c = sb_unread b @ p"
    using sb_write_room sb_extends_unread sb_extendsD(1) by blast
next
  fix b c :: stream_buffer and p :: "char list" and n off
  assume "sb_wf b" "sb_room (length p + n) b" "sb_write p b = Ret (Some off) c"
  then show "sb_room n c"
    using sb_write_room [of b p] sb_room_mono [of "length p + n" b "length p"] sb_room_extends
    by force
next
  fix b :: stream_buffer and m n
  assume "sb_room n b" "m \<le> n"
  then show "sb_room m b" by (rule sb_room_mono)
next
  fix b :: stream_buffer and n
  assume wf: "sb_wf b" and n: "n \<le> length (sb_unread b)"
  then have "sb_consumes n b (b\<lparr>rpos := rpos b + n\<rparr>)" by (simp add: sb_consumes_def)
  then show "\<exists>off c. sb_read n b = Ret (Some (take n (sb_unread b), off)) c \<and> sb_wf c
      \<and> sb_unread c = drop n (sb_unread b)"
    using wf n sb_consumes_wf sb_consumes_unread by (fastforce simp: sb_read_wf)
next
  fix b :: stream_buffer and n
  assume "sb_wf b" "length (sb_unread b) < n"
  then show "sb_read n b = Ret None b" by (simp add: sb_read_wf)
qed

subsection \<open>Runs of operations and the abstract queue\<close>

text \<open>
  The operations: \<open>Write(p, n)\<close>, the delimited \<open>Write(p, n, delim)\<close>, \<open>Writable(n)\<close>, the way
  the sockets receive into a buffer (\<open>Writable(n)\<close>, octets stored behind \<open>Write()\<close>,
  \<open>Write(k)\<close> for the \<open>k\<close> octets stored), \<open>Readable()\<close>, \<open>Readable(delim)\<close> for a
  character and for a string, \<open>Read(p, n)\<close>, \<open>Read(n)\<close>, \<open>Flush()\<close>, \<open>Flush(n)\<close>, \<open>Clear()\<close>,
  \<open>Empty()\<close>, \<open>Peek(offset, p, n)\<close>, \<open>Peekable(offset)\<close> and \<open>Update(offset, p, n)\<close>. Not here
  are \<open>Peekable(offset, delim)\<close>, which scans from a wild pointer, the operations on two
  buffers (copying, assignment, \<open>Swap\<close>), and \<open>Size()\<close> and \<open>Writable()\<close>, which report the
  memory and not the queue.
\<close>

datatype sb_op =
    OpWrite "char list"
  | OpWriteDelim "char list" "char list"
  | OpReserve nat
  | OpReceive nat "char list"
  | OpReadable
  | OpReadableChar char
  | OpReadableStr "char list"
  | OpRead nat
  | OpSkip nat
  | OpFlush
  | OpFlushN nat
  | OpClear
  | OpEmpty
  | OpPeek nat nat
  | OpPeekable nat
  | OpUpdate nat "char list"

datatype obs = OUnit | OBool bool | OInt int | OBytes "char list option"

fun sb_step :: "sb_op \<Rightarrow> stream_buffer \<Rightarrow> (obs, stream_buffer) outcome" where
  "sb_step (OpWrite p) b = map_ret (\<lambda>r. OBool (r \<noteq> None)) (sb_write p b)"
| "sb_step (OpWriteDelim p d) b = map_ret (\<lambda>r. OBool (fst r)) (sb_write_delim p d b)"
| "sb_step (OpReserve n) b = map_ret OBool (sb_reserve n b)"
| "sb_step (OpReceive n p) b = bind_out (sb_reserve n b) (\<lambda>ok b1.
     if \<not> ok then Ret (OBool False) b1
     else bind_out (fill_writable p b1) (\<lambda>_ b2.
       case sb_advance (length p) b2 of (r, b3) \<Rightarrow> Ret (OBool (r \<noteq> None)) b3))"
| "sb_step OpReadable b = Ret (OInt (int (sb_readable b))) b"
| "sb_step (OpReadableChar d) b = map_ret OInt (sb_readable_char d b)"
| "sb_step (OpReadableStr ds) b = map_ret OInt (sb_readable_str ds b)"
| "sb_step (OpRead n) b = map_ret (\<lambda>r. OBytes (map_option fst r)) (sb_read n b)"
| "sb_step (OpSkip n) b = (case sb_skip n b of (r, c) \<Rightarrow> Ret (OBool (r \<noteq> None)) c)"
| "sb_step OpFlush b = (case sb_flush b of (r, c) \<Rightarrow> Ret (OInt r) c)"
| "sb_step (OpFlushN n) b = (case sb_flush_n n b of (r, c) \<Rightarrow> Ret (OInt r) c)"
| "sb_step OpClear b = Ret OUnit (sb_clear b)"
| "sb_step OpEmpty b = Ret (OBool (sb_empty b)) b"
| "sb_step (OpPeek off n) b = map_ret OBytes (sb_peek off n b)"
| "sb_step (OpPeekable off) b = Ret (OInt (sb_peekable off b)) b"
| "sb_step (OpUpdate off p) b = map_ret OBool (sb_update off p b)"

record queue =
  q_seen :: "char list"
  q_unread :: "char list"

definition queue_of :: "stream_buffer \<Rightarrow> queue" where
  "queue_of b = \<lparr>q_seen = sb_seen b, q_unread = sb_unread b\<rparr>"

abbreviation q_data :: "queue \<Rightarrow> char list" where
  "q_data q \<equiv> q_seen q @ q_unread q"

text \<open>Where the first octet of a set stands in a list; minus one where there is none.\<close>

definition q_find :: "char set \<Rightarrow> char list \<Rightarrow> int" where
  "q_find S u = (let i = length (takeWhile (\<lambda>c. c \<notin> S) u) in if i < length u then int i else - 1)"



text \<open>
  Where the positions stay in order. Sizes asked for are those an object can have, and no more
  octets are stored behind \<open>Write()\<close> than were asked for. \<open>Read(n)\<close> with an \<open>n\<close> that wraps
  steps back inside the data already seen. \<open>Flush(n)\<close> does not end between the reading and
  the writing position (there it leaves the reading position before the origin, theorem
  \<open>flush_n_keeps_order_iff\<close> of \<open>StreamBuf\<close>).
\<close>

fun op_ok :: "sb_op \<Rightarrow> queue \<Rightarrow> bool" where
  "op_ok (OpWrite p) q = (length p \<le> vec_max)"
| "op_ok (OpWriteDelim p d) q = (length p \<le> vec_max \<and> length d \<le> vec_max)"
| "op_ok (OpReserve n) q = (n \<le> vec_max)"
| "op_ok (OpReceive n p) q = (length p \<le> n \<and> n \<le> vec_max)"
| "op_ok (OpSkip n) q = (n < 2 ^ 63 \<or> (n < 2 ^ 64 \<and> 2 ^ 64 - n \<le> length (q_seen q)))"
| "op_ok (OpFlushN n) q = (n \<le> length (q_seen q) \<or> length (q_data q) \<le> n)"
| "op_ok _ q = True"

fun sb_run :: "sb_op list \<Rightarrow> stream_buffer \<Rightarrow> (obs list, stream_buffer) outcome" where
  "sb_run [] b = Ret [] b"
| "sb_run (x # xs) b = bind_out (sb_step x b) (\<lambda>r c. map_ret ((#) r) (sb_run xs c))"


text \<open>A run whose every operation meets its condition where it is called.\<close>

fun careful :: "sb_op list \<Rightarrow> stream_buffer \<Rightarrow> bool" where
  "careful [] b = True"
| "careful (x # xs) b = (op_ok x (queue_of b) \<and>
     (case sb_step x b of Ret _ c \<Rightarrow> careful xs c | Fault _ \<Rightarrow> True))"

lemma queue_of_consumes:
  assumes "sb_wf b" and "n \<le> length (sb_unread b)"
  shows "queue_of (b\<lparr>rpos := rpos b + n\<rparr>) =
    \<lparr>q_seen = sb_seen b @ take n (sb_unread b), q_unread = drop n (sb_unread b)\<rparr>"
    and "sb_wf (b\<lparr>rpos := rpos b + n\<rparr>)"
proof -
  let ?c = "b\<lparr>rpos := rpos b + n\<rparr>"
  have con: "sb_consumes n b ?c" using assms(2) by (simp add: sb_consumes_def)
  show wf: "sb_wf ?c" by (rule sb_consumes_wf [OF assms(1) con])
  have unread: "sb_unread ?c = drop n (sb_unread b)"
    by (rule sb_consumes_unread [OF assms(1) con])
  have "sb_seen ?c @ drop n (sb_unread b) = sb_seen b @ sb_unread b"
    using sb_data_split [OF wf] sb_data_split [OF assms(1)] sb_consumes_data [OF con] unread by simp
  also have "\<dots> = (sb_seen b @ take n (sb_unread b)) @ drop n (sb_unread b)" by simp
  finally have "sb_seen ?c = sb_seen b @ take n (sb_unread b)" by blast
  then show "queue_of ?c =
    \<lparr>q_seen = sb_seen b @ take n (sb_unread b), q_unread = drop n (sb_unread b)\<rparr>"
    by (simp add: queue_of_def unread)
qed



lemma queue_of_split:
  assumes "sb_wf b"
  shows "queue_of b = \<lparr>q_seen = take (rpos b - opos b) (sb_data b), q_unread = drop (rpos b - opos b) (sb_data b)\<rparr>"
  using sb_data_split [OF assms] length_sb_seen [OF assms] by (simp add: queue_of_def)







text \<open>\<open>Read(n)\<close> with an \<open>n\<close> of \<open>2 ^ 64 - k\<close>: the addition wraps and the position steps back.\<close>

lemma sb_skip_back:
  assumes wf: "sb_wf b" and n: "n < 2 ^ 64" "2 ^ 64 - n \<le> length (sb_seen b)"
  shows "sb_skip n b = (Some (rpos b), b\<lparr>rpos := rpos b - (2 ^ 64 - n)\<rparr>)"
    and "sb_wf (b\<lparr>rpos := rpos b - (2 ^ 64 - n)\<rparr>)"
    and "queue_of (b\<lparr>rpos := rpos b - (2 ^ 64 - n)\<rparr>) =
      (let m = length (sb_seen b) - (2 ^ 64 - n)
       in \<lparr>q_seen = take m (sb_seen b), q_unread = drop m (sb_seen b) @ sb_unread b\<rparr>)"
proof -
  define k where "k = 2 ^ 64 - n"
  note d = sb_wfD [OF wf]
  have k: "k \<le> rpos b - opos b" using n(2) by (simp add: k_def length_sb_seen [OF wf])
  have "rpos b + n = (rpos b - k) + 2 ^ 64" using k n(1) by (simp add: k_def)
  moreover have "rpos b - k < 2 ^ 64" using d(7) by simp
  ultimately have "sz_add (rpos b) n = rpos b - k" by (simp add: sz_add_def)
  then show "sb_skip n b = (Some (rpos b), b\<lparr>rpos := rpos b - (2 ^ 64 - n)\<rparr>)"
    using d k unfolding k_def [symmetric] sb_skip_def by auto
  let ?c = "b\<lparr>rpos := rpos b - k\<rparr>"
  have wfc: "sb_wf ?c" using wf k by (auto simp: sb_wf_def)
  then show "sb_wf (b\<lparr>rpos := rpos b - (2 ^ 64 - n)\<rparr>)" by (simp add: k_def)
  let ?m = "length (sb_seen b) - k"
  have m: "rpos ?c - opos ?c = ?m" using k d by (simp add: length_sb_seen [OF wf])
  have "sb_data ?c = sb_seen b @ sb_unread b" by (simp add: sb_data_def sb_data_split [OF wf, symmetric])
  then have "queue_of ?c = \<lparr>q_seen = take ?m (sb_seen b), q_unread = drop ?m (sb_seen b) @ sb_unread b\<rparr>"
    unfolding queue_of_split [OF wfc] m by simp
  then show "queue_of (b\<lparr>rpos := rpos b - (2 ^ 64 - n)\<rparr>) =
      (let m = length (sb_seen b) - (2 ^ 64 - n)
       in \<lparr>q_seen = take m (sb_seen b), q_unread = drop m (sb_seen b) @ sb_unread b\<rparr>)"
    by (simp add: k_def Let_def)
qed

















lemma queue_of_fields [simp]: "q_seen (queue_of b) = sb_seen b" "q_unread (queue_of b) = sb_unread b"
  by (simp_all add: queue_of_def)



subsection \<open>Every run keeps the invariant and the memory limit\<close>

definition sb_bounded :: "nat \<Rightarrow> nat \<Rightarrow> stream_buffer \<Rightarrow> bool" where
  "sb_bounded init lim b \<longleftrightarrow> sb_wf b \<and> limit b = lim \<and> (0 < lim \<longrightarrow> length (bytes b) \<le> max init lim)"

lemma keeps_mono: "keeps P m \<Longrightarrow> (\<And>s. P s \<Longrightarrow> Q s) \<Longrightarrow> keeps Q m"
  by (cases m) simp_all

lemma sb_bounded_bytes:
  "sb_bounded i l b \<Longrightarrow> sb_wf c \<Longrightarrow> limit c = limit b \<Longrightarrow> length (bytes c) = length (bytes b)
    \<Longrightarrow> sb_bounded i l c"
  by (simp add: sb_bounded_def)

lemma sb_bounded_grows:
  assumes "sb_bounded i l b"
    and "sb_wf c \<and> limit c = limit b \<and> (0 < limit b \<longrightarrow> length (bytes c) \<le> max (length (bytes b)) (limit b))"
  shows "sb_bounded i l c"
  using assms by (auto simp: sb_bounded_def)

lemma sb_bounded_wf: "sb_bounded i l b \<Longrightarrow> sb_wf b"
  by (simp add: sb_bounded_def)

lemma sb_reserve_bounded:
  "sb_bounded i l b \<Longrightarrow> n \<le> vec_max \<Longrightarrow> keeps (sb_bounded i l) (sb_reserve n b)"
  by (rule keeps_mono [OF sb_reserve_bound [OF sb_bounded_wf]]) (auto intro: sb_bounded_grows)

lemma sb_write_bounded:
  "sb_bounded i l b \<Longrightarrow> length p \<le> vec_max \<Longrightarrow> keeps (sb_bounded i l) (sb_write p b)"
  by (rule keeps_mono [OF sb_write_keeps [OF sb_bounded_wf]]) (auto intro: sb_bounded_grows)

lemma sb_write_delim_bounded:
  "sb_bounded i l b \<Longrightarrow> length p \<le> vec_max \<Longrightarrow> length d \<le> vec_max \<Longrightarrow>
    keeps (sb_bounded i l) (sb_write_delim p d b)"
  unfolding sb_write_delim_def
  by (rule keeps_bind [where P = "sb_bounded i l"]) (simp_all add: sb_write_bounded)

lemma sb_stored_bounded:
  assumes b: "sb_bounded i l b" and n: "length p \<le> vec_max"
  shows "keeps (sb_bounded i l) (bind_out (fill_writable p b) (\<lambda>_ c.
    case sb_advance (length p) c of (r, e) \<Rightarrow> Ret (OBool (r \<noteq> None)) e))"
  using sb_wfD [OF sb_bounded_wf [OF b]] b n
  by (auto simp: fill_writable_def sb_advance_def sz_add_exact sb_bounded_def sb_wf_def vec_max_def)

lemma sb_receive_bounded:
  "sb_bounded i l b \<Longrightarrow> length p \<le> n \<Longrightarrow> n \<le> vec_max \<Longrightarrow>
    keeps (sb_bounded i l) (sb_step (OpReceive n p) b)"
  unfolding sb_step.simps
  by (rule keeps_bind [where P = "sb_bounded i l"])
    (auto intro: sb_reserve_bounded sb_stored_bounded simp del: not_None_eq)

lemma sb_flush_n_bounded:
  assumes b: "sb_bounded i l b" and n: "n \<le> length (sb_seen b) \<or> length (sb_data b) \<le> n"
  shows "sb_bounded i l (snd (sb_flush_n n b))"
  using sb_flush_n_wf [OF sb_bounded_wf [OF b], of n] n
  by (auto simp: sb_flush_n_def sb_clear_def Let_def intro!: sb_bounded_bytes [OF b])

lemma sb_skip_bounded:
  assumes b: "sb_bounded i l b" and n: "n < 2 ^ 63 \<or> (n < 2 ^ 64 \<and> 2 ^ 64 - n \<le> length (sb_seen b))"
  shows "sb_bounded i l (snd (sb_skip n b))"
  using n
proof
  note wf = sb_bounded_wf [OF b]
  assume "n < 2 ^ 63"
  then show ?thesis
    using queue_of_consumes(2) [OF wf, of n] b by (auto simp: sb_skip_wf [OF wf] intro: sb_bounded_bytes)
next
  assume "n < 2 ^ 64 \<and> 2 ^ 64 - n \<le> length (sb_seen b)"
  then show ?thesis
    using sb_skip_back(1,2) [OF sb_bounded_wf [OF b], of n] b by (auto intro: sb_bounded_bytes)
qed

lemma sb_observed_bounded:
  assumes b: "sb_bounded i l b"
  shows "keeps (sb_bounded i l) (sb_step (OpReadableChar d) b)"
    and "keeps (sb_bounded i l) (sb_step (OpReadableStr ds) b)"
    and "keeps (sb_bounded i l) (sb_step (OpPeek off n) b)"
  using b sb_bounded_wf [OF b]
  by (simp_all add: sb_readable_char_def sb_readable_str_def sb_scan_wf sb_peek_wf)

lemma sb_update_bounded:
  assumes b: "sb_bounded i l b"
  shows "keeps (sb_bounded i l) (sb_step (OpUpdate off p) b)"
  using b sb_update_data(2) [OF sb_bounded_wf [OF b], of off p] sb_wfD [OF sb_bounded_wf [OF b]]
  by (auto simp: sb_update_wf [OF sb_bounded_wf [OF b]] length_sb_data [OF sb_bounded_wf [OF b]]
      intro!: sb_bounded_bytes [OF b])

lemma sb_read_bounded:
  assumes b: "sb_bounded i l b"
  shows "keeps (sb_bounded i l) (sb_read n b)"
  using queue_of_consumes(2) [OF sb_bounded_wf [OF b], of n] b
  by (auto simp: sb_read_wf [OF sb_bounded_wf [OF b]] intro: sb_bounded_bytes)

lemma sb_flushed_bounded:
  assumes b: "sb_bounded i l b"
  shows "sb_bounded i l (snd (sb_flush b))" and "sb_bounded i l (sb_clear b)"
  using sb_flush_wf [OF sb_bounded_wf [OF b]] sb_clear_wf [OF sb_bounded_wf [OF b]]
  by (auto simp: sb_flush_def sb_clear_def Let_def intro!: sb_bounded_bytes [OF b])

lemma sb_step_bounded:
  assumes b: "sb_bounded i l b" and x: "op_ok x (queue_of b)"
  shows "keeps (sb_bounded i l) (sb_step x b)"
proof -
  note wf = sb_bounded_wf [OF b]
  have skip: "sb_bounded i l c" if "sb_skip n b = (r, c)" "op_ok (OpSkip n) (queue_of b)" for n r c
    using sb_skip_bounded [OF b, of n] that by simp
  have flush: "sb_bounded i l c" if "sb_flush_n n b = (r, c)" "op_ok (OpFlushN n) (queue_of b)" for n r c
    using sb_flush_n_bounded [OF b, of n] that by (simp add: sb_data_split [OF wf])
  show ?thesis
    using x b sb_flushed_bounded [OF b]
    by (cases x)
      (auto simp: sb_write_bounded sb_write_delim_bounded sb_reserve_bounded sb_read_bounded
        sb_observed_bounded sb_update_bounded sb_receive_bounded split: prod.splits
        simp del: sb_step.simps(4,6,7,14,16) intro: skip flush)
qed

lemma sb_run_bounded:
  "sb_bounded i l b \<Longrightarrow> careful xs b \<Longrightarrow> keeps (sb_bounded i l) (sb_run xs b)"
proof (induction xs arbitrary: b)
  case Nil
  then show ?case by simp
next
  case (Cons x xs)
  then have k: "keeps (sb_bounded i l) (sb_step x b)" by (simp add: sb_step_bounded)
  show ?case
  proof (cases "sb_step x b")
    case (Ret r c)
    then have "keeps (sb_bounded i l) (sb_run xs c)" using Cons k by simp
    then show ?thesis using Ret by (cases "sb_run xs c") simp_all
  next
    case (Fault f)
    then show ?thesis by simp
  qed
qed

lemma sb_new_bounded: "sb_new i l = Ret () b \<Longrightarrow> l < 2 ^ 64 \<Longrightarrow> sb_bounded i l b"
  by (auto simp: sb_new_def sb_bounded_def sb_wf_def split: if_splits)

subsection \<open>Properties\<close>


definition demo_buffer :: stream_buffer where
  "demo_buffer = \<lparr>bytes = ''abcdef'' @ replicate 4 (CHR 0x00), limit = 10, opos = 0, rpos = 0, wpos = 6\<rparr>"

definition demo_ops :: "sb_op list" where
  "demo_ops = [OpRead 2, OpSkip (2 ^ 64 - 1), OpRead 1, OpFlushN 1, OpReadableChar (CHR ''e''), OpFlush,
     OpReceive 3 ''gh'', OpPeek 1 3]"

lemmas demo_stream_simps = demo_buffer_def demo_ops_def queue_of_def sb_seen_def sb_unread_def slice_def
  sb_read_def sb_skip_def sb_readable_def sz_sub_def sz_add_def sb_flush_n_def sb_flush_def to_ssize_def
  sb_readable_char_def sb_scan_def sb_reserve_def sb_writable_def fill_writable_def sb_advance_def
  patch_def sb_peek_def sb_peekable_def of_ssize_def sb_peek_ptr_def q_find_def Let_def vec_max_def


text \<open>
  C10. Invariant: from a buffer built with an initial size and a limit, no run of the
  operations of \<open>sb_op\<close>, reclaiming writes included, each called where \<open>op_ok\<close> allows it, breaks
  \<open>opos \<le> rpos \<le> wpos \<le> size\<close>, and the memory the buffer occupies never exceeds the larger of
  the initial size and a positive limit. (A reclaiming write may fault instead of returning; theorem
  \<open>write_reclaim_replaces_tail\<close> of \<open>StreamBuf\<close> says when.) What \<open>op_ok\<close> excludes are sizes no
  object can have and two calls that do break the order: a \<open>Flush(n)\<close> that ends between the
  reading and the writing position, and a \<open>Read(n)\<close> that wraps below the origin.
\<close>

theorem stream_run_bounded:
  assumes "sb_new init lim = Ret () b" and "lim < 2 ^ 64" and "careful xs b"
  shows "case sb_run xs b of Ret _ c \<Rightarrow> sb_wf c \<and> (0 < lim \<longrightarrow> length (bytes c) \<le> max init lim)
    | Fault _ \<Rightarrow> True"
  using sb_run_bounded [OF sb_new_bounded [OF assms(1,2)] assms(3)]
  by (auto simp: sb_bounded_def keeps_def split: outcome.splits)

theorem stream_run_bounded_witness:
  "case sb_run [OpWrite ''xyz'', OpRead 1, OpFlush]
      \<lparr>bytes = replicate 2 (CHR 0x00), limit = 16, opos = 0, rpos = 0, wpos = 0\<rparr> of
     Ret _ c \<Rightarrow> sb_wf c \<and> ((0::nat) < 16 \<longrightarrow> length (bytes c) \<le> max 2 16) | Fault _ \<Rightarrow> True"
  by (rule stream_run_bounded)
    (simp_all add: sb_new_def vec_max_def sb_write_def sz_add_def sz_sub_def vec_resize_def resized_def
      demo_stream_simps)

text \<open>
  First in, first out: blocks written to an empty buffer with room for them are read
  back, with the same block lengths, in the order they were written, and the buffer is then
  exhausted.
\<close>

theorem stream_fifo:
  assumes "sb_wf b" and "sb_unread b = []" and "sb_room (length (concat ps)) b"
  shows "\<exists>c d. put_all sb_write ps b = Ret True c \<and> get_all sb_read (map length ps) c = Ret (Some ps) d
    \<and> sb_wf d \<and> sb_unread d = []"
  using assms by (rule stream_buffer.fifo)

theorem stream_fifo_witness:
  "\<exists>c d. put_all sb_write [''ab'', ''c'']
        \<lparr>bytes = replicate 4 (CHR 0x00), limit = 8, opos = 0, rpos = 0, wpos = 0\<rparr> = Ret True c
    \<and> get_all sb_read (map length [''ab'', ''c'']) c = Ret (Some [''ab'', ''c'']) d
    \<and> sb_wf d \<and> sb_unread d = []"
  by (rule stream_fifo)
    (simp_all add: sb_wf_def sb_unread_def sb_room_def sb_cap_def vec_max_def)

end
