(* ===== verification/StreamRW.thy ===== *)
theory StreamRW
  imports StreamSpec
begin

text \<open>
  \<open>StreamReader\<close> and \<open>StreamWriter\<close>: sequential reading and writing of integers, blocks
  and strings on a \<open>StreamBuffer\<close> they point to. The object is its own record; the buffer it
  points to is passed along, since several readers and writers share one. An out-parameter
  that stays untouched on failure is an option; the \<open>String\<close> forms return the boolean and
  the string they assigned, if they assigned one.
\<close>

subsection \<open>StreamReader\<close>

record stream_reader =
  sr_stream :: bool
  sr_flush :: bool

definition sr_new :: stream_reader where
  "sr_new = \<lparr>sr_stream = False, sr_flush = False\<rparr>"

text \<open>Construction from a pointer (\<open>True\<close> when it is not null) asserts it; from a reference it cannot fail.\<close>

definition sr_new_ptr :: "bool \<Rightarrow> bool \<Rightarrow> (unit, stream_reader) outcome" where
  "sr_new_ptr buf fl =
     (if buf then Ret () \<lparr>sr_stream = buf, sr_flush = fl\<rparr> else Fault AssertFailed)"

definition sr_new_ref :: "bool \<Rightarrow> stream_reader" where
  "sr_new_ref fl = \<lparr>sr_stream = True, sr_flush = fl\<rparr>"

definition sr_attach :: "bool \<Rightarrow> bool \<Rightarrow> stream_reader \<Rightarrow> (unit, stream_reader) outcome" where
  "sr_attach buf fl r =
     (if buf then Ret () (r\<lparr>sr_stream := buf, sr_flush := fl\<rparr>) else Fault AssertFailed)"

definition sr_attach_ref :: "bool \<Rightarrow> stream_reader \<Rightarrow> stream_reader" where
  "sr_attach_ref fl r = r\<lparr>sr_stream := True, sr_flush := fl\<rparr>"

text \<open>\<open>if(_flush) _stream->Flush();\<close>\<close>

definition sr_done :: "stream_reader \<Rightarrow> stream_buffer \<Rightarrow> stream_buffer" where
  "sr_done r b = (if sr_flush r then snd (sb_flush b) else b)"

definition sr_bytes ::
  "stream_reader \<Rightarrow> nat \<Rightarrow> stream_buffer \<Rightarrow> (char list option, stream_buffer) outcome" where
  "sr_bytes r n b =
     (if \<not> sr_stream r then Ret None b
      else if sb_readable b < n then Ret None b
      else bind_out (sb_read n b) (\<lambda>res c.
        case res of None \<Rightarrow> Ret None c | Some (p, _) \<Rightarrow> Ret (Some p) (sr_done r c)))"

text \<open>The shape the integer forms share: read \<open>sizeof\<close> bytes, convert, flush.\<close>

definition sr_value ::
  "nat \<Rightarrow> (char list \<Rightarrow> 'v) \<Rightarrow> stream_reader \<Rightarrow> stream_buffer \<Rightarrow> ('v option, stream_buffer) outcome" where
  "sr_value n conv r b =
     (if \<not> sr_stream r then Ret None b
      else bind_out (sb_read n b) (\<lambda>res c.
        case res of None \<Rightarrow> Ret None c | Some (p, _) \<Rightarrow> Ret (Some (conv p)) (sr_done r c)))"

definition sr_int8 :: "stream_reader \<Rightarrow> stream_buffer \<Rightarrow> (8 word option, stream_buffer) outcome" where
  "sr_int8 = sr_value 1 (\<lambda>p. u8_of_char (hd p))"

definition sr_uint8 :: "stream_reader \<Rightarrow> stream_buffer \<Rightarrow> (8 word option, stream_buffer) outcome" where
  "sr_uint8 = sr_value 1 (\<lambda>p. u8_of_char (hd p))"

definition sr_int16 :: "stream_reader \<Rightarrow> stream_buffer \<Rightarrow> (16 word option, stream_buffer) outcome" where
  "sr_int16 = sr_value 2 (\<lambda>p. ntohs (load16 p))"

definition sr_uint16 :: "stream_reader \<Rightarrow> stream_buffer \<Rightarrow> (16 word option, stream_buffer) outcome" where
  "sr_uint16 = sr_value 2 (\<lambda>p. ntohs (load16 p))"

definition sr_int32 :: "stream_reader \<Rightarrow> stream_buffer \<Rightarrow> (32 word option, stream_buffer) outcome" where
  "sr_int32 = sr_value 4 (\<lambda>p. ntohl (load32 p))"

definition sr_uint32 :: "stream_reader \<Rightarrow> stream_buffer \<Rightarrow> (32 word option, stream_buffer) outcome" where
  "sr_uint32 = sr_value 4 (\<lambda>p. ntohl (load32 p))"

text \<open>The 64-bit forms are placeholders that assert.\<close>

definition sr_int64 :: "stream_reader \<Rightarrow> stream_buffer \<Rightarrow> (64 word option, stream_buffer) outcome" where
  "sr_int64 r b = Fault AssertFailed"

definition sr_uint64 :: "stream_reader \<Rightarrow> stream_buffer \<Rightarrow> (64 word option, stream_buffer) outcome" where
  "sr_uint64 r b = Fault AssertFailed"

definition sr_string_n ::
  "stream_reader \<Rightarrow> nat \<Rightarrow> stream_buffer \<Rightarrow> (bool \<times> char list option, stream_buffer) outcome" where
  "sr_string_n r n b =
     (if \<not> sr_stream r then Ret (False, None) b
      else if sb_readable b < n then Ret (False, None) b
      else if length (bytes b) < rpos b + n then Fault OutOfBounds
      else let s = slice (rpos b) n (bytes b) in
        case sb_skip n b of
          (None, c) \<Rightarrow> Ret (False, Some s) c
        | (Some _, c) \<Rightarrow> Ret (True, Some s) (sr_done r c))"

definition sr_string ::
  "stream_reader \<Rightarrow> stream_buffer \<Rightarrow> (bool \<times> char list option, stream_buffer) outcome" where
  "sr_string r b =
     (if \<not> sr_stream r then Ret (False, None) b
      else if sb_readable b = 0 then Ret (False, None) b
      else sr_string_n r (sb_readable b) b)"

text \<open>
  The delimited forms share their body: a scan result \<open>n\<close>; below zero nothing was found; at
  zero the string is cleared and nothing consumed; otherwise the string and then the
  delimiter are consumed (\<open>String(s, n) && _stream->Read(k)\<close>).
\<close>

definition sr_take_delim ::
  "stream_reader \<Rightarrow> nat \<Rightarrow> int \<Rightarrow> stream_buffer \<Rightarrow> (bool \<times> char list option, stream_buffer) outcome" where
  "sr_take_delim r k n b =
     (if n < 0 then Ret (False, None) b
      else if n = 0 then Ret (True, Some []) b
      else bind_out (sr_string_n r (nat n) b) (\<lambda>(ok, s) c.
        if \<not> ok then Ret (False, s) c
        else case sb_skip k c of (off, d) \<Rightarrow> Ret (off \<noteq> None, s) d))"

definition sr_string_char ::
  "stream_reader \<Rightarrow> char \<Rightarrow> stream_buffer \<Rightarrow> (bool \<times> char list option, stream_buffer) outcome" where
  "sr_string_char r delim b =
     (if \<not> sr_stream r then Ret (False, None) b
      else bind_out (sb_readable_char delim b) (\<lambda>n c. sr_take_delim r 1 n c))"

definition sr_string_str ::
  "stream_reader \<Rightarrow> char list \<Rightarrow> stream_buffer \<Rightarrow> (bool \<times> char list option, stream_buffer) outcome" where
  "sr_string_str r delim b =
     (if \<not> sr_stream r then Ret (False, None) b
      else if sb_readable b < length delim then Ret (False, None) b
      else bind_out (sb_readable_str delim b) (\<lambda>n c. sr_take_delim r (length delim) n c))"

subsection \<open>StreamWriter\<close>

record stream_writer =
  sw_stream :: bool

definition sw_new :: stream_writer where
  "sw_new = \<lparr>sw_stream = False\<rparr>"

definition sw_new_ptr ::
  "bool \<Rightarrow> bool \<Rightarrow> stream_buffer \<Rightarrow> (stream_writer, stream_buffer) outcome" where
  "sw_new_ptr buf clear b =
     (if buf then Ret \<lparr>sw_stream = buf\<rparr> (if clear then sb_clear b else b) else Fault AssertFailed)"

definition sw_new_ref :: "bool \<Rightarrow> stream_buffer \<Rightarrow> (stream_writer, stream_buffer) outcome" where
  "sw_new_ref clear b = Ret \<lparr>sw_stream = True\<rparr> (if clear then sb_clear b else b)"

definition sw_attach ::
  "bool \<Rightarrow> bool \<Rightarrow> stream_writer \<Rightarrow> stream_buffer \<Rightarrow> (stream_writer, stream_buffer) outcome" where
  "sw_attach buf clear w b =
     (if buf then Ret (w\<lparr>sw_stream := buf\<rparr>) (if clear then sb_clear b else b)
      else Fault AssertFailed)"

definition sw_attach_ref ::
  "bool \<Rightarrow> stream_writer \<Rightarrow> stream_buffer \<Rightarrow> (stream_writer, stream_buffer) outcome" where
  "sw_attach_ref clear w b = Ret (w\<lparr>sw_stream := True\<rparr>) (if clear then sb_clear b else b)"

definition sw_bytes ::
  "stream_writer \<Rightarrow> char list \<Rightarrow> stream_buffer \<Rightarrow> (nat option, stream_buffer) outcome" where
  "sw_bytes w p b = (if \<not> sw_stream w then Ret None b else sb_write p b)"

definition sw_int8 :: "stream_writer \<Rightarrow> 8 word \<Rightarrow> stream_buffer \<Rightarrow> (nat option, stream_buffer) outcome" where
  "sw_int8 w v b = (if \<not> sw_stream w then Ret None b else sb_write [char_of_u8 v] b)"

definition sw_uint8 :: "stream_writer \<Rightarrow> 8 word \<Rightarrow> stream_buffer \<Rightarrow> (nat option, stream_buffer) outcome" where
  "sw_uint8 w v b = (if \<not> sw_stream w then Ret None b else sb_write [char_of_u8 v] b)"

definition sw_int16 :: "stream_writer \<Rightarrow> 16 word \<Rightarrow> stream_buffer \<Rightarrow> (nat option, stream_buffer) outcome" where
  "sw_int16 w v b = (if \<not> sw_stream w then Ret None b else sb_write (mem16 (htons v)) b)"

definition sw_uint16 :: "stream_writer \<Rightarrow> 16 word \<Rightarrow> stream_buffer \<Rightarrow> (nat option, stream_buffer) outcome" where
  "sw_uint16 w v b = (if \<not> sw_stream w then Ret None b else sb_write (mem16 (htons v)) b)"

definition sw_int32 :: "stream_writer \<Rightarrow> 32 word \<Rightarrow> stream_buffer \<Rightarrow> (nat option, stream_buffer) outcome" where
  "sw_int32 w v b = (if \<not> sw_stream w then Ret None b else sb_write (mem32 (htonl v)) b)"

text \<open>
  \<open>Integer(uint32_t)\<close> declares \<open>uint16_t nv = htonl(v)\<close> and writes \<open>sizeof(uint16_t)\<close>.
\<close>

definition sw_uint32 :: "stream_writer \<Rightarrow> 32 word \<Rightarrow> stream_buffer \<Rightarrow> (nat option, stream_buffer) outcome" where
  "sw_uint32 w v b =
     (if \<not> sw_stream w then Ret None b
      else let nv = (ucast (htonl v) :: 16 word) in sb_write (mem16 nv) b)"

definition sw_int64 :: "stream_writer \<Rightarrow> 64 word \<Rightarrow> stream_buffer \<Rightarrow> (nat option, stream_buffer) outcome" where
  "sw_int64 w v b = Fault AssertFailed"

definition sw_uint64 :: "stream_writer \<Rightarrow> 64 word \<Rightarrow> stream_buffer \<Rightarrow> (nat option, stream_buffer) outcome" where
  "sw_uint64 w v b = Fault AssertFailed"

definition sw_string :: "stream_writer \<Rightarrow> char list \<Rightarrow> stream_buffer \<Rightarrow> (nat option, stream_buffer) outcome" where
  "sw_string w s b = (if \<not> sw_stream w then Ret None b else sb_write s b)"

text \<open>On the empty string \<open>s[s.length() - 1]\<close> is an access at index \<open>SIZE_MAX\<close>.\<close>

definition sw_string_char ::
  "stream_writer \<Rightarrow> char list \<Rightarrow> char \<Rightarrow> stream_buffer \<Rightarrow> (nat option, stream_buffer) outcome" where
  "sw_string_char w s delim b =
     (if \<not> sw_stream w then Ret None b
      else if s = [] then Fault OutOfBounds
      else if s ! (length s - 1) = delim then Fault AssertFailed
      else sb_write (s @ [delim]) b)"

definition sw_string_str ::
  "stream_writer \<Rightarrow> char list \<Rightarrow> char list \<Rightarrow> stream_buffer \<Rightarrow> (nat option, stream_buffer) outcome" where
  "sw_string_str w s delim b = (if \<not> sw_stream w then Ret None b else sb_write (s @ delim) b)"


subsection \<open>Wire images\<close>

text \<open>
  \<open>emits m p\<close>: where there is room for \<open>p\<close>, the writing step \<open>m\<close> succeeds and appends
  exactly \<open>p\<close>. \<open>parses g p x\<close>: where the unread data starts with \<open>p\<close>, the reading step
  \<open>g\<close> returns \<open>x\<close> and consumes exactly \<open>p\<close>.
\<close>

definition emits :: "(stream_buffer \<Rightarrow> (bool, stream_buffer) outcome) \<Rightarrow> char list \<Rightarrow> bool" where
  "emits m p \<longleftrightarrow> (\<forall>b. sb_wf b \<and> sb_room (length p) b \<longrightarrow>
     (\<exists>c. m b = Ret True c \<and> sb_extends p b c))"

definition parses ::
  "(stream_buffer \<Rightarrow> ('v option, stream_buffer) outcome) \<Rightarrow> char list \<Rightarrow> 'v \<Rightarrow> bool" where
  "parses g p x \<longleftrightarrow> (\<forall>b. sb_wf b \<and> take (length p) (sb_unread b) = p \<longrightarrow>
     g b = Ret (Some x) (b\<lparr>rpos := rpos b + length p\<rparr>))"

lemma emitsD:
  "emits m p \<Longrightarrow> sb_wf b \<Longrightarrow> sb_room (length p) b \<Longrightarrow> \<exists>c. m b = Ret True c \<and> sb_extends p b c"
  by (simp add: emits_def)

lemma parsesD:
  "parses g p x \<Longrightarrow> sb_wf b \<Longrightarrow> take (length p) (sb_unread b) = p \<Longrightarrow>
    g b = Ret (Some x) (b\<lparr>rpos := rpos b + length p\<rparr>)"
  by (simp add: parses_def)

lemma emits_nil: "emits (Ret True) []"
  by (auto simp: emits_def intro: sb_extends_refl)

lemma emits_and_then:
  assumes "emits m p" and "emits k q"
  shows "emits (\<lambda>b. and_then (m b) k) (p @ q)"
  unfolding emits_def
proof (intro allI impI)
  fix b assume b: "sb_wf b \<and> sb_room (length (p @ q)) b"
  then have "sb_room (length p) b" by (auto intro: sb_room_mono)
  with b obtain c where c: "m b = Ret True c" "sb_extends p b c"
    using emitsD [OF assms(1)] by blast
  then have "sb_room (length q) c" using b sb_room_extends [of p "length q" b c] by simp
  then obtain d where "k c = Ret True d" "sb_extends q c d"
    using emitsD [OF assms(2) sb_extendsD(1) [OF c(2)]] by blast
  then show "\<exists>d. and_then (m b) k = Ret True d \<and> sb_extends (p @ q) b d"
    using c sb_extends_trans by auto
qed

text \<open>The boolean result of a write whose offset is not asked for.\<close>

definition wrote :: "(nat option, 's) outcome \<Rightarrow> (bool, 's) outcome" where
  "wrote m = map_ret (\<lambda>r. r \<noteq> None) m"

lemma wrote_simps [simp]:
  "wrote (Ret (Some off) s) = Ret True s"
  "wrote (Ret None s) = Ret False s"
  "wrote (Fault e) = Fault e"
  by (simp_all add: wrote_def)

lemma emits_write: "emits (\<lambda>b. wrote (sb_write p b)) p"
proof -
  have "\<exists>c. wrote (sb_write p b) = Ret True c \<and> sb_extends p b c"
    if "sb_wf b" "sb_room (length p) b" for b
    using sb_write_room [OF that] by auto
  then show ?thesis by (simp add: emits_def)
qed

lemma take_prefix_append:
  "take (length (p @ q)) xs = p @ q \<longleftrightarrow> take (length p) xs = p \<and> take (length q) (drop (length p) xs) = q"
proof
  assume "take (length (p @ q)) xs = p @ q"
  then have "xs = p @ q @ drop (length (p @ q)) xs" by (metis append_take_drop_id append.assoc)
  then show "take (length p) xs = p \<and> take (length q) (drop (length p) xs) = q"
    by (metis append_eq_conv_conj)
next
  assume "take (length p) xs = p \<and> take (length q) (drop (length p) xs) = q"
  then show "take (length (p @ q)) xs = p @ q" by (simp add: take_add)
qed

lemma take_prefix_length: "take (length p) xs = p \<Longrightarrow> length p \<le> length xs"
  by (metis length_take min.cobounded1)

lemma unread_after:
  assumes "sb_wf b" and "take (length p) (sb_unread b) = p"
  shows "sb_wf (b\<lparr>rpos := rpos b + length p\<rparr>)"
    and "sb_unread (b\<lparr>rpos := rpos b + length p\<rparr>) = drop (length p) (sb_unread b)"
proof -
  have "sb_consumes (length p) b (b\<lparr>rpos := rpos b + length p\<rparr>)"
    using take_prefix_length [OF assms(2)] by (simp add: sb_consumes_def)
  then show "sb_wf (b\<lparr>rpos := rpos b + length p\<rparr>)"
    "sb_unread (b\<lparr>rpos := rpos b + length p\<rparr>) = drop (length p) (sb_unread b)"
    using sb_consumes_wf sb_consumes_unread assms(1) by blast+
qed

text \<open>Two reading steps in sequence.\<close>

lemma parses_bind:
  assumes "parses g p x" and "parses (h x) q y"
  shows "parses (\<lambda>b. bind_out (g b) (\<lambda>r c. case r of None \<Rightarrow> Ret None c | Some v \<Rightarrow> h v c)) (p @ q) y"
  unfolding parses_def
proof (intro allI impI)
  fix b assume b: "sb_wf b \<and> take (length (p @ q)) (sb_unread b) = p @ q"
  then have p: "take (length p) (sb_unread b) = p"
    and q: "take (length q) (drop (length p) (sb_unread b)) = q"
    by (simp_all only: take_prefix_append)
  note c = unread_after [OF conjunct1 [OF b] p]
  show "bind_out (g b) (\<lambda>r c. case r of None \<Rightarrow> Ret None c | Some v \<Rightarrow> h v c)
      = Ret (Some y) (b\<lparr>rpos := rpos b + length (p @ q)\<rparr>)"
    using parsesD [OF assms(1) conjunct1 [OF b] p] parsesD [OF assms(2) c(1)] c(2) q
    by (simp add: add.assoc)
qed

text \<open>The same for steps with any result.\<close>

definition emits_ret ::
  "(stream_buffer \<Rightarrow> ('r, stream_buffer) outcome) \<Rightarrow> 'r \<Rightarrow> char list \<Rightarrow> bool" where
  "emits_ret m x p \<longleftrightarrow> (\<forall>b. sb_wf b \<and> sb_room (length p) b \<longrightarrow>
     (\<exists>c. m b = Ret x c \<and> sb_extends p b c))"

text \<open>
  \<open>reads D m x p\<close>: on every buffer that holds the data \<open>D\<close> and begins its unread part with \<open>p\<close>,
  the step returns \<open>x\<close> and consumes \<open>p\<close>. What stands elsewhere in \<open>D\<close> matters only to a step that
  follows a pointer into it.
\<close>

definition reads ::
  "char list \<Rightarrow> (stream_buffer \<Rightarrow> ('r, stream_buffer) outcome) \<Rightarrow> 'r \<Rightarrow> char list \<Rightarrow> bool" where
  "reads D m x p \<longleftrightarrow> (\<forall>b. sb_wf b \<and> sb_data b = D \<and> take (length p) (sb_unread b) = p \<longrightarrow>
     m b = Ret x (b\<lparr>rpos := rpos b + length p\<rparr>))"

lemma emits_retD:
  "emits_ret m x p \<Longrightarrow> sb_wf b \<Longrightarrow> sb_room (length p) b \<Longrightarrow> \<exists>c. m b = Ret x c \<and> sb_extends p b c"
  by (simp add: emits_ret_def)

lemma readsD:
  "reads D m x p \<Longrightarrow> sb_wf b \<Longrightarrow> sb_data b = D \<Longrightarrow> take (length p) (sb_unread b) = p \<Longrightarrow>
    m b = Ret x (b\<lparr>rpos := rpos b + length p\<rparr>)"
  by (simp add: reads_def)

lemma emits_ret_emits: "emits_ret m True p = emits m p"
  by (simp add: emits_ret_def emits_def)

lemma sb_data_rpos [simp]: "sb_data (b\<lparr>rpos := k\<rparr>) = sb_data b"
  by (simp add: sb_data_def)

lemma reads_parses: "parses m p x \<Longrightarrow> reads D m (Some x) p"
  by (simp add: reads_def parses_def)

lemma emits_ret_Ret: "emits_ret (Ret x) x []"
  by (auto simp: emits_ret_def intro: sb_extends_refl)

lemma reads_Ret: "reads D (Ret x) x []"
  by (simp add: reads_def)

lemma emits_ret_bind:
  assumes "emits_ret m x p" and "emits_ret (k x) y q"
  shows "emits_ret (\<lambda>b. bind_out (m b) k) y (p @ q)"
  unfolding emits_ret_def
proof (intro allI impI)
  fix b assume b: "sb_wf b \<and> sb_room (length (p @ q)) b"
  then have "sb_room (length p) b" by (auto intro: sb_room_mono)
  with b obtain c where c: "m b = Ret x c" "sb_extends p b c"
    using emits_retD [OF assms(1)] by blast
  then have "sb_room (length q) c" using b sb_room_extends [of p "length q" b c] by simp
  then obtain d where "k x c = Ret y d" "sb_extends q c d"
    using emits_retD [OF assms(2) sb_extendsD(1) [OF c(2)]] by blast
  then show "\<exists>d. bind_out (m b) k = Ret y d \<and> sb_extends (p @ q) b d"
    using c sb_extends_trans by auto
qed

lemma reads_bind:
  assumes "reads D m x p" and "reads D (k x) y q"
  shows "reads D (\<lambda>b. bind_out (m b) k) y (p @ q)"
  unfolding reads_def
proof (intro allI impI)
  fix b assume b: "sb_wf b \<and> sb_data b = D \<and> take (length (p @ q)) (sb_unread b) = p @ q"
  then have p: "take (length p) (sb_unread b) = p"
    and q: "take (length q) (drop (length p) (sb_unread b)) = q"
    by (simp_all only: take_prefix_append)
  note c = unread_after [OF conjunct1 [OF b] p]
  have D: "sb_data b = D" "sb_data (b\<lparr>rpos := rpos b + length p\<rparr>) = D" using b by simp_all
  show "bind_out (m b) k = Ret y (b\<lparr>rpos := rpos b + length (p @ q)\<rparr>)"
    using readsD [OF assms(1) conjunct1 [OF b] D(1) p] readsD [OF assms(2) c(1) D(2)] c(2) q
    by (simp add: add.assoc)
qed

lemma emits_ret_map: "emits_ret m x p \<Longrightarrow> f x = y \<Longrightarrow> emits_ret (\<lambda>b. map_ret f (m b)) y p"
  by (fastforce simp: emits_ret_def)

lemma reads_map: "reads D m x p \<Longrightarrow> f x = y \<Longrightarrow> reads D (\<lambda>b. map_ret f (m b)) y p"
  by (auto simp: reads_def)

lemma parses_read: "parses (\<lambda>b. map_ret (map_option fst) (sb_read (length p) b)) p p"
  using take_prefix_length by (auto simp: parses_def sb_read_wf)

lemma parses_value:
  "sr_stream r \<Longrightarrow> \<not> sr_flush r \<Longrightarrow> n = length p \<Longrightarrow> conv p = x \<Longrightarrow> parses (sr_value n conv r) p x"
  using take_prefix_length by (auto simp: parses_def sr_value_def sb_read_wf sr_done_def)

lemma emits_sw [simp, intro]:
  assumes "sw_stream w"
  shows "emits (\<lambda>b. wrote (sw_bytes w p b)) p"
    and "emits (\<lambda>b. wrote (sw_string w p b)) p"
    and "emits (\<lambda>b. wrote (sw_uint8 w v8 b)) [char_of_u8 v8]"
    and "emits (\<lambda>b. wrote (sw_int8 w v8 b)) [char_of_u8 v8]"
    and "emits (\<lambda>b. wrote (sw_uint16 w v16 b)) (mem16 (htons v16))"
    and "emits (\<lambda>b. wrote (sw_int16 w v16 b)) (mem16 (htons v16))"
    and "emits (\<lambda>b. wrote (sw_int32 w v32 b)) (mem32 (htonl v32))"
    and "emits (\<lambda>b. wrote (sw_string_str w p q b)) (p @ q)"
  using assms emits_write
  by (simp_all add: sw_bytes_def sw_string_def sw_uint8_def sw_int8_def sw_uint16_def sw_int16_def
      sw_int32_def sw_string_str_def)

lemma load_mem_whole [simp]: "load16 (mem16 w) = w" "load32 (mem32 v) = v"
  using load16_mem16 [of w "[]"] load32_mem32 [of v "[]"] by simp_all

lemma parses_sr [simp, intro]:
  assumes "sr_stream r" and "\<not> sr_flush r"
  shows "parses (sr_uint8 r) [char_of_u8 v8] v8"
    and "parses (sr_int8 r) [char_of_u8 v8] v8"
    and "parses (sr_uint16 r) (mem16 (htons v16)) v16"
    and "parses (sr_int16 r) (mem16 (htons v16)) v16"
    and "parses (sr_uint32 r) (mem32 (htonl v32)) v32"
    and "parses (sr_int32 r) (mem32 (htonl v32)) v32"
  using assms
  by (simp_all add: sr_uint8_def sr_int8_def sr_uint16_def sr_int16_def sr_uint32_def sr_int32_def
      parses_value)

lemma parses_sr_bytes:
  assumes "sr_stream r" and "\<not> sr_flush r"
  shows "parses (sr_bytes r (length p)) p p"
  using assms take_prefix_length
  by (auto simp: parses_def sr_bytes_def sb_readable_unread sb_read_wf sr_done_def)

text \<open>What the 32-bit unsigned writer stores: the two high-order octets, in network order.\<close>

lemma uint32_high_half: "(ucast (htonl v) :: 16 word) = htons (ucast (drop_bit 16 v))"
proof (rule bit_word_eqI)
  fix n assume "n < LENGTH(16)"
  then have "n < 16" by simp
  then have "n < 8 \<or> (\<exists>i<8. n = 8 + i)" by (metis add_diff_inverse_nat nat_add_left_cancel_less numeral_Bit0)
  then show "bit (ucast (htonl v) :: 16 word) n = bit (htons (ucast (drop_bit 16 v))) n"
    by (elim disjE exE conjE) (auto simp: htonl_def htons_def bit_simps dest: bit_imp_le_length)
qed

lemma emits_sw_uint32:
  "sw_stream w \<Longrightarrow> emits (\<lambda>b. wrote (sw_uint32 w v b)) (mem16 (htons (ucast (drop_bit 16 v))))"
  using emits_write by (simp add: sw_uint32_def uint32_high_half)

subsection \<open>Codecs: the contract of a writer and its reader\<close>

fun write_all :: "('a \<Rightarrow> 's \<Rightarrow> (bool, 's) outcome) \<Rightarrow> 'a list \<Rightarrow> 's \<Rightarrow> (bool, 's) outcome" where
  "write_all put [] s = Ret True s"
| "write_all put (x # xs) s = and_then (put x s) (write_all put xs)"

fun read_n :: "('s \<Rightarrow> ('a option, 's) outcome) \<Rightarrow> nat \<Rightarrow> 's \<Rightarrow> ('a list option, 's) outcome" where
  "read_n get 0 s = Ret (Some []) s"
| "read_n get (Suc n) s = bind_out (get s) (\<lambda>r t.
     case r of None \<Rightarrow> Ret None t | Some x \<Rightarrow> map_ret (map_option ((#) x)) (read_n get n t))"

locale codec =
  fixes put :: "'a \<Rightarrow> stream_buffer \<Rightarrow> (bool, stream_buffer) outcome"
    and get :: "stream_buffer \<Rightarrow> ('a option, stream_buffer) outcome"
    and wire :: "'a \<Rightarrow> char list"
    and ok :: "'a \<Rightarrow> bool"
  assumes put_wire: "ok x \<Longrightarrow> emits (put x) (wire x)"
    and get_wire: "ok x \<Longrightarrow> parses get (wire x) x"
begin

lemma write_all_wire: "list_all ok xs \<Longrightarrow> emits (write_all put xs) (concat (map wire xs))"
proof (induction xs)
  case Nil
  then show ?case using emits_nil by (simp add: emits_def)
next
  case (Cons x xs)
  then show ?case using emits_and_then [OF put_wire Cons.IH] by (simp add: emits_def)
qed

lemma read_n_wire:
  "list_all ok xs \<Longrightarrow> parses (read_n get (length xs)) (concat (map wire xs)) xs"
proof (induction xs)
  case Nil
  then show ?case by (simp add: parses_def)
next
  case (Cons x xs)
  let ?h = "\<lambda>v c. map_ret (map_option ((#) v)) (read_n get (length xs) c)"
  have "parses (?h x) (concat (map wire xs)) (x # xs)"
    using Cons by (auto simp: parses_def)
  from parses_bind [where h = ?h, OF get_wire this] Cons.prems show ?case by (simp add: parses_def)
qed

lemma round_trip:
  assumes "list_all ok xs" and "sb_wf b" and "sb_unread b = []"
    and "sb_room (length (concat (map wire xs))) b"
  shows "\<exists>c d. write_all put xs b = Ret True c \<and> sb_unread c = concat (map wire xs)
    \<and> read_n get (length xs) c = Ret (Some xs) d \<and> sb_unread d = [] \<and> sb_wf d"
proof -
  obtain c where c: "write_all put xs b = Ret True c" "sb_extends (concat (map wire xs)) b c"
    using emitsD [OF write_all_wire [OF assms(1)] assms(2,4)] by blast
  have u: "sb_unread c = concat (map wire xs)"
    using sb_extends_unread [OF assms(2) c(2)] assms(3) by simp
  then have p: "take (length (concat (map wire xs))) (sb_unread c) = concat (map wire xs)" by simp
  note wf = sb_extendsD(1) [OF c(2)]
  show ?thesis
    using parsesD [OF read_n_wire [OF assms(1)] wf p] unread_after [OF wf p] c(1) u by simp
qed

end

text \<open>A writer and a reader constructed from a reference to a buffer, with default flags.\<close>

definition writer_on :: stream_writer where
  "writer_on = \<lparr>sw_stream = True\<rparr>"

definition reader_on :: stream_reader where
  "reader_on = sr_new_ref False"

lemma on_simps [simp]:
  "sw_stream writer_on" "sr_stream reader_on" "\<not> sr_flush reader_on"
  by (simp_all add: writer_on_def reader_on_def sr_new_ref_def)

interpretation u8: codec "\<lambda>v b. wrote (sw_uint8 writer_on v b)" "sr_uint8 reader_on"
  "\<lambda>v. [char_of_u8 v]" "\<lambda>_. True"
  by unfold_locales simp_all

interpretation u16: codec "\<lambda>v b. wrote (sw_uint16 writer_on v b)" "sr_uint16 reader_on"
  "\<lambda>v. mem16 (htons v)" "\<lambda>_. True"
  by unfold_locales simp_all

interpretation i32: codec "\<lambda>v b. wrote (sw_int32 writer_on v b)" "sr_int32 reader_on"
  "\<lambda>v. mem32 (htonl v)" "\<lambda>_. True"
  by unfold_locales simp_all

subsection \<open>Delimited strings\<close>

lemma sr_string_n_wf:
  assumes wf: "sb_wf b" and r: "sr_stream r"
  shows "sr_string_n r n b =
    (if n \<le> length (sb_unread b)
     then Ret (True, Some (take n (sb_unread b))) (sr_done r (b\<lparr>rpos := rpos b + n\<rparr>))
     else Ret (False, None) b)"
proof (cases "n \<le> length (sb_unread b)")
  case True
  then have n: "n \<le> wpos b - rpos b" using wf by (simp add: length_sb_unread)
  then have "n < 2 ^ 63" "rpos b + n \<le> length (bytes b)" using sb_wfD [OF wf] by auto
  then show ?thesis
    using True n wf r
    by (simp add: sr_string_n_def sb_readable_wf sb_skip_wf) (simp add: sb_unread_def take_slice)
next
  case False
  then show ?thesis using wf r by (simp add: sr_string_n_def sb_readable_unread)
qed

text \<open>
  Reading to a delimiter string, on any unread data: \<open>find_first_of\<close> stops at the first
  byte that occurs in the delimiter.
\<close>

definition scan_delim :: "char list \<Rightarrow> char list \<Rightarrow> nat option" where
  "scan_delim delim u =
     (if length u < length delim then None else find_byte (\<lambda>c. c \<in> set delim) u)"

lemma sb_readable_str_wf:
  "sb_wf b \<Longrightarrow> sb_readable_str delim b =
    Ret (case scan_delim delim (sb_unread b) of None \<Rightarrow> - 1 | Some i \<Rightarrow> int i) b"
  by (simp add: sb_readable_str_def sb_readable_unread sb_scan_wf scan_delim_def)

lemma scan_delim_less: "scan_delim delim u = Some i \<Longrightarrow> i < length u"
  by (simp add: scan_delim_def find_byte_Some split: if_splits)

lemma sr_take_delim_wf:
  assumes wf: "sb_wf b" and r: "sr_stream r" "\<not> sr_flush r" and i: "i < length (sb_unread b)"
    and k: "k < 2 ^ 63"
  shows "sr_take_delim r k (int i) b =
    (if i = 0 then Ret (True, Some []) b
     else if i + k \<le> length (sb_unread b)
     then Ret (True, Some (take i (sb_unread b))) (b\<lparr>rpos := rpos b + i + k\<rparr>)
     else Ret (False, Some (take i (sb_unread b))) (b\<lparr>rpos := rpos b + i\<rparr>))"
proof -
  have con: "sb_consumes i b (b\<lparr>rpos := rpos b + i\<rparr>)" using i by (simp add: sb_consumes_def)
  have "sb_wf (b\<lparr>rpos := rpos b + i\<rparr>)" "sb_unread (b\<lparr>rpos := rpos b + i\<rparr>) = drop i (sb_unread b)"
    using sb_consumes_wf [OF wf con] sb_consumes_unread [OF wf con] by auto
  then show ?thesis
    using i k by (auto simp: sr_take_delim_def sr_string_n_wf [OF wf r(1)] sr_done_def r sb_skip_wf)
qed

lemma sr_string_str_wf:
  assumes wf: "sb_wf b" and r: "sr_stream r" "\<not> sr_flush r" and k: "length delim < 2 ^ 63"
  shows "sr_string_str r delim b =
    (case scan_delim delim (sb_unread b) of
       None \<Rightarrow> Ret (False, None) b
     | Some i \<Rightarrow>
         if i = 0 then Ret (True, Some []) b
         else if i + length delim \<le> length (sb_unread b)
         then Ret (True, Some (take i (sb_unread b))) (b\<lparr>rpos := rpos b + i + length delim\<rparr>)
         else Ret (False, Some (take i (sb_unread b))) (b\<lparr>rpos := rpos b + i\<rparr>))"
proof (cases "scan_delim delim (sb_unread b)")
  case None
  then show ?thesis
    using r by (simp add: sr_string_str_def sb_readable_unread [OF wf] sb_readable_str_wf [OF wf]
        sr_take_delim_def)
next
  case (Some i)
  then have "\<not> length (sb_unread b) < length delim" by (auto simp: scan_delim_def)
  with Some show ?thesis
    using r sr_take_delim_wf [OF wf r scan_delim_less [OF Some] k]
    by (simp add: sr_string_str_def sb_readable_unread [OF wf] sb_readable_str_wf [OF wf])
qed

lemma scan_delim_append:
  "\<forall>c \<in> set s. c \<notin> set delim \<Longrightarrow> delim \<noteq> [] \<Longrightarrow> scan_delim delim (s @ delim @ u) = Some (length s)"
  by (cases delim) (auto simp: scan_delim_def intro: find_byte_append)

subsection \<open>Properties\<close>

datatype field = F8 "8 word" | F16 "16 word" | F32 "32 word"

text \<open>A message of integer fields, written with the signed 32-bit form where it has 32 bits.\<close>

fun put_field :: "field \<Rightarrow> stream_buffer \<Rightarrow> (bool, stream_buffer) outcome" where
  "put_field (F8 v) b = wrote (sw_uint8 writer_on v b)"
| "put_field (F16 v) b = wrote (sw_uint16 writer_on v b)"
| "put_field (F32 v) b = wrote (sw_int32 writer_on v b)"

fun get_like :: "field \<Rightarrow> stream_buffer \<Rightarrow> (field option, stream_buffer) outcome" where
  "get_like (F8 _) b = map_ret (map_option F8) (sr_uint8 reader_on b)"
| "get_like (F16 _) b = map_ret (map_option F16) (sr_uint16 reader_on b)"
| "get_like (F32 _) b = map_ret (map_option F32) (sr_int32 reader_on b)"

fun get_layout :: "field list \<Rightarrow> stream_buffer \<Rightarrow> (field list option, stream_buffer) outcome" where
  "get_layout [] b = Ret (Some []) b"
| "get_layout (x # xs) b = bind_out (get_like x b) (\<lambda>r c.
     case r of None \<Rightarrow> Ret None c | Some y \<Rightarrow> map_ret (map_option ((#) y)) (get_layout xs c))"

fun field_wire :: "field \<Rightarrow> char list" where
  "field_wire (F8 v) = [char_of_u8 v]"
| "field_wire (F16 v) = mem16 (htons v)"
| "field_wire (F32 v) = mem32 (htonl v)"

lemma parses_map: "parses g p x \<Longrightarrow> parses (\<lambda>b. map_ret (map_option f) (g b)) p (f x)"
  by (auto simp: parses_def)

lemma put_field_wire: "emits (put_field x) (field_wire x)"
  by (cases x) (use emits_sw [of writer_on] in \<open>auto simp: emits_def\<close>)

lemma get_like_wire: "parses (get_like x) (field_wire x) x"
proof (cases x)
  case (F8 v)
  then show ?thesis using parses_map [OF parses_sr(1) [of reader_on v], of F8] by (simp add: parses_def)
next
  case (F16 v)
  then show ?thesis using parses_map [OF parses_sr(3) [of reader_on v], of F16] by (simp add: parses_def)
next
  case (F32 v)
  then show ?thesis using parses_map [OF parses_sr(6) [of reader_on v], of F32] by (simp add: parses_def)
qed

lemma put_fields_wire: "emits (write_all put_field xs) (concat (map field_wire xs))"
proof (induction xs)
  case Nil
  then show ?case using emits_nil by (simp add: emits_def)
next
  case (Cons x xs)
  show ?case using emits_and_then [OF put_field_wire Cons.IH] by (simp add: emits_def)
qed

lemma get_layout_wire: "parses (get_layout xs) (concat (map field_wire xs)) xs"
proof (induction xs)
  case Nil
  then show ?case by (simp add: parses_def)
next
  case (Cons x xs)
  let ?h = "\<lambda>v c. map_ret (map_option ((#) v)) (get_layout xs c)"
  have "parses (?h x) (concat (map field_wire xs)) (x # xs)"
    by (rule parses_map [OF Cons.IH])
  from parses_bind [where h = ?h, OF get_like_wire this] show ?case by (simp add: parses_def)
qed

text \<open>
  C27. Integer fields: any sequence of 8-, 16- and (signed) 32-bit integers written to an empty
  buffer with room for their octets is stored in network order, and reading the same layout
  returns the same values and leaves nothing unread.
\<close>

theorem integer_fields_round_trip:
  assumes "sb_wf b" and "sb_unread b = []"
    and "sb_room (length (concat (map field_wire xs))) b"
  shows "\<exists>c d. write_all put_field xs b = Ret True c \<and> sb_unread c = concat (map field_wire xs)
    \<and> get_layout xs c = Ret (Some xs) d \<and> sb_wf d \<and> sb_unread d = []"
proof -
  obtain c where c: "write_all put_field xs b = Ret True c"
    "sb_extends (concat (map field_wire xs)) b c"
    using emitsD [OF put_fields_wire assms(1,3)] by blast
  have u: "sb_unread c = concat (map field_wire xs)"
    using sb_extends_unread [OF assms(1) c(2)] assms(2) by simp
  then have p: "take (length (concat (map field_wire xs))) (sb_unread c) = concat (map field_wire xs)"
    by simp
  note wf = sb_extendsD(1) [OF c(2)]
  show ?thesis
    using parsesD [OF get_layout_wire wf p] unread_after [OF wf p] c(1) u by simp
qed

definition empty_buffer :: stream_buffer where
  "empty_buffer = \<lparr>bytes = replicate 8 (CHR 0x00), limit = 64, opos = 0, rpos = 0, wpos = 0\<rparr>"

lemma empty_buffer_facts:
  "sb_wf empty_buffer" "sb_unread empty_buffer = []" "sb_data empty_buffer = []"
  "sb_room n empty_buffer \<longleftrightarrow> n \<le> 64"
  by (auto simp: empty_buffer_def sb_wf_def sb_unread_def sb_data_def sb_room_def sb_cap_def vec_max_def)

theorem integer_fields_round_trip_witness:
  "\<exists>c d. write_all put_field [F8 7, F16 258, F32 5] empty_buffer = Ret True c
    \<and> sb_unread c = concat (map field_wire [F8 7, F16 258, F32 5])
    \<and> get_layout [F8 7, F16 258, F32 5] c = Ret (Some [F8 7, F16 258, F32 5]) d \<and> sb_wf d \<and> sb_unread d = []"
  by (rule integer_fields_round_trip) (simp_all add: empty_buffer_facts)

text \<open>
  \<open>Integer(uint32_t)\<close> of the writer stores two octets only, the high-order half of the
  value in network order: a 32-bit reader does not find the value, a 16-bit reader finds
  that half.
\<close>

theorem uint32_writer_stores_high_half:
  assumes "sb_wf b" and "sb_unread b = []" and "sb_room 2 b"
  shows "\<exists>c d. sw_uint32 writer_on v b = Ret (Some (wpos b)) c
    \<and> sb_unread c = mem16 (htons (ucast (drop_bit 16 v)))
    \<and> sr_uint32 reader_on c = Ret None c
    \<and> sr_uint16 reader_on c = Ret (Some (ucast (drop_bit 16 v))) d \<and> sb_unread d = []"
proof -
  let ?h = "ucast (drop_bit 16 v) :: 16 word"
  obtain c where c: "sb_write (mem16 (htons ?h)) b = Ret (Some (wpos b)) c"
    "sb_extends (mem16 (htons ?h)) b c"
    using sb_write_room [of b "mem16 (htons ?h)"] assms by auto
  note wf = sb_extendsD(1) [OF c(2)]
  have u: "sb_unread c = mem16 (htons ?h)"
    using sb_extends_unread [OF assms(1) c(2)] assms(2) by simp
  then have p: "take (length (mem16 (htons ?h))) (sb_unread c) = mem16 (htons ?h)" by simp
  have "sr_uint32 reader_on c = Ret None c"
    using u by (simp add: sr_uint32_def sr_value_def sb_read_wf [OF wf])
  moreover have "sw_uint32 writer_on v b = Ret (Some (wpos b)) c"
    using c(1) by (simp add: sw_uint32_def uint32_high_half)
  ultimately show ?thesis
    using u parsesD [OF parses_sr(3) [OF on_simps(2,3)] wf p] unread_after [OF wf p] by auto
qed

theorem uint32_writer_stores_high_half_witness:
  "\<exists>c d. sw_uint32 writer_on 3600 empty_buffer = Ret (Some (wpos empty_buffer)) c
    \<and> sb_unread c = mem16 (htons (ucast (drop_bit 16 (3600 :: 32 word))))
    \<and> sr_uint32 reader_on c = Ret None c
    \<and> sr_uint16 reader_on c = Ret (Some (ucast (drop_bit 16 (3600 :: 32 word)))) d \<and> sb_unread d = []"
  by (rule uint32_writer_stores_high_half) (simp_all add: empty_buffer_facts)

definition CRLF :: "char list" where
  "CRLF = [CHR 0x0D, CHR 0x0A]"

text \<open>
  Lines: a non-empty line without CR and LF, written with its CRLF, is read back and the
  CRLF consumed. An empty line is read back as the empty string, but its CRLF stays in the
  buffer.
\<close>

theorem line_round_trip:
  assumes "sb_wf b" and "sb_unread b = []" and "sb_room (length s + 2) b"
    and "\<forall>c \<in> set s. c \<notin> set CRLF"
  shows "\<exists>c d. sw_string_str writer_on s CRLF b = Ret (Some (wpos b)) c
    \<and> sr_string_str reader_on CRLF c = Ret (True, Some s) d
    \<and> sb_wf d \<and> sb_unread d = (if s = [] then CRLF else [])"
proof -
  have len: "length CRLF = 2" by (simp add: CRLF_def)
  have ne: "CRLF \<noteq> []" by (simp add: CRLF_def)
  obtain c where c: "sb_write (s @ CRLF) b = Ret (Some (wpos b)) c" "sb_extends (s @ CRLF) b c"
    using sb_write_room [of b "s @ CRLF"] assms by (auto simp: len)
  note wf = sb_extendsD(1) [OF c(2)]
  have u: "sb_unread c = s @ CRLF"
    using sb_extends_unread [OF assms(1) c(2)] assms(2) by simp
  then have p: "take (length (s @ CRLF)) (sb_unread c) = s @ CRLF" by simp
  have "scan_delim CRLF (sb_unread c) = Some (length s)"
    using scan_delim_append [OF assms(4) ne, of "[]"] u by simp
  then show ?thesis
    using c(1) u unread_after [OF wf p] wf
    by (auto simp: sw_string_str_def sr_string_str_wf [OF wf on_simps(2,3)] len add.assoc)
qed

theorem line_round_trip_witness:
  "\<exists>c d. sw_string_str writer_on ''Host: a'' CRLF empty_buffer = Ret (Some (wpos empty_buffer)) c
    \<and> sr_string_str reader_on CRLF c = Ret (True, Some ''Host: a'') d
    \<and> sb_wf d \<and> sb_unread d = (if ''Host: a'' = [] then CRLF else [])"
  by (rule line_round_trip) (simp_all add: empty_buffer_facts CRLF_def)

text \<open>
  A line whose CR has arrived and whose LF has not: the read reports failure, yet the line
  has been consumed, so it is lost to the next attempt.
\<close>

theorem split_delimiter_loses_line:
  assumes "sb_wf b" and "sb_unread b = s @ [CHR 0x0D]" and "s \<noteq> []"
    and "\<forall>c \<in> set s. c \<notin> set CRLF"
  shows "\<exists>c. sr_string_str reader_on CRLF b = Ret (False, Some s) c
    \<and> sb_wf c \<and> sb_unread c = [CHR 0x0D]"
proof -
  have "length s > 0" using assms(3) by simp
  then have "scan_delim CRLF (sb_unread b) = Some (length s)"
    using find_byte_append [of s "\<lambda>c. c \<in> set CRLF" "CHR 0x0D" "[]"] assms
    by (auto simp: scan_delim_def CRLF_def)
  moreover have p: "take (length s) (sb_unread b) = s" using assms(2) by simp
  ultimately show ?thesis
    using assms unread_after [OF assms(1) p]
    by (auto simp: sr_string_str_wf [OF assms(1) on_simps(2,3)] CRLF_def)
qed

theorem split_delimiter_loses_line_witness:
  "\<exists>c. sr_string_str reader_on CRLF
        \<lparr>bytes = ''GET'' @ [CHR 0x0D], limit = 8, opos = 0, rpos = 0, wpos = 4\<rparr> = Ret (False, Some ''GET'') c
    \<and> sb_wf c \<and> sb_unread c = [CHR 0x0D]"
  by (rule split_delimiter_loses_line)
    (simp_all add: sb_wf_def vec_max_def sb_unread_def slice_def CRLF_def)

end
