(* ===== verification/RandomRW.thy ===== *)
theory RandomRW
  imports StreamRW
begin

text \<open>
  \<open>RandomReader\<close> and \<open>RandomWriter\<close>: peeking and updating at a position of the
  accessible data, through an object that holds a base offset. The block and string forms add
  the base to the position; the integer forms do not.
\<close>

subsection \<open>RandomReader\<close>

record random_reader =
  rr_stream :: bool
  rr_offset :: nat

definition rr_new :: random_reader where
  "rr_new = \<lparr>rr_stream = False, rr_offset = 0\<rparr>"

definition rr_new_ptr :: "bool \<Rightarrow> nat \<Rightarrow> stream_buffer \<Rightarrow> (random_reader, stream_buffer) outcome" where
  "rr_new_ptr buf off b =
     (if \<not> buf then Fault AssertFailed
      else if off \<le> sb_size b then Ret \<lparr>rr_stream = buf, rr_offset = off\<rparr> b
      else Fault AssertFailed)"

definition rr_new_ref :: "nat \<Rightarrow> stream_buffer \<Rightarrow> (random_reader, stream_buffer) outcome" where
  "rr_new_ref off b =
     (if off \<le> sb_size b then Ret \<lparr>rr_stream = True, rr_offset = off\<rparr> b else Fault AssertFailed)"

definition rr_attach ::
  "bool \<Rightarrow> nat \<Rightarrow> random_reader \<Rightarrow> stream_buffer \<Rightarrow> (random_reader, stream_buffer) outcome" where
  "rr_attach buf off r b =
     (if \<not> buf then Fault AssertFailed
      else if off \<le> sb_size b then Ret (r\<lparr>rr_stream := buf, rr_offset := off\<rparr>) b
      else Fault AssertFailed)"

definition rr_attach_ref ::
  "nat \<Rightarrow> random_reader \<Rightarrow> stream_buffer \<Rightarrow> (random_reader, stream_buffer) outcome" where
  "rr_attach_ref off r b =
     (if off \<le> sb_size b then Ret (r\<lparr>rr_stream := True, rr_offset := off\<rparr>) b
      else Fault AssertFailed)"

text \<open>The position of the block and string forms, and their guard \<open>_offset + offset + n > Peekable()\<close>.\<close>

definition rr_pos :: "random_reader \<Rightarrow> nat \<Rightarrow> nat" where
  "rr_pos r off = sz_add (rr_offset r) off"

definition rr_beyond :: "random_reader \<Rightarrow> nat \<Rightarrow> nat \<Rightarrow> stream_buffer \<Rightarrow> bool" where
  "rr_beyond r off n b = (of_ssize (sb_peekable 0 b) < sz_add (rr_pos r off) n)"

definition rr_bytes ::
  "random_reader \<Rightarrow> nat \<Rightarrow> nat \<Rightarrow> stream_buffer \<Rightarrow> (char list option, stream_buffer) outcome" where
  "rr_bytes r off n b =
     (if \<not> rr_stream r then Ret None b
      else if rr_beyond r off n b then Ret None b
      else sb_peek (rr_pos r off) n b)"

definition rr_int8 :: "random_reader \<Rightarrow> nat \<Rightarrow> stream_buffer \<Rightarrow> (8 word option, stream_buffer) outcome" where
  "rr_int8 r off b =
     (if \<not> rr_stream r then Ret None b
      else map_ret (map_option (\<lambda>p. u8_of_char (hd p))) (sb_peek off 1 b))"

text \<open>The unsigned form peeks the octet three times, into two locals and the result.\<close>

definition rr_uint8 :: "random_reader \<Rightarrow> nat \<Rightarrow> stream_buffer \<Rightarrow> (8 word option, stream_buffer) outcome" where
  "rr_uint8 r off b =
     (if \<not> rr_stream r then Ret None b
      else bind_out (sb_peek off 1 b) (\<lambda>_ b1. bind_out (sb_peek off 1 b1) (\<lambda>_ b2.
        map_ret (map_option (\<lambda>p. u8_of_char (hd p))) (sb_peek off 1 b2))))"

definition rr_int16 :: "random_reader \<Rightarrow> nat \<Rightarrow> stream_buffer \<Rightarrow> (16 word option, stream_buffer) outcome" where
  "rr_int16 r off b =
     (if \<not> rr_stream r then Ret None b
      else map_ret (map_option (\<lambda>p. ntohs (load16 p))) (sb_peek off 2 b))"

definition rr_uint16 :: "random_reader \<Rightarrow> nat \<Rightarrow> stream_buffer \<Rightarrow> (16 word option, stream_buffer) outcome" where
  "rr_uint16 r off b =
     (if \<not> rr_stream r then Ret None b
      else map_ret (map_option (\<lambda>p. ntohs (load16 p))) (sb_peek off 2 b))"

definition rr_int32 :: "random_reader \<Rightarrow> nat \<Rightarrow> stream_buffer \<Rightarrow> (32 word option, stream_buffer) outcome" where
  "rr_int32 r off b =
     (if \<not> rr_stream r then Ret None b
      else map_ret (map_option (\<lambda>p. ntohl (load32 p))) (sb_peek off 4 b))"

definition rr_uint32 :: "random_reader \<Rightarrow> nat \<Rightarrow> stream_buffer \<Rightarrow> (32 word option, stream_buffer) outcome" where
  "rr_uint32 r off b =
     (if \<not> rr_stream r then Ret None b
      else map_ret (map_option (\<lambda>p. ntohl (load32 p))) (sb_peek off 4 b))"

definition rr_int64 :: "random_reader \<Rightarrow> nat \<Rightarrow> stream_buffer \<Rightarrow> (64 word option, stream_buffer) outcome" where
  "rr_int64 r off b = Fault AssertFailed"

definition rr_uint64 :: "random_reader \<Rightarrow> nat \<Rightarrow> stream_buffer \<Rightarrow> (64 word option, stream_buffer) outcome" where
  "rr_uint64 r off b = Fault AssertFailed"

text \<open>\<open>std::string(p, p + n)\<close> throws on a null \<open>p\<close> unless it is empty.\<close>

definition rr_string_n ::
  "random_reader \<Rightarrow> nat \<Rightarrow> nat \<Rightarrow> stream_buffer \<Rightarrow> (bool \<times> char list option, stream_buffer) outcome" where
  "rr_string_n r off n b =
     (if \<not> rr_stream r then Ret (False, None) b
      else if rr_beyond r off n b then Ret (False, None) b
      else case sb_peek_ptr (rr_pos r off) b of
             None \<Rightarrow> if n = 0 then Ret (True, Some []) b else Fault LogicErrorThrown
           | Some i \<Rightarrow> if length (bytes b) < i + n then Fault OutOfBounds
                      else Ret (True, Some (slice i n (bytes b))) b)"

definition rr_string ::
  "random_reader \<Rightarrow> nat \<Rightarrow> stream_buffer \<Rightarrow> (bool \<times> char list option, stream_buffer) outcome" where
  "rr_string r off b =
     (if \<not> rr_stream r then Ret (False, None) b
      else if rr_beyond r off 0 b then Ret (False, None) b
      else let n = sb_peekable (rr_pos r off) b in
        if n = 0 then Ret (False, None) b else rr_string_n r off (of_ssize n) b)"

definition rr_take_delim ::
  "random_reader \<Rightarrow> nat \<Rightarrow> nat \<Rightarrow> int \<Rightarrow> stream_buffer \<Rightarrow> (bool \<times> char list option, stream_buffer) outcome" where
  "rr_take_delim r off k n b =
     (if n < 0 then Ret (False, None) b
      else if n = 0 then Ret (True, Some []) b
      else bind_out (rr_string_n r off (nat n) b) (\<lambda>(ok, s) c.
        if \<not> ok then Ret (False, s) c
        else case sb_skip k c of (res, d) \<Rightarrow> Ret (res \<noteq> None, s) d))"

definition rr_string_char ::
  "random_reader \<Rightarrow> nat \<Rightarrow> char \<Rightarrow> stream_buffer \<Rightarrow> (bool \<times> char list option, stream_buffer) outcome" where
  "rr_string_char r off delim b =
     (if \<not> rr_stream r then Ret (False, None) b
      else if rr_beyond r off 1 b then Ret (False, None) b
      else bind_out (sb_peekable_char (rr_pos r off) delim b) (rr_take_delim r off 1))"

definition rr_string_str ::
  "random_reader \<Rightarrow> nat \<Rightarrow> char list \<Rightarrow> stream_buffer \<Rightarrow> (bool \<times> char list option, stream_buffer) outcome" where
  "rr_string_str r off delim b =
     (if \<not> rr_stream r then Ret (False, None) b
      else if rr_beyond r off (length delim) b then Ret (False, None) b
      else bind_out (sb_peekable_str (rr_pos r off) delim b) (rr_take_delim r off (length delim)))"

subsection \<open>RandomWriter\<close>

record random_writer =
  rw_stream :: bool
  rw_offset :: nat

definition rw_new :: random_writer where
  "rw_new = \<lparr>rw_stream = False, rw_offset = 0\<rparr>"

definition rw_new_ptr :: "bool \<Rightarrow> nat \<Rightarrow> stream_buffer \<Rightarrow> (random_writer, stream_buffer) outcome" where
  "rw_new_ptr buf off b =
     (if \<not> buf then Fault AssertFailed
      else if off \<le> sb_size b then Ret \<lparr>rw_stream = buf, rw_offset = off\<rparr> b
      else Fault AssertFailed)"

definition rw_new_ref :: "nat \<Rightarrow> stream_buffer \<Rightarrow> (random_writer, stream_buffer) outcome" where
  "rw_new_ref off b =
     (if off \<le> sb_size b then Ret \<lparr>rw_stream = True, rw_offset = off\<rparr> b else Fault AssertFailed)"

definition rw_attach ::
  "bool \<Rightarrow> nat \<Rightarrow> random_writer \<Rightarrow> stream_buffer \<Rightarrow> (random_writer, stream_buffer) outcome" where
  "rw_attach buf off w b =
     (if \<not> buf then Fault AssertFailed
      else if off \<le> sb_size b then Ret (w\<lparr>rw_stream := buf, rw_offset := off\<rparr>) b
      else Fault AssertFailed)"

definition rw_attach_ref ::
  "nat \<Rightarrow> random_writer \<Rightarrow> stream_buffer \<Rightarrow> (random_writer, stream_buffer) outcome" where
  "rw_attach_ref off w b =
     (if off \<le> sb_size b then Ret (w\<lparr>rw_stream := True, rw_offset := off\<rparr>) b
      else Fault AssertFailed)"

definition rw_pos :: "random_writer \<Rightarrow> nat \<Rightarrow> nat" where
  "rw_pos w off = sz_add (rw_offset w) off"

definition rw_beyond :: "random_writer \<Rightarrow> nat \<Rightarrow> nat \<Rightarrow> stream_buffer \<Rightarrow> bool" where
  "rw_beyond w off n b = (of_ssize (sb_peekable 0 b) < sz_add (rw_pos w off) n)"

definition rw_bytes :: "random_writer \<Rightarrow> nat \<Rightarrow> char list \<Rightarrow> stream_buffer \<Rightarrow> (bool, stream_buffer) outcome" where
  "rw_bytes w off p b =
     (if \<not> rw_stream w then Ret False b
      else if rw_beyond w off (length p) b then Ret False b
      else sb_update (rw_pos w off) p b)"

definition rw_int8 :: "random_writer \<Rightarrow> nat \<Rightarrow> 8 word \<Rightarrow> stream_buffer \<Rightarrow> (bool, stream_buffer) outcome" where
  "rw_int8 w off v b = (if \<not> rw_stream w then Ret False b else sb_update off [char_of_u8 v] b)"

definition rw_uint8 :: "random_writer \<Rightarrow> nat \<Rightarrow> 8 word \<Rightarrow> stream_buffer \<Rightarrow> (bool, stream_buffer) outcome" where
  "rw_uint8 w off v b = (if \<not> rw_stream w then Ret False b else sb_update off [char_of_u8 v] b)"

definition rw_int16 :: "random_writer \<Rightarrow> nat \<Rightarrow> 16 word \<Rightarrow> stream_buffer \<Rightarrow> (bool, stream_buffer) outcome" where
  "rw_int16 w off v b = (if \<not> rw_stream w then Ret False b else sb_update off (mem16 (htons v)) b)"

definition rw_uint16 :: "random_writer \<Rightarrow> nat \<Rightarrow> 16 word \<Rightarrow> stream_buffer \<Rightarrow> (bool, stream_buffer) outcome" where
  "rw_uint16 w off v b = (if \<not> rw_stream w then Ret False b else sb_update off (mem16 (htons v)) b)"

definition rw_int32 :: "random_writer \<Rightarrow> nat \<Rightarrow> 32 word \<Rightarrow> stream_buffer \<Rightarrow> (bool, stream_buffer) outcome" where
  "rw_int32 w off v b = (if \<not> rw_stream w then Ret False b else sb_update off (mem32 (htonl v)) b)"

definition rw_uint32 :: "random_writer \<Rightarrow> nat \<Rightarrow> 32 word \<Rightarrow> stream_buffer \<Rightarrow> (bool, stream_buffer) outcome" where
  "rw_uint32 w off v b = (if \<not> rw_stream w then Ret False b else sb_update off (mem32 (htonl v)) b)"

definition rw_int64 :: "random_writer \<Rightarrow> nat \<Rightarrow> 64 word \<Rightarrow> stream_buffer \<Rightarrow> (bool, stream_buffer) outcome" where
  "rw_int64 w off v b = Fault AssertFailed"

definition rw_uint64 :: "random_writer \<Rightarrow> nat \<Rightarrow> 64 word \<Rightarrow> stream_buffer \<Rightarrow> (bool, stream_buffer) outcome" where
  "rw_uint64 w off v b = Fault AssertFailed"

definition rw_string :: "random_writer \<Rightarrow> nat \<Rightarrow> char list \<Rightarrow> stream_buffer \<Rightarrow> (bool, stream_buffer) outcome" where
  "rw_string w off s b =
     (if \<not> rw_stream w then Ret False b
      else if rw_beyond w off (length s) b then Ret False b
      else sb_update (rw_pos w off) s b)"

definition rw_string_char ::
  "random_writer \<Rightarrow> nat \<Rightarrow> char list \<Rightarrow> char \<Rightarrow> stream_buffer \<Rightarrow> (bool, stream_buffer) outcome" where
  "rw_string_char w off s delim b =
     (if \<not> rw_stream w then Ret False b
      else if s = [] then Fault OutOfBounds
      else if s ! (length s - 1) = delim then Fault AssertFailed
      else if rw_beyond w off (length (s @ [delim])) b then Ret False b
      else sb_update (rw_pos w off) (s @ [delim]) b)"

text \<open>The string-delimited form compares with \<open>Size()\<close> rather than \<open>Peekable()\<close>.\<close>

definition rw_string_str ::
  "random_writer \<Rightarrow> nat \<Rightarrow> char list \<Rightarrow> char list \<Rightarrow> stream_buffer \<Rightarrow> (bool, stream_buffer) outcome" where
  "rw_string_str w off s delim b =
     (if \<not> rw_stream w then Ret False b
      else if sb_size b < sz_add (rw_pos w off) (length (s @ delim)) then Ret False b
      else sb_update (rw_pos w off) (s @ delim) b)"

subsection \<open>On well-formed buffers\<close>

lemma sb_data_less: "sb_wf b \<Longrightarrow> length (sb_data b) < 2 ^ 63"
  using sb_wfD [of b] by (simp add: length_sb_data)

lemma rr_beyond_wf:
  "sb_wf b \<Longrightarrow> rr_offset r + off + n < 2 ^ 64 \<Longrightarrow>
    rr_beyond r off n b \<longleftrightarrow> length (sb_data b) < rr_offset r + off + n"
  by (simp add: rr_beyond_def rr_pos_def of_ssize_peekable sz_add_exact)

lemma rw_beyond_wf:
  "sb_wf b \<Longrightarrow> rw_offset w + off + n < 2 ^ 64 \<Longrightarrow>
    rw_beyond w off n b \<longleftrightarrow> length (sb_data b) < rw_offset w + off + n"
  by (simp add: rw_beyond_def rw_pos_def of_ssize_peekable sz_add_exact)

text \<open>The update all writing forms rest on: it succeeds within the data and replaces it there.\<close>

lemma sb_update_inside:
  assumes "sb_wf b" and "off + length p \<le> length (sb_data b)"
  shows "\<exists>c. sb_update off p b = Ret True c \<and> sb_wf c \<and> sb_data c = patch off p (sb_data b)
    \<and> opos c = opos b \<and> rpos c = rpos b \<and> wpos c = wpos b"
  using sb_update_wf [OF assms(1), of off p] sb_update_data [OF assms] assms by auto

lemma sb_peek_after_update:
  assumes "sb_wf c" and "sb_data c = patch off p d" and "off + length p \<le> length d"
  shows "sb_peek off (length p) c = Ret (Some p) c"
  using assms by (simp add: sb_peek_wf slice_patch_same)

lemma sb_update_outside:
  "sb_wf b \<Longrightarrow> p \<noteq> [] \<Longrightarrow> length (sb_data b) < off + length p \<Longrightarrow> sb_update off p b = Ret False b"
  by (simp add: sb_update_wf)

locale cell =
  fixes put :: "nat \<Rightarrow> 'v \<Rightarrow> stream_buffer \<Rightarrow> (bool, stream_buffer) outcome"
    and get :: "nat \<Rightarrow> stream_buffer \<Rightarrow> ('v option, stream_buffer) outcome"
    and image :: "'v \<Rightarrow> char list"
    and width :: nat
  assumes width: "length (image v) = width" "0 < width"
    and put_update: "put off v b = sb_update off (image v) b"
    and get_peek: "sb_wf b \<Longrightarrow> sb_peek off width b = Ret (Some (image v)) b \<Longrightarrow> get off b = Ret (Some v) b"
    and get_none: "sb_wf b \<Longrightarrow> sb_peek off width b = Ret None b \<Longrightarrow> get off b = Ret None b"
begin

lemma image_ne: "image v \<noteq> []"
  using width(1) [of v] width(2) by auto

lemma put_get:
  assumes "sb_wf b"
  shows "if off + width \<le> length (sb_data b)
    then \<exists>c. put off v b = Ret True c \<and> sb_wf c \<and> sb_data c = patch off (image v) (sb_data b)
      \<and> get off c = Ret (Some v) c
    else put off v b = Ret False b \<and> get off b = Ret None b"
proof (cases "off + width \<le> length (sb_data b)")
  case True
  then have fits: "off + length (image v) \<le> length (sb_data b)" by (simp add: width)
  obtain c where c: "sb_update off (image v) b = Ret True c" "sb_wf c"
    "sb_data c = patch off (image v) (sb_data b)"
    using sb_update_inside [OF assms fits] by blast
  have "sb_peek off width c = Ret (Some (image v)) c"
    using sb_peek_after_update [OF c(2,3) fits] by (simp add: width(1))
  then have "get off c = Ret (Some v) c" by (rule get_peek [OF c(2)])
  with c True show ?thesis by (auto simp: put_update)
next
  case False
  then have "length (sb_data b) < off + length (image v)" by (simp add: width)
  then have "sb_update off (image v) b = Ret False b"
    by (rule sb_update_outside [OF assms image_ne])
  moreover have "sb_peek off width b = Ret None b"
    using False width(2) by (auto simp: sb_peek_wf [OF assms])
  ultimately show ?thesis using False get_none [OF assms] by (simp add: put_update)
qed

end

text \<open>The integer forms are cells at the position itself, whatever base the objects hold.\<close>

definition rw_at :: "nat \<Rightarrow> random_writer" where
  "rw_at k = \<lparr>rw_stream = True, rw_offset = k\<rparr>"

definition rr_at :: "nat \<Rightarrow> random_reader" where
  "rr_at k = \<lparr>rr_stream = True, rr_offset = k\<rparr>"

interpretation cell8: cell "rw_uint8 (rw_at k)" "rr_uint8 (rr_at l)" "\<lambda>v. [char_of_u8 v]" 1 for k l
  by unfold_locales (simp_all add: rw_uint8_def rr_uint8_def rw_at_def rr_at_def)

interpretation cell16: cell "rw_uint16 (rw_at k)" "rr_uint16 (rr_at l)" "\<lambda>v. mem16 (htons v)" 2 for k l
  by unfold_locales (simp_all add: rw_uint16_def rr_uint16_def rw_at_def rr_at_def)

interpretation cell32: cell "rw_uint32 (rw_at k)" "rr_uint32 (rr_at l)" "\<lambda>v. mem32 (htonl v)" 4 for k l
  by unfold_locales (simp_all add: rw_uint32_def rr_uint32_def rw_at_def rr_at_def)

subsection \<open>Properties\<close>

text \<open>
  Blocks: an update through a \<open>RandomWriter\<close> at a position within the accessible data
  replaces exactly the bytes at base plus position, and a \<open>RandomReader\<close> of the same base
  peeks them back; beyond the data the update fails and changes nothing.
\<close>

theorem random_block_update_peek:
  assumes "sb_wf b" and "rw_stream w" and "rr_stream r" and "rr_offset r = rw_offset w"
    and "p \<noteq> []" and "rw_offset w + off + length p < 2 ^ 64"
  shows "if rw_offset w + off + length p \<le> length (sb_data b)
    then \<exists>c. rw_bytes w off p b = Ret True c \<and> sb_wf c
      \<and> sb_data c = patch (rw_offset w + off) p (sb_data b)
      \<and> rr_bytes r off (length p) c = Ret (Some p) c
    else rw_bytes w off p b = Ret False b \<and> rr_bytes r off (length p) b = Ret None b"
proof (cases "rw_offset w + off + length p \<le> length (sb_data b)")
  case True
  have pos: "rw_pos w off = rw_offset w + off" "rr_pos r off = rw_offset w + off"
    using assms(4,6) by (simp_all add: rw_pos_def rr_pos_def sz_add_exact)
  obtain c where c: "sb_update (rw_offset w + off) p b = Ret True c" "sb_wf c"
    "sb_data c = patch (rw_offset w + off) p (sb_data b)"
    using sb_update_inside [OF assms(1) True] by blast
  have "length (sb_data c) = length (sb_data b)" using c(3) True by simp
  then show ?thesis
    using True c assms pos sb_peek_after_update [OF c(2,3) True]
    by (simp add: rw_bytes_def rr_bytes_def rw_beyond_wf rr_beyond_wf)
next
  case False
  then show ?thesis
    using assms by (simp add: rw_bytes_def rr_bytes_def rw_beyond_wf rr_beyond_wf)
qed

definition four_bytes :: stream_buffer where
  "four_bytes = \<lparr>bytes = ''xabcdz'', limit = 8, opos = 1, rpos = 2, wpos = 5\<rparr>"

lemma four_bytes_facts: "sb_wf four_bytes" "sb_data four_bytes = ''abcd''"
  by (simp_all add: four_bytes_def sb_wf_def vec_max_def sb_data_def slice_def)

theorem random_block_update_peek_witness:
  "\<exists>c. rw_bytes (rw_at 1) 1 ''YZ'' four_bytes = Ret True c \<and> sb_wf c \<and> sb_data c = ''abYZ''
    \<and> rr_bytes (rr_at 1) 1 (length ''YZ'') c = Ret (Some ''YZ'') c"
  using random_block_update_peek [of four_bytes "rw_at 1" "rr_at 1" "''YZ''" 1]
  by (simp add: four_bytes_facts rw_at_def rr_at_def patch_def)

text \<open>
  Integers: an integer updated at a position is peeked back from that position, fails
  beyond the accessible data, and is stored at the position itself: the base offsets of the
  writer (\<open>k\<close>) and of the reader (\<open>l\<close>) play no part.
\<close>

theorem random_integers_ignore_base:
  assumes "sb_wf b"
  shows "(if off + 2 \<le> length (sb_data b)
      then \<exists>c. rw_uint16 (rw_at k) off v b = Ret True c \<and> sb_wf c
        \<and> sb_data c = patch off (mem16 (htons v)) (sb_data b) \<and> rr_uint16 (rr_at l) off c = Ret (Some v) c
      else rw_uint16 (rw_at k) off v b = Ret False b \<and> rr_uint16 (rr_at l) off b = Ret None b)
    \<and> (if off + 4 \<le> length (sb_data b)
      then \<exists>c. rw_uint32 (rw_at k) off u b = Ret True c \<and> sb_wf c
        \<and> sb_data c = patch off (mem32 (htonl u)) (sb_data b) \<and> rr_uint32 (rr_at l) off c = Ret (Some u) c
      else rw_uint32 (rw_at k) off u b = Ret False b \<and> rr_uint32 (rr_at l) off b = Ret None b)"
  by (rule conjI [OF cell16.put_get [OF assms] cell32.put_get [OF assms]])

theorem random_integers_ignore_base_witness:
  "\<exists>c. rw_uint16 (rw_at 2) 0 258 four_bytes = Ret True c \<and> sb_wf c
    \<and> sb_data c = patch 0 (mem16 (htons 258)) ''abcd'' \<and> rr_uint16 (rr_at 3) 0 c = Ret (Some 258) c"
  using random_integers_ignore_base [OF four_bytes_facts(1), of 0 2 258 3 0]
  by (simp add: four_bytes_facts)

text \<open>
  The delimited string forms of \<open>RandomReader\<close> never return a string found in the buffer:
  where there are enough bytes they scan from an address that is in fact a length.
\<close>

theorem random_delimited_reads_wild:
  assumes "sb_wf b" and "rr_stream r" and "delim \<noteq> []"
    and "rr_offset r + off + length delim < 2 ^ 64"
  shows "rr_string_str r off delim b =
    (if rr_offset r + off + length delim \<le> length (sb_data b) then Fault WildPointer
     else Ret (False, None) b)"
  using assms
  by (auto simp: rr_string_str_def rr_beyond_wf sb_peekable_str_def of_ssize_peekable rr_pos_def
      sz_add_exact)

theorem random_delimited_reads_wild_witness:
  "rr_string_str (rr_at 0) 1 CRLF four_bytes =
    (if rr_offset (rr_at 0) + 1 + length CRLF \<le> length (sb_data four_bytes) then Fault WildPointer
     else Ret (False, None) four_bytes)"
  by (rule random_delimited_reads_wild) (simp_all add: four_bytes_facts rr_at_def CRLF_def)

end
