(* ===== verification/DnsName.thy ===== *)
theory DnsName
  imports RandomRW
begin

text \<open>
  \<open>dns::DomainName\<close> (\<open>DnsRecord.hpp\<close>, \<open>DnsRecord.cpp\<close>): a list of labels, built
  from a dotted string, written as length-prefixed labels, and read back, with one level of
  decompression through a \<open>RandomReader\<close>. The two reading loops run on a bound that is
  shown to suffice.
\<close>

record domain_name =
  parts :: "char list list"

definition dn_new :: domain_name where
  "dn_new = \<lparr>parts = []\<rparr>"

definition s_valid_chars :: "char list" where
  "s_valid_chars = ''0123456789abcdefghijklmnopqrstuvwxyz-_/.''"

definition to_lower :: "char \<Rightarrow> char" where
  "to_lower c = (if 65 \<le> (of_char c :: nat) \<and> (of_char c :: nat) \<le> 90 then char_of ((of_char c :: nat) + 32) else c)"

text \<open>The loop over \<open>find_first_of(".", opos)\<close>: the parts before each dot.\<close>

lemma find_byte_less: "find_byte t s = Some i \<Longrightarrow> i < length s"
  by (simp add: find_byte_Some)

function dn_split :: "char list \<Rightarrow> char list list" where
  "dn_split name =
     (case find_byte (\<lambda>c. c = CHR ''.'') name of
        None \<Rightarrow> []
      | Some pos \<Rightarrow> take pos name # dn_split (drop (Suc pos) name))"
  by pat_completeness auto
termination
proof (relation "measure length")
  fix name pos
  assume "find_byte (\<lambda>c. c = CHR ''.'') name = Some pos"
  then have "pos < length name" by (rule find_byte_less)
  then show "(drop (Suc pos) name, name) \<in> measure length" by simp
qed simp

declare dn_split.simps [simp del]

text \<open>\<open>name[name.length() - 1]\<close> of an empty string is an access at index \<open>SIZE_MAX\<close>.\<close>

definition dn_from_string :: "char list \<Rightarrow> domain_name \<Rightarrow> (bool, domain_name) outcome" where
  "dn_from_string s d =
     (if 256 < length s then Ret False d
      else let name = map to_lower s in
        if list_ex (\<lambda>c. c \<notin> set s_valid_chars) name then Ret False d
        else if name = [] then Fault OutOfBounds
        else let name = (if name ! (length name - 1) \<noteq> CHR ''.'' then name @ ''.'' else name)
             in Ret True (d\<lparr>parts := parts d @ dn_split name\<rparr>))"

definition dn_new_string :: "char list \<Rightarrow> (bool, domain_name) outcome" where
  "dn_new_string s = dn_from_string s dn_new"

definition dn_string :: "domain_name \<Rightarrow> char list" where
  "dn_string d = concat (map (\<lambda>p. p @ ''.'') (parts d))"

text \<open>\<open>if(wlen) *wlen += n;\<close> on an \<open>unsigned short\<close>.\<close>

definition bump :: "nat \<Rightarrow> 16 word option \<Rightarrow> 16 word option" where
  "bump n = map_option (\<lambda>w. w + word_of_nat n)"

subsection \<open>Writing\<close>

fun dn_write_parts ::
  "stream_writer \<Rightarrow> char list list \<Rightarrow> 16 word option \<Rightarrow> stream_buffer
    \<Rightarrow> (bool \<times> 16 word option, stream_buffer) outcome" where
  "dn_write_parts w [] wlen b = Ret (True, wlen) b"
| "dn_write_parts w (s # ss) wlen b =
     (if s \<noteq> [] \<and> s \<noteq> ''.'' then
        bind_out (and_then (wrote (sw_uint8 w (word_of_nat (length s)) b)) (\<lambda>c. wrote (sw_string w s c)))
          (\<lambda>ok c. if \<not> ok then Ret (False, wlen) c
                  else dn_write_parts w ss (bump (1 + length s) wlen) c)
      else dn_write_parts w ss wlen b)"

definition dn_write ::
  "stream_writer \<Rightarrow> domain_name \<Rightarrow> 16 word option \<Rightarrow> stream_buffer
    \<Rightarrow> (bool \<times> 16 word option, stream_buffer) outcome" where
  "dn_write w d wlen b =
     bind_out (dn_write_parts w (parts d) wlen b) (\<lambda>(ok, wl) c.
       if \<not> ok then Ret (False, wl) c
       else bind_out (wrote (sw_uint8 w 0 c)) (\<lambda>ok e.
         if \<not> ok then Ret (False, wl) e else Ret (True, bump 1 wl) e))"

subsection \<open>Reading\<close>

datatype dn_stop = Return bool | Pointer "8 word"

text \<open>The first loop; \<open>Pointer len\<close> is the \<open>break\<close> on a length above 63.\<close>

fun dn_labels ::
  "nat \<Rightarrow> stream_reader \<Rightarrow> char list list \<Rightarrow> 16 word option \<Rightarrow> stream_buffer
    \<Rightarrow> (dn_stop \<times> char list list \<times> 16 word option, stream_buffer) outcome" where
  "dn_labels 0 r ps rlen b = Fault Diverges"
| "dn_labels (Suc f) r ps rlen b =
     bind_out (sr_uint8 r b) (\<lambda>l c. case l of
         None \<Rightarrow> Ret (Return False, ps, rlen) c
       | Some len \<Rightarrow>
           let rl = bump 1 rlen in
           if len = 0 then Ret (Return True, ps, rl) c
           else if 63 < len then Ret (Pointer len, ps, rl) c
           else bind_out (sr_string_n r (unat len) c) (\<lambda>(ok, s) d.
             case s of
               Some label \<Rightarrow> if ok then dn_labels f r (ps @ [label]) (bump (unat len) rl) d
                             else Ret (Return False, ps, rl) d
             | None \<Rightarrow> Ret (Return False, ps, rl) d))"

text \<open>The second loop, through the \<open>RandomReader\<close>; the code asserts \<open>len <= 63\<close> there.\<close>

fun dn_tail ::
  "nat \<Rightarrow> random_reader \<Rightarrow> nat \<Rightarrow> char list list \<Rightarrow> stream_buffer
    \<Rightarrow> (bool \<times> char list list, stream_buffer) outcome" where
  "dn_tail 0 rr offset ps b = Fault Diverges"
| "dn_tail (Suc f) rr offset ps b =
     bind_out (rr_uint8 rr offset b) (\<lambda>l c. case l of
         None \<Rightarrow> Ret (False, ps) c
       | Some len \<Rightarrow>
           let off = sz_add offset 1 in
           if len = 0 then Ret (True, ps) c
           else if \<not> len \<le> 63 then Fault AssertFailed
           else bind_out (rr_string_n rr off (unat len) c) (\<lambda>(ok, s) d.
             case s of
               Some label \<Rightarrow> if ok then dn_tail f rr (sz_add off (unat len)) (ps @ [label]) d
                             else Ret (False, ps) d
             | None \<Rightarrow> Ret (False, ps) d))"

text \<open>\<open>(len & 63 << 8) + off\<close>: the shift binds tighter than the mask.\<close>

definition dn_offset :: "8 word \<Rightarrow> 8 word \<Rightarrow> nat" where
  "dn_offset len off = unat (and (ucast len :: 32 word) (push_bit 8 63)) + unat off"

definition dn_read ::
  "stream_reader \<Rightarrow> domain_name \<Rightarrow> 16 word option \<Rightarrow> stream_buffer
    \<Rightarrow> (bool \<times> domain_name \<times> 16 word option, stream_buffer) outcome" where
  "dn_read r d rlen b =
     bind_out (dn_labels (Suc (sb_readable b)) r (parts d) rlen b) (\<lambda>(stop, ps, rl) c.
       case stop of
         Return ok \<Rightarrow> Ret (ok, d\<lparr>parts := ps\<rparr>, rl) c
       | Pointer len \<Rightarrow>
           bind_out (sr_uint8 r c) (\<lambda>o1 c1. case o1 of
               None \<Rightarrow> Ret (False, d\<lparr>parts := ps\<rparr>, rl) c1
             | Some off \<Rightarrow>
                 bind_out (rr_new_ptr (sr_stream r) 0 c1) (\<lambda>rr c2.
                   bind_out (dn_tail (Suc (length (bytes c2))) rr (dn_offset len off) ps c2)
                     (\<lambda>(ok, qs) e. Ret (ok, d\<lparr>parts := qs\<rparr>, bump 1 rl) e))))"

subsection \<open>Wire form\<close>

definition label_wire :: "char list \<Rightarrow> char list" where
  "label_wire p = char_of_u8 (word_of_nat (length p)) # p"

definition labels_wire :: "char list list \<Rightarrow> char list" where
  "labels_wire ps = concat (map label_wire ps)"

definition kept_labels :: "char list list \<Rightarrow> char list list" where
  "kept_labels ps = filter (\<lambda>p. p \<noteq> [] \<and> p \<noteq> ''.'') ps"

definition dn_wire :: "domain_name \<Rightarrow> char list" where
  "dn_wire d = labels_wire (kept_labels (parts d)) @ [CHR 0x00]"

text \<open>A label a name on the wire can have, and one that \<open>dn_write\<close> writes: not the single dot.\<close>

definition label_fits :: "char list \<Rightarrow> bool" where
  "label_fits p \<longleftrightarrow> p \<noteq> [] \<and> length p \<le> 63"

definition label_ok :: "char list \<Rightarrow> bool" where
  "label_ok p \<longleftrightarrow> label_fits p \<and> p \<noteq> ''.''"

lemma label_ok_fits: "list_all label_ok ps \<Longrightarrow> list_all label_fits ps"
  by (simp add: list_all_iff label_ok_def)

lemma labels_wire_simps [simp]:
  "labels_wire [] = []" "labels_wire (p # ps) = label_wire p @ labels_wire ps"
  by (simp_all add: labels_wire_def)

lemma kept_labels_ok [simp]: "list_all label_ok ps \<Longrightarrow> kept_labels ps = ps"
  by (auto simp: kept_labels_def label_ok_def label_fits_def list_all_iff filter_id_conv)

lemma length_label_wire [simp]: "length (label_wire p) = Suc (length p)"
  by (simp add: label_wire_def)

lemma bump_zero [simp]: "bump 0 w = w"
  by (cases w) (simp_all add: bump_def)

lemma bump_bump [simp]: "bump m (bump n w) = bump (n + m) w"
  by (cases w) (simp_all add: bump_def add.assoc)

lemma char_of_u8_zero [simp]: "char_of_u8 0 = CHR 0x00"
  by (simp add: char_of_u8_def char_of_def)

lemma emits_label:
  "sw_stream w \<Longrightarrow>
    emits (\<lambda>b. and_then (wrote (sw_uint8 w (word_of_nat (length s)) b)) (\<lambda>c. wrote (sw_string w s c)))
      (label_wire s)"
  using emits_and_then [OF emits_sw(3) emits_sw(2)] by (simp add: label_wire_def)

lemma dn_write_parts_wire:
  assumes w: "sw_stream w"
  shows "sb_wf b \<Longrightarrow> sb_room (length (labels_wire (kept_labels ps))) b \<Longrightarrow>
    \<exists>c. dn_write_parts w ps wl b = Ret (True, bump (length (labels_wire (kept_labels ps))) wl) c
      \<and> sb_extends (labels_wire (kept_labels ps)) b c"
proof (induction ps arbitrary: wl b)
  case Nil
  then show ?case by (simp add: kept_labels_def sb_extends_refl)
next
  case (Cons s ps)
  show ?case
  proof (cases "s \<noteq> [] \<and> s \<noteq> ''.''")
    case True
    then have k: "kept_labels (s # ps) = s # kept_labels ps" by (simp add: kept_labels_def)
    have room: "sb_room (length (label_wire s) + length (labels_wire (kept_labels ps))) b"
      using Cons.prems by (simp add: k)
    obtain c where c: "and_then (wrote (sw_uint8 w (word_of_nat (length s)) b)) (\<lambda>c. wrote (sw_string w s c))
        = Ret True c" "sb_extends (label_wire s) b c"
      using emitsD [OF emits_label [OF w] Cons.prems(1) sb_room_mono [OF room le_add1]] by blast
    have "sb_room (length (labels_wire (kept_labels ps))) c"
      by (rule sb_room_extends [OF room c(2)])
    from Cons.IH [OF sb_extendsD(1) [OF c(2)] this, of "bump (1 + length s) wl"]
    obtain e where "dn_write_parts w ps (bump (1 + length s) wl) c =
        Ret (True, bump (length (labels_wire (s # kept_labels ps))) wl) e"
      "sb_extends (labels_wire (kept_labels ps)) c e"
      by auto
    with True show ?thesis
      using c(1) sb_extends_trans [OF c(2)] by (auto simp: k)
  next
    case False
    then have "kept_labels (s # ps) = kept_labels ps" by (auto simp: kept_labels_def)
    then show ?thesis using Cons False by auto
  qed
qed

lemma dn_write_wire:
  assumes w: "sw_stream w" and wf: "sb_wf b" and room: "sb_room (length (dn_wire d)) b"
  shows "\<exists>c. dn_write w d wl b = Ret (True, bump (length (dn_wire d)) wl) c \<and> sb_extends (dn_wire d) b c"
proof -
  let ?p = "labels_wire (kept_labels (parts d))"
  have r: "sb_room (length ?p + 1) b" using room by (simp add: dn_wire_def)
  obtain c where c: "dn_write_parts w (parts d) wl b = Ret (True, bump (length ?p) wl) c"
    "sb_extends ?p b c"
    using dn_write_parts_wire [OF w wf sb_room_mono [OF r le_add1]] by blast
  have "sb_room 1 c" by (rule sb_room_extends [OF r c(2)])
  then obtain e where "wrote (sw_uint8 w 0 c) = Ret True e" "sb_extends [CHR 0x00] c e"
    using emitsD [OF emits_sw(3) [OF w] sb_extendsD(1) [OF c(2)], of 0] by auto
  with c sb_extends_trans [OF c(2)] show ?thesis
    by (auto simp: dn_write_def dn_wire_def)
qed

lemma len_byte:
  assumes "length p \<le> 63"
  shows "unat (word_of_nat (length p) :: 8 word) = length p"
    and "\<not> 63 < (word_of_nat (length p) :: 8 word)"
    and "p \<noteq> [] \<Longrightarrow> (word_of_nat (length p) :: 8 word) \<noteq> 0"
proof -
  show u: "unat (word_of_nat (length p) :: 8 word) = length p"
    using assms by (simp add: unat_of_nat)
  show "\<not> 63 < (word_of_nat (length p) :: 8 word)"
    using assms u by (simp add: word_less_nat_alt)
  show "(word_of_nat (length p) :: 8 word) \<noteq> 0" if "p \<noteq> []"
    using u that by (metis length_0_conv unat_0)
qed

lemma take_Suc_prefix: "take (Suc n) xs = c # p \<Longrightarrow> length p = n \<Longrightarrow> take 1 xs = [c] \<and> take n (drop 1 xs) = p"
  by (cases xs) auto

text \<open>One label: the length octet and the label are consumed and pushed.\<close>

lemma dn_labels_label:
  assumes r: "sr_stream r" "\<not> sr_flush r" and wf: "sb_wf b" and p: "label_fits p"
    and u: "take (length (label_wire p)) (sb_unread b) = label_wire p"
  shows "dn_labels (Suc f) r ps rl b =
    dn_labels f r (ps @ [p]) (bump (length (label_wire p)) rl) (b\<lparr>rpos := rpos b + length (label_wire p)\<rparr>)"
proof -
  let ?l = "word_of_nat (length p) :: 8 word"
  have ok: "length p \<le> 63" "p \<noteq> []" using p by (simp_all add: label_fits_def)
  have split: "take 1 (sb_unread b) = [char_of_u8 ?l]" "take (length p) (drop 1 (sb_unread b)) = p"
    using take_Suc_prefix [of "length p" "sb_unread b"] u by (simp_all add: label_wire_def)
  have u1: "take (length [char_of_u8 ?l]) (sb_unread b) = [char_of_u8 ?l]" using split(1) by simp
  note c = unread_after [OF wf u1]
  have uc: "sb_unread (b\<lparr>rpos := Suc (rpos b)\<rparr>) = drop 1 (sb_unread b)" using c(2) by simp
  have "length p \<le> length (drop 1 (sb_unread b))" by (rule take_prefix_length [OF split(2)])
  then have "sr_string_n r (length p) (b\<lparr>rpos := Suc (rpos b)\<rparr>)
      = Ret (True, Some p) (b\<lparr>rpos := Suc (rpos b) + length p\<rparr>)"
    using c(1) r split(2) sr_string_n_wf [of "b\<lparr>rpos := Suc (rpos b)\<rparr>" r "length p"]
    by (simp only: uc) (simp add: sr_done_def)
  then show ?thesis
    using parsesD [OF parses_sr(1) [OF r] wf u1] len_byte [OF ok(1)] ok(2)
    by (simp add: Let_def del: bump_bump) (simp add: label_wire_def)
qed

lemma dn_labels_wire:
  assumes r: "sr_stream r" "\<not> sr_flush r"
  shows "sb_wf b \<Longrightarrow> list_all label_fits qs \<Longrightarrow>
    take (length (labels_wire qs)) (sb_unread b) = labels_wire qs \<Longrightarrow>
    dn_labels (length qs + f) r ps rl b =
      dn_labels f r (ps @ qs) (bump (length (labels_wire qs)) rl)
        (b\<lparr>rpos := rpos b + length (labels_wire qs)\<rparr>)"
proof (induction qs arbitrary: b ps rl)
  case Nil
  then show ?case by simp
next
  case (Cons q qs)
  have p: "take (length (label_wire q)) (sb_unread b) = label_wire q"
    and s: "take (length (labels_wire qs)) (drop (length (label_wire q)) (sb_unread b)) = labels_wire qs"
    using Cons.prems(3) take_prefix_append [of "label_wire q" "labels_wire qs"] by auto
  note c = unread_after [OF Cons.prems(1) p]
  have q: "label_fits q" "list_all label_fits qs" using Cons.prems(2) by simp_all
  have "dn_labels (length (q # qs) + f) r ps rl b = dn_labels (Suc (length qs + f)) r ps rl b" by simp
  also have "\<dots> = dn_labels (length qs + f) r (ps @ [q]) (bump (length (label_wire q)) rl)
      (b\<lparr>rpos := rpos b + length (label_wire q)\<rparr>)"
    by (rule dn_labels_label [OF r Cons.prems(1) q(1) p])
  also have "\<dots> = dn_labels f r ((ps @ [q]) @ qs)
      (bump (length (labels_wire qs)) (bump (length (label_wire q)) rl))
      (b\<lparr>rpos := rpos b + length (label_wire q), rpos := rpos b + length (label_wire q) + length (labels_wire qs)\<rparr>)"
    using Cons.IH [OF c(1) q(2)] s c(2) by simp
  finally show ?case by (simp add: add.assoc)
qed

lemma length_labels_wire: "list_all label_fits ps \<Longrightarrow> length ps \<le> length (labels_wire ps)"
  by (induction ps) auto

lemma dn_wire_labels: "list_all label_ok (parts d) \<Longrightarrow> dn_wire d = labels_wire (parts d) @ [CHR 0x00]"
  by (simp add: dn_wire_def)

text \<open>The reading loop on a whole uncompressed name, with any sufficient bound.\<close>

lemma dn_labels_name:
  assumes r: "sr_stream r" "\<not> sr_flush r" and wf: "sb_wf b" and ok: "list_all label_fits qs"
    and u: "take (length (labels_wire qs @ [CHR 0x00])) (sb_unread b) = labels_wire qs @ [CHR 0x00]"
    and n: "length qs < n"
  shows "dn_labels n r ps rl b =
    Ret (Return True, ps @ qs, bump (length (labels_wire qs @ [CHR 0x00])) rl)
      (b\<lparr>rpos := rpos b + length (labels_wire qs @ [CHR 0x00])\<rparr>)"
proof -
  obtain f where f: "n = length qs + Suc f" using n by (metis less_iff_Suc_add add_Suc_right)
  have p: "take (length (labels_wire qs)) (sb_unread b) = labels_wire qs"
    and z: "take (length [char_of_u8 0]) (drop (length (labels_wire qs)) (sb_unread b)) = [char_of_u8 0]"
    using u take_prefix_append [of "labels_wire qs" "[CHR 0x00]"] by auto
  note c = unread_after [OF wf p]
  have "dn_labels n r ps rl b = dn_labels (Suc f) r (ps @ qs) (bump (length (labels_wire qs)) rl)
      (b\<lparr>rpos := rpos b + length (labels_wire qs)\<rparr>)"
    unfolding f by (rule dn_labels_wire [OF r wf ok p])
  then show ?thesis
    using parsesD [OF parses_sr(1) [OF r] c(1), of 0] z c(2) by simp
qed

lemma dn_read_name:
  assumes r: "sr_stream r" "\<not> sr_flush r" and wf: "sb_wf b" and ok: "list_all label_fits qs"
    and u: "take (length (labels_wire qs @ [CHR 0x00])) (sb_unread b) = labels_wire qs @ [CHR 0x00]"
  shows "dn_read r d rl b =
    Ret (True, d\<lparr>parts := parts d @ qs\<rparr>, bump (length (labels_wire qs @ [CHR 0x00])) rl)
      (b\<lparr>rpos := rpos b + length (labels_wire qs @ [CHR 0x00])\<rparr>)"
proof -
  have "length qs < Suc (sb_readable b)"
    using length_labels_wire [OF ok] take_prefix_length [OF u] by (simp add: sb_readable_unread [OF wf])
  from dn_labels_name [OF r wf ok u this] show ?thesis by (simp add: dn_read_def)
qed

subsection \<open>Decompression\<close>

lemma rr_uint8_wf:
  "sb_wf b \<Longrightarrow> rr_stream rr \<Longrightarrow> rr_uint8 rr off b =
    Ret (if off < length (sb_data b) then Some (u8_of_char (sb_data b ! off)) else None) b"
  by (auto simp: rr_uint8_def sb_peek_wf slice_def hd_drop_conv_nth Suc_le_eq)

lemma rr_string_n_wf:
  assumes wf: "sb_wf b" and rr: "rr_stream rr" "rr_offset rr = 0" and n: "off + n < 2 ^ 64"
  shows "rr_string_n rr off n b =
    (if off + n \<le> length (sb_data b) then Ret (True, Some (slice off n (sb_data b))) b
     else Ret (False, None) b)"
proof -
  have pos: "rr_pos rr off = off" using rr(2) n by (simp add: rr_pos_def sz_add_exact)
  have b: "rr_beyond rr off n b \<longleftrightarrow> length (sb_data b) < off + n"
    using rr(2) n by (simp add: rr_beyond_wf [OF wf])
  show ?thesis
  proof (cases "off + n \<le> length (sb_data b)")
    case True
    then have "off + n \<le> wpos b - opos b" by (simp add: length_sb_data [OF wf])
    moreover from this have "slice off n (sb_data b) = slice (opos b + off) n (bytes b)"
      by (simp add: sb_data_def slice_def drop_take min_def add.commute)
    ultimately show ?thesis
      using True b rr pos sb_wfD [OF wf] sz_sub_wf(1) [OF wf]
      by (simp add: rr_string_n_def sb_peek_ptr_def)
  next
    case False
    then show ?thesis using b rr by (simp add: rr_string_n_def)
  qed
qed

text \<open>One pass of the second loop, on any well-formed buffer.\<close>

lemma dn_tail_step:
  assumes wf: "sb_wf b" and rr: "rr_stream rr" "rr_offset rr = 0" and off: "off < 2 ^ 63 + 2 ^ 16"
  shows "dn_tail (Suc f) rr off ps b =
    (if length (sb_data b) \<le> off then Ret (False, ps) b
     else let len = u8_of_char (sb_data b ! off) in
       if len = 0 then Ret (True, ps) b
       else if 63 < len then Fault AssertFailed
       else if Suc off + unat len \<le> length (sb_data b)
       then dn_tail f rr (Suc off + unat len) (ps @ [slice (Suc off) (unat len) (sb_data b)]) b
       else Ret (False, ps) b)"
proof -
  let ?len = "u8_of_char (sb_data b ! off)"
  have u: "unat ?len < 256" using unsigned_less [of ?len] by simp
  have s: "rr_string_n rr (Suc off) (unat ?len) b =
    (if Suc off + unat ?len \<le> length (sb_data b)
     then Ret (True, Some (slice (Suc off) (unat ?len) (sb_data b))) b else Ret (False, None) b)"
    by (rule rr_string_n_wf [OF wf rr]) (use u off in simp)
  have le: "?len \<le> 63 \<longleftrightarrow> \<not> 63 < ?len" by (simp add: not_less)
  have a: "sz_add off (Suc 0) = Suc off" "sz_add (Suc off) (unat ?len) = Suc off + unat ?len"
    using u off by (simp_all add: sz_add_exact)
  show ?thesis
    by (simp add: rr_uint8_wf [OF wf rr(1)] a s Let_def le not_le del: not_less)
qed

text \<open>The second loop needs at most as many passes as there are bytes behind the offset.\<close>

lemma dn_tail_total:
  assumes wf: "sb_wf b" and rr: "rr_stream rr" "rr_offset rr = 0"
  shows "off < 2 ^ 63 \<Longrightarrow> length (sb_data b) < off + f \<Longrightarrow> 0 < f \<Longrightarrow>
    dn_tail f rr off ps b = Fault AssertFailed
      \<or> (\<exists>ok qs. dn_tail f rr off ps b = Ret (ok, ps @ qs) b)"
proof (induction f arbitrary: off ps)
  case 0
  then show ?case by simp
next
  case (Suc f)
  let ?len = "u8_of_char (sb_data b ! off)"
  have step: "dn_tail (Suc f) rr off ps b =
    (if length (sb_data b) \<le> off then Ret (False, ps) b
     else let len = ?len in
       if len = 0 then Ret (True, ps) b
       else if 63 < len then Fault AssertFailed
       else if Suc off + unat len \<le> length (sb_data b)
       then dn_tail f rr (Suc off + unat len) (ps @ [slice (Suc off) (unat len) (sb_data b)]) b
       else Ret (False, ps) b)"
    by (rule dn_tail_step [OF wf rr]) (use Suc.prems in simp)
  show ?case
  proof (cases "off < length (sb_data b) \<and> ?len \<noteq> 0 \<and> \<not> 63 < ?len \<and> Suc off + unat ?len \<le> length (sb_data b)")
    case True
    then have "unat ?len \<noteq> 0" by (simp add: unat_eq_0)
    then have pre: "Suc off + unat ?len < 2 ^ 63" "length (sb_data b) < Suc off + unat ?len + f" "0 < f"
      using True Suc.prems sb_data_less [OF wf] by linarith+
    from True have "dn_tail (Suc f) rr off ps b =
      dn_tail f rr (Suc off + unat ?len) (ps @ [slice (Suc off) (unat ?len) (sb_data b)]) b"
      by (simp only: step Let_def) simp
    with Suc.IH [OF pre, of "ps @ [slice (Suc off) (unat ?len) (sb_data b)]"] show ?thesis by auto
  next
    case False
    then show ?thesis by (auto simp: step Let_def simp del: dn_tail.simps)
  qed
qed

lemma u8_of_char_nul [simp]: "u8_of_char (CHR 0x00) = 0"
  by (metis char_of_u8_zero u8_of_char_of_u8)

lemma take_drop_nth: "take n (drop k xs) = ys \<Longrightarrow> length ys = n \<Longrightarrow> 0 < n \<Longrightarrow> k < length xs \<and> xs ! k = hd ys"
proof -
  assume eq: "take n (drop k xs) = ys" and ys: "length ys = n" "0 < n"
  then have "drop k xs \<noteq> []" by auto
  then have k: "k < length xs" by simp
  then have "drop k xs = xs ! k # drop (Suc k) xs" by (simp add: Cons_nth_drop_Suc)
  then show ?thesis using eq ys k by (cases n) auto
qed

lemma dn_tail_wire:
  assumes wf: "sb_wf b" and rr: "rr_stream rr" "rr_offset rr = 0"
  shows "off < 2 ^ 63 \<Longrightarrow> list_all label_fits qs \<Longrightarrow> length qs < f \<Longrightarrow>
    take (length (labels_wire qs @ [CHR 0x00])) (drop off (sb_data b)) = labels_wire qs @ [CHR 0x00] \<Longrightarrow>
    dn_tail f rr off ps b = Ret (True, ps @ qs) b"
proof (induction qs arbitrary: off ps f)
  case Nil
  then obtain g where f: "f = Suc g" by (cases f) auto
  have "off < length (sb_data b) \<and> sb_data b ! off = CHR 0x00"
    using take_drop_nth [OF Nil.prems(4)] by simp
  then show ?case using Nil.prems(1) unfolding f by (simp add: dn_tail_step [OF wf rr] del: dn_tail.simps)
next
  case (Cons q qs)
  then obtain g where f: "f = Suc g" and g: "length qs < g" by (cases f) auto
  let ?l = "word_of_nat (length q) :: 8 word"
  have ok: "label_fits q" "list_all label_fits qs" using Cons.prems(2) by simp_all
  then have len: "length q \<le> 63" "q \<noteq> []" by (simp_all add: label_fits_def)
  let ?rest = "labels_wire qs @ [CHR 0x00]"
  have split: "take (length (label_wire q)) (drop off (sb_data b)) = label_wire q"
    "take (length ?rest) (drop (off + length (label_wire q)) (sb_data b)) = ?rest"
    using Cons.prems(4) take_prefix_append [of "label_wire q" ?rest "drop off (sb_data b)"]
    by (simp_all add: add.commute)
  have hd: "off < length (sb_data b)" "sb_data b ! off = char_of_u8 ?l"
    using take_drop_nth [OF split(1)] by (simp_all add: label_wire_def)
  have fits: "off + length (label_wire q) \<le> length (sb_data b)"
    using take_prefix_length [OF split(1)] by simp
  have label: "slice (Suc off) (length q) (sb_data b) = q"
    using take_Suc_prefix [of "length q" "drop off (sb_data b)"] split(1)
    by (simp add: label_wire_def slice_def)
  have "dn_tail f rr off ps b = dn_tail g rr (Suc off + length q) (ps @ [q]) b"
    using Cons.prems(1) hd fits label len_byte [OF len(1)] len(2) unfolding f
    by (simp add: dn_tail_step [OF wf rr] del: dn_tail.simps)
  also have "\<dots> = Ret (True, (ps @ [q]) @ qs) b"
    by (rule Cons.IH) (use ok g split(2) fits sb_data_less [OF wf] in simp_all)
  finally show ?case by simp
qed

lemma dn_offset_low: "dn_offset len off = unat off"
proof -
  have m: "(63 :: 32 word) = mask 6" by (simp add: mask_eq_exp_minus_1)
  have "and (ucast len :: 32 word) (push_bit 8 63) = 0"
    unfolding m by (rule bit_word_eqI) (auto simp: bit_simps dest: bit_imp_le_length)
  then show ?thesis by (simp add: dn_offset_def)
qed

lemma rr_new_zero: "sb_wf b \<Longrightarrow> rr_new_ptr True 0 b = Ret (rr_at 0) b"
  by (simp add: rr_new_ptr_def rr_at_def)

text \<open>A name that ends in a pointer octet above 63 and a second octet.\<close>

lemma dn_read_pointer:
  assumes r: "sr_stream r" "\<not> sr_flush r" and wf: "sb_wf b" and ok: "list_all label_fits qs" and c: "63 < c"
    and u: "take (length (labels_wire qs @ [char_of_u8 c, char_of_u8 off])) (sb_unread b)
      = labels_wire qs @ [char_of_u8 c, char_of_u8 off]"
  shows "dn_read r d rl b =
    (let e = b\<lparr>rpos := rpos b + length (labels_wire qs) + 2\<rparr> in
     bind_out (dn_tail (Suc (length (bytes b))) (rr_at 0) (unat off) (parts d @ qs) e)
       (\<lambda>(ok, ps) e. Ret (ok, d\<lparr>parts := ps\<rparr>, bump (length (labels_wire qs) + 2) rl) e))
    \<and> sb_wf (b\<lparr>rpos := rpos b + length (labels_wire qs) + 2\<rparr>)"
proof -
  have p: "take (length (labels_wire qs)) (sb_unread b) = labels_wire qs"
    and z: "take (length [char_of_u8 c, char_of_u8 off]) (drop (length (labels_wire qs)) (sb_unread b))
      = [char_of_u8 c, char_of_u8 off]"
    using u take_prefix_append [of "labels_wire qs" "[char_of_u8 c, char_of_u8 off]"] by auto
  let ?b1 = "b\<lparr>rpos := rpos b + length (labels_wire qs)\<rparr>"
  note b1 = unread_after [OF wf p]
  have z1: "take (length [char_of_u8 c]) (sb_unread ?b1) = [char_of_u8 c]"
    and z2: "take (length [char_of_u8 off]) (drop 1 (sb_unread ?b1)) = [char_of_u8 off]"
    using z take_prefix_append [of "[char_of_u8 c]" "[char_of_u8 off]" "sb_unread ?b1"] b1(2) by auto
  let ?b2 = "?b1\<lparr>rpos := rpos ?b1 + length [char_of_u8 c]\<rparr>"
  note b2 = unread_after [OF b1(1) z1]
  have z3: "take (length [char_of_u8 off]) (sb_unread ?b2) = [char_of_u8 off]" using z2 b2(2) by simp
  note b3 = unread_after [OF b2(1) z3]
  have n: "\<exists>f. Suc (sb_readable b) = length qs + Suc f"
    using length_labels_wire [OF ok] take_prefix_length [OF p]
    by (intro exI [of _ "sb_readable b - length qs"]) (simp add: sb_readable_unread [OF wf])
  then obtain f where "dn_labels (Suc (sb_readable b)) r (parts d) rl b =
      dn_labels (Suc f) r (parts d @ qs) (bump (length (labels_wire qs)) rl) ?b1"
    using dn_labels_wire [OF r wf ok p] by metis
  moreover have "dn_labels (Suc f) r (parts d @ qs) (bump (length (labels_wire qs)) rl) ?b1 =
      Ret (Pointer c, parts d @ qs, bump (length (labels_wire qs) + 1) rl) ?b2"
    using parsesD [OF parses_sr(1) [OF r] b1(1) z1] c by (auto simp: Let_def)
  ultimately show ?thesis
    using parsesD [OF parses_sr(1) [OF r] b2(1) z3] b3(1) r(1)
    by (simp add: dn_read_def Let_def rr_new_zero dn_offset_low del: dn_labels.simps dn_tail.simps)
qed

lemma rr_at_facts [simp]: "rr_stream (rr_at k)" "rr_offset (rr_at k) = k"
  by (simp_all add: rr_at_def)

lemma length_data_bytes: "sb_wf b \<Longrightarrow> length (sb_data b) \<le> length (bytes b)"
  using sb_wfD [of b] by (simp add: length_sb_data)

text \<open>The bounds of both loops suffice on every well-formed buffer.\<close>

lemma sr_uint8_wf:
  assumes wf: "sb_wf b" and r: "sr_stream r" "\<not> sr_flush r"
  shows "sr_uint8 r b =
    (if sb_unread b = [] then Ret None b
     else Ret (Some (u8_of_char (hd (sb_unread b)))) (b\<lparr>rpos := Suc (rpos b)\<rparr>))"
  using r by (auto simp: sr_uint8_def sr_value_def sb_read_wf [OF wf] sr_done_def Suc_le_eq hd_take)

lemma dn_labels_total:
  assumes r: "sr_stream r" "\<not> sr_flush r"
  shows "sb_wf b \<Longrightarrow> length (sb_unread b) < f \<Longrightarrow>
    \<exists>stop qs rl' n. dn_labels f r ps rl b = Ret (stop, ps @ qs, rl') (b\<lparr>rpos := rpos b + n\<rparr>)
      \<and> n \<le> length (sb_unread b)"
proof (induction f arbitrary: b ps rl)
  case 0
  then show ?case by simp
next
  case (Suc f)
  show ?case
  proof (cases "sb_unread b")
    case Nil
    then show ?thesis by (simp add: sr_uint8_wf [OF Suc.prems(1) r])
  next
    case (Cons h t)
    let ?l = "u8_of_char h" and ?c = "b\<lparr>rpos := Suc (rpos b)\<rparr>"
    have con: "sb_consumes 1 b ?c" using Cons by (simp add: sb_consumes_def)
    have wf: "sb_wf ?c" by (rule sb_consumes_wf [OF Suc.prems(1) con])
    have u: "sb_unread ?c = t" using sb_consumes_unread [OF Suc.prems(1) con] Cons by simp
    have len: "length (sb_unread b) = Suc (length t)" by (simp add: Cons)
    have head: "sr_uint8 r b = Ret (Some ?l) ?c" by (simp add: sr_uint8_wf [OF Suc.prems(1) r] Cons)
    show ?thesis
    proof (cases "?l \<noteq> 0 \<and> \<not> 63 < ?l \<and> unat ?l \<le> length t")
      case True
      let ?d = "?c\<lparr>rpos := Suc (rpos b) + unat ?l\<rparr>"
      have con2: "sb_consumes (unat ?l) ?c ?d" using True u by (simp add: sb_consumes_def)
      have wf2: "sb_wf ?d" by (rule sb_consumes_wf [OF wf con2])
      have u2: "sb_unread ?d = drop (unat ?l) t" using sb_consumes_unread [OF wf con2] u by simp
      have "sr_string_n r (unat ?l) ?c = Ret (True, Some (take (unat ?l) t)) ?d"
        using True u r(2) by (simp add: sr_string_n_wf [OF wf r(1)] sr_done_def)
      then have eq: "dn_labels (Suc f) r ps rl b =
          dn_labels f r (ps @ [take (unat ?l) t]) (bump (1 + unat ?l) rl) ?d"
        using True head by (simp add: Let_def)
      have "length (sb_unread ?d) < f" using Suc.prems(2) len u2 by simp
      from Suc.IH [OF wf2 this, of "ps @ [take (unat ?l) t]" "bump (1 + unat ?l) rl"]
      obtain stop qs rl' n where
        "dn_labels f r (ps @ [take (unat ?l) t]) (bump (1 + unat ?l) rl) ?d =
          Ret (stop, (ps @ [take (unat ?l) t]) @ qs, rl') (?d\<lparr>rpos := rpos ?d + n\<rparr>)"
        "n \<le> length (sb_unread ?d)" by blast
      with True show ?thesis
        unfolding eq len u2 by (intro exI [of _ stop] exI [of _ "take (unat ?l) t # qs"] exI [of _ rl']
            exI [of _ "1 + unat ?l + n"]) (auto simp: add.assoc le_diff_conv2 add.commute [of n])
    next
      case False
      then show ?thesis
        using head u by (auto simp: Let_def sr_string_n_wf [OF wf r(1)] len intro!: exI [of _ 1])
    qed
  qed
qed

subsection \<open>Names on the wire\<close>

text \<open>
  \<open>name_at D d p\<close>: the octets \<open>p\<close> stand for the name \<open>d\<close> in a message with the data \<open>D\<close>, as plain
  labels or with a pointer, of the octets 192 and \<open>off\<close>, to plain labels at \<open>off\<close>.
\<close>

inductive name_at :: "char list \<Rightarrow> domain_name \<Rightarrow> char list \<Rightarrow> bool" for D where
  plain: "list_all label_fits ps \<Longrightarrow> name_at D \<lparr>parts = ps\<rparr> (labels_wire ps @ [CHR 0x00])"
| pointer: "list_all label_fits qs \<Longrightarrow> list_all label_fits ts \<Longrightarrow>
    take (length (labels_wire ts @ [CHR 0x00])) (drop (unat off) D) = labels_wire ts @ [CHR 0x00] \<Longrightarrow>
    name_at D \<lparr>parts = qs @ ts\<rparr> (labels_wire qs @ [char_of_u8 0xC0, char_of_u8 off])"

lemma dn_read_compressed:
  assumes r: "sr_stream r" "\<not> sr_flush r" and wf: "sb_wf b"
    and qs: "list_all label_fits qs" and ts: "list_all label_fits ts" and c: "63 < c"
    and u: "take (length (labels_wire qs @ [char_of_u8 c, char_of_u8 off])) (sb_unread b)
      = labels_wire qs @ [char_of_u8 c, char_of_u8 off]"
    and t: "take (length (labels_wire ts @ [CHR 0x00])) (drop (unat off) (sb_data b))
      = labels_wire ts @ [CHR 0x00]"
  shows "dn_read r d rl b =
    Ret (True, d\<lparr>parts := parts d @ qs @ ts\<rparr>, bump (length (labels_wire qs) + 2) rl)
      (b\<lparr>rpos := rpos b + length (labels_wire qs) + 2\<rparr>)"
proof -
  let ?e = "b\<lparr>rpos := rpos b + length (labels_wire qs) + 2\<rparr>"
  note p = dn_read_pointer [OF r wf qs c u, of d rl, unfolded Let_def]
  have "unat off < 256" using unsigned_less [of off] by simp
  moreover have "length ts < Suc (length (bytes b))"
    using length_labels_wire [OF ts] take_prefix_length [OF t] length_data_bytes [OF wf] by simp
  ultimately have "dn_tail (Suc (length (bytes b))) (rr_at 0) (unat off) (parts d @ qs) ?e
      = Ret (True, (parts d @ qs) @ ts) ?e"
    using ts t by (intro dn_tail_wire [OF conjunct2 [OF p]]) simp_all
  then show ?thesis using conjunct1 [OF p] by (simp del: dn_tail.simps)
qed

lemma reads_name:
  assumes r: "sr_stream r" "\<not> sr_flush r" and nm: "name_at D nm p"
  shows "reads D (dn_read r dn_new wl) (True, nm, bump (length p) wl) p"
  using nm
proof cases
  case (plain ps)
  then show ?thesis
    using dn_read_name [OF r, where qs = ps and d = dn_new] by (simp add: reads_def dn_new_def)
next
  case (pointer qs ts off)
  have "63 < (0xC0 :: 8 word)" by simp
  then show ?thesis
    using dn_read_compressed [OF r _ pointer(3,4), where c = "0xC0" and d = dn_new] pointer(2,5)
    unfolding pointer(1) reads_def by (auto simp: dn_new_def add.assoc)
qed

subsection \<open>Dotted strings\<close>

lemma dn_split_join:
  "name = [] \<or> last name = CHR ''.'' \<Longrightarrow> concat (map (\<lambda>p. p @ ''.'') (dn_split name)) = name"
proof (induction name rule: dn_split.induct)
  case (1 name)
  show ?case
  proof (cases "find_byte (\<lambda>c. c = CHR ''.'') name")
    case None
    then have "CHR ''.'' \<notin> set name" by (auto simp: find_byte_None)
    then have "name = []" using 1(2) by (cases name rule: rev_cases) auto
    then show ?thesis by (simp add: dn_split.simps [of "[]"])
  next
    case (Some pos)
    then have p: "pos < length name" "name ! pos = CHR ''.''" by (simp_all add: find_byte_Some)
    then have eq: "take pos name @ ''.'' @ drop (Suc pos) name = name"
      by (metis append_Cons append_Nil append_take_drop_id Cons_nth_drop_Suc)
    have "drop (Suc pos) name = [] \<or> last (drop (Suc pos) name) = CHR ''.''"
      using 1(2) p(1) by (cases "Suc pos < length name") (auto simp: last_drop)
    from 1(1) [OF Some this] have "concat (map (\<lambda>p. p @ ''.'') (dn_split (drop (Suc pos) name)))
        = drop (Suc pos) name" .
    then show ?thesis using eq by (simp add: dn_split.simps [of name] Some)
  qed
qed

lemma dn_split_parts: "p \<in> set (dn_split name) \<Longrightarrow> CHR ''.'' \<notin> set p \<and> set p \<subseteq> set name"
proof (induction name rule: dn_split.induct)
  case (1 name)
  show ?case
  proof (cases "find_byte (\<lambda>c. c = CHR ''.'') name")
    case None
    then show ?thesis using 1(2) by (simp add: dn_split.simps [of name])
  next
    case (Some pos)
    then have "\<forall>c \<in> set (take pos name). c \<noteq> CHR ''.''" by (simp add: find_byte_Some)
    then have "CHR ''.'' \<notin> set (take pos name)" by blast
    moreover have "p = take pos name \<or> p \<in> set (dn_split (drop (Suc pos) name))"
      using 1(2) by (simp add: dn_split.simps [of name] Some)
    ultimately show ?thesis
      using 1(1) [OF Some] set_take_subset [of pos name] set_drop_subset [of "Suc pos" name] by blast
  qed
qed

lemma to_lower_idem [simp]: "to_lower (to_lower c) = to_lower c"
  by (simp add: to_lower_def)

lemma to_lower_valid: "c \<in> set s_valid_chars \<Longrightarrow> to_lower c = c"
  by (auto simp: s_valid_chars_def to_lower_def)

text \<open>An accepted string, with the dot that is added when it is missing.\<close>

definition dotted :: "char list \<Rightarrow> char list" where
  "dotted s = (let name = map to_lower s in if last name \<noteq> CHR ''.'' then name @ ''.'' else name)"

lemma dn_from_string_accepts:
  "dn_from_string s d = Ret True e \<longleftrightarrow>
    s \<noteq> [] \<and> length s \<le> 256 \<and> (\<forall>c \<in> set s. to_lower c \<in> set s_valid_chars)
      \<and> e = d\<lparr>parts := parts d @ dn_split (dotted s)\<rparr>"
  by (auto simp: dn_from_string_def dotted_def Let_def list_ex_iff last_conv_nth last_map
      split: if_splits)

lemma dotted_ends: "s \<noteq> [] \<Longrightarrow> last (dotted s) = CHR ''.''"
  by (simp add: dotted_def Let_def)

lemma dotted_chars: "c \<in> set (dotted s) \<Longrightarrow> c = CHR ''.'' \<or> c \<in> to_lower ` set s"
  by (auto simp: dotted_def Let_def split: if_splits)

lemma dotted_idem:
  assumes "s \<noteq> []" and "\<forall>c \<in> set s. to_lower c \<in> set s_valid_chars"
  shows "dotted (dotted s) = dotted s" and "\<forall>c \<in> set (dotted s). to_lower c \<in> set s_valid_chars"
    and "dotted s \<noteq> []"
proof -
  have dot: "CHR ''.'' \<in> set s_valid_chars" by (simp add: s_valid_chars_def)
  have v: "\<forall>c \<in> set (dotted s). c \<in> set s_valid_chars"
    using dotted_chars assms(2) dot by blast
  then have m: "map to_lower (dotted s) = dotted s"
    by (intro map_idI) (simp add: to_lower_valid)
  then show "dotted (dotted s) = dotted s"
    using dotted_ends [OF assms(1)] by (simp add: dotted_def [of "dotted s"] Let_def)
  show "\<forall>c \<in> set (dotted s). to_lower c \<in> set s_valid_chars"
    using v to_lower_valid by simp
  show "dotted s \<noteq> []" by (simp add: dotted_def Let_def assms(1))
qed

lemma dn_string_split: "s \<noteq> [] \<Longrightarrow> dn_string \<lparr>parts = dn_split (dotted s)\<rparr> = dotted s"
  using dn_split_join [of "dotted s"] dotted_ends [of s] by (simp add: dn_string_def)

subsection \<open>The codec of names\<close>

definition dn_put :: "domain_name \<Rightarrow> stream_buffer \<Rightarrow> (bool, stream_buffer) outcome" where
  "dn_put d b = map_ret fst (dn_write writer_on d None b)"

definition dn_get :: "stream_buffer \<Rightarrow> (domain_name option, stream_buffer) outcome" where
  "dn_get b = map_ret (\<lambda>(ok, d, _). if ok then Some d else None) (dn_read reader_on dn_new None b)"

definition name_ok :: "domain_name \<Rightarrow> bool" where
  "name_ok d \<longleftrightarrow> list_all label_ok (parts d)"

interpretation names: codec dn_put dn_get dn_wire name_ok
proof
  fix d
  have "\<exists>c. dn_put d b = Ret True c \<and> sb_extends (dn_wire d) b c"
    if "sb_wf b" "sb_room (length (dn_wire d)) b" for b
    using dn_write_wire [OF on_simps(1) that, of None] by (auto simp: dn_put_def)
  then show "emits (dn_put d) (dn_wire d)" by (simp add: emits_def)
next
  fix d assume ok: "name_ok d"
  then have w: "dn_wire d = labels_wire (parts d) @ [CHR 0x00]"
    by (simp add: name_ok_def dn_wire_labels)
  show "parses dn_get (dn_wire d) d"
    using dn_read_name [OF on_simps(2,3) _ label_ok_fits] ok
    unfolding parses_def w by (simp add: dn_get_def name_ok_def dn_new_def)
qed

subsection \<open>Properties\<close>

text \<open>
  Dotted names: an accepted string is lower-cased and ends with a dot; its labels contain
  only valid characters and no dot; printing the name gives that string back, and parsing the
  printed form, when it is not too long, gives the same name.
\<close>

theorem dotted_name_round_trip:
  assumes "dn_new_string s = Ret True d"
  shows "dn_string d = dotted s
    \<and> (\<forall>p \<in> set (parts d). CHR ''.'' \<notin> set p \<and> set p \<subseteq> set s_valid_chars)
    \<and> (length (dn_string d) \<le> 256 \<longrightarrow> dn_new_string (dn_string d) = Ret True d)"
proof -
  have s: "s \<noteq> []" "\<forall>c \<in> set s. to_lower c \<in> set s_valid_chars"
    and d: "d = \<lparr>parts = dn_split (dotted s)\<rparr>"
    using assms by (simp_all add: dn_new_string_def dn_from_string_accepts dn_new_def)
  have str: "dn_string d = dotted s" using dn_string_split [OF s(1)] d by simp
  moreover have "CHR ''.'' \<notin> set p \<and> set p \<subseteq> set s_valid_chars" if p: "p \<in> set (parts d)" for p
  proof -
    have "CHR ''.'' \<notin> set p \<and> set p \<subseteq> set (dotted s)" using p dn_split_parts d by simp
    then show ?thesis using dotted_chars s(2) by fastforce
  qed
  moreover have "dn_new_string (dn_string d) = Ret True d" if "length (dn_string d) \<le> 256"
    using that dotted_idem [OF s] d
    unfolding dn_new_string_def dn_from_string_accepts str by (simp add: dn_new_def)
  ultimately show ?thesis by blast
qed

theorem dotted_name_round_trip_witness:
  "dn_string \<lparr>parts = [''www'', ''a-b'']\<rparr> = dotted ''wWw.a-b''
    \<and> list_all (\<lambda>p. CHR ''.'' \<notin> set p \<and> set p \<subseteq> set s_valid_chars) [''www'', ''a-b'']"
proof -
  have "map to_lower ''wWw.a-b'' = ''www.a-b''"
    and "list_all (\<lambda>c. to_lower c \<in> set s_valid_chars) ''wWw.a-b''"
    by code_simp+
  then have "dn_new_string ''wWw.a-b'' = Ret True \<lparr>parts = [''www'', ''a-b'']\<rparr>"
    unfolding dn_new_string_def dn_from_string_accepts list_all_iff dotted_def
    by (simp add: dn_new_def dn_split.simps)
  from dotted_name_round_trip [OF this] show ?thesis by simp
qed

text \<open>
  C6. Wire names: a list of names whose labels have 1 to 63 octets and are not the single dot
  (which writing leaves out), written to a buffer with nothing unread and with room for their
  wire form, is that wire form, and reading as many names returns them and leaves nothing
  unread.
\<close>

theorem wire_names_round_trip:
  assumes "list_all name_ok ds" and "sb_wf b" and "sb_unread b = []"
    and "sb_room (length (concat (map dn_wire ds))) b"
  shows "\<exists>c e. write_all dn_put ds b = Ret True c \<and> sb_unread c = concat (map dn_wire ds)
    \<and> read_n dn_get (length ds) c = Ret (Some ds) e \<and> sb_unread e = [] \<and> sb_wf e"
  using assms by (rule names.round_trip)

theorem wire_names_round_trip_witness:
  "\<exists>c e. write_all dn_put [\<lparr>parts = [''www'', ''a'']\<rparr>, \<lparr>parts = []\<rparr>] empty_buffer = Ret True c
    \<and> sb_unread c = concat (map dn_wire [\<lparr>parts = [''www'', ''a'']\<rparr>, \<lparr>parts = []\<rparr>])
    \<and> read_n dn_get (length [\<lparr>parts = [''www'', ''a'']\<rparr>, \<lparr>parts = []\<rparr>]) c
        = Ret (Some [\<lparr>parts = [''www'', ''a'']\<rparr>, \<lparr>parts = []\<rparr>]) e
    \<and> sb_unread e = [] \<and> sb_wf e"
  by (rule wire_names_round_trip)
    (simp_all add: empty_buffer_facts name_ok_def label_ok_def label_fits_def dn_wire_def kept_labels_def)

text \<open>
  Decompression: where the unread data is labels followed by a pointer (a length octet
  above 63 and a second octet), and the accessible data holds an uncompressed name at the
  position the second octet names, reading appends the labels and that name and consumes
  exactly the labels and the pointer. The six low bits of the pointer's first octet play no part.
\<close>

theorem compressed_name_read:
  assumes "sb_wf b" and "list_all label_fits qs" and "list_all label_fits ts" and "63 < c"
    and "take (length (labels_wire qs @ [char_of_u8 c, char_of_u8 off])) (sb_unread b)
      = labels_wire qs @ [char_of_u8 c, char_of_u8 off]"
    and "take (length (labels_wire ts @ [CHR 0x00])) (drop (unat off) (sb_data b))
      = labels_wire ts @ [CHR 0x00]"
  shows "dn_read reader_on d rl b =
    Ret (True, d\<lparr>parts := parts d @ qs @ ts\<rparr>, bump (length (labels_wire qs) + 2) rl)
      (b\<lparr>rpos := rpos b + length (labels_wire qs) + 2\<rparr>)"
  using assms by (rule dn_read_compressed [OF on_simps(2,3)])

definition pointer_packet :: stream_buffer where
  "pointer_packet =
     \<lparr>bytes = label_wire ''ab'' @ [CHR 0x00] @ label_wire ''x'' @ [char_of_u8 0xC0, char_of_u8 0],
      limit = 64, opos = 0, rpos = 4, wpos = 8\<rparr>"

lemma pointer_packet_facts:
  "sb_wf pointer_packet"
  "sb_unread pointer_packet = label_wire ''x'' @ [char_of_u8 0xC0, char_of_u8 0]"
  "sb_data pointer_packet = label_wire ''ab'' @ [CHR 0x00] @ label_wire ''x'' @ [char_of_u8 0xC0, char_of_u8 0]"
  by (simp_all add: pointer_packet_def sb_wf_def vec_max_def sb_unread_def sb_data_def slice_def label_wire_def)

theorem compressed_name_read_witness:
  "dn_read reader_on dn_new (Some 0) pointer_packet =
    Ret (True, dn_new\<lparr>parts := parts dn_new @ [''x''] @ [''ab'']\<rparr>,
         bump (length (labels_wire [''x'']) + 2) (Some 0))
      (pointer_packet\<lparr>rpos := rpos pointer_packet + length (labels_wire [''x'']) + 2\<rparr>)"
  by (rule compressed_name_read [where c = "0xC0" and off = 0])
    (simp_all add: pointer_packet_facts label_fits_def label_wire_def)

text \<open>
  C12. Reading a name from any well-formed buffer ends: it never exceeds the loop bounds, and
  either returns, having consumed some unread bytes and pushed labels behind those already
  there, or fails the assertion on a length above 63 behind a pointer.
\<close>

theorem name_reading_ends:
  assumes "sb_wf b"
  shows "dn_read reader_on d rl b = Fault AssertFailed
    \<or> (\<exists>ok qs rl' n. dn_read reader_on d rl b = Ret (ok, d\<lparr>parts := parts d @ qs\<rparr>, rl') (b\<lparr>rpos := rpos b + n\<rparr>)
        \<and> n \<le> length (sb_unread b))"
proof -
  have "length (sb_unread b) < Suc (sb_readable b)" by (simp add: sb_readable_unread [OF assms])
  from dn_labels_total [OF on_simps(2,3) assms this, of "parts d" rl]
  obtain stop qs rl' n where l: "dn_labels (Suc (sb_readable b)) reader_on (parts d) rl b =
      Ret (stop, parts d @ qs, rl') (b\<lparr>rpos := rpos b + n\<rparr>)" and n: "n \<le> length (sb_unread b)"
    by blast
  let ?c = "b\<lparr>rpos := rpos b + n\<rparr>"
  have con: "sb_consumes n b ?c" using n by (simp add: sb_consumes_def)
  note wf = sb_consumes_wf [OF assms con]
  show ?thesis
  proof (cases stop)
    case (Return ok)
    then show ?thesis using l n by (auto simp: dn_read_def simp del: dn_labels.simps)
  next
    case (Pointer len)
    show ?thesis
    proof (cases "sb_unread ?c")
      case Nil
      then show ?thesis
        using l n Pointer by (auto simp: dn_read_def sr_uint8_wf [OF wf] simp del: dn_labels.simps)
    next
      case (Cons h t)
      let ?e = "?c\<lparr>rpos := Suc (rpos ?c)\<rparr>"
      have con2: "sb_consumes 1 ?c ?e" using Cons by (simp add: sb_consumes_def)
      have wf2: "sb_wf ?e" by (rule sb_consumes_wf [OF wf con2])
      have n2: "Suc n \<le> length (sb_unread b)"
        using Cons sb_consumes_unread [OF assms con] n by (cases "n = length (sb_unread b)") auto
      have "unat (u8_of_char h) < 256" using unsigned_less [of "u8_of_char h"] by simp
      then have "dn_tail (Suc (length (bytes ?e))) (rr_at 0) (unat (u8_of_char h)) (parts d @ qs) ?e
          = Fault AssertFailed
        \<or> (\<exists>ok ps. dn_tail (Suc (length (bytes ?e))) (rr_at 0) (unat (u8_of_char h)) (parts d @ qs) ?e
          = Ret (ok, (parts d @ qs) @ ps) ?e)"
        using length_data_bytes [OF wf2] by (intro dn_tail_total [OF wf2]) simp_all
      moreover have "dn_read reader_on d rl b = bind_out
          (dn_tail (Suc (length (bytes ?e))) (rr_at 0) (unat (u8_of_char h)) (parts d @ qs) ?e)
          (\<lambda>(ok, ps) e. Ret (ok, d\<lparr>parts := ps\<rparr>, bump 1 rl') e)"
        using l Pointer Cons wf2
        by (simp add: dn_read_def sr_uint8_wf [OF wf] rr_new_zero dn_offset_low
            del: dn_labels.simps dn_tail.simps)
      ultimately show ?thesis using n2 by auto
    qed
  qed
qed

theorem name_reading_ends_witness:
  "dn_read reader_on dn_new None pointer_packet = Fault AssertFailed
    \<or> (\<exists>ok qs rl' n. dn_read reader_on dn_new None pointer_packet =
          Ret (ok, dn_new\<lparr>parts := parts dn_new @ qs\<rparr>, rl') (pointer_packet\<lparr>rpos := rpos pointer_packet + n\<rparr>)
        \<and> n \<le> length (sb_unread pointer_packet))"
  by (rule name_reading_ends [OF pointer_packet_facts(1)])

text \<open>
  A pointer to an octet above 63 (a pointer to a pointer included), as any peer can send
  one, fails the assertion and stops the program.
\<close>

theorem pointer_chain_asserts:
  assumes "sb_wf b" and "list_all label_fits qs" and "63 < c"
    and "take (length (labels_wire qs @ [char_of_u8 c, char_of_u8 off])) (sb_unread b)
      = labels_wire qs @ [char_of_u8 c, char_of_u8 off]"
    and "unat off < length (sb_data b)" and "63 < u8_of_char (sb_data b ! unat off)"
  shows "dn_read reader_on d rl b = Fault AssertFailed"
proof -
  note p = dn_read_pointer [OF on_simps(2,3) assms(1-4), of d rl, unfolded Let_def]
  have "unat off < 256" using unsigned_less [of off] by simp
  moreover have "u8_of_char (sb_data b ! unat off) \<noteq> 0" using assms(6) by auto
  ultimately have "dn_tail (Suc (length (bytes b))) (rr_at 0) (unat off) (parts d @ qs)
      (b\<lparr>rpos := rpos b + length (labels_wire qs) + 2\<rparr>) = Fault AssertFailed"
    using assms(5,6) by (subst dn_tail_step [OF conjunct2 [OF p]]) simp_all
  then show ?thesis using conjunct1 [OF p] by (simp del: dn_tail.simps)
qed

theorem pointer_chain_asserts_witness:
  "dn_read reader_on dn_new None
     \<lparr>bytes = [char_of_u8 0xC0, char_of_u8 0], limit = 8, opos = 0, rpos = 0, wpos = 2\<rparr> = Fault AssertFailed"
  by (rule pointer_chain_asserts [where qs = "[]" and c = "0xC0" and off = 0])
    (simp_all add: sb_wf_def vec_max_def sb_unread_def sb_data_def slice_def)

end
