(* ===== verification/DnsRecords.thy ===== *)
theory DnsRecords
  imports DnsName
begin

text \<open>
  The record data classes and \<open>dns::ResourceRecord\<close> (\<open>DnsRecord.hpp\<close>, \<open>DnsRecord.cpp\<close>).
  The class hierarchy below \<open>RecordData\<close> is a datatype and the virtual functions are defined
  by cases. An object that a failing read has partly filled is part of the result.
\<close>

subsection \<open>Types and classes\<close>

datatype RECORD_TYPE =
    RT_A | RT_NS | RT_MD | RT_MF | RT_CNAME | RT_SOA | RT_MB | RT_MG | RT_MR | RT_DUMMY
  | RT_WKS | RT_PTR | RT_HINFO | RT_MINFO | RT_MX | RT_TXT

fun rt_code :: "RECORD_TYPE \<Rightarrow> 16 word" where
  "rt_code RT_A = 1" | "rt_code RT_NS = 2" | "rt_code RT_MD = 3" | "rt_code RT_MF = 4"
| "rt_code RT_CNAME = 5" | "rt_code RT_SOA = 6" | "rt_code RT_MB = 7" | "rt_code RT_MG = 8"
| "rt_code RT_MR = 9" | "rt_code RT_DUMMY = 10" | "rt_code RT_WKS = 11" | "rt_code RT_PTR = 12"
| "rt_code RT_HINFO = 13" | "rt_code RT_MINFO = 14" | "rt_code RT_MX = 15" | "rt_code RT_TXT = 16"

datatype RECORD_CLASS = RC_IN | RC_CS | RC_CH | RC_HS

fun rc_code :: "RECORD_CLASS \<Rightarrow> 16 word" where
  "rc_code RC_IN = 1" | "rc_code RC_CS = 2" | "rc_code RC_CH = 3" | "rc_code RC_HS = 4"

subsection \<open>Record data\<close>

datatype record_data =
    ARecordData "32 word"
  | CNAMERecordData domain_name
  | SOARecordData
  | MXRecordData "16 word" domain_name
  | TXTRecordData "char list"

fun rd_type :: "record_data \<Rightarrow> 16 word" where
  "rd_type (ARecordData _) = rt_code RT_A"
| "rd_type (CNAMERecordData _) = rt_code RT_CNAME"
| "rd_type SOARecordData = rt_code RT_SOA"
| "rd_type (MXRecordData _ _) = rt_code RT_MX"
| "rd_type (TXTRecordData _) = rt_code RT_TXT"

text \<open>\<open>new T()\<close> zero-initialises the members; the allocation is taken to succeed.\<close>

definition rd_create :: "16 word \<Rightarrow> record_data option" where
  "rd_create t =
     (if t = rt_code RT_A then Some (ARecordData 0)
      else if t = rt_code RT_CNAME then Some (CNAMERecordData dn_new)
      else if t = rt_code RT_SOA then Some SOARecordData
      else if t = rt_code RT_MX then Some (MXRecordData 0 dn_new)
      else if t = rt_code RT_TXT then Some (TXTRecordData [])
      else None)"

text \<open>\<open>inet_ntoa\<close> prints the four octets in memory order.\<close>

definition inet_ntoa :: "32 word \<Rightarrow> char list" where
  "inet_ntoa a = (case map (\<lambda>c. dec_of_nat (of_char c)) (mem32 a) of
       [p, q, r, s] \<Rightarrow> p @ ''.'' @ q @ ''.'' @ r @ ''.'' @ s
     | _ \<Rightarrow> [])"

definition a_string :: "32 word \<Rightarrow> char list" where
  "a_string ip = ''A:'' @ inet_ntoa ip @ CRLF"

definition cname_string :: "domain_name \<Rightarrow> char list" where
  "cname_string name = ''CNAME:'' @ dn_string name @ CRLF"

definition soa_string :: "char list" where
  "soa_string = ''SOA, not implemented.'' @ [CHR 0x0A]"

definition mx_string :: "16 word \<Rightarrow> domain_name \<Rightarrow> char list" where
  "mx_string pref exch = ''MX:'' @ dec_of_nat (unat pref) @ '';'' @ dn_string exch @ CRLF"

definition txt_string :: "char list \<Rightarrow> char list" where
  "txt_string s = ''TXT:'' @ s @ CRLF"

fun rd_string :: "record_data \<Rightarrow> char list" where
  "rd_string (ARecordData ip) = a_string ip"
| "rd_string (CNAMERecordData name) = cname_string name"
| "rd_string SOARecordData = soa_string"
| "rd_string (MXRecordData pref exch) = mx_string pref exch"
| "rd_string (TXTRecordData s) = txt_string s"

text \<open>
  Reading. \<open>junk\<close> is the content of the local \<open>unsigned short len\<close> that the CNAME form
  leaves uninitialised before the name adds its length to it.
\<close>

definition a_read ::
  "stream_reader \<Rightarrow> 16 word \<Rightarrow> 32 word \<Rightarrow> stream_buffer \<Rightarrow> (bool \<times> record_data, stream_buffer) outcome" where
  "a_read r rdlen ip b =
     (if unat rdlen \<noteq> 4 then Ret (False, ARecordData ip) b
      else bind_out (sr_uint32 r b) (\<lambda>v c. case v of
          None \<Rightarrow> Ret (False, ARecordData ip) c
        | Some x \<Rightarrow> Ret (True, ARecordData x) c))"

definition cname_read ::
  "16 word \<Rightarrow> stream_reader \<Rightarrow> 16 word \<Rightarrow> domain_name \<Rightarrow> stream_buffer
    \<Rightarrow> (bool \<times> record_data, stream_buffer) outcome" where
  "cname_read junk r rdlen name b =
     bind_out (dn_read r name (Some junk) b) (\<lambda>(ok, nm, len) c.
       if \<not> ok then Ret (False, CNAMERecordData nm) c
       else Ret (len = Some rdlen, CNAMERecordData nm) c)"

definition soa_read ::
  "stream_reader \<Rightarrow> 16 word \<Rightarrow> stream_buffer \<Rightarrow> (bool \<times> record_data, stream_buffer) outcome" where
  "soa_read r rdlen b = Ret (True, SOARecordData) b"

definition mx_read ::
  "stream_reader \<Rightarrow> 16 word \<Rightarrow> 16 word \<Rightarrow> domain_name \<Rightarrow> stream_buffer
    \<Rightarrow> (bool \<times> record_data, stream_buffer) outcome" where
  "mx_read r rdlen pref exch b =
     bind_out (sr_uint16 r b) (\<lambda>v c. case v of
         None \<Rightarrow> Ret (False, MXRecordData pref exch) c
       | Some p \<Rightarrow> bind_out (dn_read r exch (Some 0) c) (\<lambda>(ok, nm, len) d.
           if \<not> ok then Ret (False, MXRecordData p nm) d
           else Ret (map_option (\<lambda>l. 2 + unat l) len = Some (unat rdlen), MXRecordData p nm) d))"

definition txt_read ::
  "stream_reader \<Rightarrow> 16 word \<Rightarrow> char list \<Rightarrow> stream_buffer \<Rightarrow> (bool \<times> record_data, stream_buffer) outcome" where
  "txt_read r rdlen s b =
     bind_out (sr_uint8 r b) (\<lambda>v c. case v of
         None \<Rightarrow> Ret (False, TXTRecordData s) c
       | Some len \<Rightarrow>
           if int (unat len) \<noteq> int (unat rdlen) - 1 then Ret (False, TXTRecordData s) c
           else bind_out (sr_string_n r (unat len) c) (\<lambda>(ok, t) d.
             Ret (ok, TXTRecordData (case t of None \<Rightarrow> s | Some u \<Rightarrow> u)) d))"

fun rd_read ::
  "16 word \<Rightarrow> stream_reader \<Rightarrow> 16 word \<Rightarrow> record_data \<Rightarrow> stream_buffer
    \<Rightarrow> (bool \<times> record_data, stream_buffer) outcome" where
  "rd_read junk r rdlen (ARecordData ip) b = a_read r rdlen ip b"
| "rd_read junk r rdlen (CNAMERecordData name) b = cname_read junk r rdlen name b"
| "rd_read junk r rdlen SOARecordData b = soa_read r rdlen b"
| "rd_read junk r rdlen (MXRecordData pref exch) b = mx_read r rdlen pref exch b"
| "rd_read junk r rdlen (TXTRecordData s) b = txt_read r rdlen s b"

text \<open>Writing; \<open>rdlen\<close> is the reference parameter, returned as it is left.\<close>

definition a_write ::
  "stream_writer \<Rightarrow> 32 word \<Rightarrow> 16 word \<Rightarrow> stream_buffer \<Rightarrow> (bool \<times> 16 word, stream_buffer) outcome" where
  "a_write w ip rdlen b = map_ret (\<lambda>ok. (ok, 4)) (wrote (sw_uint32 w ip b))"

definition cname_write ::
  "stream_writer \<Rightarrow> domain_name \<Rightarrow> 16 word \<Rightarrow> stream_buffer \<Rightarrow> (bool \<times> 16 word, stream_buffer) outcome" where
  "cname_write w name rdlen b =
     bind_out (dn_write w name (Some rdlen) b)
       (\<lambda>(ok, len) c. Ret (ok, case len of Some l \<Rightarrow> l | None \<Rightarrow> rdlen) c)"

definition soa_write ::
  "stream_writer \<Rightarrow> 16 word \<Rightarrow> stream_buffer \<Rightarrow> (bool \<times> 16 word, stream_buffer) outcome" where
  "soa_write w rdlen b = Ret (True, rdlen) b"

definition mx_write ::
  "stream_writer \<Rightarrow> 16 word \<Rightarrow> domain_name \<Rightarrow> 16 word \<Rightarrow> stream_buffer
    \<Rightarrow> (bool \<times> 16 word, stream_buffer) outcome" where
  "mx_write w pref exch rdlen b =
     bind_out (wrote (sw_uint16 w pref b)) (\<lambda>ok c.
       if \<not> ok then Ret (False, rdlen) c
       else bind_out (dn_write w exch (Some 0) c) (\<lambda>(ok, len) d.
         if \<not> ok then Ret (False, rdlen + 2) d
         else Ret (True, rdlen + 2 + (case len of Some l \<Rightarrow> l | None \<Rightarrow> 0)) d))"

definition txt_write ::
  "stream_writer \<Rightarrow> char list \<Rightarrow> 16 word \<Rightarrow> stream_buffer \<Rightarrow> (bool \<times> 16 word, stream_buffer) outcome" where
  "txt_write w s rdlen b =
     (if \<not> length s \<le> 256 then Fault AssertFailed
      else bind_out (wrote (sw_uint8 w (word_of_nat (length s)) b)) (\<lambda>ok c.
        if \<not> ok then Ret (False, rdlen) c
        else bind_out (wrote (sw_string w s c)) (\<lambda>ok d.
          if \<not> ok then Ret (False, rdlen + 1) d
          else Ret (True, rdlen + 1 + word_of_nat (length s)) d)))"

fun rd_write ::
  "stream_writer \<Rightarrow> record_data \<Rightarrow> 16 word \<Rightarrow> stream_buffer
    \<Rightarrow> (bool \<times> 16 word, stream_buffer) outcome" where
  "rd_write w (ARecordData ip) rdlen b = a_write w ip rdlen b"
| "rd_write w (CNAMERecordData name) rdlen b = cname_write w name rdlen b"
| "rd_write w SOARecordData rdlen b = soa_write w rdlen b"
| "rd_write w (MXRecordData pref exch) rdlen b = mx_write w pref exch rdlen b"
| "rd_write w (TXTRecordData s) rdlen b = txt_write w s rdlen b"

lemmas rd_read_defs [simp] = a_read_def cname_read_def soa_read_def mx_read_def txt_read_def
lemmas rd_write_defs [simp] = a_write_def cname_write_def soa_write_def mx_write_def txt_write_def

subsection \<open>Resource records\<close>

record resource_record =
  rname :: domain_name
  rtype :: "16 word"
  rclass :: "16 word"
  ttl :: "32 word"
  rdlen :: "16 word"
  rdata :: "record_data option"

definition rec_new :: resource_record where
  "rec_new = \<lparr>rname = dn_new, rtype = 0, rclass = 0, ttl = 0, rdlen = 0, rdata = None\<rparr>"

definition rec_type :: "resource_record \<Rightarrow> 16 word" where
  "rec_type rec = rtype rec"

definition rec_string :: "resource_record \<Rightarrow> char list" where
  "rec_string rec = (case rdata rec of None \<Rightarrow> [] | Some rd \<Rightarrow> rd_string rd)"

text \<open>\<open>reader.Integer(field) && ...\<close>: the field is set only when the read succeeds.\<close>

definition read_into ::
  "(stream_buffer \<Rightarrow> ('v option, stream_buffer) outcome) \<Rightarrow> ('v \<Rightarrow> 'r \<Rightarrow> 'r)
    \<Rightarrow> ('r \<Rightarrow> stream_buffer \<Rightarrow> (bool \<times> 'r, stream_buffer) outcome) \<Rightarrow> 'r \<Rightarrow> stream_buffer
    \<Rightarrow> (bool \<times> 'r, stream_buffer) outcome" where
  "read_into g upd k rec b = bind_out (g b) (\<lambda>v c. case v of None \<Rightarrow> Ret (False, rec) c | Some x \<Rightarrow> k (upd x rec) c)"

definition rec_read_data ::
  "16 word \<Rightarrow> stream_reader \<Rightarrow> resource_record \<Rightarrow> stream_buffer
    \<Rightarrow> (bool \<times> resource_record, stream_buffer) outcome" where
  "rec_read_data junk r rec b =
     (case (case rdata rec of None \<Rightarrow> rd_create (rtype rec) | Some rd \<Rightarrow> Some rd) of
        None \<Rightarrow> Ret (False, rec) b
      | Some rd \<Rightarrow> bind_out (rd_read junk r (rdlen rec) rd b)
          (\<lambda>(ok, rd') c. Ret (ok, rec\<lparr>rdata := Some rd'\<rparr>) c))"

definition rec_read ::
  "16 word \<Rightarrow> stream_reader \<Rightarrow> resource_record \<Rightarrow> stream_buffer
    \<Rightarrow> (bool \<times> resource_record, stream_buffer) outcome" where
  "rec_read junk r rec b =
     bind_out (dn_read r (rname rec) None b) (\<lambda>(ok, nm, _) b1.
       if \<not> ok then Ret (False, rec\<lparr>rname := nm\<rparr>) b1
       else read_into (sr_uint16 r) (\<lambda>x. rtype_update (\<lambda>_. x))
         (read_into (sr_uint16 r) (\<lambda>x. rclass_update (\<lambda>_. x))
           (read_into (sr_uint32 r) (\<lambda>x. ttl_update (\<lambda>_. x))
             (read_into (sr_uint16 r) (\<lambda>x. rdlen_update (\<lambda>_. x))
               (rec_read_data junk r)))) (rec\<lparr>rname := nm\<rparr>) b1)"

text \<open>
  The length field is written twice: first as it is, then, through a \<open>RandomWriter\<close> without
  base offset, at the position that the first write reported.
\<close>

definition rec_write ::
  "stream_writer \<Rightarrow> resource_record \<Rightarrow> stream_buffer \<Rightarrow> (bool \<times> resource_record, stream_buffer) outcome" where
  "rec_write w rec b =
     (case rdata rec of
        None \<Rightarrow> Ret (False, rec) b
      | Some rd \<Rightarrow>
          bind_out
            (and_then (and_then (and_then (map_ret fst (dn_write w (rname rec) None b))
              (\<lambda>c. wrote (sw_uint16 w (rtype rec) c)))
              (\<lambda>c. wrote (sw_uint16 w (rclass rec) c)))
              (\<lambda>c. wrote (sw_uint32 w (ttl rec) c)))
            (\<lambda>ok c. if \<not> ok then Ret (False, rec) c
              else bind_out (sw_uint16 w (rdlen rec) c) (\<lambda>off c1. case off of
                  None \<Rightarrow> Ret (False, rec) c1
                | Some offset \<Rightarrow> bind_out (rd_write w rd (rdlen rec) c1) (\<lambda>(ok, len) c2.
                    let rec' = rec\<lparr>rdlen := len\<rparr> in
                    if \<not> ok then Ret (False, rec') c2
                    else bind_out (rw_new_ptr (sw_stream w) 0 c2) (\<lambda>rw c3.
                      map_ret (\<lambda>ok. (ok, rec')) (rw_uint16 rw offset len c3))))))"

subsection \<open>What is written\<close>

fun rd_ok :: "record_data \<Rightarrow> bool" where
  "rd_ok (TXTRecordData s) = (length s \<le> 256)"
| "rd_ok _ = True"

fun rd_wire :: "record_data \<Rightarrow> char list" where
  "rd_wire (ARecordData ip) = mem16 (htons (ucast (drop_bit 16 ip)))"
| "rd_wire (CNAMERecordData nm) = dn_wire nm"
| "rd_wire SOARecordData = []"
| "rd_wire (MXRecordData p nm) = mem16 (htons p) @ dn_wire nm"
| "rd_wire (TXTRecordData s) = [char_of_u8 (word_of_nat (length s))] @ s"

fun rd_len :: "16 word \<Rightarrow> record_data \<Rightarrow> 16 word" where
  "rd_len l (ARecordData ip) = 4"
| "rd_len l (CNAMERecordData nm) = l + word_of_nat (length (dn_wire nm))"
| "rd_len l SOARecordData = l"
| "rd_len l (MXRecordData p nm) = l + 2 + word_of_nat (length (dn_wire nm))"
| "rd_len l (TXTRecordData s) = l + 1 + word_of_nat (length s)"

definition rec_front :: "resource_record \<Rightarrow> char list" where
  "rec_front rec = ((dn_wire (rname rec) @ mem16 (htons (rtype rec))) @ mem16 (htons (rclass rec)))
     @ mem16 (htons (ucast (drop_bit 16 (ttl rec))))"

definition rec_image :: "resource_record \<Rightarrow> 16 word \<Rightarrow> record_data \<Rightarrow> char list" where
  "rec_image rec len rd = rec_front rec @ mem16 (htons len) @ rd_wire rd"

lemma emits_dn_write:
  "sw_stream w \<Longrightarrow> emits_ret (dn_write w d wl) (True, bump (length (dn_wire d)) wl) (dn_wire d)"
  using dn_write_wire by (auto simp: emits_ret_def)

lemma emits_rd_write:
  assumes w: "sw_stream w"
  shows "rd_ok rd \<Longrightarrow> emits_ret (rd_write w rd l) (True, rd_len l rd) (rd_wire rd)"
proof (cases rd)
  case (ARecordData ip)
  then show ?thesis
    using emits_ret_map [OF emits_sw_uint32 [OF w, of ip, folded emits_ret_emits],
        where f = "\<lambda>ok. (ok, 4 :: 16 word)"]
    by (simp add: emits_ret_def)
next
  case (CNAMERecordData nm)
  have "emits_ret (\<lambda>b. bind_out (dn_write w nm (Some l) b)
      (\<lambda>(ok, len) c. Ret (ok, case len of Some l \<Rightarrow> l | None \<Rightarrow> l) c))
      (True, rd_len l rd) (dn_wire nm @ [])"
    by (rule emits_ret_bind [OF emits_dn_write [OF w]])
      (simp add: CNAMERecordData bump_def emits_ret_Ret)
  then show ?thesis by (simp add: CNAMERecordData emits_ret_def)
next
  case SOARecordData
  then show ?thesis using emits_ret_Ret by (simp add: emits_ret_def)
next
  case (MXRecordData p nm)
  let ?k = "\<lambda>ok c. if \<not> ok then Ret (False, l) c
       else bind_out (dn_write w nm (Some 0) c) (\<lambda>(ok, len) d.
         if \<not> ok then Ret (False, l + 2) d
         else Ret (True, l + 2 + (case len of Some l \<Rightarrow> l | None \<Rightarrow> 0)) d)"
  have "emits_ret (\<lambda>c. bind_out (dn_write w nm (Some 0) c) (\<lambda>(ok, len) d.
         if \<not> ok then Ret (False, l + 2) d
         else Ret (True, l + 2 + (case len of Some l \<Rightarrow> l | None \<Rightarrow> 0)) d))
      (True, rd_len l rd) (dn_wire nm @ [])"
    by (rule emits_ret_bind [OF emits_dn_write [OF w]])
      (simp add: MXRecordData bump_def emits_ret_Ret)
  then have "emits_ret (?k True) (True, rd_len l rd) (dn_wire nm)" by (simp add: emits_ret_def)
  from emits_ret_bind [where k = ?k, OF emits_sw(5) [OF w, folded emits_ret_emits] this]
  show ?thesis by (simp add: MXRecordData emits_ret_def)
next
  case (TXTRecordData s)
  let ?j = "\<lambda>ok d. if \<not> ok then Ret (False, l + 1) d else Ret (True, l + 1 + word_of_nat (length s)) d"
  let ?k = "\<lambda>ok c. if \<not> ok then Ret (False, l) c else bind_out (wrote (sw_string w s c)) ?j"
  assume ok: "rd_ok rd"
  have "emits_ret (?j True) (True, rd_len l rd) []"
    using emits_ret_Ret by (simp add: TXTRecordData emits_ret_def)
  from emits_ret_bind [where k = ?j, OF emits_sw(2) [OF w, folded emits_ret_emits] this]
  have "emits_ret (?k True) (True, rd_len l rd) s" by (simp add: emits_ret_def)
  from emits_ret_bind [where k = ?k, OF emits_sw(3) [OF w, folded emits_ret_emits] this]
  show ?thesis using ok by (simp add: TXTRecordData emits_ret_def)
qed

lemma emits_rec_front:
  assumes w: "sw_stream w"
  shows "emits (\<lambda>b. and_then (and_then (and_then (map_ret fst (dn_write w (rname rec) None b))
              (\<lambda>c. wrote (sw_uint16 w (rtype rec) c)))
              (\<lambda>c. wrote (sw_uint16 w (rclass rec) c)))
              (\<lambda>c. wrote (sw_uint32 w (ttl rec) c))) (rec_front rec)"
proof -
  have "emits (\<lambda>b. map_ret fst (dn_write w (rname rec) None b)) (dn_wire (rname rec))"
    unfolding emits_ret_emits [symmetric] by (rule emits_ret_map [OF emits_dn_write [OF w]]) simp
  then show ?thesis
    unfolding rec_front_def
    by (intro emits_and_then emits_sw(5) [OF w] emits_sw_uint32 [OF w])
qed

lemma patch_middle: "length p = length q \<Longrightarrow> patch (length xs) p (xs @ q @ ys) = xs @ p @ ys"
  by (simp add: patch_def)

lemma rec_write_image:
  assumes w: "sw_stream w" and wf: "sb_wf b" and rd: "rdata rec = Some rd" "rd_ok rd"
    and room: "sb_room (length (rec_image rec (rdlen rec) rd)) b"
  shows "\<exists>c. rec_write w rec b =
      Ret (wpos b + length (rec_front rec) + 2 \<le> length (sb_data b @ rec_image rec (rdlen rec) rd),
           rec\<lparr>rdlen := rd_len (rdlen rec) rd\<rparr>) c
    \<and> sb_data c =
      (if wpos b + length (rec_front rec) + 2 \<le> length (sb_data b @ rec_image rec (rdlen rec) rd)
       then patch (wpos b + length (rec_front rec)) (mem16 (htons (rd_len (rdlen rec) rd)))
              (sb_data b @ rec_image rec (rdlen rec) rd)
       else sb_data b @ rec_image rec (rdlen rec) rd)
    \<and> sb_wf c \<and> opos c = opos b \<and> rpos c = rpos b"
proof -
  let ?m = "mem16 (htons (rdlen rec))"
  have r0: "sb_room (length (rec_front rec) + (length ?m + length (rd_wire rd))) b"
    using room by (simp add: rec_image_def)
  obtain c0 where c0: "and_then (and_then (and_then (map_ret fst (dn_write w (rname rec) None b))
              (\<lambda>c. wrote (sw_uint16 w (rtype rec) c)))
              (\<lambda>c. wrote (sw_uint16 w (rclass rec) c)))
              (\<lambda>c. wrote (sw_uint32 w (ttl rec) c)) = Ret True c0" "sb_extends (rec_front rec) b c0"
    using emitsD [OF emits_rec_front [OF w] wf sb_room_mono [OF r0 le_add1]] by blast
  note r1 = sb_room_extends [OF r0 c0(2)] and wf0 = sb_extendsD(1) [OF c0(2)]
  obtain c1 where c1: "sw_uint16 w (rdlen rec) c0 = Ret (Some (wpos c0)) c1" "sb_extends ?m c0 c1"
    using sb_write_room [OF wf0 sb_room_mono [OF r1 le_add1]] w by (auto simp: sw_uint16_def)
  note r2 = sb_room_extends [OF r1 c1(2)] and wf1 = sb_extendsD(1) [OF c1(2)]
  obtain c2 where c2: "rd_write w rd (rdlen rec) c1 = Ret (True, rd_len (rdlen rec) rd) c2"
    "sb_extends (rd_wire rd) c1 c2"
    using emits_retD [OF emits_rd_write [OF w rd(2)] wf1 r2] by blast
  have ext: "sb_extends (rec_image rec (rdlen rec) rd) b c2"
    using sb_extends_trans [OF c0(2) sb_extends_trans [OF c1(2) c2(2)]] by (simp add: rec_image_def)
  note wf2 = sb_extendsD(1) [OF c2(2)]
  have d2: "sb_data c2 = sb_data b @ rec_image rec (rdlen rec) rd"
    by (rule sb_extends_data [OF wf ext])
  have off: "wpos c0 = wpos b + length (rec_front rec)" using sb_extendsD(5) [OF c0(2)] .
  have pos: "opos c2 = opos b" "rpos c2 = rpos b" using sb_extendsD [OF ext] by simp_all
  let ?p = "mem16 (htons (rd_len (rdlen rec) rd))"
  have ne: "?p \<noteq> []" by (simp add: mem16_def)
  have step: "rec_write w rec b = map_ret (\<lambda>ok. (ok, rec\<lparr>rdlen := rd_len (rdlen rec) rd\<rparr>))
      (sb_update (wpos c0) ?p c2)"
    using c0(1) c1(1) c2(1) w
    by (simp add: rec_write_def rd(1) Let_def rw_new_ptr_def rw_uint16_def)
  show ?thesis
  proof (cases "wpos c0 + length ?p \<le> length (sb_data c2)")
    case True
    from sb_update_inside [OF wf2 True] show ?thesis
      unfolding step using True d2 off pos by auto
  next
    case False
    then have "sb_update (wpos c0) ?p c2 = Ret False c2"
      by (intro sb_update_outside [OF wf2 ne]) simp
    then show ?thesis unfolding step using False d2 off pos wf2 by auto
  qed
qed

subsection \<open>What is read\<close>

text \<open>
  Record data and records in the format of RFC 1035, which the header quotes, as they stand in a
  message with the data \<open>D\<close>: names may end in a pointer. Of SOA the code reads nothing, so its data
  has to be empty; a TXT record holds one string. The local that the CNAME form leaves
  uninitialised has to be zero.
\<close>

inductive rd_at :: "char list \<Rightarrow> record_data \<Rightarrow> char list \<Rightarrow> bool" for D where
  a_data: "rd_at D (ARecordData ip) (mem32 (htonl ip))"
| cname_data: "name_at D nm p \<Longrightarrow> rd_at D (CNAMERecordData nm) p"
| soa_data: "rd_at D SOARecordData []"
| mx_data: "name_at D nm p \<Longrightarrow> rd_at D (MXRecordData pref nm) (mem16 (htons pref) @ p)"
| txt_data: "length s \<le> 255 \<Longrightarrow> rd_at D (TXTRecordData s) ([char_of_u8 (word_of_nat (length s))] @ s)"

definition rec_fields :: "resource_record \<Rightarrow> char list" where
  "rec_fields rec = mem16 (htons (rtype rec)) @ mem16 (htons (rclass rec)) @ mem32 (htonl (ttl rec))
     @ mem16 (htons (rdlen rec))"

inductive rec_at :: "16 word \<Rightarrow> char list \<Rightarrow> resource_record \<Rightarrow> char list \<Rightarrow> bool" for junk D where
  known: "name_at D (rname rec) p \<Longrightarrow> rdata rec = Some rd \<Longrightarrow> rtype rec = rd_type rd \<Longrightarrow> rd_at D rd q \<Longrightarrow>
    length q < 2 ^ 16 \<Longrightarrow> (rd \<noteq> SOARecordData \<longrightarrow> rdlen rec = word_of_nat (length q)) \<Longrightarrow>
    (rd_type rd = rt_code RT_CNAME \<longrightarrow> junk = 0) \<Longrightarrow>
    rec_at junk D rec (p @ rec_fields rec @ q)"

lemma reads_string_n:
  "sr_stream r \<Longrightarrow> \<not> sr_flush r \<Longrightarrow> n = length s \<Longrightarrow> reads D (sr_string_n r n) (True, Some s) s"
  using take_prefix_length by (auto simp: reads_def sr_string_n_wf sr_done_def)

lemma reads_option:
  assumes "parses g p x" and "reads D (k x) y q"
  shows "reads D (\<lambda>b. bind_out (g b) (\<lambda>v c. case v of None \<Rightarrow> n c | Some z \<Rightarrow> k z c)) y (p @ q)"
  by (rule reads_bind [OF reads_parses [OF assms(1)]]) (simp add: assms(2))

lemma reads_option_Ret:
  assumes "parses g p x" and "f x = y"
  shows "reads D (\<lambda>b. bind_out (g b) (\<lambda>v c. case v of None \<Rightarrow> n c | Some z \<Rightarrow> Ret (f z) c)) y p"
  using reads_option [OF assms(1), of D "\<lambda>z. Ret (f z)" y "[]" n] assms(2) by (simp add: reads_Ret)

lemma u16_of_small: "n < 2 ^ 16 \<Longrightarrow> unat (word_of_nat n :: 16 word) = n"
  by (simp add: unat_of_nat)

lemma reads_cname:
  assumes r: "sr_stream r" "\<not> sr_flush r" and nm: "name_at D nm p"
  shows "reads D (rd_read junk r l (CNAMERecordData dn_new))
    (l = junk + word_of_nat (length p), CNAMERecordData nm) p"
proof -
  let ?k = "\<lambda>(ok, nm', len) c. if \<not> ok then Ret (False, CNAMERecordData nm') c
       else Ret (len = Some l, CNAMERecordData nm') c"
  have "reads D (?k (True, nm, bump (length p) (Some junk))) (l = junk + word_of_nat (length p), CNAMERecordData nm) []"
    by (auto simp: reads_def bump_def)
  from reads_bind [where k = ?k, OF reads_name [OF r nm] this] show ?thesis by (simp add: reads_def)
qed

lemma reads_mx:
  assumes r: "sr_stream r" "\<not> sr_flush r" and nm: "name_at D nm p" and small: "2 + length p < 2 ^ 16"
    and "l = word_of_nat (2 + length p)"
  shows "reads D (rd_read junk r l (MXRecordData 0 dn_new)) (True, MXRecordData pref nm) (mem16 (htons pref) @ p)"
proof -
  have l: "unat l = 2 + length p" using assms(5) small by (simp only: u16_of_small)
  let ?j = "\<lambda>v (ok, nm', len) d. if \<not> ok then Ret (False, MXRecordData v nm') d
       else Ret (map_option (\<lambda>l. 2 + unat l) len = Some (unat l), MXRecordData v nm') d"
  have "unat (word_of_nat (length p) :: 16 word) = length p"
    using small by (intro u16_of_small) simp
  then have "reads D (?j pref (True, nm, bump (length p) (Some 0))) (True, MXRecordData pref nm) []"
    by (simp add: reads_def bump_def l)
  from reads_bind [where k = "?j pref", OF reads_name [OF r nm] this]
  have "reads D (\<lambda>c. bind_out (dn_read r dn_new (Some 0) c) (?j pref)) (True, MXRecordData pref nm) p" by simp
  from reads_option [where k = "\<lambda>v c. bind_out (dn_read r dn_new (Some 0) c) (?j v)",
      OF parses_sr(3) [OF r] this, of "Ret (False, MXRecordData 0 dn_new)"]
  show ?thesis by (simp add: reads_def)
qed

lemma reads_txt:
  assumes r: "sr_stream r" "\<not> sr_flush r" and s: "length s \<le> 255" and "l = word_of_nat (1 + length s)"
  shows "reads D (rd_read junk r l (TXTRecordData [])) (True, TXTRecordData s)
    ([char_of_u8 (word_of_nat (length s))] @ s)"
proof -
  let ?n = "word_of_nat (length s) :: 8 word"
  have n: "unat ?n = length s" using s by (simp add: unat_of_nat)
  have "1 + length s < 2 ^ 16" using s by simp
  then have l: "unat l = 1 + length s" using assms(4) by (simp only: u16_of_small)
  let ?j = "\<lambda>(ok, t) d. Ret (ok, TXTRecordData (case t of None \<Rightarrow> [] | Some u \<Rightarrow> u)) d"
  let ?k = "\<lambda>len c. if int (unat len) \<noteq> int (unat l) - 1 then Ret (False, TXTRecordData []) c
           else bind_out (sr_string_n r (unat len) c) ?j"
  have "reads D (?j (True, Some s)) (True, TXTRecordData s) []" by (simp add: reads_def)
  from reads_bind [where k = ?j, OF reads_string_n [OF r n] this]
  have "reads D (?k ?n) (True, TXTRecordData s) s" using n l by simp
  from reads_option [where k = ?k, OF parses_sr(1) [OF r] this, of "Ret (False, TXTRecordData [])"]
  show ?thesis by (simp add: reads_def)
qed

lemma reads_rd:
  assumes r: "sr_stream r" "\<not> sr_flush r" and rd: "rd_at D rd q"
    and small: "length q < 2 ^ 16" and new: "rd_create (rd_type rd) = Some rd0"
    and len: "rd \<noteq> SOARecordData \<longrightarrow> l = word_of_nat (length q)"
    and junk: "rd_type rd = rt_code RT_CNAME \<longrightarrow> junk = 0"
  shows "reads D (rd_read junk r l rd0) (True, rd) q"
  using rd
proof cases
  case (a_data ip)
  then have "rd0 = ARecordData 0" and "unat l = 4" using new len by (auto simp: rd_create_def)
  then show ?thesis
    using reads_option_Ret [OF parses_sr(5) [OF r], of "\<lambda>x. (True, ARecordData x)" ip] a_data
    by (simp add: reads_def)
next
  case (cname_data nm)
  then have "rd0 = CNAMERecordData dn_new" "l = word_of_nat (length q)" "junk = 0"
    using new len junk by (auto simp: rd_create_def)
  then show ?thesis using reads_cname [OF r cname_data(2), of junk l] cname_data(1) by simp
next
  case soa_data
  then show ?thesis using new by (simp add: rd_create_def reads_def)
next
  case (mx_data nm p pref)
  then have "rd0 = MXRecordData 0 dn_new" "l = word_of_nat (2 + length p)" "2 + length p < 2 ^ 16"
    using new len small by (auto simp: rd_create_def)
  then show ?thesis using reads_mx [OF r mx_data(3)] mx_data(1,2) by simp
next
  case (txt_data s)
  then have "rd0 = TXTRecordData []" "l = word_of_nat (1 + length s)"
    using new len by (auto simp: rd_create_def)
  then show ?thesis using reads_txt [OF r txt_data(3), of l] txt_data(1,2) by simp
qed

lemma reads_into:
  assumes "parses g p x" and "reads D (k (upd x rec)) y q"
  shows "reads D (read_into g upd k rec) y (p @ q)"
  using reads_option [OF assms(1), of D "\<lambda>z. k (upd z rec)" y q "Ret (False, rec)"] assms(2)
  by (simp add: reads_def read_into_def)

text \<open>The name and the fixed fields, up to the data.\<close>

lemma reads_rec_front:
  assumes r: "sr_stream r" "\<not> sr_flush r" and nm: "name_at D (rname rec) p"
    and data: "reads D (rec_read_data junk r (rec\<lparr>rdata := None\<rparr>)) y q"
  shows "reads D (rec_read junk r rec_new) y (p @ rec_fields rec @ q)"
proof -
  let ?k = "\<lambda>(ok, nm, _ :: 16 word option) b1.
       if \<not> ok then Ret (False, rec_new\<lparr>rname := nm\<rparr>) b1
       else read_into (sr_uint16 r) (\<lambda>x. rtype_update (\<lambda>_. x))
         (read_into (sr_uint16 r) (\<lambda>x. rclass_update (\<lambda>_. x))
           (read_into (sr_uint32 r) (\<lambda>x. ttl_update (\<lambda>_. x))
             (read_into (sr_uint16 r) (\<lambda>x. rdlen_update (\<lambda>_. x))
               (rec_read_data junk r)))) (rec_new\<lparr>rname := nm\<rparr>) b1"
  have full: "rec\<lparr>rdata := None\<rparr> = \<lparr>rname = rname rec, rtype = rtype rec, rclass = rclass rec, ttl = ttl rec,
      rdlen = rdlen rec, rdata = None\<rparr>"
    by (cases rec) simp
  have "reads D (read_into (sr_uint16 r) (\<lambda>x. rtype_update (\<lambda>_. x))
         (read_into (sr_uint16 r) (\<lambda>x. rclass_update (\<lambda>_. x))
           (read_into (sr_uint32 r) (\<lambda>x. ttl_update (\<lambda>_. x))
             (read_into (sr_uint16 r) (\<lambda>x. rdlen_update (\<lambda>_. x))
               (rec_read_data junk r)))) (rec_new\<lparr>rname := rname rec\<rparr>)) y
      (mem16 (htons (rtype rec)) @ mem16 (htons (rclass rec)) @ mem32 (htonl (ttl rec))
        @ mem16 (htons (rdlen rec)) @ q)"
    by (rule reads_into, rule parses_sr [OF r])+ (use data full in \<open>simp add: rec_new_def\<close>)
  then have "reads D (?k (True, rname rec, bump (length p) None)) y (rec_fields rec @ q)"
    by (simp add: reads_def rec_fields_def)
  from reads_bind [where k = ?k, OF reads_name [OF r nm] this] show ?thesis
    unfolding reads_def rec_read_def by (simp add: rec_new_def)
qed

lemma reads_record:
  assumes r: "sr_stream r" "\<not> sr_flush r" and rec: "rec_at junk D rec p"
  shows "reads D (rec_read junk r rec_new) (True, rec) p"
  using rec
proof cases
  case (known nm rd q)
  obtain rd0 where rd0: "rd_create (rd_type rd) = Some rd0" by (cases rd) (auto simp: rd_create_def)
  let ?r4 = "rec\<lparr>rdata := None\<rparr>"
  let ?j = "\<lambda>(ok, rd') c. Ret (ok, ?r4\<lparr>rdata := Some rd'\<rparr>) c"
  have full: "?r4\<lparr>rdata := Some rd\<rparr> = rec" using known(3) by (cases rec) simp
  have "reads D (?j (True, rd)) (True, rec) []" using full by (simp add: reads_def)
  from reads_bind [where k = ?j, OF reads_rd [OF r known(5,6) rd0 known(7,8)] this]
  have "reads D (rec_read_data junk r ?r4) (True, rec) q"
    using known(4) rd0 by (simp add: reads_def rec_read_data_def)
  from reads_rec_front [OF r known(2) this] show ?thesis using known(1) by simp
qed

text \<open>A record of a type that has no class of its own is refused before its data.\<close>

lemma reads_unknown_record:
  assumes r: "sr_stream r" "\<not> sr_flush r" and nm: "name_at D (rname rec) p"
    and none: "rd_create (rtype rec) = None"
  shows "reads D (rec_read junk r rec_new) (False, rec\<lparr>rdata := None\<rparr>) (p @ rec_fields rec)"
proof -
  have "reads D (rec_read_data junk r (rec\<lparr>rdata := None\<rparr>)) (False, rec\<lparr>rdata := None\<rparr>) []"
    by (simp add: reads_def rec_read_data_def none)
  from reads_rec_front [OF r nm this] show ?thesis by simp
qed

lemma name_ok_at: "name_ok d \<Longrightarrow> name_at D d (dn_wire d)"
  using name_at.plain [OF label_ok_fits, of "parts d" D] by (cases d) (simp add: name_ok_def dn_wire_labels)

subsection \<open>Properties\<close>

text \<open>
  C28. Reading a record in the format of RFC 1035: a name, plain or with a pointer below 256 to a
  plain name, type, class, 32-bit TTL, length and the data of an A, CNAME, MX, one-string TXT or
  empty SOA record, whose length the length field states (any length for SOA), is read as that
  record and its octets are consumed. Where the pointer leads is counted from the origin of the
  buffer. CNAME needs the uninitialised length to be zero. A record of any other type is refused
  after its fixed fields.
\<close>

theorem standard_record_read:
  assumes "sb_wf b" and "take (length p) (sb_unread b) = p"
    and "rec_at junk (sb_data b) rec p
      \<or> rd_create (rtype rec) = None \<and> rdata rec = None
        \<and> (\<exists>q. name_at (sb_data b) (rname rec) q \<and> p = q @ rec_fields rec)"
  shows "rec_read junk reader_on rec_new b = Ret (rdata rec \<noteq> None, rec) (b\<lparr>rpos := rpos b + length p\<rparr>)"
  using assms(3)
proof
  assume rec: "rec_at junk (sb_data b) rec p"
  then have "rdata rec \<noteq> None" by cases simp
  then show ?thesis using readsD [OF reads_record [OF on_simps(2,3) rec] assms(1) refl assms(2)] by simp
next
  assume "rd_create (rtype rec) = None \<and> rdata rec = None
    \<and> (\<exists>q. name_at (sb_data b) (rname rec) q \<and> p = q @ rec_fields rec)"
  then obtain q where u: "rd_create (rtype rec) = None" "rdata rec = None"
    "name_at (sb_data b) (rname rec) q" "p = q @ rec_fields rec" by blast
  then have "rec\<lparr>rdata := None\<rparr> = rec" by (cases rec) simp
  then show ?thesis
    using readsD [OF reads_unknown_record [OF on_simps(2,3) u(3,1)] assms(1) refl] assms(2) u(2,4) by simp
qed

text \<open>An A record behind a name it shares: the packet begins with the name the pointer leads to.\<close>

definition a_record :: resource_record where
  "a_record = \<lparr>rname = \<lparr>parts = [''a'', ''b'']\<rparr>, rtype = 1, rclass = 1, ttl = 60, rdlen = 4,
               rdata = Some (ARecordData 0x7F000001)\<rparr>"

definition a_image :: "char list" where
  "a_image = (labels_wire [''a''] @ [char_of_u8 0xC0, char_of_u8 0]) @ rec_fields a_record @ mem32 (htonl 0x7F000001)"

definition a_packet :: stream_buffer where
  "a_packet = \<lparr>bytes = (labels_wire [''b''] @ [CHR 0x00]) @ a_image, limit = 64, opos = 0, rpos = 3, wpos = 21\<rparr>"

lemma length_a_image: "length a_image = 18"
  by (simp add: a_image_def rec_fields_def)

lemma a_packet_facts:
  "sb_wf a_packet" "sb_data a_packet = (labels_wire [''b''] @ [CHR 0x00]) @ a_image" "sb_unread a_packet = a_image"
  by (simp_all add: a_packet_def sb_wf_def vec_max_def sb_data_def sb_unread_def slice_def length_a_image)

lemma a_record_at:
  assumes "take 3 D = labels_wire [''b''] @ [CHR 0x00]"
  shows "rec_at junk D a_record a_image"
proof -
  have "name_at D \<lparr>parts = [''a''] @ [''b'']\<rparr> (labels_wire [''a''] @ [char_of_u8 0xC0, char_of_u8 0])"
    by (rule name_at.pointer) (use assms in \<open>simp_all add: label_fits_def numeral_3_eq_3\<close>)
  then have "name_at D (rname a_record) (labels_wire [''a''] @ [char_of_u8 0xC0, char_of_u8 0])"
    by (simp add: a_record_def)
  then show ?thesis
    unfolding a_image_def
    by (rule rec_at.known [where rd = "ARecordData 0x7F000001"])
      (simp_all add: a_record_def rd_at.a_data)
qed

theorem standard_record_read_witness:
  "rec_read 7 reader_on rec_new a_packet = Ret (True, a_record) (a_packet\<lparr>rpos := rpos a_packet + length a_image\<rparr>)"
proof -
  have "rec_at 7 (sb_data a_packet) a_record a_image"
    by (rule a_record_at) (simp add: a_packet_facts)
  then have "rec_read 7 reader_on rec_new a_packet =
      Ret (rdata a_record \<noteq> None, a_record) (a_packet\<lparr>rpos := rpos a_packet + length a_image\<rparr>)"
    by (intro standard_record_read) (simp_all add: a_packet_facts)
  then show ?thesis by (simp add: a_record_def)
qed

text \<open>
  The CNAME form adds the length of the name to an uninitialised local: the record data is
  accepted exactly when the stated length is that garbage plus the length of the name.
\<close>

theorem cname_read_depends_on_garbage:
  assumes "sb_wf b" and "name_at (sb_data b) nm p" and "take (length p) (sb_unread b) = p"
  shows "rd_read junk reader_on l (CNAMERecordData dn_new) b =
    Ret (l = junk + word_of_nat (length p), CNAMERecordData nm) (b\<lparr>rpos := rpos b + length p\<rparr>)"
  using readsD [OF reads_cname [OF on_simps(2,3) assms(2)] assms(1) refl assms(3)] .

theorem cname_read_depends_on_garbage_witness:
  "rd_read 1 reader_on 3 (CNAMERecordData dn_new)
      \<lparr>bytes = labels_wire [''a''] @ [CHR 0x00], limit = 8, opos = 0, rpos = 0, wpos = 3\<rparr> =
    Ret ((3 :: 16 word) = 1 + word_of_nat (length (labels_wire [''a''] @ [CHR 0x00])), CNAMERecordData \<lparr>parts = [''a'']\<rparr>)
      (\<lparr>bytes = labels_wire [''a''] @ [CHR 0x00], limit = 8, opos = 0, rpos = 0, wpos = 3\<rparr>
        \<lparr>rpos := 0 + length (labels_wire [''a''] @ [CHR 0x00])\<rparr>)"
  using cname_read_depends_on_garbage
    [of "\<lparr>bytes = labels_wire [''a''] @ [CHR 0x00], limit = 8, opos = 0, rpos = 0, wpos = 3\<rparr>", OF _ name_at.plain,
     of "[''a'']" 1 3]
  by (simp add: sb_wf_def vec_max_def sb_unread_def slice_def label_fits_def)

text \<open>
  C32. Writing a record with room for it appends name, type, class, \<^emph>\<open>two\<close> octets for the TTL,
  the length and the data (an A record's address cut to two octets as well), the length being
  added to the one the record already had for CNAME, MX and TXT. The length is then patched at
  the vector position it was written to, taken as an offset from the origin: with a flushed
  prefix it overwrites data behind it, or fails beyond the end.
\<close>

theorem record_write_format:
  assumes "sb_wf b" and "rdata rec = Some rd" and "rd_ok rd"
    and "sb_room (length (rec_image rec (rdlen rec) rd)) b"
  shows "\<exists>c. rec_write writer_on rec b =
      Ret (wpos b + length (rec_front rec) + 2 \<le> length (sb_data b @ rec_image rec (rdlen rec) rd),
           rec\<lparr>rdlen := rd_len (rdlen rec) rd\<rparr>) c
    \<and> sb_data c =
      (if opos b = 0 then sb_data b @ rec_image rec (rd_len (rdlen rec) rd) rd
       else if wpos b + length (rec_front rec) + 2 \<le> length (sb_data b @ rec_image rec (rdlen rec) rd)
       then patch (wpos b + length (rec_front rec)) (mem16 (htons (rd_len (rdlen rec) rd)))
              (sb_data b @ rec_image rec (rdlen rec) rd)
       else sb_data b @ rec_image rec (rdlen rec) rd)"
proof -
  have "patch (wpos b + length (rec_front rec)) (mem16 (htons l)) (sb_data b @ rec_image rec (rdlen rec) rd)
      = sb_data b @ rec_image rec l rd
    \<and> wpos b + length (rec_front rec) + 2 \<le> length (sb_data b @ rec_image rec (rdlen rec) rd)"
    if "opos b = 0" for l
  proof -
    have "wpos b + length (rec_front rec) = length (sb_data b @ rec_front rec)"
      using that by (simp add: length_sb_data [OF assms(1)])
    then show ?thesis
      using patch_middle [of "mem16 (htons l)" "mem16 (htons (rdlen rec))" "sb_data b @ rec_front rec" "rd_wire rd"]
      by (simp add: rec_image_def)
  qed
  with rec_write_image [OF on_simps(1) assms] show ?thesis by auto
qed

theorem record_write_format_witness:
  "\<exists>c. rec_write writer_on a_record empty_buffer =
      Ret (wpos empty_buffer + length (rec_front a_record) + 2
            \<le> length (sb_data empty_buffer @ rec_image a_record (rdlen a_record) (ARecordData 0x7F000001)),
           a_record\<lparr>rdlen := rd_len (rdlen a_record) (ARecordData 0x7F000001)\<rparr>) c
    \<and> sb_data c =
      (if opos empty_buffer = 0
       then sb_data empty_buffer @ rec_image a_record (rd_len (rdlen a_record) (ARecordData 0x7F000001)) (ARecordData 0x7F000001)
       else if wpos empty_buffer + length (rec_front a_record) + 2
            \<le> length (sb_data empty_buffer @ rec_image a_record (rdlen a_record) (ARecordData 0x7F000001))
       then patch (wpos empty_buffer + length (rec_front a_record))
              (mem16 (htons (rd_len (rdlen a_record) (ARecordData 0x7F000001))))
              (sb_data empty_buffer @ rec_image a_record (rdlen a_record) (ARecordData 0x7F000001))
       else sb_data empty_buffer @ rec_image a_record (rdlen a_record) (ARecordData 0x7F000001))"
  by (rule record_write_format)
    (simp_all add: empty_buffer_facts a_record_def rec_image_def rec_front_def dn_wire_def kept_labels_def)

end
