(* ===== verification/DnsMsg.thy ===== *)
theory DnsMsg
  imports DnsRecords
begin

text \<open>
  DNS messages (\<open>DnsMessage.hpp\<close>, \<open>DnsMessage.cpp\<close>): header with its flags, questions,
  the three record sections, packing, unpacking and printing. The vectors of owned pointers
  are lists of the objects; a message that a failing unpacking has partly filled is part of
  the result.
\<close>

subsection \<open>Header\<close>

record FLAGS =
  qr :: "8 word"
  opcode :: "8 word"
  aa :: "8 word"
  tc :: "8 word"
  rd :: "8 word"
  ra :: "8 word"
  z :: "8 word"
  rcode :: "8 word"

definition flags_new :: FLAGS where
  "flags_new = \<lparr>qr = 0, opcode = 0, aa = 0, tc = 0, rd = 0, ra = 0, z = 0, rcode = 0\<rparr>"

definition flags_decode :: "8 word \<Rightarrow> 8 word \<Rightarrow> FLAGS" where
  "flags_decode f0 f1 =
     \<lparr>qr = drop_bit 7 (and f0 0x80), opcode = drop_bit 3 (and f0 0x78), aa = drop_bit 2 (and f0 0x04),
      tc = drop_bit 1 (and f0 0x02), rd = and f0 0x01, ra = drop_bit 7 (and f1 0x80),
      z = drop_bit 4 (and f1 0x70), rcode = and f1 0x0f\<rparr>"

definition flags_encode0 :: "FLAGS \<Rightarrow> 8 word" where
  "flags_encode0 f = or (or (or (or (rd f) (push_bit 1 (tc f))) (push_bit 2 (aa f))) (push_bit 3 (opcode f)))
     (push_bit 7 (qr f))"

definition flags_encode1 :: "FLAGS \<Rightarrow> 8 word" where
  "flags_encode1 f = or (or (rcode f) (push_bit 4 (z f))) (push_bit 7 (ra f))"

definition flags_write :: "stream_writer \<Rightarrow> FLAGS \<Rightarrow> stream_buffer \<Rightarrow> (bool, stream_buffer) outcome" where
  "flags_write w f b =
     and_then (wrote (sw_uint8 w (flags_encode0 f) b)) (\<lambda>c. wrote (sw_uint8 w (flags_encode1 f) c))"

definition flags_read :: "stream_reader \<Rightarrow> FLAGS \<Rightarrow> stream_buffer \<Rightarrow> (bool \<times> FLAGS, stream_buffer) outcome" where
  "flags_read r f b =
     bind_out (sr_uint8 r b) (\<lambda>f0 c. case f0 of
         None \<Rightarrow> Ret (False, f) c
       | Some x \<Rightarrow> bind_out (sr_uint8 r c) (\<lambda>f1 d. case f1 of
             None \<Rightarrow> Ret (False, f) d
           | Some y \<Rightarrow> Ret (True, flags_decode x y) d))"

record header =
  hid :: "16 word"
  hflags :: FLAGS
  qdcount :: "16 word"
  ancount :: "16 word"
  nscount :: "16 word"
  arcount :: "16 word"

definition header_new :: header where
  "header_new = \<lparr>hid = 0, hflags = flags_new, qdcount = 0, ancount = 0, nscount = 0, arcount = 0\<rparr>"

definition header_is_question :: "header \<Rightarrow> bool" where
  "header_is_question h = (qr (hflags h) = 0)"

text \<open>\<open>rnd\<close> is the answer of \<open>rand()\<close>.\<close>

definition header_set_question :: "nat \<Rightarrow> bool \<Rightarrow> header \<Rightarrow> header" where
  "header_set_question rnd q h =
     (let h = h\<lparr>hflags := (hflags h)\<lparr>qr := (if q then 0 else 1)\<rparr>\<rparr> in
      if q then h\<lparr>hid := word_of_nat (rnd mod (65535 + 1)), hflags := (hflags h)\<lparr>rd := 1\<rparr>\<rparr> else h)"

definition header_string :: "header \<Rightarrow> char list" where
  "header_string h =
     ''QR:'' @ dec_of_nat (unat (qr (hflags h))) @ '' '' @ ''AA:'' @ dec_of_nat (unat (aa (hflags h))) @ '' ''
     @ ''RD:'' @ dec_of_nat (unat (rd (hflags h))) @ '' '' @ ''RCODE:'' @ dec_of_nat (unat (rcode (hflags h))) @ CRLF
     @ ''QDCOUNT:'' @ dec_of_nat (unat (qdcount h)) @ '' '' @ ''ANCOUNT:'' @ dec_of_nat (unat (ancount h)) @ '' ''
     @ ''NSCOUNT:'' @ dec_of_nat (unat (nscount h)) @ '' '' @ ''ARCOUNT:'' @ dec_of_nat (unat (arcount h)) @ CRLF"

definition header_write :: "stream_writer \<Rightarrow> header \<Rightarrow> stream_buffer \<Rightarrow> (bool, stream_buffer) outcome" where
  "header_write w h b =
     and_then (and_then (and_then (and_then (and_then (wrote (sw_uint16 w (hid h) b))
       (flags_write w (hflags h)))
       (\<lambda>c. wrote (sw_uint16 w (qdcount h) c)))
       (\<lambda>c. wrote (sw_uint16 w (ancount h) c)))
       (\<lambda>c. wrote (sw_uint16 w (nscount h) c)))
       (\<lambda>c. wrote (sw_uint16 w (arcount h) c))"

definition header_read ::
  "stream_reader \<Rightarrow> header \<Rightarrow> stream_buffer \<Rightarrow> (bool \<times> header, stream_buffer) outcome" where
  "header_read r =
     read_into (sr_uint16 r) (\<lambda>x. hid_update (\<lambda>_. x)) (\<lambda>h b.
       bind_out (flags_read r (hflags h) b) (\<lambda>(ok, f) c.
         if \<not> ok then Ret (False, h\<lparr>hflags := f\<rparr>) c
         else read_into (sr_uint16 r) (\<lambda>x. qdcount_update (\<lambda>_. x))
           (read_into (sr_uint16 r) (\<lambda>x. ancount_update (\<lambda>_. x))
             (read_into (sr_uint16 r) (\<lambda>x. nscount_update (\<lambda>_. x))
               (read_into (sr_uint16 r) (\<lambda>x. arcount_update (\<lambda>_. x))
                 (\<lambda>h. Ret (True, h))))) (h\<lparr>hflags := f\<rparr>) c))"

subsection \<open>Questions\<close>

datatype QTYPE = QT RECORD_TYPE | QT_AXFR | QT_MAILB | QT_MAILA | QT_WILDCARD

fun qt_code :: "QTYPE \<Rightarrow> 16 word" where
  "qt_code (QT t) = rt_code t" | "qt_code QT_AXFR = 252" | "qt_code QT_MAILB = 253"
| "qt_code QT_MAILA = 254" | "qt_code QT_WILDCARD = 255"

datatype QCLASS = QC RECORD_CLASS | QC_WILDCARD

fun qc_code :: "QCLASS \<Rightarrow> 16 word" where
  "qc_code (QC c) = rc_code c" | "qc_code QC_WILDCARD = 255"

record question =
  qname :: domain_name
  qtype :: "16 word"
  qclass :: "16 word"

definition question_new :: question where
  "question_new = \<lparr>qname = dn_new, qtype = 0, qclass = 0\<rparr>"

text \<open>The constructor ignores whether the name was accepted.\<close>

definition question_new_string ::
  "char list \<Rightarrow> 16 word \<Rightarrow> 16 word \<Rightarrow> (unit, question) outcome" where
  "question_new_string nm t c =
     bind_out (dn_new_string nm) (\<lambda>_ d. Ret () \<lparr>qname = d, qtype = t, qclass = c\<rparr>)"

definition question_new_name :: "domain_name \<Rightarrow> 16 word \<Rightarrow> 16 word \<Rightarrow> question" where
  "question_new_name d t c = \<lparr>qname = d, qtype = t, qclass = c\<rparr>"

definition question_string :: "question \<Rightarrow> char list" where
  "question_string q = ''NAME:'' @ dn_string (qname q) @ '' '' @ ''QTYPE:'' @ dec_of_nat (unat (qtype q)) @ '' ''
     @ ''CLASS:'' @ dec_of_nat (unat (qclass q)) @ CRLF"

definition question_write ::
  "stream_writer \<Rightarrow> question \<Rightarrow> stream_buffer \<Rightarrow> (bool \<times> question, stream_buffer) outcome" where
  "question_write w q b =
     map_ret (\<lambda>ok. (ok, q))
       (and_then (and_then (map_ret fst (dn_write w (qname q) None b))
         (\<lambda>c. wrote (sw_uint16 w (qtype q) c)))
         (\<lambda>c. wrote (sw_uint16 w (qclass q) c)))"

definition question_read ::
  "stream_reader \<Rightarrow> question \<Rightarrow> stream_buffer \<Rightarrow> (bool \<times> question, stream_buffer) outcome" where
  "question_read r q b =
     bind_out (dn_read r (qname q) None b) (\<lambda>(ok, nm, _) c.
       if \<not> ok then Ret (False, q\<lparr>qname := nm\<rparr>) c
       else read_into (sr_uint16 r) (\<lambda>x. qtype_update (\<lambda>_. x))
         (read_into (sr_uint16 r) (\<lambda>x. qclass_update (\<lambda>_. x)) (\<lambda>q. Ret (True, q)))
         (q\<lparr>qname := nm\<rparr>) c)"

subsection \<open>Messages\<close>

record message =
  mheader :: header
  questions :: "question list"
  answers :: "resource_record list"
  authorities :: "resource_record list"
  additionals :: "resource_record list"

definition message_new :: message where
  "message_new = \<lparr>mheader = header_new, questions = [], answers = [], authorities = [], additionals = []\<rparr>"

definition query_new :: "nat \<Rightarrow> message" where
  "query_new rnd = message_new\<lparr>mheader := header_set_question rnd True header_new\<rparr>"

definition query_new_name :: "nat \<Rightarrow> char list \<Rightarrow> 16 word \<Rightarrow> (unit, message) outcome" where
  "query_new_name rnd nm t =
     bind_out (question_new_string nm t (qc_code (QC RC_IN))) (\<lambda>_ q.
       let m = query_new rnd; m = m\<lparr>questions := questions m @ [q]\<rparr> in
       Ret () (m\<lparr>mheader := (mheader m)\<lparr>qdcount := word_of_nat (length (questions m))\<rparr>\<rparr>))"

definition response_new :: message where
  "response_new = message_new"

definition message_string :: "message \<Rightarrow> char list" where
  "message_string m =
     ''Header:'' @ CRLF @ header_string (mheader m)
     @ (if questions m \<noteq> [] then ''Question:'' @ CRLF else []) @ concat (map question_string (questions m))
     @ (if answers m \<noteq> [] then ''Answer:'' @ CRLF else []) @ concat (map rec_string (answers m))
     @ (if authorities m \<noteq> [] then ''Authority:'' @ CRLF else []) @ concat (map rec_string (authorities m))
     @ (if additionals m \<noteq> [] then ''Additional:'' @ CRLF else [])
     @ concat (map (\<lambda>x. rec_string x @ [CHR 0x0A]) (additionals m))"

text \<open>The loops over the sections: an object that is written is returned as writing left it.\<close>

fun write_items ::
  "('x \<Rightarrow> stream_buffer \<Rightarrow> (bool \<times> 'x, stream_buffer) outcome) \<Rightarrow> 'x list \<Rightarrow> stream_buffer
    \<Rightarrow> (bool \<times> 'x list, stream_buffer) outcome" where
  "write_items w [] b = Ret (True, []) b"
| "write_items w (x # xs) b = bind_out (w x b) (\<lambda>(ok, y) c.
     if \<not> ok then Ret (False, y # xs) c
     else map_ret (\<lambda>(ok, ys). (ok, y # ys)) (write_items w xs c))"

fun read_items ::
  "(stream_buffer \<Rightarrow> (bool \<times> 'x, stream_buffer) outcome) \<Rightarrow> nat \<Rightarrow> 'x list \<Rightarrow> stream_buffer
    \<Rightarrow> (bool \<times> 'x list, stream_buffer) outcome" where
  "read_items g 0 xs b = Ret (True, xs) b"
| "read_items g (Suc n) xs b = bind_out (g b) (\<lambda>(ok, x) c.
     if \<not> ok then Ret (False, xs) c else read_items g n (xs @ [x]) c)"

definition msg_to_buffer :: "message \<Rightarrow> stream_buffer \<Rightarrow> (bool \<times> message, stream_buffer) outcome" where
  "msg_to_buffer m b =
     bind_out (sw_new_ptr True False b) (\<lambda>w b0.
     bind_out (header_write w (mheader m) b0) (\<lambda>ok b1. if \<not> ok then Ret (False, m) b1 else
     bind_out (write_items (question_write w) (questions m) b1) (\<lambda>(ok, qs) b2.
       let m = m\<lparr>questions := qs\<rparr> in if \<not> ok then Ret (False, m) b2 else
     bind_out (write_items (rec_write w) (answers m) b2) (\<lambda>(ok, rs) b3.
       let m = m\<lparr>answers := rs\<rparr> in if \<not> ok then Ret (False, m) b3 else
     bind_out (write_items (rec_write w) (authorities m) b3) (\<lambda>(ok, rs) b4.
       let m = m\<lparr>authorities := rs\<rparr> in if \<not> ok then Ret (False, m) b4 else
     bind_out (write_items (rec_write w) (additionals m) b4) (\<lambda>(ok, rs) b5.
       Ret (ok, m\<lparr>additionals := rs\<rparr>) b5))))))"

definition msg_read_sections ::
  "16 word \<Rightarrow> stream_reader \<Rightarrow> message \<Rightarrow> stream_buffer \<Rightarrow> (bool \<times> message, stream_buffer) outcome" where
  "msg_read_sections junk r m b =
     bind_out (header_read r (mheader m) b) (\<lambda>(ok, h) b1.
       let m = m\<lparr>mheader := h\<rparr> in if \<not> ok then Ret (False, m) b1 else
     bind_out (read_items (question_read r question_new) (unat (qdcount h)) (questions m) b1) (\<lambda>(ok, qs) b2.
       let m = m\<lparr>questions := qs\<rparr> in if \<not> ok then Ret (False, m) b2 else
     bind_out (read_items (rec_read junk r rec_new) (unat (ancount h)) (answers m) b2) (\<lambda>(ok, rs) b3.
       let m = m\<lparr>answers := rs\<rparr> in if \<not> ok then Ret (False, m) b3 else
     bind_out (read_items (rec_read junk r rec_new) (unat (nscount h)) (authorities m) b3) (\<lambda>(ok, rs) b4.
       let m = m\<lparr>authorities := rs\<rparr> in if \<not> ok then Ret (False, m) b4 else
     bind_out (read_items (rec_read junk r rec_new) (unat (arcount h)) (additionals m) b4) (\<lambda>(ok, rs) b5.
       Ret (ok, m\<lparr>additionals := rs\<rparr>) b5)))))"

definition msg_from_buffer ::
  "16 word \<Rightarrow> message \<Rightarrow> stream_buffer \<Rightarrow> (bool \<times> message, stream_buffer) outcome" where
  "msg_from_buffer junk m b =
     bind_out (sr_new_ptr True False) (\<lambda>_ r.
     bind_out (msg_read_sections junk r m b) (\<lambda>(ok, m') c.
       if \<not> ok then Ret (False, m') c else Ret (True, m') (snd (sb_flush c))))"

subsection \<open>Flags\<close>

text \<open>The widths of the header's bit fields.\<close>

definition flags_ok :: "FLAGS \<Rightarrow> bool" where
  "flags_ok f \<longleftrightarrow> take_bit 1 (qr f) = qr f \<and> take_bit 4 (opcode f) = opcode f \<and> take_bit 1 (aa f) = aa f
     \<and> take_bit 1 (tc f) = tc f \<and> take_bit 1 (rd f) = rd f \<and> take_bit 1 (ra f) = ra f
     \<and> take_bit 3 (z f) = z f \<and> take_bit 4 (rcode f) = rcode f"

lemma octet_eq: "(x :: 8 word) = y \<longleftrightarrow> (\<forall>n<8. bit x n = bit y n)"
  by (auto intro: bit_word_eqI)

lemma all_below_8:
  "(\<forall>n<(8 :: nat). P n) \<longleftrightarrow> P 0 \<and> P 1 \<and> P 2 \<and> P 3 \<and> P 4 \<and> P 5 \<and> P 6 \<and> P 7"
proof -
  have "n < 8 \<longleftrightarrow> n = 0 \<or> n = 1 \<or> n = 2 \<or> n = 3 \<or> n = 4 \<or> n = 5 \<or> n = 6 \<or> n = (7 :: nat)" for n
    by linarith
  then show ?thesis by (simp only: imp_disjL all_conj_distrib simp_thms)
qed

lemma octet_masks:
  "(0x80 :: 8 word) = push_bit 7 (mask 1)" "(0x78 :: 8 word) = push_bit 3 (mask 4)"
  "(4 :: 8 word) = push_bit 2 (mask 1)" "(2 :: 8 word) = push_bit 1 (mask 1)"
  "(1 :: 8 word) = mask 1" "(0x70 :: 8 word) = push_bit 4 (mask 3)" "(15 :: 8 word) = mask 4"
  by (simp_all add: mask_eq_exp_minus_1 push_bit_eq_mult)

lemma bit_octet_double: "bit (t * 2 :: 8 word) n \<longleftrightarrow> n < 8 \<and> n \<noteq> 0 \<and> bit t (n - 1)"
  using bit_double_iff [of t n] by (auto simp: mult.commute)

lemmas octet_bits = octet_masks octet_eq all_below_8

lemma flags_encode_decode:
  "flags_encode0 (flags_decode f0 f1) = f0" "flags_encode1 (flags_decode f0 f1) = f1"
  unfolding flags_encode0_def flags_encode1_def flags_decode_def FLAGS.simps octet_bits
  by (simp_all add: bit_simps bit_octet_double)

lemma flags_decode_encode:
  assumes "flags_ok f"
  shows "flags_decode (flags_encode0 f) (flags_encode1 f) = f"
proof -
  have "qr (flags_decode (flags_encode0 f) (flags_encode1 f)) = qr f"
    "opcode (flags_decode (flags_encode0 f) (flags_encode1 f)) = opcode f"
    "aa (flags_decode (flags_encode0 f) (flags_encode1 f)) = aa f"
    "tc (flags_decode (flags_encode0 f) (flags_encode1 f)) = tc f"
    "rd (flags_decode (flags_encode0 f) (flags_encode1 f)) = rd f"
    "ra (flags_decode (flags_encode0 f) (flags_encode1 f)) = ra f"
    "z (flags_decode (flags_encode0 f) (flags_encode1 f)) = z f"
    "rcode (flags_decode (flags_encode0 f) (flags_encode1 f)) = rcode f"
    using assms
    unfolding flags_ok_def flags_encode0_def flags_encode1_def flags_decode_def FLAGS.simps octet_bits
    by (simp_all add: bit_simps bit_octet_double)
  then show ?thesis by (cases f, cases "flags_decode (flags_encode0 f) (flags_encode1 f)") simp
qed

subsection \<open>Wire forms\<close>

definition flags_wire :: "FLAGS \<Rightarrow> char list" where
  "flags_wire f = [char_of_u8 (flags_encode0 f)] @ [char_of_u8 (flags_encode1 f)]"

definition header_wire :: "header \<Rightarrow> char list" where
  "header_wire h = ((((mem16 (htons (hid h)) @ flags_wire (hflags h)) @ mem16 (htons (qdcount h)))
     @ mem16 (htons (ancount h))) @ mem16 (htons (nscount h))) @ mem16 (htons (arcount h))"

definition question_wire :: "question \<Rightarrow> char list" where
  "question_wire q = (dn_wire (qname q) @ mem16 (htons (qtype q))) @ mem16 (htons (qclass q))"

lemma emits_flags: "sw_stream w \<Longrightarrow> emits (flags_write w f) (flags_wire f)"
  using emits_and_then [OF emits_sw(3) emits_sw(3)] by (simp add: flags_write_def flags_wire_def emits_def)

lemma emits_header: "sw_stream w \<Longrightarrow> emits (header_write w h) (header_wire h)"
  unfolding header_write_def header_wire_def
  by (intro emits_and_then emits_flags emits_sw(5)) simp_all

lemma emits_question: "sw_stream w \<Longrightarrow> emits_ret (question_write w q) (True, q) (question_wire q)"
proof -
  assume w: "sw_stream w"
  have "emits (\<lambda>b. map_ret fst (dn_write w (qname q) None b)) (dn_wire (qname q))"
    unfolding emits_ret_emits [symmetric] by (rule emits_ret_map [OF emits_dn_write [OF w]]) simp
  then have "emits (\<lambda>b. and_then (and_then (map_ret fst (dn_write w (qname q) None b))
         (\<lambda>c. wrote (sw_uint16 w (qtype q) c))) (\<lambda>c. wrote (sw_uint16 w (qclass q) c))) (question_wire q)"
    unfolding question_wire_def by (intro emits_and_then emits_sw(5) [OF w])
  then show ?thesis
    unfolding question_write_def emits_ret_emits [symmetric] by (rule emits_ret_map) simp
qed

lemma reads_flags:
  assumes r: "sr_stream r" "\<not> sr_flush r" and f: "flags_ok f"
  shows "reads D (flags_read r f0) (True, f) (flags_wire f)"
proof -
  let ?k = "\<lambda>x c. bind_out (sr_uint8 r c) (\<lambda>f1 d. case f1 of
             None \<Rightarrow> Ret (False, f0) d
           | Some y \<Rightarrow> Ret (True, flags_decode x y) d)"
  have "reads D (?k (flags_encode0 f)) (True, f) [char_of_u8 (flags_encode1 f)]"
    by (rule reads_option_Ret [OF parses_sr(1) [OF r]]) (simp add: flags_decode_encode [OF f])
  from reads_option [where k = ?k, OF parses_sr(1) [OF r] this, of "Ret (False, f0)"]
  show ?thesis by (simp add: reads_def flags_read_def flags_wire_def)
qed

lemma reads_header:
  assumes r: "sr_stream r" "\<not> sr_flush r" and f: "flags_ok (hflags h)"
  shows "reads D (header_read r h0) (True, h) (header_wire h)"
proof -
  let ?h1 = "h0\<lparr>hid := hid h\<rparr>"
  let ?k = "\<lambda>(ok, f) c. if \<not> ok then Ret (False, ?h1\<lparr>hflags := f\<rparr>) c
         else read_into (sr_uint16 r) (\<lambda>x. qdcount_update (\<lambda>_. x))
           (read_into (sr_uint16 r) (\<lambda>x. ancount_update (\<lambda>_. x))
             (read_into (sr_uint16 r) (\<lambda>x. nscount_update (\<lambda>_. x))
               (read_into (sr_uint16 r) (\<lambda>x. arcount_update (\<lambda>_. x))
                 (\<lambda>h. Ret (True, h))))) (?h1\<lparr>hflags := f\<rparr>) c"
  have "reads D (read_into (sr_uint16 r) (\<lambda>x. qdcount_update (\<lambda>_. x))
           (read_into (sr_uint16 r) (\<lambda>x. ancount_update (\<lambda>_. x))
             (read_into (sr_uint16 r) (\<lambda>x. nscount_update (\<lambda>_. x))
               (read_into (sr_uint16 r) (\<lambda>x. arcount_update (\<lambda>_. x))
                 (\<lambda>h. Ret (True, h))))) (?h1\<lparr>hflags := hflags h\<rparr>)) (True, h)
     (mem16 (htons (qdcount h)) @ mem16 (htons (ancount h)) @ mem16 (htons (nscount h))
       @ mem16 (htons (arcount h)) @ [])"
    by (rule reads_into, rule parses_sr [OF r])+ (cases h, cases h0, simp add: reads_def)
  then have "reads D (?k (True, hflags h)) (True, h)
     (mem16 (htons (qdcount h)) @ mem16 (htons (ancount h)) @ mem16 (htons (nscount h))
       @ mem16 (htons (arcount h)) @ [])"
    by (simp add: reads_def)
  from reads_bind [where k = ?k, OF reads_flags [OF r f, of D "hflags h0"] this]
  have "reads D (\<lambda>b. bind_out (flags_read r (hflags ?h1) b) ?k) (True, h)
     (flags_wire (hflags h) @ mem16 (htons (qdcount h)) @ mem16 (htons (ancount h))
       @ mem16 (htons (nscount h)) @ mem16 (htons (arcount h)))" by simp
  moreover have "header_wire h = mem16 (htons (hid h)) @ (flags_wire (hflags h) @ mem16 (htons (qdcount h))
       @ mem16 (htons (ancount h)) @ mem16 (htons (nscount h)) @ mem16 (htons (arcount h)))"
    by (simp add: header_wire_def)
  ultimately show ?thesis
    unfolding header_read_def by (simp only:) (rule reads_into [OF parses_sr(3) [OF r]])
qed

text \<open>A question as it stands in a message with the data \<open>D\<close>.\<close>

inductive question_at :: "char list \<Rightarrow> question \<Rightarrow> char list \<Rightarrow> bool" for D where
  asked: "name_at D (qname q) p \<Longrightarrow> question_at D q (p @ mem16 (htons (qtype q)) @ mem16 (htons (qclass q)))"

lemma reads_question:
  assumes r: "sr_stream r" "\<not> sr_flush r" and q: "question_at D q p"
  shows "reads D (question_read r question_new) (True, q) p"
  using q
proof cases
  case (asked n)
  let ?k = "\<lambda>(ok, nm, _ :: 16 word option) c.
       if \<not> ok then Ret (False, question_new\<lparr>qname := nm\<rparr>) c
       else read_into (sr_uint16 r) (\<lambda>x. qtype_update (\<lambda>_. x))
         (read_into (sr_uint16 r) (\<lambda>x. qclass_update (\<lambda>_. x)) (\<lambda>q. Ret (True, q)))
         (question_new\<lparr>qname := nm\<rparr>) c"
  have "reads D (read_into (sr_uint16 r) (\<lambda>x. qtype_update (\<lambda>_. x))
         (read_into (sr_uint16 r) (\<lambda>x. qclass_update (\<lambda>_. x)) (\<lambda>q. Ret (True, q)))
         (question_new\<lparr>qname := qname q\<rparr>)) (True, q)
      (mem16 (htons (qtype q)) @ mem16 (htons (qclass q)) @ [])"
    by (rule reads_into, rule parses_sr [OF r])+ (cases q, simp add: reads_def question_new_def)
  then have "reads D (?k (True, qname q, bump (length n) None)) (True, q)
      (mem16 (htons (qtype q)) @ mem16 (htons (qclass q)))"
    by (simp add: reads_def)
  from reads_bind [where k = ?k, OF reads_name [OF r asked(2)] this] show ?thesis
    unfolding reads_def question_read_def asked(1) by (simp add: question_new_def)
qed

lemma question_wire_at: "name_ok (qname q) \<Longrightarrow> question_at D q (question_wire q)"
  using question_at.asked [OF name_ok_at] by (simp add: question_wire_def)

subsection \<open>Whole messages\<close>

text \<open>
  A message in the format of RFC 1035 whose counts agree with its sections, as it stands in the
  data \<open>D\<close>: the header, the questions, the records of the three sections.
\<close>

inductive message_at :: "16 word \<Rightarrow> char list \<Rightarrow> message \<Rightarrow> char list \<Rightarrow> bool" for junk D where
  sections: "flags_ok (hflags (mheader m)) \<Longrightarrow>
    unat (qdcount (mheader m)) = length (questions m) \<Longrightarrow> unat (ancount (mheader m)) = length (answers m) \<Longrightarrow>
    unat (nscount (mheader m)) = length (authorities m) \<Longrightarrow>
    unat (arcount (mheader m)) = length (additionals m) \<Longrightarrow>
    list_all2 (question_at D) (questions m) qs \<Longrightarrow> list_all2 (rec_at junk D) (answers m) as \<Longrightarrow>
    list_all2 (rec_at junk D) (authorities m) ns \<Longrightarrow> list_all2 (rec_at junk D) (additionals m) xs \<Longrightarrow>
    message_at junk D m (header_wire (mheader m) @ concat qs @ concat as @ concat ns @ concat xs)"

text \<open>What a message without records, such as a query, is written as.\<close>

definition msg_wire :: "message \<Rightarrow> char list" where
  "msg_wire m = header_wire (mheader m) @ concat (map question_wire (questions m))"

lemma msg_wire_at:
  assumes "flags_ok (hflags (mheader m))" "unat (qdcount (mheader m)) = length (questions m)"
    and "ancount (mheader m) = 0" "nscount (mheader m) = 0" "arcount (mheader m) = 0"
    and "answers m = []" "authorities m = []" "additionals m = []"
    and "\<forall>q \<in> set (questions m). name_ok (qname q)"
  shows "message_at junk D m (msg_wire m)"
proof -
  have "list_all2 (question_at D) (questions m) (map question_wire (questions m))"
    using assms(9) question_wire_at by (auto simp: list_all2_conv_all_nth)
  from message_at.sections [OF assms(1,2) _ _ _ this, of junk "[]" "[]" "[]"] assms show ?thesis
    by (simp add: msg_wire_def)
qed

lemma reads_items:
  "list_all2 (\<lambda>x p. reads D g (True, x) p) xs ps \<Longrightarrow>
    reads D (read_items g (length xs) acc) (True, acc @ xs) (concat ps)"
proof (induction xs ps arbitrary: acc rule: list_all2_induct)
  case Nil
  then show ?case by (simp add: reads_def)
next
  case (Cons x xs p ps)
  let ?k = "\<lambda>(ok, x) c. if \<not> ok then Ret (False, acc) c else read_items g (length xs) (acc @ [x]) c"
  have "reads D (?k (True, x)) (True, acc @ x # xs) (concat ps)"
    using Cons.IH [of "acc @ [x]"] by (simp add: reads_def)
  from reads_bind [where k = ?k, OF Cons.hyps(1) this] show ?case
    by (simp add: reads_def)
qed

lemma reads_step:
  assumes "reads D g (True, y) p" and "reads D (k y) res q"
  shows "reads D (\<lambda>b. bind_out (g b) (\<lambda>(ok, x) c. if \<not> ok then e x c else k x c)) res (p @ q)"
  by (rule reads_bind [OF assms(1)]) (simp add: assms(2))

lemma reads_sections:
  assumes r: "sr_stream r" "\<not> sr_flush r" and m: "message_at junk D m p"
  shows "reads D (msg_read_sections junk r message_new) (True, m) p"
  using m
proof cases
  case (sections qs as ns xs)
  let ?h = "mheader m"
  have q: "reads D (read_items (question_read r question_new) (unat (qdcount ?h)) []) (True, questions m) (concat qs)"
    using reads_items [of D "question_read r question_new" "questions m" qs "[]"]
      list_all2_mono [OF sections(7) reads_question [OF r]] sections(3) by simp
  have rs: "reads D (read_items (rec_read junk r rec_new) (length ys) []) (True, ys) (concat zs)"
    if "list_all2 (rec_at junk D) ys zs" for ys zs
    using reads_items [of D "rec_read junk r rec_new" ys zs "[]"] list_all2_mono [OF that reads_record [OF r]]
    by simp
  have a: "reads D (read_items (rec_read junk r rec_new) (unat (ancount ?h)) []) (True, answers m) (concat as)"
    and n: "reads D (read_items (rec_read junk r rec_new) (unat (nscount ?h)) []) (True, authorities m) (concat ns)"
    and x: "reads D (read_items (rec_read junk r rec_new) (unat (arcount ?h)) []) (True, additionals m) (concat xs)"
    using rs sections(4-6,8-10) by simp_all
  have h: "reads D (header_read r header_new) (True, ?h) (header_wire ?h)"
    using reads_header [OF r] sections(2) by simp
  have last: "reads D (\<lambda>b. bind_out (read_items (rec_read junk r rec_new) (unat (arcount ?h)) [] b)
      (\<lambda>(ok, rs) b5. Ret (ok, f rs) b5)) (True, f (additionals m)) (concat xs)"
    for f :: "resource_record list \<Rightarrow> message"
    using reads_bind [OF x, of "\<lambda>(ok, rs) b5. Ret (ok, f rs) b5" "(True, f (additionals m))" "[]"]
    by (simp add: reads_def)
  have m: "m = message_new\<lparr>mheader := ?h, questions := questions m, answers := answers m,
      authorities := authorities m, additionals := additionals m\<rparr>"
    by (cases m) (simp add: message_new_def)
  let ?goal = "\<lambda>b. bind_out (header_read r header_new b) (\<lambda>(ok, h) b1.
       if \<not> ok then Ret (False, message_new\<lparr>mheader := h\<rparr>) b1 else
     bind_out (read_items (question_read r question_new) (unat (qdcount h)) [] b1) (\<lambda>(ok, qs) b2.
       if \<not> ok then Ret (False, message_new\<lparr>mheader := h, questions := qs\<rparr>) b2 else
     bind_out (read_items (rec_read junk r rec_new) (unat (ancount h)) [] b2) (\<lambda>(ok, rs) b3.
       if \<not> ok then Ret (False, message_new\<lparr>mheader := h, questions := qs, answers := rs\<rparr>) b3 else
     bind_out (read_items (rec_read junk r rec_new) (unat (nscount h)) [] b3) (\<lambda>(ok, ss) b4.
       if \<not> ok then Ret (False, message_new\<lparr>mheader := h, questions := qs, answers := rs, authorities := ss\<rparr>) b4 else
     bind_out (read_items (rec_read junk r rec_new) (unat (arcount h)) [] b4) (\<lambda>(ok, ts) b5.
       Ret (ok, message_new\<lparr>mheader := h, questions := qs, answers := rs, authorities := ss, additionals := ts\<rparr>) b5)))))"
  have eq: "msg_read_sections junk r message_new = ?goal"
    by (rule ext) (unfold msg_read_sections_def Let_def message_new_def message.simps, rule refl)
  have "reads D ?goal (True, message_new\<lparr>mheader := ?h, questions := questions m, answers := answers m,
      authorities := authorities m, additionals := additionals m\<rparr>) p"
    unfolding sections(1)
    by (rule reads_step [OF h], rule reads_step [OF q], rule reads_step [OF a], rule reads_step [OF n], rule last)
  then show ?thesis unfolding eq by (simp only: m [symmetric])
qed

lemma emits_items:
  "list_all (\<lambda>x. emits_ret (w x) (True, x) (img x)) xs \<Longrightarrow>
    emits_ret (write_items w xs) (True, xs) (concat (map img xs))"
proof (induction xs)
  case Nil
  then show ?case using emits_ret_Ret by (simp add: emits_ret_def)
next
  case (Cons x xs)
  let ?k = "\<lambda>(ok, y) c. if \<not> ok then Ret (False, y # xs) c
     else map_ret (\<lambda>(ok, ys). (ok, y # ys)) (write_items w xs c)"
  have "emits_ret (\<lambda>c. map_ret (\<lambda>(ok, ys). (ok, x # ys)) (write_items w xs c)) (True, x # xs) (concat (map img xs))"
    by (rule emits_ret_map [OF Cons.IH]) (use Cons.prems in simp_all)
  then have "emits_ret (?k (True, x)) (True, x # xs) (concat (map img xs))" by (simp add: emits_ret_def)
  from emits_ret_bind [where k = ?k, OF _ this, of "w x" "img x"] Cons.prems show ?case
    by (simp add: emits_ret_def)
qed

text \<open>Messages without records, such as queries, are written in the same format.\<close>

lemma msg_to_buffer_questions:
  assumes "answers m = []" and "authorities m = []" and "additionals m = []"
  shows "emits_ret (msg_to_buffer m) (True, m) (msg_wire m)"
proof -
  let ?w = "\<lparr>sw_stream = True\<rparr>"
  let ?k = "\<lambda>ok b1. if \<not> ok then Ret (False, m) b1 else
     bind_out (write_items (question_write ?w) (questions m) b1) (\<lambda>(ok, qs) b2. Ret (ok, m\<lparr>questions := qs\<rparr>) b2)"
  let ?j = "\<lambda>(ok, qs) b2. Ret (ok, m\<lparr>questions := qs\<rparr>) b2"
  have eq: "msg_to_buffer m b = bind_out (header_write ?w (mheader m) b) ?k" for b
  proof -
    have "m\<lparr>answers := []\<rparr> = m" "m\<lparr>authorities := []\<rparr> = m" "m\<lparr>additionals := []\<rparr> = m"
      using assms by (cases m; simp)+
    then have c: "m\<lparr>questions := qs, answers := [], authorities := [], additionals := []\<rparr> = m\<lparr>questions := qs\<rparr>"
      for qs using assms by (cases m) simp
    have j: "(\<lambda>(ok, qs) b2. if \<not> ok then Ret (False, m\<lparr>questions := qs\<rparr>) b2
        else Ret (True, m\<lparr>questions := qs, answers := [], authorities := [], additionals := []\<rparr>) b2) = ?j"
      by (auto simp: fun_eq_iff c)
    have sel: "answers (m\<lparr>questions := qs\<rparr>) = []"
      "authorities (m\<lparr>questions := qs, answers := rs\<rparr>) = []"
      "additionals (m\<lparr>questions := qs, answers := rs, authorities := ss\<rparr>) = []" for qs rs ss
      by (simp_all add: assms)
    show ?thesis
      unfolding msg_to_buffer_def sw_new_ptr_def Let_def sel write_items.simps
        if_True bind_out.simps prod.case not_True_eq_False if_False j if_cancel ..
  qed
  have qs: "emits_ret (write_items (question_write ?w) (questions m)) (True, questions m)
      (concat (map question_wire (questions m)))"
    by (rule emits_items) (simp add: list_all_iff emits_question)
  have "emits_ret (?j (True, questions m)) (True, m) []" using emits_ret_Ret by (simp add: emits_ret_def)
  from emits_ret_bind [where k = ?j, OF qs this]
  have "emits_ret (?k True) (True, m) (concat (map question_wire (questions m)))"
    by (simp add: emits_ret_def)
  from emits_ret_bind [where k = ?k, OF emits_header [of ?w, folded emits_ret_emits] this]
  show ?thesis unfolding eq by (simp add: msg_wire_def assms emits_ret_def eq)
qed

lemma msg_from_buffer_reads:
  assumes wf: "sb_wf b" and u: "take (length p) (sb_unread b) = p" and m: "message_at junk (sb_data b) m p"
  shows "\<exists>c. msg_from_buffer junk message_new b = Ret (True, m) c \<and> sb_wf c \<and> sb_seen c = []
    \<and> sb_unread c = drop (length p) (sb_unread b)"
proof -
  let ?r = "\<lparr>sr_stream = True, sr_flush = False\<rparr>"
  note c = unread_after [OF wf u]
  have "msg_read_sections junk ?r message_new b = Ret (True, m) (b\<lparr>rpos := rpos b + length p\<rparr>)"
    by (rule readsD [OF reads_sections [OF _ _ m] wf refl u]) simp_all
  then show ?thesis
    using sb_flush_wf [OF c(1)] sb_flush_contents [OF c(1)] c(2)
    by (simp add: msg_from_buffer_def sr_new_ptr_def)
qed

lemma query_new_ok:
  assumes "query_new_name rnd nm t = Ret () m"
  shows "answers m = []" "authorities m = []" "additionals m = []"
    "\<exists>d ok. dn_new_string nm = Ret ok d \<and> questions m = [\<lparr>qname = d, qtype = t, qclass = 1\<rparr>]"
    "flags_ok (hflags (mheader m))" "unat (qdcount (mheader m)) = 1" "ancount (mheader m) = 0"
    "nscount (mheader m) = 0" "arcount (mheader m) = 0"
  using assms
  by (auto simp: query_new_name_def question_new_string_def bind_out_eq_Ret query_new_def message_new_def
      header_set_question_def header_new_def flags_new_def flags_ok_def Let_def)

subsection \<open>Properties\<close>

text \<open>
  C11. Queries: a query built for a name whose labels have 1 to 63 characters and are not the
  single dot, packed into a buffer with nothing unread and with room for it, is unpacked from
  there as the same query (identifier, flags, question and counts), and the buffer is left empty.
  The identifier is any answer of \<open>rand\<close>.
\<close>

theorem query_round_trip:
  assumes "query_new_name rnd nm t = Ret () m" and "\<forall>q \<in> set (questions m). name_ok (qname q)"
    and "sb_wf b" and "sb_unread b = []" and "sb_room (length (msg_wire m)) b"
  shows "\<exists>c d. msg_to_buffer m b = Ret (True, m) c \<and> sb_unread c = msg_wire m
    \<and> msg_from_buffer junk message_new c = Ret (True, m) d \<and> sb_wf d \<and> sb_data d = []"
proof -
  note q = query_new_ok [OF assms(1)]
  have ok: "message_at junk D m (msg_wire m)" for D
    using msg_wire_at [of m] q assms(2) by auto
  obtain c where c: "msg_to_buffer m b = Ret (True, m) c" "sb_extends (msg_wire m) b c"
    using emits_retD [OF msg_to_buffer_questions [OF q(1-3)] assms(3,5)] by blast
  note wf = sb_extendsD(1) [OF c(2)]
  have u: "sb_unread c = msg_wire m" using sb_extends_unread [OF assms(3) c(2)] assms(4) by simp
  from msg_from_buffer_reads [OF wf _ ok] u obtain d where
    "msg_from_buffer junk message_new c = Ret (True, m) d" "sb_wf d" "sb_seen d = []" "sb_unread d = []"
    by auto
  moreover from this have "sb_data d = []" using sb_data_split by simp
  ultimately show ?thesis using c(1) u by blast
qed

definition demo_query :: message where
  "demo_query = \<lparr>mheader = \<lparr>hid = 5, hflags = flags_new\<lparr>rd := 1\<rparr>, qdcount = 1, ancount = 0, nscount = 0, arcount = 0\<rparr>,
     questions = [\<lparr>qname = \<lparr>parts = [''a'', ''b'']\<rparr>, qtype = 15, qclass = 1\<rparr>], answers = [], authorities = [], additionals = []\<rparr>"

lemma demo_query_new: "query_new_name 5 ''a.b'' 15 = Ret () demo_query"
proof -
  have "map to_lower ''a.b'' = ''a.b''" and "list_all (\<lambda>c. to_lower c \<in> set s_valid_chars) ''a.b''"
    by code_simp+
  then have "dn_new_string ''a.b'' = Ret True \<lparr>parts = [''a'', ''b'']\<rparr>"
    unfolding dn_new_string_def dn_from_string_accepts list_all_iff dotted_def
    by (simp add: dn_new_def dn_split.simps)
  then show ?thesis
    by (simp add: query_new_name_def question_new_string_def query_new_def message_new_def header_set_question_def
        header_new_def flags_new_def demo_query_def Let_def)
qed

lemma length_msg_wire_demo: "length (msg_wire demo_query) = 21"
  by (simp add: msg_wire_def demo_query_def header_wire_def flags_wire_def question_wire_def dn_wire_def
      kept_labels_def)

theorem query_round_trip_witness:
  "\<exists>c d. msg_to_buffer demo_query empty_buffer = Ret (True, demo_query) c \<and> sb_unread c = msg_wire demo_query
    \<and> msg_from_buffer 9 message_new c = Ret (True, demo_query) d \<and> sb_wf d \<and> sb_data d = []"
  by (rule query_round_trip [OF demo_query_new])
    (simp_all add: empty_buffer_facts length_msg_wire_demo, simp add: demo_query_def name_ok_def label_ok_def label_fits_def)

text \<open>
  C7. Unpacking a message in the format of RFC 1035 whose counts agree with its sections: the
  header, the questions and the A, CNAME, MX, one-string TXT and empty SOA records of the three
  record sections are recovered as they are, names with a pointer below 256 to a plain name
  included, its octets are consumed and flushed, and what follows stays unread. Pointers count
  from the origin of the buffer; CNAME records need the uninitialised length to be zero.
\<close>

theorem standard_message_read:
  assumes "sb_wf b" and "take (length p) (sb_unread b) = p" and "message_at junk (sb_data b) m p"
  shows "\<exists>c. msg_from_buffer junk message_new b = Ret (True, m) c \<and> sb_wf c \<and> sb_seen c = []
    \<and> sb_unread c = drop (length p) (sb_unread b)"
  using assms by (rule msg_from_buffer_reads)

text \<open>
  An answer as servers send it: the question for \<open>a.b\<close>, and an A record whose name is a pointer to
  the name of the question, at octet 12.
\<close>

definition demo_answer :: resource_record where
  "demo_answer = \<lparr>rname = \<lparr>parts = [''a'', ''b'']\<rparr>, rtype = 1, rclass = 1, ttl = 60, rdlen = 4,
     rdata = Some (ARecordData 0x7F000001)\<rparr>"

definition demo_response :: message where
  "demo_response = \<lparr>mheader = \<lparr>hid = 5, hflags = flags_new\<lparr>qr := 1\<rparr>, qdcount = 1, ancount = 1, nscount = 0, arcount = 0\<rparr>,
     questions = [\<lparr>qname = \<lparr>parts = [''a'', ''b'']\<rparr>, qtype = 1, qclass = 1\<rparr>], answers = [demo_answer],
     authorities = [], additionals = []\<rparr>"

definition demo_octets :: "char list" where
  "demo_octets = header_wire (mheader demo_response)
     @ ((labels_wire [''a'', ''b''] @ [CHR 0x00]) @ mem16 (htons 1) @ mem16 (htons 1))
     @ [char_of_u8 0xC0, char_of_u8 12] @ rec_fields demo_answer @ mem32 (htonl 0x7F000001)"

lemma length_header_wire: "length (header_wire h) = 12"
  by (simp add: header_wire_def flags_wire_def)

lemma length_demo_octets: "length demo_octets = 37"
  by (simp add: demo_octets_def rec_fields_def length_header_wire)

lemma demo_octets_at: "message_at junk demo_octets demo_response demo_octets"
proof -
  let ?n = "labels_wire [''a'', ''b''] @ [CHR 0x00]"
  have n: "list_all label_fits [''a'', ''b'']" by (simp add: label_fits_def)
  have q: "question_at demo_octets \<lparr>qname = \<lparr>parts = [''a'', ''b'']\<rparr>, qtype = 1, qclass = 1\<rparr>
      (?n @ mem16 (htons 1) @ mem16 (htons 1))"
    using question_at.asked [of demo_octets "\<lparr>qname = \<lparr>parts = [''a'', ''b'']\<rparr>, qtype = 1, qclass = 1\<rparr>" ?n]
      name_at.plain [OF n] by simp
  have "drop 12 demo_octets = ?n @ mem16 (htons 1) @ mem16 (htons 1)
      @ [char_of_u8 0xC0, char_of_u8 12] @ rec_fields demo_answer @ mem32 (htonl 0x7F000001)"
    by (simp add: demo_octets_def length_header_wire)
  then have "take (length ?n) (drop (unat (12 :: 8 word)) demo_octets) = ?n" by simp
  from name_at.pointer [OF _ n this, of "[]"]
  have "name_at demo_octets (rname demo_answer) [char_of_u8 0xC0, char_of_u8 12]"
    by (simp add: demo_answer_def)
  then have a: "rec_at junk demo_octets demo_answer
      ([char_of_u8 0xC0, char_of_u8 12] @ rec_fields demo_answer @ mem32 (htonl 0x7F000001))"
    by (rule rec_at.known [where rd = "ARecordData 0x7F000001"])
      (simp_all add: demo_answer_def rd_at.a_data)
  have "message_at junk demo_octets demo_response (header_wire (mheader demo_response)
      @ concat [?n @ mem16 (htons 1) @ mem16 (htons 1)]
      @ concat [[char_of_u8 0xC0, char_of_u8 12] @ rec_fields demo_answer @ mem32 (htonl 0x7F000001)]
      @ concat [] @ concat [])"
    by (rule message_at.sections) (use q a in \<open>simp_all add: demo_response_def flags_ok_def flags_new_def\<close>)
  moreover have "header_wire (mheader demo_response)
      @ concat [?n @ mem16 (htons 1) @ mem16 (htons 1)]
      @ concat [[char_of_u8 0xC0, char_of_u8 12] @ rec_fields demo_answer @ mem32 (htonl 0x7F000001)]
      @ concat [] @ concat [] = demo_octets"
    by (simp add: demo_octets_def)
  ultimately show ?thesis by simp
qed

definition response_packet :: stream_buffer where
  "response_packet = \<lparr>bytes = demo_octets, limit = 512, opos = 0, rpos = 0, wpos = 37\<rparr>"

lemma response_packet_facts:
  "sb_wf response_packet" "sb_data response_packet = demo_octets" "sb_unread response_packet = demo_octets"
  by (simp_all add: response_packet_def sb_wf_def vec_max_def sb_data_def sb_unread_def slice_def length_demo_octets)

theorem standard_message_read_witness:
  "\<exists>c. msg_from_buffer 3 message_new response_packet = Ret (True, demo_response) c \<and> sb_wf c \<and> sb_seen c = []
    \<and> sb_unread c = drop (length demo_octets) (sb_unread response_packet)"
  by (rule standard_message_read) (simp_all add: response_packet_facts demo_octets_at)

text \<open>
  Flags: packing and unpacking the two flag octets are inverse to each other, on all pairs
  of octets and on all flag values within their widths.
\<close>

theorem flags_octets_bijective:
  "flags_encode0 (flags_decode f0 f1) = f0 \<and> flags_encode1 (flags_decode f0 f1) = f1
    \<and> (flags_ok f \<longrightarrow> flags_decode (flags_encode0 f) (flags_encode1 f) = f)"
  by (simp add: flags_encode_decode flags_decode_encode)

theorem flags_octets_bijective_witness:
  "flags_decode (flags_encode0 (flags_new\<lparr>rd := 1, rcode := 3\<rparr>)) (flags_encode1 (flags_new\<lparr>rd := 1, rcode := 3\<rparr>))
    = flags_new\<lparr>rd := 1, rcode := 3\<rparr>"
proof -
  have "flags_ok (flags_new\<lparr>rd := 1, rcode := 3\<rparr>)" by (simp add: flags_ok_def flags_new_def)
  then show ?thesis using flags_octets_bijective [of 0 0 "flags_new\<lparr>rd := 1, rcode := 3\<rparr>"] by blast
qed

end
