(* ===== verification/DnsMemory.thy ===== *)
theory DnsMemory
  imports DnsMsg "HOL-Library.Multiset"
begin

text \<open>
  The objects of a DNS message (\<open>Message::FromBuffer\<close>, \<open>Query::Query\<close>, \<open>~Message\<close>,
  \<open>~ResourceRecord\<close>): what is made with \<open>new\<close>, who holds the pointer to it, and what is
  deleted. The contents of the objects are those of theory \<open>DnsMsg\<close>; here each has an address,
  and a heap knows the addresses in use. Deleting what is not there is undefined behaviour.
\<close>

subsection \<open>The heap\<close>

record heap =
  next_cell :: nat
  live :: "nat list"

definition heap_new :: "heap \<Rightarrow> nat \<times> heap" where
  "heap_new h = (next_cell h, h\<lparr>next_cell := Suc (next_cell h), live := next_cell h # live h\<rparr>)"

definition heap_delete :: "nat \<Rightarrow> heap \<Rightarrow> (unit, heap) outcome" where
  "heap_delete a h = (if a \<in> set (live h) then Ret () (h\<lparr>live := remove1 a (live h)\<rparr>) else Fault WildPointer)"

subsection \<open>Messages that own their objects\<close>

text \<open>A record has its own address and that of its data, where it has data.\<close>

type_synonym question_object = "nat \<times> question"
type_synonym record_object = "nat \<times> nat option \<times> resource_record"

record owning_message =
  own_header :: header
  own_questions :: "question_object list"
  own_answers :: "record_object list"
  own_authorities :: "record_object list"
  own_additionals :: "record_object list"

definition record_of :: "record_object \<Rightarrow> resource_record" where
  "record_of x = snd (snd x)"

definition contents :: "owning_message \<Rightarrow> message" where
  "contents m = \<lparr>mheader = own_header m, questions = map snd (own_questions m), answers = map record_of (own_answers m),
     authorities = map record_of (own_authorities m), additionals = map record_of (own_additionals m)\<rparr>"

definition owning_response :: owning_message where
  "owning_response = \<lparr>own_header = header_new, own_questions = [], own_answers = [], own_authorities = [], own_additionals = []\<rparr>"

definition owning_query :: "nat \<Rightarrow> char list \<Rightarrow> 16 word \<Rightarrow> heap \<Rightarrow> (owning_message, heap) outcome" where
  "owning_query rnd nm t h = (case heap_new h of (p, h') \<Rightarrow>
     bind_out (query_new_name rnd nm t) (\<lambda>_ m.
       Ret (owning_response\<lparr>own_header := mheader m, own_questions := map (Pair p) (questions m)\<rparr>) h'))"

subsection \<open>Reading\<close>

text \<open>
  The object is made first and then read; the data of a record are made on the way, as soon as
  its type is known, and are part of what reading leaves. An object that could not be read is
  what the local variable \<open>p\<close> points to when the function returns.
\<close>

definition new_question :: "stream_reader \<Rightarrow> stream_buffer \<times> heap \<Rightarrow> (bool \<times> question_object, stream_buffer \<times> heap) outcome" where
  "new_question r s = (case s of (b, h) \<Rightarrow> case heap_new h of (p, h1) \<Rightarrow>
     bind_out (question_read r question_new b) (\<lambda>(ok, q) c. Ret (ok, p, q) (c, h1)))"

definition new_record :: "16 word \<Rightarrow> stream_reader \<Rightarrow> stream_buffer \<times> heap
    \<Rightarrow> (bool \<times> record_object, stream_buffer \<times> heap) outcome" where
  "new_record junk r s = (case s of (b, h) \<Rightarrow> case heap_new h of (p, h1) \<Rightarrow>
     bind_out (rec_read junk r rec_new b) (\<lambda>(ok, rec) c.
       if rdata rec = None then Ret (ok, p, None, rec) (c, h1)
       else case heap_new h1 of (d, h2) \<Rightarrow> Ret (ok, p, Some d, rec) (c, h2)))"

fun read_objects :: "('s \<Rightarrow> (bool \<times> 'x, 's) outcome) \<Rightarrow> nat \<Rightarrow> 'x list \<Rightarrow> 's \<Rightarrow> ('x option \<times> 'x list, 's) outcome" where
  "read_objects g 0 xs s = Ret (None, xs) s"
| "read_objects g (Suc n) xs s = bind_out (g s) (\<lambda>(ok, x) s.
     if \<not> ok then Ret (Some x, xs) s else read_objects g n (xs @ [x]) s)"

text \<open>The addresses of objects, and what a reading that failed has left behind.\<close>

definition question_cells :: "question_object \<Rightarrow> nat list" where
  [simp]: "question_cells q = [fst q]"

definition record_cells :: "record_object \<Rightarrow> nat list" where
  "record_cells x = fst x # (case fst (snd x) of None \<Rightarrow> [] | Some d \<Rightarrow> [d])"

definition lost_cells :: "('x \<Rightarrow> nat list) \<Rightarrow> 'x option \<Rightarrow> nat list" where
  "lost_cells f x = (case x of None \<Rightarrow> [] | Some y \<Rightarrow> f y)"

definition owning_sections :: "16 word \<Rightarrow> stream_reader \<Rightarrow> owning_message \<Rightarrow> stream_buffer \<times> heap
    \<Rightarrow> (bool \<times> nat list \<times> owning_message, stream_buffer \<times> heap) outcome" where
  "owning_sections junk r m s = (case s of (b, h) \<Rightarrow>
     bind_out (header_read r (own_header m) b) (\<lambda>(ok, hd) c.
       let m = m\<lparr>own_header := hd\<rparr> in if \<not> ok then Ret (False, [], m) (c, h) else
     bind_out (read_objects (new_question r) (unat (qdcount hd)) (own_questions m) (c, h)) (\<lambda>(x, qs) s.
       let m = m\<lparr>own_questions := qs\<rparr> in if x \<noteq> None then Ret (False, lost_cells question_cells x, m) s else
     bind_out (read_objects (new_record junk r) (unat (ancount hd)) (own_answers m) s) (\<lambda>(x, rs) s.
       let m = m\<lparr>own_answers := rs\<rparr> in if x \<noteq> None then Ret (False, lost_cells record_cells x, m) s else
     bind_out (read_objects (new_record junk r) (unat (nscount hd)) (own_authorities m) s) (\<lambda>(x, rs) s.
       let m = m\<lparr>own_authorities := rs\<rparr> in if x \<noteq> None then Ret (False, lost_cells record_cells x, m) s else
     bind_out (read_objects (new_record junk r) (unat (arcount hd)) (own_additionals m) s) (\<lambda>(x, rs) s.
       Ret (x = None, lost_cells record_cells x, m\<lparr>own_additionals := rs\<rparr>) s))))))"

definition owning_from_buffer :: "16 word \<Rightarrow> owning_message \<Rightarrow> stream_buffer \<times> heap
    \<Rightarrow> (bool \<times> nat list \<times> owning_message, stream_buffer \<times> heap) outcome" where
  "owning_from_buffer junk m s =
     bind_out (sr_new_ptr True False) (\<lambda>_ r.
     bind_out (owning_sections junk r m s) (\<lambda>(ok, lost, m') (c, h).
       Ret (ok, lost, m') (if ok then snd (sb_flush c) else c, h)))"

subsection \<open>Deleting\<close>

definition record_delete :: "record_object \<Rightarrow> heap \<Rightarrow> (unit, heap) outcome" where
  "record_delete x h = bind_out (case fst (snd x) of None \<Rightarrow> Ret () h | Some d \<Rightarrow> heap_delete d h) (\<lambda>_ h. heap_delete (fst x) h)"

fun delete_all :: "('x \<Rightarrow> heap \<Rightarrow> (unit, heap) outcome) \<Rightarrow> 'x list \<Rightarrow> heap \<Rightarrow> (unit, heap) outcome" where
  "delete_all f [] h = Ret () h"
| "delete_all f (x # xs) h = bind_out (f x h) (\<lambda>_ h. delete_all f xs h)"

definition message_delete :: "owning_message \<Rightarrow> heap \<Rightarrow> (unit, heap) outcome" where
  "message_delete m h =
     bind_out (delete_all (\<lambda>q. heap_delete (fst q)) (own_questions m) h) (\<lambda>_ h.
     bind_out (delete_all record_delete (own_answers m) h) (\<lambda>_ h.
     bind_out (delete_all record_delete (own_authorities m) h) (\<lambda>_ h.
     delete_all record_delete (own_additionals m) h)))"

subsection \<open>The contents\<close>

text \<open>Without addresses and heap, reading is that of theory \<open>DnsMsg\<close>.\<close>

fun forget :: "('x \<Rightarrow> 'y) \<Rightarrow> ('x, 'b \<times> 'h) outcome \<Rightarrow> ('y, 'b) outcome" where
  "forget f (Ret x s) = Ret (f x) (fst s)"
| "forget f (Fault e) = Fault e"

lemma forget_bind:
  assumes "forget f m = n" and "\<And>x s. forget g (k x s) = l (f x) (fst s)"
  shows "forget g (bind_out m k) = bind_out n l"
  using assms by (cases m) auto

lemma forget_read_objects:
  assumes "\<And>s. forget (\<lambda>(ok, x). (ok, f x)) (g s) = gb (fst s)"
  shows "forget (\<lambda>(x, ys). (x = None, map f ys)) (read_objects g n xs s) = read_items gb n (map f xs) (fst s)"
proof (induction n arbitrary: xs s)
  case (Suc n)
  show ?case unfolding read_objects.simps read_items.simps
    by (rule forget_bind [OF assms]) (auto simp: Suc.IH)
qed simp

lemma forget_new_question: "forget (\<lambda>(ok, x). (ok, snd x)) (new_question r s) = question_read r question_new (fst s)"
  by (cases s; cases "question_read r question_new (fst s)") (auto simp: new_question_def heap_new_def)

lemma forget_new_record: "forget (\<lambda>(ok, x). (ok, record_of x)) (new_record junk r s) = rec_read junk r rec_new (fst s)"
  by (cases s; cases "rec_read junk r rec_new (fst s)") (auto simp: new_record_def heap_new_def record_of_def)

lemma forget_sections:
  "forget (\<lambda>(ok, lost, m). (ok, contents m)) (owning_sections junk r m s) = msg_read_sections junk r (contents m) (fst s)"
proof (cases s)
  case (Pair b h)
  note q = forget_read_objects [where gb = "question_read r question_new" and s = "(b, h)" for b h,
      OF forget_new_question, unfolded fst_conv]
    and rr = forget_read_objects [where gb = "rec_read junk r rec_new" and s = "(b, h)" for b h,
      OF forget_new_record, unfolded fst_conv]
  show ?thesis
  proof (cases "header_read r (own_header m) b")
    case (Ret x c)
    obtain ok hd where x: "x = (ok, hd)" by (cases x)
    show ?thesis
    proof (cases ok)
      case True
      show ?thesis unfolding Pair owning_sections_def msg_read_sections_def
        using Ret x True
        by (auto simp: contents_def Let_def intro!: forget_bind [OF q] forget_bind [OF rr])
    qed (simp add: Pair Ret x owning_sections_def msg_read_sections_def contents_def)
  qed (simp add: Pair owning_sections_def msg_read_sections_def contents_def)
qed

theorem owning_reads_contents:
  "forget (\<lambda>(ok, lost, m). (ok, contents m)) (owning_from_buffer junk m s) = msg_from_buffer junk (contents m) (fst s)"
  unfolding owning_from_buffer_def msg_from_buffer_def
  by (cases "sr_new_ptr True False") (auto intro!: forget_bind [OF forget_sections])

subsection \<open>The ledger\<close>

definition heap_ok :: "nat multiset \<Rightarrow> heap \<Rightarrow> bool" where
  "heap_ok M h \<longleftrightarrow> mset (live h) = M \<and> distinct (live h) \<and> (\<forall>a \<in> set (live h). a < next_cell h)"

definition cells_of :: "('x \<Rightarrow> nat list) \<Rightarrow> 'x list \<Rightarrow> nat multiset" where
  "cells_of f xs = sum_list (map (\<lambda>x. mset (f x)) xs)"

definition owned :: "owning_message \<Rightarrow> nat multiset" where
  "owned m = cells_of question_cells (own_questions m) + cells_of record_cells (own_answers m)
     + cells_of record_cells (own_authorities m) + cells_of record_cells (own_additionals m)"

lemma cells_of_simps [simp]:
  "cells_of f [] = {#}" "cells_of f (x # xs) = mset (f x) + cells_of f xs" "cells_of f (xs @ ys) = cells_of f xs + cells_of f ys"
  by (simp_all add: cells_of_def)

lemma heap_ok_new: "heap_ok M h \<Longrightarrow> heap_new h = (p, h') \<Longrightarrow> heap_ok (add_mset p M) h'"
  by (fastforce simp: heap_ok_def heap_new_def)

lemma heap_ok_delete: "heap_ok (add_mset a M) h \<Longrightarrow> \<exists>h'. heap_delete a h = Ret () h' \<and> heap_ok M h'"
  by (auto simp: heap_ok_def heap_delete_def dest: union_single_eq_member [OF sym] in_set_remove1)

lemma new_question_ledger:
  "new_question r s = Ret (ok, x) s' \<Longrightarrow> heap_ok M (snd s) \<Longrightarrow> heap_ok (M + mset (question_cells x)) (snd s')"
  by (auto simp: new_question_def bind_out_eq_Ret split: prod.splits dest: heap_ok_new)

lemma new_record_ledger:
  assumes "new_record junk r s = Ret (ok, x) s'" and "heap_ok M (snd s)"
  shows "heap_ok (M + mset (record_cells x)) (snd s')"
proof -
  obtain b h p h1 where s: "s = (b, h)" and p: "heap_new h = (p, h1)" by (metis surj_pair)
  obtain d h2 where d: "heap_new h1 = (d, h2)" by fastforce
  have 1: "heap_ok (add_mset p M) h1" using heap_ok_new [OF _ p] assms(2) s by simp
  show ?thesis
    using assms(1) s p d 1 heap_ok_new [OF 1 d]
    by (auto simp: new_record_def bind_out_eq_Ret record_cells_def add_mset_commute split: if_splits)
qed

lemma read_objects_ledger:
  assumes "\<And>s ok x s' M. g s = Ret (ok, x) s' \<Longrightarrow> heap_ok M (snd s) \<Longrightarrow> heap_ok (M + mset (f x)) (snd s')"
  shows "read_objects g n xs s = Ret (x, ys) s' \<Longrightarrow> heap_ok (M + cells_of f xs) (snd s) \<Longrightarrow>
     heap_ok (M + cells_of f ys + mset (lost_cells f x)) (snd s')"
proof (induction n arbitrary: xs s)
  case 0
  then show ?case by (simp add: lost_cells_def)
next
  case (Suc n)
  obtain ok z t where g: "g s = Ret (ok, z) t"
    and k: "(if \<not> ok then Ret (Some z, xs) t else read_objects g n (xs @ [z]) t) = Ret (x, ys) s'"
    using Suc.prems(1) by (auto simp: bind_out_eq_Ret)
  note t = assms [OF g Suc.prems(2)]
  show ?case
  proof (cases ok)
    case True
    then show ?thesis using Suc.IH [of "xs @ [z]" t] k t by (simp add: ac_simps)
  qed (use k t in \<open>auto simp: lost_cells_def\<close>)
qed

text \<open>What a section leaves is owned or lost, and what follows it need only be looked at where nothing was lost.\<close>

definition fair :: "nat multiset \<Rightarrow> (bool \<times> nat list \<times> owning_message, 'b \<times> heap) outcome \<Rightarrow> bool" where
  "fair R out = (case out of Fault e \<Rightarrow> True
     | Ret (ok, lost, m) s \<Rightarrow> heap_ok (R + owned m + mset lost) (snd s) \<and> length lost \<le> (if ok then 0 else 2))"

lemma fair_section:
  assumes "heap_ok (R + owned m) (snd s)" and "\<And>rs. owned (upd rs) + cells_of f xs = owned m + cells_of f rs"
    and "\<And>rs s. heap_ok (R + owned (upd rs)) (snd s) \<Longrightarrow> fair R (k rs s)"
    and "\<And>s ok x s' M. g s = Ret (ok, x) s' \<Longrightarrow> heap_ok M (snd s) \<Longrightarrow> heap_ok (M + mset (f x)) (snd s')"
    and "\<And>x. length (f x) \<le> 2"
  shows "fair R (bind_out (read_objects g n xs s) (\<lambda>(x, rs) s.
     if x \<noteq> None then Ret (False, lost_cells f x, upd rs) s else k rs s))"
proof (cases "read_objects g n xs s")
  case (Ret y t)
  obtain x rs where y: "y = (x, rs)" by (cases y)
  have own: "owned m = owned (upd []) + cells_of f xs" using assms(2) [of "[]"] by simp
  have "owned (upd rs) = owned (upd []) + cells_of f rs" using assms(2) [of rs] by (simp add: own)
  moreover have "heap_ok (R + owned (upd []) + cells_of f rs + mset (lost_cells f x)) (snd t)"
    by (rule read_objects_ledger [OF assms(4) Ret [unfolded y]]) (use assms(1) own in \<open>simp_all add: ac_simps\<close>)
  ultimately show ?thesis using Ret y assms(3,5) by (cases x) (auto simp: fair_def lost_cells_def ac_simps)
qed (simp add: fair_def)

lemma record_cells_two: "length (record_cells x) \<le> 2"
  by (simp add: record_cells_def split: option.split)

lemma last_section:
  "(\<lambda>(x, rs) s. Ret (x = None, lost_cells f x, upd rs) s)
     = (\<lambda>(x, rs) s. if x \<noteq> None then Ret (False, lost_cells f x, upd rs) s else Ret (True, [], upd rs) s)"
  by (auto simp: fun_eq_iff lost_cells_def)

lemma question_cells_two: "length (question_cells x) \<le> 2"
  by simp

lemmas fair_questions = fair_section [where f = question_cells, OF _ _ _ new_question_ledger question_cells_two]
lemmas fair_records = fair_section [where f = record_cells, OF _ _ _ new_record_ledger record_cells_two]

lemma sections_fair:
  assumes "heap_ok (R + owned m) (snd s)"
  shows "fair R (owning_sections junk r m s)"
proof -
  obtain b h where s: "s = (b, h)" by (cases s)
  show ?thesis
  proof (cases "header_read r (own_header m) b")
    case (Ret x c)
    obtain ok hd where x: "x = (ok, hd)" by (cases x)
    have h: "heap_ok (R + owned (m\<lparr>own_header := hd\<rparr>)) (snd (c, h))" using assms by (simp add: s owned_def)
    show ?thesis
    proof (cases ok)
      case True
      then have r: "header_read r (own_header m) b = Ret (True, hd) c" using Ret x by simp
      show ?thesis
        unfolding s owning_sections_def Let_def last_section r prod.case bind_out.simps not_True_eq_False if_False
        by (rule fair_questions [OF h], simp add: owned_def ac_simps)
          ((rule fair_records, assumption, simp add: owned_def ac_simps)+, simp add: fair_def)
    qed (use h in \<open>simp add: owning_sections_def s Ret x fair_def\<close>)
  qed (simp add: owning_sections_def s fair_def)
qed

lemma from_buffer_ledger:
  assumes "owning_from_buffer junk m s = Ret (ok, lost, m') s'" and "heap_ok (R + owned m) (snd s)"
  shows "heap_ok (R + owned m' + mset lost) (snd s') \<and> length lost \<le> (if ok then 0 else 2)"
proof -
  obtain r c where "owning_sections junk r m s = Ret (ok, lost, m') (c, snd s')"
    using assms(1) by (auto simp: owning_from_buffer_def bind_out_eq_Ret)
  with sections_fair [OF assms(2), of junk r] show ?thesis by (simp add: fair_def)
qed

lemma record_delete_ledger: "heap_ok (M + mset (record_cells x)) h \<Longrightarrow> \<exists>h'. record_delete x h = Ret () h' \<and> heap_ok M h'"
  by (cases "fst (snd x)") (fastforce simp: record_delete_def record_cells_def add_mset_commute dest!: heap_ok_delete)+

lemma question_delete_ledger: "heap_ok (M + mset (question_cells q)) h \<Longrightarrow> \<exists>h'. heap_delete (fst q) h = Ret () h' \<and> heap_ok M h'"
  using heap_ok_delete by simp

lemma delete_all_ledger:
  assumes "\<And>M x h. heap_ok (M + mset (f x)) h \<Longrightarrow> \<exists>h'. g x h = Ret () h' \<and> heap_ok M h'"
  shows "heap_ok (M + cells_of f xs) h \<Longrightarrow> \<exists>h'. delete_all g xs h = Ret () h' \<and> heap_ok M h'"
proof (induction xs arbitrary: h)
  case (Cons x xs)
  then have "heap_ok (M + cells_of f xs + mset (f x)) h" by (simp add: ac_simps)
  from assms [OF this] Cons.IH show ?case by auto
qed simp

lemma record_delete_all: "heap_ok (M + cells_of record_cells xs) h \<Longrightarrow> \<exists>h'. delete_all record_delete xs h = Ret () h' \<and> heap_ok M h'"
  by (rule delete_all_ledger [OF record_delete_ledger])

lemma message_delete_ledger:
  assumes "heap_ok (R + owned m) h"
  shows "\<exists>h'. message_delete m h = Ret () h' \<and> heap_ok R h'"
proof -
  have "heap_ok (R + cells_of record_cells (own_additionals m) + cells_of record_cells (own_authorities m)
     + cells_of record_cells (own_answers m) + cells_of question_cells (own_questions m)) h"
    using assms by (simp add: owned_def ac_simps)
  from delete_all_ledger [where g = "\<lambda>q. heap_delete (fst q)", OF question_delete_ledger this] show ?thesis
    by (auto simp: message_delete_def dest!: record_delete_all)
qed

subsection \<open>From the constructor to the destructor\<close>

text \<open>A message may be read into again and again; what is lost adds up.\<close>

fun read_messages :: "16 word \<Rightarrow> stream_buffer list \<Rightarrow> owning_message \<Rightarrow> heap
    \<Rightarrow> (bool list \<times> nat list \<times> owning_message, heap) outcome" where
  "read_messages junk [] m h = Ret ([], [], m) h"
| "read_messages junk (b # bs) m h = bind_out (owning_from_buffer junk m (b, h)) (\<lambda>(ok, lost, m) (_, h).
     bind_out (read_messages junk bs m h) (\<lambda>(oks, ls, m) h. Ret (ok # oks, lost @ ls, m) h))"

lemma read_messages_ledger:
  "read_messages junk bs m h = Ret (oks, lost, m') h' \<Longrightarrow> heap_ok (R + owned m) h \<Longrightarrow>
     heap_ok (R + owned m' + mset lost) h' \<and> length lost \<le> 2 * length (filter Not oks)"
proof (induction bs arbitrary: m h oks lost R)
  case (Cons b bs)
  obtain ok l m1 c h1 oks1 ls where f: "owning_from_buffer junk m (b, h) = Ret (ok, l, m1) (c, h1)"
    and r: "read_messages junk bs m1 h1 = Ret (oks1, ls, m') h'" and o: "oks = ok # oks1" "lost = l @ ls"
    using Cons.prems(1) by (auto simp: bind_out_eq_Ret)
  have 1: "heap_ok ((R + mset l) + owned m1) h1" "length l \<le> (if ok then 0 else 2)"
    using from_buffer_ledger [OF f] Cons.prems(2) by (simp_all add: ac_simps)
  from Cons.IH [OF r 1(1)] 1(2) o show ?case by (cases ok) (simp_all add: ac_simps)
qed simp

text \<open>
  C23. Whatever datagrams a DNS message is read from, its destructor deletes each object it owns
  exactly once and nothing else, and what is left over afterwards are the objects whose reading
  failed: at most two for each reading that returned false, none where all returned true.
\<close>

theorem message_memory_ledger:
  assumes "read_messages junk bs m h = Ret (oks, lost, m') h'" and "heap_ok (R + owned m) h"
  shows "\<exists>h''. message_delete m' h' = Ret () h'' \<and> mset (live h'') = R + mset lost \<and> distinct (live h'')
    \<and> length lost \<le> 2 * length (filter Not oks)"
proof -
  have 1: "heap_ok ((R + mset lost) + owned m') h'" "length lost \<le> 2 * length (filter Not oks)"
    using read_messages_ledger [OF assms] by (simp_all add: ac_simps)
  from message_delete_ledger [OF 1(1)] 1(2) show ?thesis by (auto simp: heap_ok_def)
qed

lemma owning_new:
  "heap_ok R h \<Longrightarrow> heap_ok (R + owned owning_response) h"
  "heap_ok R h \<Longrightarrow> owning_query rnd nm t h = Ret m h' \<Longrightarrow> heap_ok (R + owned m) h'"
proof -
  assume h: "heap_ok R h"
  show "heap_ok (R + owned owning_response) h" using h by (simp add: owned_def owning_response_def)
  assume "owning_query rnd nm t h = Ret m h'"
  then obtain p q h1 where p: "heap_new h = (p, h1)" "h' = h1" "own_questions m = [(p, q)]"
    "own_answers m = []" "own_authorities m = []" "own_additionals m = []"
    by (auto simp: owning_query_def query_new_name_def query_new_def message_new_def owning_response_def bind_out_eq_Ret Let_def
      split: prod.splits)
  then show "heap_ok (R + owned m) h'" using heap_ok_new [OF h p(1)] by (simp add: owned_def)
qed

text \<open>A header that announces a question, and nothing after it.\<close>

definition cut_header :: header where
  "cut_header = \<lparr>hid = 5, hflags = flags_new, qdcount = 1, ancount = 0, nscount = 0, arcount = 0\<rparr>"

definition cut_packet :: stream_buffer where
  "cut_packet = \<lparr>bytes = header_wire cut_header, limit = 64, opos = 0, rpos = 0, wpos = 12\<rparr>"

definition no_cells :: heap where
  "no_cells = \<lparr>next_cell = 0, live = []\<rparr>"

lemma cut_packet_facts:
  "sb_wf cut_packet" "sb_unread cut_packet = header_wire cut_header" "length (header_wire cut_header) = 12"
  by (simp_all add: cut_packet_def sb_wf_def vec_max_def sb_unread_def slice_def header_wire_def flags_wire_def)

lemma question_missing:
  assumes "sb_wf b" and "sb_unread b = []" and "sr_stream r" and "\<not> sr_flush r"
  shows "\<exists>q. question_read r question_new b = Ret (False, q) b"
  using sr_uint8_wf [OF assms(1,3,4)] assms
  by (auto simp: question_read_def dn_read_def)

lemma cut_read:
  "\<exists>m. read_messages junk [cut_packet] owning_response no_cells = Ret ([False], [0], m) \<lparr>next_cell = 1, live = [0]\<rparr>"
proof -
  have r: "sr_new_ptr True False = Ret () reader_on" by (simp add: sr_new_ptr_def reader_on_def sr_new_ref_def)
  let ?b = "cut_packet\<lparr>rpos := 12\<rparr>"
  have "flags_ok flags_new" by (simp add: flags_ok_def flags_new_def)
  then have h: "header_read reader_on (own_header owning_response) cut_packet = Ret (True, cut_header) ?b"
    using reads_header [of reader_on cut_header "sb_data cut_packet"] cut_packet_facts
    by (simp add: reads_def cut_header_def reader_on_def sr_new_ref_def cut_packet_def)
  have b: "sb_wf ?b" "sb_unread ?b = []" by (simp_all add: cut_packet_def sb_wf_def vec_max_def sb_unread_def slice_def cut_packet_facts)
  obtain q where "question_read reader_on question_new ?b = Ret (False, q) ?b"
    using question_missing [OF b, of reader_on] by (auto simp: reader_on_def sr_new_ref_def)
  then show ?thesis using r h
    by (simp add: owning_from_buffer_def owning_sections_def Let_def new_question_def heap_new_def no_cells_def lost_cells_def cut_header_def)
qed

theorem message_memory_ledger_witness:
  "\<exists>m h h'. read_messages 9 [cut_packet] owning_response no_cells = Ret ([False], [0], m) h
    \<and> message_delete m h = Ret () h' \<and> mset (live h') = {#0#}"
proof -
  obtain m h where m: "read_messages 9 [cut_packet] owning_response no_cells = Ret ([False], [0], m) h"
    using cut_read by blast
  have "heap_ok {#} no_cells" by (simp add: heap_ok_def no_cells_def)
  from message_memory_ledger [OF m owning_new(1) [OF this]] m show ?thesis by auto
qed

end
