(* ===== verification/Http.thy ===== *)
theory Http
  imports StreamRW
begin

text \<open>
  HTTP messages (\<open>HttpMessage.hpp\<close>, \<open>HttpMessage.cpp\<close>). \<open>HttpMessage\<close> and its two
  subclasses are one record whose start line is a datatype; the virtual functions are defined
  by cases. Packing and unpacking work on the message and the \<open>StreamBuffer\<close> together.
  Reading a \<open>double\<close> from a field has its own theory, \<open>HttpFloat\<close>.
\<close>

subsection \<open>Start lines\<close>

datatype start_line = RequestLine "char list" "char list" | StatusLine int "char list"

datatype PARSING = READY | HEADER | BODY | DONE

record http_message =
  version :: "char list"
  headers :: "(char list \<times> char list) list"
  body_len :: nat
  body :: "char list option"
  state :: PARSING
  start :: start_line

text \<open>A string handed over as \<open>const char*\<close> ends at its first null character.\<close>

definition c_str :: "char list \<Rightarrow> char list" where
  "c_str s = takeWhile (\<lambda>c. c \<noteq> CHR 0x00) s"

definition HTTP11 :: "char list" where
  "HTTP11 = ''HTTP/1.1''"

definition hm_new :: "char list \<Rightarrow> start_line \<Rightarrow> http_message" where
  "hm_new ver sl = \<lparr>version = ver, headers = [], body_len = 0, body = None, state = READY, start = sl\<rparr>"

definition http_request_new :: "char list \<Rightarrow> http_message" where
  "http_request_new ver = hm_new ver (RequestLine ''GET'' [])"

definition http_request_new_url :: "char list \<Rightarrow> char list \<Rightarrow> char list \<Rightarrow> http_message" where
  "http_request_new_url meth url ver = hm_new ver (RequestLine meth url)"

definition http_response_new :: "char list \<Rightarrow> http_message" where
  "http_response_new ver = hm_new ver (StatusLine 200 [])"

text \<open>
  \<open>HttpMessage::Reset\<close> releases the body under the condition \<open>!_body\<close>: a body that exists is
  neither released nor forgotten.
\<close>

definition hm_reset :: "http_message \<Rightarrow> http_message" where
  "hm_reset m =
     (let m1 = m\<lparr>headers := []\<rparr>;
          m2 = (if body m1 = None then m1\<lparr>body := None\<rparr> else m1)
      in m2\<lparr>body_len := 0, version := HTTP11, state := READY\<rparr>)"

text \<open>The destructor releases what \<open>Reset\<close> releases.\<close>

definition hm_delete :: "http_message \<Rightarrow> http_message" where
  "hm_delete m = hm_reset m"

definition request_reset :: "http_message \<Rightarrow> http_message" where
  "request_reset m = (hm_reset m)\<lparr>start := RequestLine ''GET'' []\<rparr>"

definition response_reset :: "http_message \<Rightarrow> http_message" where
  "response_reset m = (hm_reset m)\<lparr>start := StatusLine 200 ''OK''\<rparr>"

fun is_request :: "start_line \<Rightarrow> bool" where
  "is_request (RequestLine _ _) = True"
| "is_request (StatusLine _ _) = False"

definition http_reset :: "http_message \<Rightarrow> http_message" where
  "http_reset m = (if is_request (start m) then request_reset m else response_reset m)"

definition hm_get_type :: "http_message \<Rightarrow> nat" where
  "hm_get_type m = (if is_request (start m) then 1 else 2)"

definition hm_get_version :: "http_message \<Rightarrow> char list" where
  "hm_get_version m = c_str (version m)"

definition hm_set_version :: "char list \<Rightarrow> http_message \<Rightarrow> http_message" where
  "hm_set_version v m = m\<lparr>version := v\<rparr>"

fun request_get_method :: "start_line \<Rightarrow> char list" where
  "request_get_method (RequestLine m u) = c_str m" | "request_get_method (StatusLine c p) = []"

fun request_set_method :: "char list \<Rightarrow> start_line \<Rightarrow> start_line" where
  "request_set_method v (RequestLine m u) = RequestLine v u" | "request_set_method v (StatusLine c p) = StatusLine c p"

fun request_get_url :: "start_line \<Rightarrow> char list" where
  "request_get_url (RequestLine m u) = c_str u" | "request_get_url (StatusLine c p) = []"

fun request_set_url :: "char list \<Rightarrow> start_line \<Rightarrow> start_line" where
  "request_set_url v (RequestLine m u) = RequestLine m v" | "request_set_url v (StatusLine c p) = StatusLine c p"

fun response_set_status :: "int \<Rightarrow> char list \<Rightarrow> start_line \<Rightarrow> start_line" where
  "response_set_status c p (StatusLine _ _) = StatusLine c p"
| "response_set_status c p (RequestLine m u) = RequestLine m u"

fun response_get_code :: "start_line \<Rightarrow> int" where
  "response_get_code (StatusLine c p) = c" | "response_get_code (RequestLine m u) = 0"

subsection \<open>Header fields\<close>

text \<open>The vector keeps its order; setting replaces the first field of that key or appends.\<close>

fun set_field :: "char list \<Rightarrow> char list \<Rightarrow> (char list \<times> char list) list \<Rightarrow> (char list \<times> char list) list" where
  "set_field k v [] = [(k, v)]"
| "set_field k v ((k', v') # hs) = (if k = k' then (k', v) # hs else (k', v') # set_field k v hs)"

fun remove_field :: "char list \<Rightarrow> (char list \<times> char list) list \<Rightarrow> (char list \<times> char list) list" where
  "remove_field k [] = []"
| "remove_field k ((k', v') # hs) = (if k = k' then remove_field k hs else (k', v') # remove_field k hs)"

fun get_field :: "char list \<Rightarrow> (char list \<times> char list) list \<Rightarrow> char list option" where
  "get_field k [] = None"
| "get_field k ((k', v') # hs) = (if k' = k then Some (c_str v') else get_field k hs)"

definition hm_set_header :: "char list \<Rightarrow> char list \<Rightarrow> http_message \<Rightarrow> http_message" where
  "hm_set_header k v m = m\<lparr>headers := set_field k v (headers m)\<rparr>"

definition hm_remove_header :: "char list \<Rightarrow> http_message \<Rightarrow> http_message" where
  "hm_remove_header k m = m\<lparr>headers := remove_field k (headers m)\<rparr>"

definition hm_get_header :: "char list \<Rightarrow> http_message \<Rightarrow> char list option" where
  "hm_get_header k m = get_field k (headers m)"

text \<open>
  \<open>iss >> v\<close> for a \<open>long\<close>: the number at the front, cut to the range of \<open>long\<close>, zero where
  there is none. \<open>std::string value = nullptr\<close> throws \<open>std::logic_error\<close>.
\<close>

definition extract_long :: "char list \<Rightarrow> int" where
  "extract_long s = max (- (2 ^ 63)) (min (2 ^ 63 - 1) (atoi s))"

definition hm_get_header_int :: "char list \<Rightarrow> http_message \<Rightarrow> (int, http_message) outcome" where
  "hm_get_header_int k m =
     (case hm_get_header k m of None \<Rightarrow> Fault LogicErrorThrown | Some v \<Rightarrow> Ret (extract_long v) m)"

definition hm_get_body_len :: "http_message \<Rightarrow> nat" where
  "hm_get_body_len m = body_len m"

definition hm_get_body :: "http_message \<Rightarrow> char list option" where
  "hm_get_body m = body m"

subsection \<open>Printing and parsing start lines\<close>

definition s_default_phrases :: "(int \<times> char list) list" where
  "s_default_phrases =
    [(100, ''Continue''), (200, ''OK''), (201, ''Created''), (250, ''Low on Storage Space''),
     (300, ''Multiple Choices''), (301, ''Moved Permanently''), (302, ''Moved Temporarily''),
     (303, ''See Other''), (304, ''Not Modified''), (305, ''Use Proxy''),
     (400, ''Bad Request''), (401, ''Unauthorized''), (402, ''Payment Required''), (403, ''Forbidden''),
     (404, ''Not Found''), (405, ''Method Not Allowed''), (406, ''Not Acceptable''),
     (407, ''Proxy Authentication Required''), (408, ''Request Time-out''), (410, ''Gone''),
     (411, ''Length Required''), (412, ''Precondition Failed''), (413, ''Request Entity Too Large''),
     (414, ''Request-URI Too Large''), (415, ''Unsupported Media Type''), (451, ''Parameter Not Understood''),
     (452, ''Conference Not Found''), (453, ''Not Enough Bandwidth''), (454, ''Session Not Found''),
     (455, ''Method Not Valid in This State''), (456, ''Header Field Not Valid for Resource''),
     (457, ''Invalid Range''), (458, ''Parameter Is Read-Only''), (459, ''Aggregate operation not allowed''),
     (460, ''Only aggregate operation allowed''), (461, ''Unsupported transport''), (462, ''Destination unreachable''),
     (500, ''Internal Server Error''), (501, ''Not Implemented''), (502, ''Bad Gateway''),
     (503, ''Service Unavailable''), (504, ''Gateway Time-out''), (505, ''Rtsp Version not supported''),
     (551, ''Option not supported'')]"

text \<open>\<open>operator[]\<close> of the map: the null pointer for code 0 and for every other code without an entry.\<close>

definition default_phrase :: "int \<Rightarrow> char list option" where
  "default_phrase c = map_of s_default_phrases c"

fun response_get_phrase :: "start_line \<Rightarrow> char list option" where
  "response_get_phrase (StatusLine c p) = (if p = [] then default_phrase c else Some (c_str p))"
| "response_get_phrase (RequestLine m u) = None"

text \<open>A status without phrase makes a \<open>std::string\<close> of the default phrase, null or not.\<close>

definition print_request_line :: "char list \<Rightarrow> char list \<Rightarrow> char list \<Rightarrow> (char list, unit) outcome" where
  [simp]: "print_request_line ver m u = Ret (m @ '' '' @ u @ '' '' @ ver) ()"

fun print_start :: "char list \<Rightarrow> start_line \<Rightarrow> (char list, unit) outcome" where
  "print_start ver (RequestLine m u) = print_request_line ver m u"
| "print_start ver (StatusLine c p) =
     (if p \<noteq> [] then Ret (ver @ '' '' @ dec_of_int c @ '' '' @ p) ()
      else case default_phrase c of
             None \<Rightarrow> Fault LogicErrorThrown
           | Some d \<Rightarrow> Ret (ver @ '' '' @ dec_of_int c @ '' '' @ d) ())"

text \<open>
  \<open>iss >> _method >> _url >> _version\<close>: words separated by white space; a string for which no
  word is left keeps its value.
\<close>

definition next_word :: "char list \<Rightarrow> char list option \<times> char list" where
  "next_word s =
     (let t = dropWhile is_space s in
      if t = [] then (None, [])
      else (Some (takeWhile (\<lambda>c. \<not> is_space c) t), dropWhile (\<lambda>c. \<not> is_space c) t))"

definition or_else :: "char list \<Rightarrow> char list option \<Rightarrow> char list" where
  "or_else d x = (case x of None \<Rightarrow> d | Some y \<Rightarrow> y)"

text \<open>\<open>atoi\<close>: the number at the front, cut to \<open>long\<close> and then converted to \<open>int\<close>.\<close>

definition atoi_int :: "char list \<Rightarrow> int" where
  "atoi_int s = sint (word_of_int (extract_long s) :: 32 word)"

definition parse_request_line :: "char list \<Rightarrow> http_message \<Rightarrow> char list \<Rightarrow> char list \<Rightarrow> bool \<times> http_message" where
  [simp]: "parse_request_line line m me u =
     (if line = [] then (False, m)
      else case next_word line of (w1, r1) \<Rightarrow> case next_word r1 of (w2, r2) \<Rightarrow> case next_word r2 of (w3, r3) \<Rightarrow>
        (True, m\<lparr>start := RequestLine (or_else me w1) (or_else u w2), version := or_else (version m) w3\<rparr>))"

fun parse_start :: "char list \<Rightarrow> http_message \<Rightarrow> start_line \<Rightarrow> bool \<times> http_message" where
  "parse_start line m (RequestLine me u) = parse_request_line line m me u"
| "parse_start line m (StatusLine c p) =
     (if line = [] then (False, m)
      else case find_byte (\<lambda>ch. ch = CHR '' '') line of
             None \<Rightarrow> (True, m)
           | Some pos \<Rightarrow>
               let m1 = m\<lparr>version := take pos line\<rparr>; rest = drop (Suc pos) line in
               case find_byte (\<lambda>ch. ch = CHR '' '') rest of
                 None \<Rightarrow> (True, m1)
               | Some q \<Rightarrow> (True, m1\<lparr>start := StatusLine (atoi_int (c_str (take q rest))) (drop (Suc q) rest)\<rparr>))"

subsection \<open>Packing\<close>

definition hm_string :: "http_message \<Rightarrow> (char list, unit) outcome" where
  "hm_string m =
     bind_out (print_start (version m) (start m)) (\<lambda>line _.
       let heads = line @ CRLF @ concat (map (\<lambda>(k, v). k @ '':'' @ v @ CRLF) (headers m)) @ CRLF in
       if 0 < body_len m then
         (case body m of
            None \<Rightarrow> Fault LogicErrorThrown
          | Some p \<Rightarrow> if length p < body_len m then Fault OutOfBounds
                     else Ret (heads @ take (body_len m) p @ CRLF) ())
       else Ret heads ())"

fun hm_write_headers ::
  "stream_writer \<Rightarrow> (char list \<times> char list) list \<Rightarrow> stream_buffer \<Rightarrow> (bool, stream_buffer) outcome" where
  "hm_write_headers w [] b = Ret True b"
| "hm_write_headers w ((k, v) # hs) b =
     bind_out (and_then (wrote (sw_string_char w k (CHR '':'') b)) (\<lambda>c. wrote (sw_string_str w v CRLF c)))
       (\<lambda>ok c. if \<not> ok then Ret False c else hm_write_headers w hs c)"

definition hm_to_buffer :: "http_message \<Rightarrow> stream_buffer \<Rightarrow> (bool, stream_buffer) outcome" where
  "hm_to_buffer m b =
     bind_out (sw_new_ptr True False b) (\<lambda>w b0.
     bind_out (print_start (version m) (start m)) (\<lambda>line _.
     bind_out (wrote (sw_string_str w line CRLF b0)) (\<lambda>ok b1. if \<not> ok then Ret False b1 else
     bind_out (hm_write_headers w (headers m) b1) (\<lambda>ok b2. if \<not> ok then Ret False b2 else
     bind_out (sw_string w CRLF b2) (\<lambda>_ b3.
       if 0 < body_len m then
         (case body m of
            None \<Rightarrow> Ret True b3
          | Some p \<Rightarrow> if length p < body_len m then Fault OutOfBounds
                     else wrote (sw_bytes w (take (body_len m) p) b3))
       else Ret True b3)))))"

subsection \<open>Unpacking\<close>

definition hm_read_start ::
  "stream_reader \<Rightarrow> http_message \<times> stream_buffer \<Rightarrow> (unit, http_message \<times> stream_buffer) outcome" where
  "hm_read_start r = (\<lambda>(m, b).
     if state m \<noteq> READY then Fault AssertFailed
     else bind_out (sr_string_str r CRLF b) (\<lambda>(ok, line) c.
       if ok then Ret () ((snd (parse_start (or_else [] line) m (start m)))\<lparr>state := HEADER\<rparr>, c)
       else Ret () (m, c)))"

text \<open>
  A header line is split at its first colon, which the code asserts; \<open>size_t _body_len\<close>
  takes the \<open>long\<close> modulo \<open>2 ^ 64\<close>.
\<close>

definition hm_header_line :: "char list \<Rightarrow> http_message \<Rightarrow> (unit, http_message) outcome" where
  "hm_header_line line m =
     (case find_byte (\<lambda>c. c = CHR '':'') line of
        None \<Rightarrow> Fault AssertFailed
      | Some pos \<Rightarrow> Ret () (hm_set_header (c_str (take pos line)) (c_str (drop (Suc pos) line)) m))"

definition hm_end_headers :: "http_message \<Rightarrow> (unit, http_message) outcome" where
  "hm_end_headers m =
     bind_out (hm_get_header_int ''Content-Length'' m) (\<lambda>n m.
       let k = of_ssize n in Ret () (m\<lparr>body_len := k, state := (if 0 < k then BODY else DONE)\<rparr>))"

fun hm_header_loop ::
  "nat \<Rightarrow> stream_reader \<Rightarrow> http_message \<times> stream_buffer \<Rightarrow> (unit, http_message \<times> stream_buffer) outcome" where
  "hm_header_loop 0 r s = Fault Diverges"
| "hm_header_loop (Suc f) r (m, b) =
     bind_out (sr_string_str r CRLF b) (\<lambda>(ok, line) c.
       if \<not> ok then Ret () (m, c)
       else if or_else [] line = [] then bind_out (hm_end_headers m) (\<lambda>_ m'. Ret () (m', c))
       else bind_out (hm_header_line (or_else [] line) m) (\<lambda>_ m'. hm_header_loop f r (m', c)))"

definition hm_read_header ::
  "stream_reader \<Rightarrow> http_message \<times> stream_buffer \<Rightarrow> (unit, http_message \<times> stream_buffer) outcome" where
  "hm_read_header r = (\<lambda>(m, b).
     if state m \<noteq> HEADER then Fault AssertFailed
     else hm_header_loop (Suc (sb_readable b)) r (m, b))"

text \<open>
  \<open>new char[_body_len]\<close> throws for a length no array can have. Memory that is already there
  is written to whatever its size. Fresh memory is taken as zeros; nothing depends on it.
\<close>

definition hm_read_body ::
  "stream_reader \<Rightarrow> http_message \<times> stream_buffer \<Rightarrow> (unit, http_message \<times> stream_buffer) outcome" where
  "hm_read_body r = (\<lambda>(m, b).
     if state m \<noteq> BODY \<or> \<not> 0 < body_len m then Fault AssertFailed
     else if body m = None \<and> vec_max < body_len m then Fault LengthError
     else let p = (case body m of None \<Rightarrow> replicate (body_len m) (CHR 0x00) | Some p \<Rightarrow> p);
              m1 = m\<lparr>body := Some p\<rparr> in
       bind_out (sr_bytes r (body_len m) b) (\<lambda>res c. case res of
           None \<Rightarrow> Ret () (m1, c)
         | Some q \<Rightarrow> if length p < body_len m then Fault OutOfBounds
                    else Ret () (m1\<lparr>body := Some (patch 0 q p), state := DONE\<rparr>, c)))"

definition hm_from_buffer :: "http_message \<Rightarrow> stream_buffer \<Rightarrow> (bool, http_message \<times> stream_buffer) outcome" where
  "hm_from_buffer m b =
     bind_out (sr_new_ptr True False) (\<lambda>_ r.
     bind_out (if state m = READY then hm_read_start r (m, b) else Ret () (m, b)) (\<lambda>_ s1.
     bind_out (if state (fst s1) = HEADER then hm_read_header r s1 else Ret () s1) (\<lambda>_ s2.
     bind_out (if state (fst s2) = BODY then hm_read_body r s2 else Ret () s2) (\<lambda>_ s3.
       if state (fst s3) = DONE then Ret True (fst s3, snd (sb_flush (snd s3))) else Ret False s3))))"

subsection \<open>Header fields as a dictionary\<close>

locale dictionary =
  fixes look :: "'k \<Rightarrow> 'd \<Rightarrow> 'v option"
    and put :: "'k \<Rightarrow> 'v \<Rightarrow> 'd \<Rightarrow> 'd"
    and remove :: "'k \<Rightarrow> 'd \<Rightarrow> 'd"
    and ok :: "'v \<Rightarrow> bool"
  assumes look_put: "ok v \<Longrightarrow> look k (put k v d) = Some v"
    and look_put_other: "k \<noteq> l \<Longrightarrow> look l (put k v d) = look l d"
    and look_remove: "look k (remove k d) = None"
    and look_remove_other: "k \<noteq> l \<Longrightarrow> look l (remove k d) = look l d"
begin

text \<open>After any list of assignments the last one of each key counts.\<close>

lemma look_puts:
  "\<forall>(k, v) \<in> set kvs. ok v \<Longrightarrow>
    look l (fold (\<lambda>(k, v). put k v) kvs d) =
      (case map_of (rev kvs) l of None \<Rightarrow> look l d | Some v \<Rightarrow> Some v)"
proof (induction kvs arbitrary: d)
  case Nil
  then show ?case by simp
next
  case (Cons kv kvs)
  obtain k v where kv: "kv = (k, v)" by (cases kv)
  from Cons.prems have "ok v" by (simp add: kv)
  with Cons show ?case
    by (cases "k = l") (auto simp: kv look_put look_put_other map_add_def split: option.splits)
qed

lemma look_removes: "look l (fold remove ks d) = (if l \<in> set ks then None else look l d)"
proof (induction ks arbitrary: d)
  case Nil
  then show ?case by simp
next
  case (Cons k ks)
  then show ?case by (cases "k = l") (auto simp: look_remove look_remove_other)
qed

end

lemma c_str_free: "CHR 0x00 \<notin> set v \<Longrightarrow> c_str v = v"
  unfolding c_str_def by (rule takeWhile_eq_all_conv [THEN iffD2]) auto

interpretation fields: dictionary get_field set_field remove_field "\<lambda>v. CHR 0x00 \<notin> set v"
proof
  show "CHR 0x00 \<notin> set v \<Longrightarrow> get_field k (set_field k v d) = Some v" for v k d
    by (induction d rule: set_field.induct) (auto simp: c_str_free)
  show "k \<noteq> l \<Longrightarrow> get_field l (set_field k v d) = get_field l d" for k l v d
    by (induction k v d rule: set_field.induct) auto
  show "get_field k (remove_field k d) = None" for k d
    by (induction k d rule: remove_field.induct) auto
  show "k \<noteq> l \<Longrightarrow> get_field l (remove_field k d) = get_field l d" for k l d
    by (induction k d rule: remove_field.induct) auto
qed

lemma set_field_new: "k \<notin> fst ` set hs \<Longrightarrow> set_field k v hs = hs @ [(k, v)]"
  by (induction k v hs rule: set_field.induct) auto

subsection \<open>Reading lines\<close>

definition text_line :: "char list \<Rightarrow> bool" where
  "text_line s \<longleftrightarrow> (\<forall>c \<in> set s. c \<notin> set CRLF)"

lemma CRLF_facts: "length CRLF = 2" "CRLF \<noteq> []"
  by (simp_all add: CRLF_def)

lemma reads_line:
  assumes r: "sr_stream r" "\<not> sr_flush r" and s: "s \<noteq> []" "text_line s"
  shows "reads D (sr_string_str r CRLF) (True, Some s) (s @ CRLF)"
  unfolding reads_def
proof (intro allI impI)
  fix b assume b: "sb_wf b \<and> sb_data b = D \<and> take (length (s @ CRLF)) (sb_unread b) = s @ CRLF"
  then have u: "sb_unread b = s @ CRLF @ drop (length (s @ CRLF)) (sb_unread b)"
    by (metis append.assoc append_take_drop_id)
  have "scan_delim CRLF (sb_unread b) = Some (length s)"
    by (subst u) (rule scan_delim_append, use s in \<open>simp_all add: text_line_def CRLF_facts\<close>)
  moreover have "length s + 2 \<le> length (sb_unread b)" by (subst u) (simp add: CRLF_facts)
  moreover have "take (length s) (sb_unread b) = s" by (subst u) simp
  ultimately show "sr_string_str r CRLF b = Ret (True, Some s) (b\<lparr>rpos := rpos b + length (s @ CRLF)\<rparr>)"
    using b s by (simp add: sr_string_str_wf [OF _ r] CRLF_facts add.assoc)
qed

lemma read_blank_line:
  assumes r: "sr_stream r" "\<not> sr_flush r" and wf: "sb_wf b" and u: "sb_unread b = CRLF @ rest"
  shows "sr_string_str r CRLF b = Ret (True, Some []) b"
proof -
  have "scan_delim CRLF (sb_unread b) = Some 0"
    using scan_delim_append [of "[]" CRLF rest] u by (simp add: CRLF_facts)
  then show ?thesis by (simp add: sr_string_str_wf [OF wf r] CRLF_facts)
qed

subsection \<open>Reading header fields\<close>

definition hf_ok :: "char list \<times> char list \<Rightarrow> bool" where
  "hf_ok kv \<longleftrightarrow> fst kv \<noteq> [] \<and> CHR '':'' \<notin> set (fst kv) \<and> CHR 0x00 \<notin> set (fst kv) \<and> text_line (fst kv)
     \<and> CHR 0x00 \<notin> set (snd kv) \<and> text_line (snd kv)"

definition hf_line :: "char list \<times> char list \<Rightarrow> char list" where
  "hf_line kv = fst kv @ '':'' @ snd kv"

definition hf_wire :: "char list \<times> char list \<Rightarrow> char list" where
  "hf_wire kv = hf_line kv @ CRLF"

lemma hf_line_text: "hf_ok kv \<Longrightarrow> hf_line kv \<noteq> [] \<and> text_line (hf_line kv)"
  by (auto simp: hf_ok_def hf_line_def text_line_def CRLF_def)

lemma header_line_field:
  assumes "hf_ok (k, v)"
  shows "hm_header_line (hf_line (k, v)) m = Ret () (hm_set_header k v m)"
proof -
  have "find_byte (\<lambda>c. c = CHR '':'') (k @ CHR '':'' # v) = Some (length k)"
    using assms by (intro find_byte_append) (auto simp: hf_ok_def)
  then show ?thesis using assms
    by (simp add: hm_header_line_def hf_line_def c_str_free hf_ok_def)
qed

lemma header_loop_fields:
  assumes r: "sr_stream r" "\<not> sr_flush r"
  shows "sb_wf b \<Longrightarrow> take (length (concat (map hf_wire hs))) (sb_unread b) = concat (map hf_wire hs) \<Longrightarrow>
    list_all hf_ok hs \<Longrightarrow> distinct (map fst (headers m @ hs)) \<Longrightarrow>
    hm_header_loop (length hs + f) r (m, b) =
      hm_header_loop f r (m\<lparr>headers := headers m @ hs\<rparr>, b\<lparr>rpos := rpos b + length (concat (map hf_wire hs))\<rparr>)"
proof (induction hs arbitrary: m b)
  case Nil
  then show ?case by simp
next
  case (Cons h hs)
  obtain k v where kv: "h = (k, v)" by (cases h)
  have ok: "hf_ok (k, v)" "list_all hf_ok hs" using Cons.prems(3) by (simp_all add: kv)
  let ?rest = "concat (map hf_wire hs)"
  have p: "take (length (hf_wire (k, v))) (sb_unread b) = hf_wire (k, v)"
    and q: "take (length ?rest) (drop (length (hf_wire (k, v))) (sb_unread b)) = ?rest"
    using Cons.prems(2) take_prefix_append [of "hf_wire (k, v)" ?rest "sb_unread b"] by (auto simp: kv)
  let ?c = "b\<lparr>rpos := rpos b + length (hf_wire (k, v))\<rparr>"
  note c = unread_after [OF Cons.prems(1) p]
  have line: "hf_line (k, v) \<noteq> []" "text_line (hf_line (k, v))" using hf_line_text [OF ok(1)] by blast+
  have "sr_string_str r CRLF b = Ret (True, Some (hf_line (k, v))) ?c"
    using readsD [OF reads_line [OF r line] Cons.prems(1) refl] p by (simp add: hf_wire_def)
  then have "hm_header_loop (length (h # hs) + f) r (m, b) =
      hm_header_loop (length hs + f) r (hm_set_header k v m, ?c)"
    using line(1) by (simp add: or_else_def header_line_field [OF ok(1)])
  moreover have "hm_set_header k v m = m\<lparr>headers := headers m @ [(k, v)]\<rparr>"
    using Cons.prems(4) by (simp add: hm_set_header_def set_field_new kv)
  moreover have "hm_header_loop (length hs + f) r (m\<lparr>headers := headers m @ [(k, v)]\<rparr>, ?c) =
      hm_header_loop f r (m\<lparr>headers := (headers m @ [(k, v)]) @ hs\<rparr>, ?c\<lparr>rpos := rpos ?c + length ?rest\<rparr>)"
    using Cons.IH [OF c(1), of "m\<lparr>headers := headers m @ [(k, v)]\<rparr>"] q c(2) ok(2) Cons.prems(4)
    by (simp add: kv)
  ultimately show ?case by (simp add: kv add.assoc)
qed

lemma hf_wire_pos: "0 < length (hf_wire kv)"
  by (simp add: hf_wire_def CRLF_facts)

lemma length_fields: "length hs \<le> length (concat (map hf_wire hs))"
proof (induction hs)
  case (Cons h hs)
  then show ?case using hf_wire_pos [of h] by (simp del: length_greater_0_conv)
qed simp

text \<open>All fields, then the blank line, which stays unread.\<close>

lemma read_header_fields:
  assumes r: "sr_stream r" "\<not> sr_flush r" and wf: "sb_wf b"
    and u: "sb_unread b = concat (map hf_wire hs) @ CRLF @ rest"
    and hs: "list_all hf_ok hs" "distinct (map fst hs)" "headers m = []" "state m = HEADER"
  shows "hm_read_header r (m, b) =
    (let c = b\<lparr>rpos := rpos b + length (concat (map hf_wire hs))\<rparr> in
     bind_out (hm_end_headers (m\<lparr>headers := hs\<rparr>)) (\<lambda>_ m'. Ret () (m', c)))
    \<and> sb_wf (b\<lparr>rpos := rpos b + length (concat (map hf_wire hs))\<rparr>)
    \<and> sb_unread (b\<lparr>rpos := rpos b + length (concat (map hf_wire hs))\<rparr>) = CRLF @ rest"
proof -
  let ?n = "length (concat (map hf_wire hs))"
  have p: "take ?n (sb_unread b) = concat (map hf_wire hs)" by (simp add: u)
  note c = unread_after [OF wf p]
  have uc: "sb_unread (b\<lparr>rpos := rpos b + ?n\<rparr>) = CRLF @ rest" using c(2) u by simp
  have "length hs \<le> sb_readable b"
    using length_fields [of hs] by (simp add: sb_readable_unread [OF wf] u)
  then obtain f where f: "Suc (sb_readable b) = length hs + Suc f"
    by (metis add_Suc_right le_iff_add)
  have "hm_header_loop (Suc (sb_readable b)) r (m, b) =
      hm_header_loop (Suc f) r (m\<lparr>headers := hs\<rparr>, b\<lparr>rpos := rpos b + ?n\<rparr>)"
    unfolding f using header_loop_fields [OF r wf p hs(1), of m "Suc f"] hs
    by (simp del: hm_header_loop.simps)
  also have "\<dots> = bind_out (hm_end_headers (m\<lparr>headers := hs\<rparr>)) (\<lambda>_ m'. Ret () (m', b\<lparr>rpos := rpos b + ?n\<rparr>))"
    by (simp add: read_blank_line [OF r c(1) uc] or_else_def)
  finally show ?thesis
    using hs(4) c(1) uc by (simp add: hm_read_header_def Let_def del: hm_header_loop.simps)
qed

subsection \<open>Start lines, printed and parsed\<close>

definition word_ok :: "char list \<Rightarrow> bool" where
  "word_ok w \<longleftrightarrow> w \<noteq> [] \<and> (\<forall>c \<in> set w. \<not> is_space c)"

lemma space_is_space [simp]: "is_space (CHR '' '')"
  by (simp add: is_space_def)

lemma next_word_word:
  "word_ok w \<Longrightarrow> r = [] \<or> is_space (hd r) \<Longrightarrow> next_word (w @ r) = (Some w, r)"
proof -
  assume w: "word_ok w" and r: "r = [] \<or> is_space (hd r)"
  have d: "dropWhile is_space (w @ r) = w @ r" using w by (cases w) (auto simp: word_ok_def)
  have "takeWhile (\<lambda>c. \<not> is_space c) (w @ r) = w @ takeWhile (\<lambda>c. \<not> is_space c) r"
    and "dropWhile (\<lambda>c. \<not> is_space c) (w @ r) = dropWhile (\<lambda>c. \<not> is_space c) r"
    using w by (auto simp: word_ok_def intro: takeWhile_append2 dropWhile_append2)
  moreover have "takeWhile (\<lambda>c. \<not> is_space c) r = [] \<and> dropWhile (\<lambda>c. \<not> is_space c) r = r"
    using r by (cases r) auto
  ultimately show ?thesis using d w by (simp add: next_word_def Let_def word_ok_def)
qed

lemma next_word_space: "next_word (CHR '' '' # s) = next_word s"
  by (simp add: next_word_def)

fun start_ok :: "char list \<Rightarrow> start_line \<Rightarrow> bool" where
  "start_ok ver (RequestLine m u) \<longleftrightarrow> word_ok m \<and> word_ok u \<and> word_ok ver"
| "start_ok ver (StatusLine c p) \<longleftrightarrow> CHR '' '' \<notin> set ver \<and> ver \<noteq> [] \<and> 0 \<le> c \<and> c < 2 ^ 31"

text \<open>The start line as the receiver sees it: a default phrase is spelled out.\<close>

fun sent_start :: "start_line \<Rightarrow> start_line" where
  "sent_start (RequestLine m u) = RequestLine m u"
| "sent_start (StatusLine c p) = StatusLine c (if p = [] then or_else [] (default_phrase c) else p)"

lemma dec_of_nat_no_space: "CHR '' '' \<notin> set (dec_of_nat n) \<and> CHR 0x00 \<notin> set (dec_of_nat n)"
  using dec_of_nat_digits [of n] by (auto simp: is_digit_def)

lemma atoi_int_dec: "0 \<le> c \<Longrightarrow> c < 2 ^ 31 \<Longrightarrow> atoi_int (c_str (dec_of_int c)) = c"
proof -
  assume c: "0 \<le> c" "c < 2 ^ 31"
  have "dec_of_int c = dec_of_nat (nat c)" using c by (simp add: dec_of_int_def)
  then have "atoi (c_str (dec_of_int c)) = c"
    using c dec_of_nat_no_space [of "nat c"] by (simp add: c_str_free atoi_dec)
  moreover have "sint (word_of_int c :: 32 word) = c"
    using c by (simp add: sint_sbintrunc' signed_take_bit_int_eq_self)
  ultimately show ?thesis using c by (simp add: atoi_int_def extract_long_def)
qed

lemma start_line_parse:
  assumes "start_ok ver sl" and "print_start ver sl = Ret line ()" and "is_request sl = is_request sl0"
  shows "parse_start line m sl0 = (True, m\<lparr>start := sent_start sl, version := ver\<rparr>)"
proof (cases sl)
  case (RequestLine me u)
  then obtain me0 u0 where sl0: "sl0 = RequestLine me0 u0" using assms(3) by (cases sl0) auto
  have ok: "word_ok me" "word_ok u" "word_ok ver" using assms(1) RequestLine by simp_all
  have line: "line = me @ CHR '' '' # (u @ CHR '' '' # ver)" using assms(2) RequestLine by simp
  have ne: "line \<noteq> []" using line by simp
  have "next_word line = (Some me, CHR '' '' # (u @ CHR '' '' # ver))"
    unfolding line by (rule next_word_word [OF ok(1)]) simp
  moreover have "next_word (CHR '' '' # (u @ CHR '' '' # ver)) = (Some u, CHR '' '' # ver)"
    unfolding next_word_space by (rule next_word_word [OF ok(2)]) simp
  moreover have "next_word (CHR '' '' # ver) = (Some ver, [])"
    unfolding next_word_space using next_word_word [OF ok(3), of "[]"] by simp
  ultimately show ?thesis using ne by (simp add: sl0 RequestLine or_else_def)
next
  case (StatusLine c p)
  then obtain c0 p0 where sl0: "sl0 = StatusLine c0 p0" using assms(3) by (cases sl0) auto
  have ver: "CHR '' '' \<notin> set ver" "ver \<noteq> []" and c: "0 \<le> c" "c < 2 ^ 31"
    using assms(1) StatusLine by simp_all
  let ?p = "if p = [] then or_else [] (default_phrase c) else p"
  have line: "line = ver @ CHR '' '' # (dec_of_int c @ CHR '' '' # ?p)"
    using assms(2) StatusLine by (auto simp: or_else_def split: if_splits option.splits)
  have "find_byte (\<lambda>ch. ch = CHR '' '') line = Some (length ver)"
    unfolding line by (rule find_byte_append) (use ver in auto)
  moreover have "CHR '' '' \<notin> set (dec_of_int c)"
    using c dec_of_nat_no_space by (simp add: dec_of_int_def)
  then have "find_byte (\<lambda>ch. ch = CHR '' '') (dec_of_int c @ CHR '' '' # ?p) = Some (length (dec_of_int c))"
    by (intro find_byte_append) auto
  ultimately show ?thesis
    using atoi_int_dec [OF c] ver(2) by (simp add: sl0 StatusLine line Let_def)
qed

lemma parse_start_keeps:
  "parse_start line m sl = (ok, m') \<Longrightarrow>
    headers m' = headers m \<and> body m' = body m \<and> body_len m' = body_len m \<and> state m' = state m"
  by (cases sl) (auto simp: Let_def split: if_splits prod.splits option.splits)

subsection \<open>Reading a message\<close>

lemma read_start_line:
  assumes r: "sr_stream r" "\<not> sr_flush r" and wf: "sb_wf b" and m: "state m = READY"
    and line: "line \<noteq> []" "text_line line" and u: "sb_unread b = line @ CRLF @ rest"
  shows "hm_read_start r (m, b) =
      Ret () ((snd (parse_start line m (start m)))\<lparr>state := HEADER\<rparr>, b\<lparr>rpos := rpos b + length (line @ CRLF)\<rparr>)
    \<and> sb_wf (b\<lparr>rpos := rpos b + length (line @ CRLF)\<rparr>)
    \<and> sb_unread (b\<lparr>rpos := rpos b + length (line @ CRLF)\<rparr>) = rest"
proof -
  have p: "take (length (line @ CRLF)) (sb_unread b) = line @ CRLF" by (simp add: u)
  note c = unread_after [OF wf p]
  have "sb_unread (b\<lparr>rpos := rpos b + length (line @ CRLF)\<rparr>) = rest" using c(2) u by simp
  then show ?thesis
    using readsD [OF reads_line [OF r line] wf refl p] c(1) m by (simp add: hm_read_start_def or_else_def)
qed

lemma end_headers_len:
  "get_field ''Content-Length'' (headers m) = Some v \<Longrightarrow> extract_long v = int n \<Longrightarrow> n < 2 ^ 64 \<Longrightarrow>
    hm_end_headers m = Ret () (m\<lparr>body_len := n, state := (if 0 < n then BODY else DONE)\<rparr>)"
  by (simp add: hm_end_headers_def hm_get_header_int_def hm_get_header_def of_ssize_exact Let_def)

lemma read_body_fresh:
  assumes r: "sr_stream r" "\<not> sr_flush r" and wf: "sb_wf b"
    and m: "state m = BODY" "0 < body_len m" "body m = None" "body_len m \<le> vec_max"
  shows "hm_read_body r (m, b) =
    (if body_len m \<le> length (sb_unread b)
     then Ret () (m\<lparr>body := Some (take (body_len m) (sb_unread b)), state := DONE\<rparr>, b\<lparr>rpos := rpos b + body_len m\<rparr>)
     else Ret () (m\<lparr>body := Some (replicate (body_len m) (CHR 0x00))\<rparr>, b))"
  using m r
  by (auto simp: hm_read_body_def sr_bytes_def sb_readable_unread [OF wf] sb_read_wf [OF wf] sr_done_def
      Let_def patch_def)

text \<open>What \<open>FromBuffer\<close> makes of a whole head with a content length.\<close>

definition parsed :: "char list \<Rightarrow> (char list \<times> char list) list \<Rightarrow> http_message \<Rightarrow> http_message" where
  "parsed line hs m = (snd (parse_start line m (start m)))\<lparr>headers := hs\<rparr>"

lemma from_buffer_head:
  assumes wf: "sb_wf b" and m: "state m = READY" "headers m = []"
    and line: "line \<noteq> []" "text_line line" and hs: "list_all hf_ok hs" "distinct (map fst hs)"
    and u: "sb_unread b = line @ CRLF @ concat (map hf_wire hs) @ CRLF @ rest"
  shows "\<exists>c. sb_wf c \<and> sb_unread c = CRLF @ rest \<and>
    hm_from_buffer m b =
      bind_out (hm_end_headers ((parsed line hs m)\<lparr>state := HEADER\<rparr>)) (\<lambda>_ m1.
        bind_out (if state m1 = BODY then hm_read_body reader_on (m1, c) else Ret () (m1, c)) (\<lambda>_ s.
          if state (fst s) = DONE then Ret True (fst s, snd (sb_flush (snd s))) else Ret False s))"
proof -
  let ?r = reader_on
  let ?m1 = "(snd (parse_start line m (start m)))\<lparr>state := HEADER\<rparr>"
  let ?b1 = "b\<lparr>rpos := rpos b + length (line @ CRLF)\<rparr>"
  have st: "hm_read_start ?r (m, b) = Ret () (?m1, ?b1)" "sb_wf ?b1"
    "sb_unread ?b1 = concat (map hf_wire hs) @ CRLF @ rest"
    using read_start_line [OF on_simps(2,3) wf m(1) line u] by blast+
  obtain ok m0 where ps: "parse_start line m (start m) = (ok, m0)" by fastforce
  have h: "headers ?m1 = []" "state ?m1 = HEADER" using parse_start_keeps [OF ps] m ps by simp_all
  let ?c = "?b1\<lparr>rpos := rpos ?b1 + length (concat (map hf_wire hs))\<rparr>"
  have hd: "hm_read_header ?r (?m1, ?b1) =
      bind_out (hm_end_headers (?m1\<lparr>headers := hs\<rparr>)) (\<lambda>_ m'. Ret () (m', ?c))"
    "sb_wf ?c" "sb_unread ?c = CRLF @ rest"
    using read_header_fields [OF on_simps(2,3) st(2,3) hs h] by (simp_all add: Let_def)
  have eq: "?m1\<lparr>headers := hs\<rparr> = (parsed line hs m)\<lparr>state := HEADER\<rparr>" by (simp add: parsed_def)
  have on: "sr_new_ptr True False = Ret () reader_on"
    by (simp add: sr_new_ptr_def reader_on_def sr_new_ref_def)
  have "hm_from_buffer m b =
      bind_out (bind_out (hm_end_headers ((parsed line hs m)\<lparr>state := HEADER\<rparr>)) (\<lambda>_ m'. Ret () (m', ?c))) (\<lambda>_ s2.
        bind_out (if state (fst s2) = BODY then hm_read_body ?r s2 else Ret () s2) (\<lambda>_ s.
          if state (fst s) = DONE then Ret True (fst s, snd (sb_flush (snd s))) else Ret False s))"
    using m(1) h(2) st(1) unfolding hm_from_buffer_def on eq [symmetric] hd(1) [symmetric] by simp
  then show ?thesis using hd(2,3) unfolding bind_out_assoc bind_out.simps fst_conv by blast
qed

lemma parsed_fields:
  "state (parsed line hs m) = state m" "headers (parsed line hs m) = hs" "body (parsed line hs m) = body m"
  using parse_start_keeps [of line m "start m"]
  by (cases "parse_start line m (start m)"; simp add: parsed_def)+

lemma from_buffer_message:
  assumes wf: "sb_wf b" and m: "state m = READY" "headers m = []" "body m = None"
    and line: "line \<noteq> []" "text_line line" and hs: "list_all hf_ok hs" "distinct (map fst hs)"
    and len: "get_field ''Content-Length'' hs = Some v" "extract_long v = int n" "n \<le> vec_max"
    and u: "sb_unread b = line @ CRLF @ concat (map hf_wire hs) @ CRLF @ rest"
  shows "\<exists>c. sb_wf c \<and> hm_from_buffer m b =
    (if n = 0 then Ret True ((parsed line hs m)\<lparr>body_len := 0, state := DONE\<rparr>, c)
     else if n \<le> 2 + length rest
     then Ret True ((parsed line hs m)\<lparr>body_len := n, body := Some (take n (CRLF @ rest)), state := DONE\<rparr>, c)
     else Ret False ((parsed line hs m)\<lparr>body_len := n, body := Some (replicate n (CHR 0x00)), state := BODY\<rparr>, c))
    \<and> sb_unread c = (if n \<le> 2 + length rest then drop n (CRLF @ rest) else CRLF @ rest)"
proof -
  obtain c where c: "sb_wf c" "sb_unread c = CRLF @ rest" "hm_from_buffer m b =
      bind_out (hm_end_headers ((parsed line hs m)\<lparr>state := HEADER\<rparr>)) (\<lambda>_ m1.
        bind_out (if state m1 = BODY then hm_read_body reader_on (m1, c) else Ret () (m1, c)) (\<lambda>_ s.
          if state (fst s) = DONE then Ret True (fst s, snd (sb_flush (snd s))) else Ret False s))"
    using from_buffer_head [OF wf m(1,2) line hs u] by blast
  let ?m = "(parsed line hs m)\<lparr>body_len := n, state := (if 0 < n then BODY else DONE)\<rparr>"
  have small: "n < 2 ^ 64" using len(3) by (simp add: vec_max_def)
  have e: "hm_end_headers ((parsed line hs m)\<lparr>state := HEADER\<rparr>) = Ret () ?m"
    using end_headers_len [of "(parsed line hs m)\<lparr>state := HEADER\<rparr>" v n] len small by (simp add: parsed_fields)
  show ?thesis
  proof (cases "n = 0")
    case True
    then show ?thesis
      using c e sb_flush_wf [OF c(1)] sb_flush_contents [OF c(1)]
      by (intro exI [of _ "snd (sb_flush c)"]) simp
  next
    case False
    have len2: "length (sb_unread c) = 2 + length rest" using c(2) by (simp add: CRLF_facts)
    have m2: "state ?m = BODY" "0 < body_len ?m" "body ?m = None" "body_len ?m \<le> vec_max"
      using False m(3) len(3) by (simp_all add: parsed_fields)
    note rb = read_body_fresh [OF on_simps(2,3) c(1) m2]
    show ?thesis
    proof (cases "n \<le> 2 + length rest")
      case True
      let ?d = "c\<lparr>rpos := rpos c + n\<rparr>"
      have con: "sb_consumes n c ?d" using True len2 by (simp add: sb_consumes_def)
      have d: "sb_wf ?d" "sb_unread ?d = drop n (CRLF @ rest)"
        using sb_consumes_wf [OF c(1) con] sb_consumes_unread [OF c(1) con] c(2) by simp_all
      have "hm_from_buffer m b =
          Ret True ((parsed line hs m)\<lparr>body_len := n, body := Some (take n (CRLF @ rest)), state := DONE\<rparr>,
            snd (sb_flush ?d))"
        unfolding c(3) e using rb True len2 c(2) False by simp
      then show ?thesis
        using True False sb_flush_wf [OF d(1)] sb_flush_contents [OF d(1)] d(2)
        by (intro exI [of _ "snd (sb_flush ?d)"]) simp
    next
      case False2: False
      have "hm_from_buffer m b =
          Ret False ((parsed line hs m)\<lparr>body_len := n, body := Some (replicate n (CHR 0x00)), state := BODY\<rparr>, c)"
        unfolding c(3) e using rb False2 len2 False by simp
      then show ?thesis using False2 False c(1,2) by (intro exI [of _ c]) simp
    qed
  qed
qed

subsection \<open>What is written\<close>

lemma emits_string_char:
  "sw_stream w \<Longrightarrow> k \<noteq> [] \<Longrightarrow> d \<notin> set k \<Longrightarrow> emits (\<lambda>b. wrote (sw_string_char w k d b)) (k @ [d])"
proof -
  assume w: "sw_stream w" and k: "k \<noteq> []" "d \<notin> set k"
  then have "k ! (length k - 1) \<noteq> d" by (metis last_conv_nth last_in_set)
  then show ?thesis using emits_write [of "k @ [d]"] w k by (simp add: sw_string_char_def)
qed

lemma emits_fields:
  "sw_stream w \<Longrightarrow> list_all hf_ok hs \<Longrightarrow> emits (hm_write_headers w hs) (concat (map hf_wire hs))"
proof (induction hs)
  case Nil
  then show ?case using emits_nil by (simp add: emits_def)
next
  case (Cons h hs)
  obtain k v where h: "h = (k, v)" by (cases h)
  have ok: "k \<noteq> []" "CHR '':'' \<notin> set k" using Cons.prems(2) by (simp_all add: h hf_ok_def)
  have one: "emits (\<lambda>b. and_then (wrote (sw_string_char w k (CHR '':'') b)) (\<lambda>c. wrote (sw_string_str w v CRLF c)))
      (hf_wire h)"
    using emits_and_then [OF emits_string_char [OF Cons.prems(1) ok] emits_sw(8) [OF Cons.prems(1)], of v CRLF]
    by (simp add: h hf_wire_def hf_line_def)
  let ?k = "\<lambda>ok c. if \<not> ok then Ret False c else hm_write_headers w hs c"
  have "emits_ret (?k True) True (concat (map hf_wire hs))"
    using Cons by (simp add: emits_ret_emits)
  from emits_ret_bind [where k = ?k, OF one [folded emits_ret_emits] this] show ?case
    by (simp add: h emits_ret_def emits_def)
qed

definition msg_image :: "char list \<Rightarrow> http_message \<Rightarrow> char list" where
  "msg_image line m = line @ CRLF @ concat (map hf_wire (headers m)) @ CRLF
     @ (if 0 < body_len m then or_else [] (body m) else [])"

lemma to_buffer_image:
  assumes line: "print_start (version m) (start m) = Ret line ()" and hs: "list_all hf_ok (headers m)"
    and body: "body_len m = length (or_else [] (body m))"
  shows "emits (hm_to_buffer m) (msg_image line m)"
proof -
  let ?w = "\<lparr>sw_stream = True\<rparr>"
  let ?bd = "if 0 < body_len m then or_else [] (body m) else []"
  let ?k4 = "\<lambda>_ :: nat option. \<lambda>b3. if 0 < body_len m then
         (case body m of None \<Rightarrow> Ret True b3
          | Some p \<Rightarrow> if length p < body_len m then Fault OutOfBounds
                     else wrote (sw_bytes ?w (take (body_len m) p) b3))
       else Ret True b3"
  have e4: "emits (?k4 x) ?bd" for x
    using emits_sw(1) [of ?w] emits_nil body by (cases "body m") (auto simp: or_else_def emits_def)
  let ?k3 = "\<lambda>ok b2. if \<not> ok then Ret False b2 else bind_out (sw_string ?w CRLF b2) ?k4"
  have e3: "emits (\<lambda>b2. bind_out (sw_string ?w CRLF b2) ?k4) (CRLF @ ?bd)"
    unfolding emits_def
  proof (intro allI impI)
    fix b assume b: "sb_wf b \<and> sb_room (length (CRLF @ ?bd)) b"
    then have r: "sb_room (length CRLF + length ?bd) b" by simp
    obtain c where c: "sb_write CRLF b = Ret (Some (wpos b)) c" "sb_extends CRLF b c"
      using sb_write_room [OF conjunct1 [OF b] sb_room_mono [OF r le_add1]] by blast
    obtain d where "?k4 (Some (wpos b)) c = Ret True d" "sb_extends ?bd c d"
      using emitsD [OF e4 sb_extendsD(1) [OF c(2)] sb_room_extends [OF r c(2)]] by blast
    then show "\<exists>d. bind_out (sw_string ?w CRLF b) ?k4 = Ret True d \<and> sb_extends (CRLF @ ?bd) b d"
      using c sb_extends_trans by (auto simp: sw_string_def)
  qed
  then have "emits_ret (?k3 True) True (CRLF @ ?bd)" by (simp add: emits_ret_emits)
  from emits_ret_bind [where k = ?k3, OF emits_fields [OF _ hs, of ?w, folded emits_ret_emits] this]
  have e2: "emits_ret (\<lambda>b1. bind_out (hm_write_headers ?w (headers m) b1) ?k3) True
      (concat (map hf_wire (headers m)) @ CRLF @ ?bd)" by simp
  let ?k1 = "\<lambda>ok b1. if \<not> ok then Ret False b1 else bind_out (hm_write_headers ?w (headers m) b1) ?k3"
  have "emits_ret (?k1 True) True (concat (map hf_wire (headers m)) @ CRLF @ ?bd)" using e2 by simp
  from emits_ret_bind [where k = ?k1, OF emits_sw(8) [of ?w line CRLF, folded emits_ret_emits] this]
  have "emits_ret (\<lambda>b. bind_out (wrote (sw_string_str ?w line CRLF b)) ?k1) True (msg_image line m)"
    by (simp add: msg_image_def)
  moreover have "hm_to_buffer m = (\<lambda>b. bind_out (wrote (sw_string_str ?w line CRLF b)) ?k1)"
    by (rule ext) (simp add: hm_to_buffer_def sw_new_ptr_def line)
  ultimately show ?thesis by (simp add: emits_ret_emits)
qed

subsection \<open>Reading ends\<close>

lemma header_loop_ends:
  assumes r: "sr_stream r" "\<not> sr_flush r"
  shows "sb_wf b \<Longrightarrow> length (sb_unread b) < f \<Longrightarrow>
    hm_header_loop f r (m, b) \<noteq> Fault Diverges \<and> keeps (\<lambda>s. sb_wf (snd s)) (hm_header_loop f r (m, b))"
proof (induction f arbitrary: m b)
  case 0
  then show ?case by simp
next
  case (Suc f)
  have k: "length CRLF < 2 ^ 63" by (simp add: CRLF_facts)
  note rd = sr_string_str_wf [OF Suc.prems(1) r k]
  show ?case
  proof (cases "scan_delim CRLF (sb_unread b)")
    case None
    then show ?thesis using Suc.prems(1) by (simp add: rd)
  next
    case (Some i)
    let ?line = "take i (sb_unread b)"
    let ?c = "b\<lparr>rpos := rpos b + i + length CRLF\<rparr>"
    consider "i = 0" | "i \<noteq> 0" "\<not> i + length CRLF \<le> length (sb_unread b)"
      | "i \<noteq> 0" "i + length CRLF \<le> length (sb_unread b)" by blast
    then show ?thesis
    proof cases
      case 1
      have "hm_end_headers m \<noteq> Fault Diverges"
        by (simp add: hm_end_headers_def hm_get_header_int_def Let_def split: option.splits)
      then show ?thesis using Some 1 Suc.prems(1)
        by (cases "hm_end_headers m") (simp_all add: rd or_else_def)
    next
      case 2
      have "sb_consumes i b (b\<lparr>rpos := rpos b + i\<rparr>)"
        using scan_delim_less [OF Some] by (simp add: sb_consumes_def)
      then show ?thesis using Some 2 sb_consumes_wf [OF Suc.prems(1)] by (simp add: rd)
    next
      case 3
      have con: "sb_consumes (i + length CRLF) b ?c" using 3(2) by (simp add: sb_consumes_def add.assoc)
      note wf = sb_consumes_wf [OF Suc.prems(1) con] and u = sb_consumes_unread [OF Suc.prems(1) con]
      have line: "?line \<noteq> []" using scan_delim_less [OF Some] 3(1) by auto
      have step: "hm_header_loop (Suc f) r (m, b) =
          bind_out (hm_header_line ?line m) (\<lambda>_ m'. hm_header_loop f r (m', ?c))"
        using Some 3 line by (simp add: rd or_else_def)
      have "length (sb_unread ?c) < f" using u Suc.prems(2) 3 by (simp add: CRLF_facts)
      note ih = Suc.IH [OF wf this]
      have "hm_header_line ?line m \<noteq> Fault Diverges"
        by (simp add: hm_header_line_def split: option.splits)
      then show ?thesis unfolding step using ih by (cases "hm_header_line ?line m") auto
    qed
  qed
qed

lemma from_buffer_ends:
  assumes wf: "sb_wf b"
  shows "hm_from_buffer m b \<noteq> Fault Diverges \<and> keeps (\<lambda>s. sb_wf (snd s)) (hm_from_buffer m b)"
proof -
  let ?good = "\<lambda>out :: (unit, http_message \<times> stream_buffer) outcome.
      out \<noteq> Fault Diverges \<and> keeps (\<lambda>s. sb_wf (snd s)) out"
  have k: "length CRLF < 2 ^ 63" by (simp add: CRLF_facts)
  have start: "?good (hm_read_start reader_on (m, b))"
  proof -
    have "\<exists>i. i \<le> length (sb_unread b) \<and> (\<exists>ok s. sr_string_str reader_on CRLF b = Ret (ok, s) (b\<lparr>rpos := rpos b + i\<rparr>))"
      using scan_delim_less [of CRLF "sb_unread b"]
      by (auto simp: sr_string_str_wf [OF wf on_simps(2,3) k] add.assoc split: option.splits intro: exI [of _ 0])
        (metis add.assoc less_imp_le not_le_imp_less)
    then obtain i ok s where i: "i \<le> length (sb_unread b)"
      "sr_string_str reader_on CRLF b = Ret (ok, s) (b\<lparr>rpos := rpos b + i\<rparr>)" by blast
    then have "sb_consumes i b (b\<lparr>rpos := rpos b + i\<rparr>)" by (simp add: sb_consumes_def)
    from sb_consumes_wf [OF wf this] show ?thesis by (simp add: hm_read_start_def i(2))
  qed
  have head: "?good (hm_read_header reader_on s)" if w: "sb_wf (snd s)" for s
  proof -
    have "length (sb_unread (snd s)) < Suc (sb_readable (snd s))" by (simp add: sb_readable_unread [OF w])
    from header_loop_ends [OF on_simps(2,3) w this, of "fst s"] show ?thesis
      by (cases s) (auto simp: hm_read_header_def simp del: hm_header_loop.simps)
  qed
  have bod: "?good (hm_read_body reader_on s)" if w: "sb_wf (snd s)" for s
  proof -
    obtain x c where s: "s = (x, c)" by (cases s)
    then have wc: "sb_wf c" using w by simp
    have "sb_wf (c\<lparr>rpos := rpos c + n\<rparr>)" if "n \<le> length (sb_unread c)" for n
      using sb_consumes_wf [OF wc, of n] that by (simp add: sb_consumes_def)
    then show ?thesis using wc
      by (auto simp: s hm_read_body_def sr_bytes_def sb_read_wf [OF wc] sb_readable_unread [OF wc] sr_done_def Let_def
          split: option.splits)
  qed
  have chain: "?good (bind_out out (\<lambda>_ s. if P s then g s else Ret () s))"
    if "?good out" "\<And>s. sb_wf (snd s) \<Longrightarrow> ?good (g s)" for out P g
    using that by (cases out) auto
  let ?s1 = "if state m = READY then hm_read_start reader_on (m, b) else Ret () (m, b)"
  have s1: "?good ?s1" using start wf by simp
  let ?s2 = "bind_out ?s1 (\<lambda>_ s1. if state (fst s1) = HEADER then hm_read_header reader_on s1 else Ret () s1)"
  have s2: "?good ?s2" by (rule chain [OF s1 head])
  let ?s3 = "bind_out ?s2 (\<lambda>_ s2. if state (fst s2) = BODY then hm_read_body reader_on s2 else Ret () s2)"
  have s3: "?good ?s3" by (rule chain [OF s2 bod])
  have on: "sr_new_ptr True False = Ret () reader_on"
    by (simp add: sr_new_ptr_def reader_on_def sr_new_ref_def)
  have "hm_from_buffer m b = bind_out ?s3 (\<lambda>_ s3.
      if state (fst s3) = DONE then Ret True (fst s3, snd (sb_flush (snd s3))) else Ret False s3)"
    unfolding hm_from_buffer_def on bind_out.simps bind_out_assoc ..
  then show ?thesis using s3 sb_flush_wf by (cases ?s3) auto
qed

subsection \<open>Properties\<close>

text \<open>
  Start lines: a printed start line (a request with words for method, URL and version, or
  a status with a version without spaces and a code from 0 to 2 ^ 31 - 1) is parsed by a message
  of the same kind to the same method and URL, or code and phrase (the default one where none
  was set), and the same version.
\<close>

theorem start_line_round_trip:
  assumes "start_ok ver sl" and "print_start ver sl = Ret line ()" and "is_request sl = is_request (start m)"
  shows "parse_start line m (start m) = (True, m\<lparr>start := sent_start sl, version := ver\<rparr>)"
  using assms by (rule start_line_parse)

theorem start_line_round_trip_witness:
  "parse_start ''HTTP/1.0 404 Not Found'' (http_response_new HTTP11) (StatusLine 200 []) =
    (True, (http_response_new HTTP11)\<lparr>start := StatusLine 404 ''Not Found'', version := ''HTTP/1.0''\<rparr>)"
proof -
  have "print_start ''HTTP/1.0'' (StatusLine 404 []) = Ret ''HTTP/1.0 404 Not Found'' ()"
    and "sent_start (StatusLine 404 []) = StatusLine 404 ''Not Found''"
    by code_simp+
  then show ?thesis
    using start_line_round_trip [of "''HTTP/1.0''" "StatusLine 404 []" "''HTTP/1.0 404 Not Found''" "http_response_new HTTP11"]
    by (simp add: http_response_new_def hm_new_def)
qed

text \<open>
  Header fields: after any list of \<open>SetHeader\<close> calls (with values free of null characters)
  \<open>GetHeader\<close> returns the value set last for the key, or what was there before; after
  \<open>RemoveHeader\<close> calls the removed keys are absent and the others unchanged.
\<close>

theorem header_fields_last_wins:
  assumes "\<forall>(k, v) \<in> set kvs. CHR 0x00 \<notin> set v"
  shows "get_field l (fold (\<lambda>(k, v). set_field k v) kvs hs) =
      (case map_of (rev kvs) l of None \<Rightarrow> get_field l hs | Some v \<Rightarrow> Some v)
    \<and> get_field l (fold remove_field ks hs) = (if l \<in> set ks then None else get_field l hs)"
  using fields.look_puts [OF assms] fields.look_removes by blast

theorem header_fields_last_wins_witness:
  "get_field ''a'' (fold (\<lambda>(k, v). set_field k v) [(''a'', ''1''), (''b'', ''2''), (''a'', ''3'')] []) = Some ''3''"
  using header_fields_last_wins [of "[(''a'', ''1''), (''b'', ''2''), (''a'', ''3'')]" "''a''" "[]" "[]"] by simp

text \<open>
  C30. A message with a body, written and read: a message whose header fields are well-formed and
  distinct and whose Content-Length is the length \<open>n\<close> of its body is written as start line,
  fields, blank line and body; a fresh message of the same kind recovers the start line and the
  fields, but the blank line has not been consumed: the body it takes is CRLF followed by the
  body without its last two octets, which stay in the buffer.
\<close>

theorem http_round_trip_shifts_body:
  assumes "print_start (version m) (start m) = Ret line ()" and "start_ok (version m) (start m)"
    and "line \<noteq> []" and "text_line line"
    and "list_all hf_ok (headers m)" and "distinct (map fst (headers m))"
    and "body m = Some p" and "p \<noteq> []" and "body_len m = length p" and "length p \<le> vec_max"
    and "get_field ''Content-Length'' (headers m) = Some v" and "extract_long v = int (length p)"
    and "sb_wf b" and "sb_unread b = []" and "sb_room (length (msg_image line m)) b"
    and "m0 = hm_new ver sl" and "is_request sl = is_request (start m)"
  shows "\<exists>c d. hm_to_buffer m b = Ret True c
    \<and> sb_unread c = line @ CRLF @ concat (map hf_wire (headers m)) @ CRLF @ p
    \<and> hm_from_buffer m0 c = Ret True
        (\<lparr>version = version m, headers = headers m, body_len = length p,
          body = Some (take (length p) (CRLF @ p)), state = DONE, start = sent_start (start m)\<rparr>, d)
    \<and> sb_wf d \<and> sb_unread d = drop (length p) (CRLF @ p)"
proof -
  have "body_len m = length (or_else [] (body m))" using assms(7,9) by (simp add: or_else_def)
  from emitsD [OF to_buffer_image [OF assms(1,5) this] assms(13,15)]
  obtain c where c: "hm_to_buffer m b = Ret True c" "sb_extends (msg_image line m) b c" by blast
  have u: "sb_unread c = line @ CRLF @ concat (map hf_wire (headers m)) @ CRLF @ p"
    using sb_extends_unread [OF assms(13) c(2)] assms(7,8,9,14) by (simp add: msg_image_def or_else_def)
  have m0: "state m0 = READY" "headers m0 = []" "body m0 = None" "start m0 = sl"
    using assms(16) by (simp_all add: hm_new_def)
  have ps: "parse_start line m0 (start m0) = (True, m0\<lparr>start := sent_start (start m), version := version m\<rparr>)"
    by (rule start_line_parse [OF assms(2,1)]) (use assms(17) m0(4) in simp)
  have eq: "(parsed line (headers m) m0)\<lparr>body_len := n, body := Some q, state := DONE\<rparr> =
      \<lparr>version = version m, headers = headers m, body_len = n, body = Some q, state = DONE, start = sent_start (start m)\<rparr>"
    for n q by (simp add: parsed_def ps)
  have "length p \<le> 2 + length p" "length p \<noteq> 0" using assms(8) by simp_all
  with from_buffer_message [OF sb_extendsD(1) [OF c(2)] m0(1-3) assms(3-6,11,12,10) u] c(1) u
  show ?thesis by (auto simp: eq)
qed

definition demo_post :: http_message where
  "demo_post = \<lparr>version = HTTP11, headers = [(''Content-Length'', ''3'')], body_len = 3, body = Some ''xyz'',
     state = READY, start = RequestLine ''PUT'' ''/''\<rparr>"

definition wide_buffer :: stream_buffer where
  "wide_buffer = \<lparr>bytes = [], limit = 256, opos = 0, rpos = 0, wpos = 0\<rparr>"

lemma wide_buffer_facts:
  "sb_wf wide_buffer" "sb_unread wide_buffer = []" "sb_room n wide_buffer \<longleftrightarrow> n \<le> 256"
  by (auto simp: wide_buffer_def sb_wf_def sb_unread_def sb_room_def sb_cap_def vec_max_def)

theorem http_round_trip_shifts_body_witness:
  "\<exists>c d. hm_to_buffer demo_post wide_buffer = Ret True c
    \<and> sb_unread c = ''PUT / HTTP/1.1'' @ CRLF @ concat (map hf_wire (headers demo_post)) @ CRLF @ ''xyz''
    \<and> hm_from_buffer (hm_new HTTP11 (RequestLine ''GET'' [])) c = Ret True
        (\<lparr>version = version demo_post, headers = headers demo_post, body_len = length ''xyz'',
          body = Some (take (length ''xyz'') (CRLF @ ''xyz'')), state = DONE, start = sent_start (start demo_post)\<rparr>, d)
    \<and> sb_wf d \<and> sb_unread d = drop (length ''xyz'') (CRLF @ ''xyz'')"
proof (rule http_round_trip_shifts_body)
  show "print_start (version demo_post) (start demo_post) = Ret ''PUT / HTTP/1.1'' ()"
    "extract_long ''3'' = int (length ''xyz'')" "start_ok (version demo_post) (start demo_post)"
    "get_field ''Content-Length'' (headers demo_post) = Some ''3''"
    by code_simp+
  show "sb_room (length (msg_image ''PUT / HTTP/1.1'' demo_post)) wide_buffer"
    by (simp add: wide_buffer_facts msg_image_def demo_post_def hf_wire_def hf_line_def CRLF_facts or_else_def)
  show "is_request (RequestLine ''GET'' []) = is_request (start demo_post)"
    by (simp add: demo_post_def)
qed (simp_all add: demo_post_def wide_buffer_facts text_line_def CRLF_def hf_ok_def vec_max_def)

text \<open>
  A complete head without a Content-Length field, such as that of any GET request, makes
  \<open>FromBuffer\<close> construct a string from the null pointer: \<open>std::logic_error\<close> is thrown.
\<close>

theorem missing_content_length_throws:
  assumes "sb_wf b" and "state m = READY" and "headers m = []" and "line \<noteq> []" and "text_line line"
    and "list_all hf_ok hs" and "distinct (map fst hs)" and "get_field ''Content-Length'' hs = None"
    and "sb_unread b = line @ CRLF @ concat (map hf_wire hs) @ CRLF @ rest"
  shows "hm_from_buffer m b = Fault LogicErrorThrown"
  using from_buffer_head [OF assms(1-7,9)] assms(8)
  by (auto simp: hm_end_headers_def hm_get_header_int_def hm_get_header_def parsed_fields)

theorem missing_content_length_throws_witness:
  "hm_from_buffer (http_request_new HTTP11)
     \<lparr>bytes = ''GET / HTTP/1.1'' @ CRLF @ ''Host:h'' @ CRLF @ CRLF, limit = 64, opos = 0, rpos = 0, wpos = 26\<rparr>
   = Fault LogicErrorThrown"
  by (rule missing_content_length_throws [where line = "''GET / HTTP/1.1''" and hs = "[(''Host'', ''h'')]" and rest = "[]"])
    (simp_all add: sb_wf_def vec_max_def CRLF_def http_request_new_def hm_new_def text_line_def hf_ok_def
      sb_unread_def slice_def hf_wire_def hf_line_def)

text \<open>
  C13. Reading a message from any well-formed buffer, in any parsing state, ends: the header loop
  stays within its bound, and where \<open>FromBuffer\<close> returns the buffer is well-formed.
\<close>

theorem http_reading_ends:
  assumes "sb_wf b"
  shows "hm_from_buffer m b \<noteq> Fault Diverges
    \<and> (case hm_from_buffer m b of Ret _ s \<Rightarrow> sb_wf (snd s) | Fault _ \<Rightarrow> True)"
  using from_buffer_ends [OF assms, of m] by (simp add: keeps_def split: outcome.splits)

theorem http_reading_ends_witness:
  "hm_from_buffer demo_post wide_buffer \<noteq> Fault Diverges
    \<and> (case hm_from_buffer demo_post wide_buffer of Ret _ s \<Rightarrow> sb_wf (snd s) | Fault _ \<Rightarrow> True)"
  by (rule http_reading_ends [OF wide_buffer_facts(1)])

text \<open>
  Reset and reuse: \<open>Reset\<close> clears the fields, length, version, state and start line but
  keeps a body that exists; when the next message's body is longer and has arrived, it is
  copied beyond the old allocation.
\<close>

theorem reset_keeps_body_overflow:
  assumes "body m = Some p" and "sb_wf b" and "length p < n" and "n \<le> length (sb_unread b)"
  shows "body (http_reset m) = Some p \<and> headers (http_reset m) = [] \<and> state (http_reset m) = READY
    \<and> hm_read_body reader_on ((http_reset m)\<lparr>body_len := n, state := BODY\<rparr>, b) = Fault OutOfBounds"
  using assms
  by (auto simp: http_reset_def request_reset_def response_reset_def hm_reset_def hm_read_body_def Let_def
      sr_bytes_def sb_readable_unread sb_read_wf)

theorem reset_keeps_body_overflow_witness:
  "hm_read_body reader_on ((http_reset demo_post)\<lparr>body_len := 4, state := BODY\<rparr>,
     \<lparr>bytes = ''abcd'', limit = 8, opos = 0, rpos = 0, wpos = 4\<rparr>) = Fault OutOfBounds"
  using reset_keeps_body_overflow [of demo_post "''xyz''" "\<lparr>bytes = ''abcd'', limit = 8, opos = 0, rpos = 0, wpos = 4\<rparr>" 4]
  by (simp add: demo_post_def sb_wf_def vec_max_def sb_unread_def slice_def)

end
