(* ===== verification/HttpFloat.thy ===== *)
theory HttpFloat
  imports Complex_Main Http "HOL-Library.Log_Nat"
begin

text \<open>
  \<open>HttpMessage::GetHeaderAsFloat\<close>: reading a \<open>double\<close> from the text of a header field. A
  \<open>double\<close> is its 64 bits. The standard library collects the characters of a decimal number,
  converts them to the closest value (to the even one of two that are equally close), and
  takes the largest finite value where the result would be infinite. The arithmetic is that of
  binary64, on exact fractions.
\<close>

subsection \<open>The text of a number\<close>

text \<open>
  White space, a sign, digits with at most one point among them, and an exponent: the sign, the
  digits without the point, and the power of ten. There is no number without a digit, and none
  where the exponent mark is not followed by digits.
\<close>

fun scan_sign :: "char list \<Rightarrow> bool \<times> char list" where
  "scan_sign (c # s) = (if c = CHR ''-'' then (True, s) else if c = CHR ''+'' then (False, s) else (False, c # s))"
| "scan_sign [] = (False, [])"

fun scan_fraction :: "char list \<Rightarrow> char list \<times> char list" where
  "scan_fraction (c # s) = (if c = CHR ''.'' then (takeWhile is_digit s, dropWhile is_digit s) else ([], c # s))"
| "scan_fraction [] = ([], [])"

fun scan_exponent :: "char list \<Rightarrow> int option" where
  "scan_exponent (c # s) = (if c = CHR ''e'' \<or> c = CHR ''E''
     then case scan_sign s of (neg, t) \<Rightarrow>
       if takeWhile is_digit t = [] then None
       else Some ((if neg then - 1 else 1) * int (digits_val 0 t))
     else Some 0)"
| "scan_exponent [] = Some 0"

definition scan_decimal :: "char list \<Rightarrow> (bool \<times> nat \<times> int) option" where
  "scan_decimal s = (case scan_sign (dropWhile is_space s) of (neg, t) \<Rightarrow>
     let whole = takeWhile is_digit t in
     case scan_fraction (dropWhile is_digit t) of (tail, u) \<Rightarrow>
       if whole = [] \<and> tail = [] then None
       else map_option (\<lambda>e. (neg, digits_val 0 (whole @ tail), e - int (length tail))) (scan_exponent u))"

subsection \<open>Rounding\<close>

definition half_even :: "nat \<Rightarrow> nat \<Rightarrow> nat" where
  "half_even n d = (let q = n div d; r = n mod d in if 2 * r > d \<or> (2 * r = d \<and> odd q) then q + 1 else q)"

text \<open>The exponent of the power of two at or below a positive fraction.\<close>

definition binade :: "nat \<Rightarrow> nat \<Rightarrow> int" where
  "binade n d = (let k = int (floorlog 2 n) - int (floorlog 2 d) in
     if d * 2 ^ nat k \<le> n * 2 ^ nat (- k) then k else k - 1)"

text \<open>
  The bits of a positive fraction: the mantissa has 53 bits above the smallest exponent, and its
  upper bit is the lower bit of the exponent field, so that a carry needs no case of its own.
\<close>

definition double_bits :: "nat \<Rightarrow> nat \<Rightarrow> nat" where
  "double_bits n d = (if n = 0 then 0 else
     let e = max (- 1074) (binade n d - 52); m = half_even (n * 2 ^ nat (- e)) (d * 2 ^ nat e)
     in nat (e + 1074) * 2 ^ 52 + m)"

definition DBL_MAX_BITS :: nat where
  "DBL_MAX_BITS = 2047 * 2 ^ 52 - 1"

fun double_of :: "bool \<times> nat \<times> int \<Rightarrow> 64 word" where
  "double_of (neg, n, e) = word_of_nat ((if neg then 2 ^ 63 else 0)
     + min (double_bits (n * 10 ^ nat e) (10 ^ nat (- e))) DBL_MAX_BITS)"

definition extract_double :: "char list \<Rightarrow> 64 word" where
  "extract_double s = (case scan_decimal s of None \<Rightarrow> 0 | Some x \<Rightarrow> double_of x)"

definition hm_get_header_float :: "char list \<Rightarrow> http_message \<Rightarrow> (64 word, http_message) outcome" where
  "hm_get_header_float k m =
     (case hm_get_header k m of None \<Rightarrow> Fault LogicErrorThrown | Some v \<Rightarrow> Ret (extract_double v) m)"

lemma floorlog_numerals:
  "floorlog 2 (numeral k) = Suc (floorlog 2 (numeral k div 2))" "floorlog 2 (Suc 0) = 1" "floorlog b 0 = 0"
  by (subst compute_floorlog; simp)+

lemmas number_simps = extract_double_def scan_decimal_def double_bits_def binade_def half_even_def DBL_MAX_BITS_def
  is_digit_def is_space_def Let_def floorlog_numerals

lemma double_texts:
  "extract_double ''0.1'' = 0x3FB999999999999A" "extract_double '' -2.5e1 m'' = 0xC039000000000000"
  "extract_double ''.5'' = 0x3FE0000000000000" "extract_double ''1e'' = 0" "extract_double ''x'' = 0"
  "extract_double ''5e-324'' = 1" "extract_double ''9007199254740993'' = 0x4340000000000000"
  by (simp add: number_simps)+

subsection \<open>Values\<close>

text \<open>The value of the 63 lower bits, and of all 64; the finite ones.\<close>

definition magnitude :: "nat \<Rightarrow> real" where
  "magnitude b = (let e = b div 2 ^ 52; f = b mod 2 ^ 52 in
     if e = 0 then real f * 2 powi (- 1074) else real (2 ^ 52 + f) * 2 powi (int e - 1075))"

definition double_val :: "64 word \<Rightarrow> real" where
  "double_val w = (if bit w 63 then - 1 else 1) * magnitude (unat w mod 2 ^ 63)"

definition double_finite :: "64 word \<Rightarrow> bool" where
  "double_finite w \<longleftrightarrow> unat w mod 2 ^ 63 \<le> DBL_MAX_BITS"

definition decimal_val :: "bool \<times> nat \<times> int \<Rightarrow> real" where
  "decimal_val x = (case x of (neg, n, e) \<Rightarrow> (if neg then - 1 else 1) * real n * 10 powi e)"

text \<open>Above a start of a row of values that have the exponent in common, as far as the carry.\<close>

lemma magnitude_row:
  assumes "k = 0 \<or> 2 ^ 52 \<le> j" and "j \<le> 2 ^ 53"
  shows "magnitude (k * 2 ^ 52 + j) = real j * 2 powi (int k - 1074)"
proof -
  consider "j < 2 ^ 52" "k = 0" | "2 ^ 52 \<le> j" "j < 2 ^ 53" | "j = 2 ^ 53" using assms by linarith
  then show ?thesis
  proof cases
    case 1
    then show ?thesis by (simp add: magnitude_def)
  next
    case 2
    then obtain f where f: "j = 2 ^ 52 + f" "f < 2 ^ 52"
      by (metis add_less_cancel_left le_Suc_ex mult_2 power_Suc Suc_numeral numeral_plus_one one_plus_numeral semiring_norm(5))
    have "k * 2 ^ 52 + j = (k + 1) * 2 ^ 52 + f" using f by simp
    then have "(k * 2 ^ 52 + j) div 2 ^ 52 = k + 1" "(k * 2 ^ 52 + j) mod 2 ^ 52 = f" using f(2) by simp_all
    then show ?thesis using f by (simp add: magnitude_def)
  next
    case 3
    then have "k * 2 ^ 52 + j = (k + 2) * 2 ^ 52" by simp
    then have "(k * 2 ^ 52 + j) div 2 ^ 52 = k + 2" "(k * 2 ^ 52 + j) mod 2 ^ 52 = 0" by simp_all
    moreover have "(2 :: real) powi (int k - 1073) = 2 powi (int k - 1074) * 2"
      using power_int_add_1 [of "2 :: real" "int k - 1074"] by simp
    ultimately show ?thesis using 3 by (simp add: magnitude_def)
  qed
qed

lemma magnitude_mono: "a \<le> b \<Longrightarrow> magnitude a \<le> magnitude b"
proof (rule lift_Suc_mono_le [of magnitude])
  fix b
  show "magnitude b \<le> magnitude (Suc b)"
  proof (cases "b < 2 ^ 53")
    case True
    then have "magnitude (0 * 2 ^ 52 + b) \<le> magnitude (0 * 2 ^ 52 + Suc b)" by (subst (1 2) magnitude_row) auto
    then show ?thesis by simp
  next
    case False
    define k j where "k = b div 2 ^ 52 - 1" and "j = b mod 2 ^ 52 + 2 ^ 52"
    have "1 \<le> b div 2 ^ 52" using False by (simp add: Suc_le_eq div_greater_zero_iff)
    then have b: "b = k * 2 ^ 52 + j" using div_mult_mod_eq [of b "2 ^ 52"] by (simp add: k_def j_def algebra_simps)
    have j: "2 ^ 52 \<le> j" "Suc j \<le> 2 ^ 53" by (simp_all add: j_def)
    have "magnitude (k * 2 ^ 52 + j) \<le> magnitude (k * 2 ^ 52 + Suc j)" using j by (subst (1 2) magnitude_row) auto
    then show ?thesis unfolding b by simp
  qed
qed

subsection \<open>The closest value\<close>

lemma floorlog_real:
  assumes "0 < n"
  shows "real n < 2 ^ floorlog 2 n \<and> 2 ^ floorlog 2 n \<le> 2 * real n"
proof -
  obtain a where a: "floorlog 2 n = Suc a" using assms by (cases "floorlog 2 n") (auto simp: floorlog_def)
  have "2 ^ a \<le> n \<and> n < 2 ^ Suc a" using floorlog_bounds [of n 2] assms a by simp
  then have "real (2 ^ a) \<le> real n \<and> real n < real (2 ^ Suc a)" by (simp only: of_nat_le_iff of_nat_less_iff)
  then show ?thesis by (simp add: a)
qed

lemma binade_bounds:
  assumes "0 < n" and "0 < d"
  shows "2 powi binade n d \<le> real n / real d \<and> real n / real d < 2 powi (binade n d + 1)"
proof -
  define k where "k = int (floorlog 2 n) - int (floorlog 2 d)"
  have p: "(2 :: real) ^ floorlog 2 n = 2 powi k * 2 ^ floorlog 2 d"
    by (simp add: k_def power_int_diff)
  have P: "(0 :: real) < 2 powi k" by simp
  note n = floorlog_real [OF assms(1), unfolded p] and d = floorlog_real [OF assms(2)]
  have "real n < 2 powi k * (2 * real d)" using n d P by (meson less_le_trans mult_le_cancel_left_pos)
  then have up: "real n / real d < 2 powi k * 2" using assms(2) by (simp add: field_simps)
  have "2 powi k * real d < 2 * real n" using n d P by (meson less_le_trans mult_less_cancel_left_pos)
  then have lo: "2 powi k < 2 * (real n / real d)" using assms(2) by (simp add: field_simps)
  have "d * 2 ^ nat k \<le> n * 2 ^ nat (- k) \<longleftrightarrow> real d * 2 ^ nat k \<le> real n * 2 ^ nat (- k)"
    by (simp only: of_nat_le_iff [symmetric, where 'a = real] of_nat_mult of_nat_power of_nat_numeral)
  also have "\<dots> \<longleftrightarrow> 2 powi k \<le> real n / real d"
    using assms(2) by (cases "0 \<le> k") (simp_all add: power_int_def field_simps)
  finally have test: "d * 2 ^ nat k \<le> n * 2 ^ nat (- k) \<longleftrightarrow> 2 powi k \<le> real n / real d" .
  have "(2 :: real) powi (k + 1) = 2 powi k * 2" "(2 :: real) powi (k - 1) = 2 powi k / 2"
    by (simp_all add: power_int_add power_int_diff)
  then show ?thesis using up lo unfolding binade_def Let_def k_def [symmetric] test by auto
qed

lemma scaled: "0 < d \<Longrightarrow> real (n * 2 ^ nat (- e)) / real (d * 2 ^ nat e) = real n / real d / 2 powi e"
  by (cases "0 \<le> e") (simp_all add: power_int_def field_simps)

lemma nat_fraction_le:
  assumes "0 < d"
  shows "real m \<le> real n / real d \<longleftrightarrow> m \<le> n div d"
proof -
  have "real m \<le> real n / real d \<longleftrightarrow> real m * real d \<le> real n" using assms by (simp add: pos_le_divide_eq)
  also have "\<dots> \<longleftrightarrow> m * d \<le> n" by (simp only: of_nat_mult [symmetric] of_nat_le_iff)
  finally show ?thesis using assms by (simp add: less_eq_div_iff_mult_less_eq)
qed

lemma nat_fraction_less: "0 < d \<Longrightarrow> real n / real d < real m \<longleftrightarrow> n div d < m"
  using nat_fraction_le [of d m n] by linarith

lemma half_even_cases: "half_even n d = n div d \<or> half_even n d = n div d + 1"
  by (simp add: half_even_def Let_def)

lemma half_even_nearest:
  assumes "0 < d" and "j \<le> real (n div d) \<or> real (n div d + 1) \<le> j"
  shows "\<bar>real (half_even n d) - real n / real d\<bar> \<le> \<bar>j - real n / real d\<bar>"
proof -
  define q r where "q = n div d" and "r = n mod d"
  have "real n = real q * real d + real r"
    unfolding q_def r_def by (simp only: of_nat_mult [symmetric] of_nat_add [symmetric] div_mult_mod_eq)
  define t where "t = real r / real d"
  have x: "real n / real d = real q + t" unfolding t_def \<open>real n = _\<close> using assms(1) by (simp add: add_divide_distrib)
  have t: "0 \<le> t" "t < 1" using assms(1) by (simp_all add: r_def t_def)
  have h: "2 * r > d \<Longrightarrow> t > 1 / 2" "2 * r = d \<Longrightarrow> t = 1 / 2" "2 * r < d \<Longrightarrow> t < 1 / 2"
    using assms(1) by (simp_all add: t_def field_simps)
  have j: "j \<le> real q \<or> real q + 1 \<le> j" using assms(2) by (simp add: q_def add.commute)
  have m: "half_even n d = (if 2 * r > d \<or> (2 * r = d \<and> odd q) then q + 1 else q)"
    by (simp add: half_even_def Let_def q_def r_def)
  show ?thesis unfolding x m using t j h by (cases "2 * r" d rule: linorder_cases) (simp_all add: abs_if, linarith+)
qed

text \<open>In a row that a fraction lies in, the rounded one is closest among all magnitudes.\<close>

lemma magnitude_pair:
  assumes "k = 0 \<or> 2 ^ 52 \<le> q" and "q < 2 ^ 53"
  shows "magnitude (k * 2 ^ 52 + q) = real q * 2 powi (int k - 1074)"
    "magnitude (k * 2 ^ 52 + Suc q) = real (Suc q) * 2 powi (int k - 1074)"
  using magnitude_row [of k q] magnitude_row [of k "Suc q"] assms by auto

lemma closest_in_row:
  assumes D: "0 < D" and q: "k = 0 \<or> 2 ^ 52 \<le> N div D" "N div D < 2 ^ 53"
    and x: "x = real N / real D * 2 powi (int k - 1074)"
  shows "\<bar>magnitude (k * 2 ^ 52 + half_even N D) - x\<bar> \<le> \<bar>magnitude c - x\<bar>"
proof -
  define q m e where "q = N div D" and "m = half_even N D" and "e = int k - 1074"
  have P: "(0 :: real) < 2 powi e" by simp
  note row = magnitude_pair [OF q, folded q_def e_def]
  have "m = q \<or> m = Suc q" using half_even_cases [of N D] by (simp add: m_def q_def)
  then have val: "magnitude (k * 2 ^ 52 + m) = real m * 2 powi e" using row by auto
  have "c \<le> k * 2 ^ 52 + q \<or> k * 2 ^ 52 + Suc q \<le> c" by linarith
  then have "magnitude c \<le> real q * 2 powi e \<or> real (Suc q) * 2 powi e \<le> magnitude c"
    using magnitude_mono [of c] magnitude_mono [of _ c] row by metis
  then have "magnitude c / 2 powi e \<le> real q \<or> real (q + 1) \<le> magnitude c / 2 powi e"
    using P by (auto simp: divide_le_eq le_divide_eq)
  from half_even_nearest [OF D this [unfolded q_def]]
  have "\<bar>real m - x / 2 powi e\<bar> \<le> \<bar>magnitude c / 2 powi e - x / 2 powi e\<bar>"
    unfolding m_def x e_def [symmetric] using P by simp
  then have "\<bar>real m - x / 2 powi e\<bar> * 2 powi e \<le> \<bar>magnitude c / 2 powi e - x / 2 powi e\<bar> * 2 powi e" using P by simp
  then show ?thesis unfolding val [unfolded m_def] m_def using P by (simp add: abs_mult_pos' abs_mult_pos left_diff_distrib)
qed

text \<open>Whatever finite bits \<open>b\<close> one takes, the bits of the fraction are not farther from it.\<close>

lemma double_bits_nearest:
  assumes "0 < d" and "b \<le> DBL_MAX_BITS"
  shows "\<bar>magnitude (min (double_bits n d) DBL_MAX_BITS) - real n / real d\<bar> \<le> \<bar>magnitude b - real n / real d\<bar>"
proof (cases "n = 0")
  case True
  then show ?thesis by (simp add: double_bits_def magnitude_def)
next
  case False
  define e where "e = max (- 1074) (binade n d - 52)"
  define k where "k = nat (e + 1074)"
  define N D where "N = n * 2 ^ nat (- e)" and "D = d * 2 ^ nat e"
  define x y where "x = real n / real d" and "y = real N / real D"
  have D: "0 < D" and P: "(0 :: real) < 2 powi e" and e: "int k - 1074 = e" "k = 0 \<longleftrightarrow> e = - 1074"
    using assms(1) by (auto simp: D_def k_def e_def)
  have x: "x = y * 2 powi e" using scaled [OF assms(1), of n e] by (simp add: N_def D_def x_def y_def)
  have B: "2 powi binade n d \<le> x" "x < 2 powi (binade n d + 1)"
    using binade_bounds [of n d] assms(1) False by (simp_all add: x_def)
  have "x < 2 powi (53 + e)" using B(2) by (rule less_le_trans) (rule power_int_increasing, simp_all add: e_def)
  then have "y < real (2 ^ 53)" unfolding x using P by (simp add: power_int_add)
  then have q53: "N div D < 2 ^ 53" using nat_fraction_less [OF D, of N "2 ^ 53"] by (simp add: y_def)
  have q52: "k = 0 \<or> 2 ^ 52 \<le> N div D"
  proof (cases "k = 0")
    case False
    then have "2 powi (52 + e) \<le> x" using B(1) e(2) by (simp add: e_def max_def split: if_splits)
    then have "real (2 ^ 52) \<le> y" unfolding x using P by (simp add: power_int_add)
    then show ?thesis using nat_fraction_le [OF D, of "2 ^ 52" N] by (simp add: y_def)
  qed simp
  have bits: "double_bits n d = k * 2 ^ 52 + half_even N D"
    using False by (simp add: double_bits_def Let_def e_def [symmetric] k_def [symmetric] N_def D_def)
  have best: "\<bar>magnitude (double_bits n d) - x\<bar> \<le> \<bar>magnitude b - x\<bar>"
    unfolding bits by (rule closest_in_row [OF D q52 q53]) (simp add: x y_def e(1))
  show ?thesis
  proof (cases "double_bits n d \<le> DBL_MAX_BITS")
    case False
    then have "DBL_MAX_BITS \<le> k * 2 ^ 52 + N div D" using half_even_cases [of N D] by (auto simp: bits)
    from magnitude_mono [OF this] have "magnitude DBL_MAX_BITS \<le> real (N div D) * 2 powi e"
      using magnitude_pair(1) [OF q52 q53] by (simp add: e(1))
    also have "\<dots> \<le> x" using P nat_fraction_le [OF D, of "N div D" N] by (simp add: x y_def del: times_divide_eq_left)
    finally show ?thesis using False magnitude_mono [OF assms(2)] by (simp add: min_def x_def)
  qed (use best in \<open>simp add: min_def x_def\<close>)
qed

lemma double_parts:
  assumes "c \<le> DBL_MAX_BITS" and "v = (if neg then 2 ^ 63 else 0) + c"
  shows "double_val (word_of_nat v) = (if neg then - 1 else 1) * magnitude c \<and> double_finite (word_of_nat v)"
proof -
  have c: "c < 2 ^ 63" using assms(1) by (simp add: DBL_MAX_BITS_def)
  then have "v < 2 ^ 64" using assms(2) by simp
  then have u: "unat (word_of_nat v :: 64 word) = v" by (simp add: unat_of_nat)
  have "bit (word_of_nat v :: 64 word) 63 \<longleftrightarrow> bit v 63"
    using u bit_unsigned_iff [of "word_of_nat v :: 64 word" 63, where 'a = nat] by simp
  then have "bit (word_of_nat v :: 64 word) 63 \<longleftrightarrow> neg" using c assms(2) by (simp add: bit_iff_odd)
  moreover have "v mod 2 ^ 63 = c" using c assms(2) by simp
  ultimately show ?thesis using assms(1) by (simp add: double_val_def double_finite_def u)
qed

lemma double_of_nearest:
  assumes "double_finite w"
  shows "double_finite (double_of x) \<and> \<bar>double_val (double_of x) - decimal_val x\<bar> \<le> \<bar>double_val w - decimal_val x\<bar>"
proof -
  obtain neg n e where x: "x = (neg, n, e)" by (cases x)
  define y where "y = real (n * 10 ^ nat e) / real (10 ^ nat (- e))"
  have y: "0 \<le> y" "decimal_val x = (if neg then - 1 else 1) * y"
    by (cases "0 \<le> e"; simp add: y_def x decimal_val_def power_int_def field_simps)+
  define c where "c = min (double_bits (n * 10 ^ nat e) (10 ^ nat (- e))) DBL_MAX_BITS"
  have v: "double_val (double_of x) = (if neg then - 1 else 1) * magnitude c" "double_finite (double_of x)"
    using double_parts [of c _ neg, OF _ refl] by (simp_all add: x c_def)
  define b where "b = unat w mod 2 ^ 63"
  have w: "double_val w = (if bit w 63 then - 1 else 1) * magnitude b" by (simp add: double_val_def b_def)
  have "\<bar>magnitude c - y\<bar> \<le> \<bar>magnitude b - y\<bar>"
    using double_bits_nearest [of "10 ^ nat (- e)" b "n * 10 ^ nat e"] assms by (simp add: c_def y_def b_def double_finite_def)
  moreover have "0 \<le> magnitude b" by (simp add: magnitude_def Let_def)
  ultimately show ?thesis using y v(2) unfolding v(1) w y(2) by (auto simp: abs_if split: if_splits)
qed

text \<open>Whole numbers up to \<open>2 ^ 53\<close> are exact.\<close>

lemma whole_double:
  assumes "n \<le> 2 ^ 53"
  shows "\<exists>b \<le> DBL_MAX_BITS. magnitude b = real n"
proof (cases "n = 0")
  case False
  show ?thesis
  proof (cases "n = 2 ^ 53")
    case True
    then show ?thesis using magnitude_row [of 1074 n] by (intro exI [of _ "1074 * 2 ^ 52 + n"]) (simp add: DBL_MAX_BITS_def)
  next
    case False: False
    obtain a where a: "floorlog 2 n = Suc a" using \<open>n \<noteq> 0\<close> by (cases "floorlog 2 n") (auto simp: floorlog_def)
    have n: "2 ^ a \<le> n" "n < 2 ^ Suc a" using floorlog_bounds [of n 2] \<open>n \<noteq> 0\<close> a by simp_all
    then have "(2 :: nat) ^ a < 2 ^ 53" using assms False by linarith
    then have "a \<le> 52" using power_less_imp_less_exp [of "2 :: nat" a 53] by simp
    then obtain j where j: "52 = a + j" using le_Suc_ex by blast
    have "2 ^ a * 2 ^ j \<le> n * 2 ^ j" "n * 2 ^ j \<le> 2 ^ Suc a * 2 ^ j" using n by simp_all
    then have m: "2 ^ 52 \<le> n * 2 ^ j" "n * 2 ^ j \<le> 2 ^ 53"
      by (simp_all only: power_add [symmetric] j [symmetric] add_Suc) simp_all
    have "int (1074 - j) - 1074 = - int j" using j by simp
    then have "magnitude ((1074 - j) * 2 ^ 52 + n * 2 ^ j) = real n"
      using magnitude_row [of "1074 - j" "n * 2 ^ j"] m by (simp add: power_int_minus)
    moreover have "(1074 - j) * 2 ^ 52 + n * 2 ^ j \<le> DBL_MAX_BITS" using m(2) by (simp add: DBL_MAX_BITS_def)
    ultimately show ?thesis by blast
  qed
qed (use magnitude_row [of 0 0] in \<open>auto intro!: exI [of _ 0]\<close>)

subsection \<open>Header fields\<close>

text \<open>
  A header field that the library reads as a decimal number (\<open>scan_decimal\<close>) is returned as the
  finite \<open>double\<close> closest to it, also where it is too large or too small for a \<open>double\<close>: no finite
  \<open>double\<close> is closer. This rests on the model of \<open>operator>>\<close> above; the code itself looks the field
  up and hands its text over.
\<close>

theorem header_float_nearest:
  assumes "hm_get_header k m = Some s" and "scan_decimal s = Some x" and "double_finite w"
  shows "hm_get_header_float k m = Ret (extract_double s) m \<and> double_finite (extract_double s)
    \<and> \<bar>double_val (extract_double s) - decimal_val x\<bar> \<le> \<bar>double_val w - decimal_val x\<bar>"
  using double_of_nearest [OF assms(3)] assms(1,2) by (simp add: hm_get_header_float_def extract_double_def)

definition quality_field :: http_message where
  "quality_field = hm_set_header ''Q'' ''0.1'' (http_request_new HTTP11)"

theorem header_float_nearest_witness:
  "hm_get_header_float ''Q'' quality_field = Ret 0x3FB999999999999A quality_field
   \<and> \<bar>double_val 0x3FB999999999999A - 1 / 10\<bar> \<le> \<bar>double_val 0x3FB9999999999999 - 1 / 10\<bar>"
proof -
  have f: "hm_get_header ''Q'' quality_field = Some ''0.1''" by code_simp
  have d: "scan_decimal ''0.1'' = Some (False, 1, - 1)" by (simp add: number_simps)
  have w: "double_finite 0x3FB9999999999999" by (simp add: double_finite_def DBL_MAX_BITS_def)
  show ?thesis using header_float_nearest [OF f d w] by (simp add: double_texts(1) decimal_val_def power_int_minus)
qed

lemma scan_decimal_int: "scan_decimal (dec_of_int i) = Some (i < 0, nat \<bar>i\<bar>, 0)"
proof -
  have d: "\<forall>c \<in> set (dec_of_nat n). is_digit c" "dec_of_nat n \<noteq> []" for n by (simp_all add: dec_of_nat_digits)
  have w: "takeWhile is_digit (dec_of_nat n) = dec_of_nat n" "dropWhile is_digit (dec_of_nat n) = []" for n
    using d(1) [of n] by (simp_all add: takeWhile_eq_all_conv)
  have f: "scan_sign (dropWhile is_space (dec_of_nat n)) = (False, dec_of_nat n)" for n
  proof -
    obtain c cs where c: "dec_of_nat n = c # cs" using d(2) by (cases "dec_of_nat n") auto
    then have "is_digit c" using d(1) [of n] by simp
    then show ?thesis using c digit_not_space digit_not_sign by simp
  qed
  show ?thesis
    by (cases "i < 0") (simp_all add: scan_decimal_def dec_of_int_def w f d(2) digits_val_dec, simp add: is_space_def Let_def)
qed

lemma exact_double:
  assumes "n \<le> 2 ^ 53"
  shows "double_val (double_of (neg, n, 0)) = (if neg then - 1 else 1) * real n"
proof -
  obtain b where b: "b \<le> DBL_MAX_BITS" "magnitude b = real n" using whole_double [OF assms] by blast
  define w :: "64 word" where "w = word_of_nat ((if neg then 2 ^ 63 else 0) + b)"
  have "double_finite w" "double_val w = decimal_val (neg, n, 0)"
    using double_parts [OF b(1) refl, of neg] b(2) by (simp_all add: w_def decimal_val_def)
  then have "double_val (double_of (neg, n, 0)) = decimal_val (neg, n, 0)"
    using double_of_nearest [of w "(neg, n, 0)"] by simp
  then show ?thesis by (simp add: decimal_val_def)
qed

text \<open>
  A whole number of at most \<open>2 ^ 53\<close> in a header field is the same number for
  \<open>GetHeaderAsInt\<close> and for \<open>GetHeaderAsFloat\<close>.
\<close>

theorem header_numbers_agree:
  assumes "hm_get_header k m = Some (dec_of_int i)" and "\<bar>i\<bar> \<le> 2 ^ 53"
  shows "hm_get_header_int k m = Ret i m \<and> (\<exists>w. hm_get_header_float k m = Ret w m \<and> double_val w = real_of_int i)"
proof -
  have "atoi (dec_of_int i) = i"
  proof (cases "i < 0")
    case True
    then show ?thesis by (simp add: dec_of_int_def atoi_def digits_val_dec is_space_def)
  next
    case False
    then show ?thesis by (simp add: dec_of_int_def atoi_dec)
  qed
  then have "extract_long (dec_of_int i) = i" using assms(2) by (auto simp: extract_long_def abs_if split: if_splits)
  moreover have "double_val (extract_double (dec_of_int i)) = real_of_int i"
    using exact_double [of "nat \<bar>i\<bar>" "i < 0"] assms(2) by (simp add: extract_double_def scan_decimal_int nat_le_iff)
  ultimately show ?thesis using assms(1) by (simp add: hm_get_header_int_def hm_get_header_float_def)
qed

theorem header_numbers_agree_witness:
  "hm_get_header_int ''X'' (hm_set_header ''X'' ''-42'' quality_field) = Ret (- 42) (hm_set_header ''X'' ''-42'' quality_field)"
proof -
  have f: "hm_get_header ''X'' (hm_set_header ''X'' ''-42'' quality_field) = Some (dec_of_int (- 42))" by code_simp
  show ?thesis using header_numbers_agree [OF f] by simp
qed

end
