(* ===== verification/Errors.thy ===== *)
theory Errors
  imports Prelude
begin

text \<open>
  Error objects, error classes and exceptions (\<open>Error\<close>, \<open>ErrorClass\<close>, \<open>Exception\<close>,
  \<open>ErrorCode\<close>) and the classification of socket errors (\<open>SocketError\<close>). The single object of
  every error class is a constructor of a datatype; an \<open>Error*\<close> is an option. The codes are
  those of Linux, where \<open>EWOULDBLOCK\<close> is \<open>EAGAIN\<close>.
\<close>

subsection \<open>Error classes, errors, exceptions\<close>

datatype error_class = NoErrorClass | GeneralError | LogicError | RuntimeError

record error =
  eclass :: "error_class option"
  emessage :: "char list"
  ecode :: int

datatype exception_type = TException | TLogicException | TRuntimeException | TStdException | TStdLogicError | TStdRuntimeError

record exception =
  xtype :: exception_type
  xmessage :: "char list"
  xcode :: int

fun ec_name :: "error_class \<Rightarrow> char list" where
  "ec_name NoErrorClass = []"
| "ec_name GeneralError = ''Error''"
| "ec_name LogicError = ''LogicError''"
| "ec_name RuntimeError = ''RuntimeError''"

definition err_new :: error where
  "err_new = \<lparr>eclass = None, emessage = [], ecode = 0\<rparr>"

definition err_new_message :: "char list \<Rightarrow> int \<Rightarrow> error" where
  "err_new_message msg code = \<lparr>eclass = Some GeneralError, emessage = msg, ecode = code\<rparr>"

definition err_new_class :: "error_class \<Rightarrow> char list \<Rightarrow> int \<Rightarrow> error" where
  "err_new_class cls msg code = \<lparr>eclass = Some cls, emessage = msg, ecode = code\<rparr>"

definition err_empty :: "error \<Rightarrow> bool" where
  "err_empty e = (eclass e = None)"

definition err_class :: "error \<Rightarrow> error_class" where
  "err_class e = (case eclass e of Some cls \<Rightarrow> cls | None \<Rightarrow> NoErrorClass)"

definition err_reset :: "error \<Rightarrow> error" where
  "err_reset e = e\<lparr>eclass := None, emessage := [], ecode := 0\<rparr>"

definition err_default_class :: "error \<Rightarrow> error" where
  "err_default_class e = (if eclass e = None then e\<lparr>eclass := Some GeneralError\<rparr> else e)"

definition err_set_message_code :: "char list \<Rightarrow> int \<Rightarrow> error \<Rightarrow> error" where
  "err_set_message_code msg code e = err_default_class (e\<lparr>emessage := msg, ecode := code\<rparr>)"

definition err_set :: "error_class \<Rightarrow> char list \<Rightarrow> int \<Rightarrow> error \<Rightarrow> error" where
  "err_set cls msg code e = e\<lparr>eclass := Some cls, emessage := msg, ecode := code\<rparr>"

definition err_set_class :: "error_class \<Rightarrow> error \<Rightarrow> error" where
  "err_set_class cls e = e\<lparr>eclass := Some cls\<rparr>"

definition err_set_message :: "char list \<Rightarrow> error \<Rightarrow> error" where
  "err_set_message msg e = err_default_class (e\<lparr>emessage := msg\<rparr>)"

definition err_set_code :: "int \<Rightarrow> error \<Rightarrow> error" where
  "err_set_code code e = err_default_class (e\<lparr>ecode := code\<rparr>)"

definition err_report :: "error \<Rightarrow> char list" where
  "err_report e = (case eclass e of
       None \<Rightarrow> ''No error.''
     | Some cls \<Rightarrow> ec_name cls @ (if 0 < ecode e then '':'' @ dec_of_int (ecode e) else [])
         @ (if emessage e \<noteq> [] then '':'' @ emessage e else []) @ ''.'')"

text \<open>\<open>Throw\<close> of an error class: \<open>None\<close> is a plain return. The base class throws nothing.\<close>

fun ec_throw :: "error_class \<Rightarrow> error \<Rightarrow> exception option" where
  "ec_throw NoErrorClass e = None"
| "ec_throw GeneralError e =
     (if \<not> err_empty e then Some \<lparr>xtype = TException, xmessage = emessage e, xcode = ecode e\<rparr> else None)"
| "ec_throw LogicError e =
     (if \<not> err_empty e then Some \<lparr>xtype = TLogicException, xmessage = emessage e, xcode = ecode e\<rparr> else None)"
| "ec_throw RuntimeError e =
     (if \<not> err_empty e then Some \<lparr>xtype = TRuntimeException, xmessage = emessage e, xcode = ecode e\<rparr> else None)"

text \<open>The macro \<open>THROW_ERROR\<close>.\<close>

definition throw_error :: "error \<Rightarrow> exception option" where
  "throw_error e = ec_throw (err_class e) e"

definition exc_what :: "exception \<Rightarrow> char list" where
  "exc_what x = xmessage x @ '' : '' @ dec_of_int (xcode x)"

fun exc_title :: "exception_type \<Rightarrow> char list" where
  "exc_title TException = ''Error''"
| "exc_title TLogicException = ''Logic Error''"
| "exc_title TRuntimeException = ''Runtime Error''"
| "exc_title _ = []"

definition exc_report :: "exception \<Rightarrow> char list" where
  "exc_report x = exc_title (xtype x) @ (if xmessage x \<noteq> [] then '' : '' @ xmessage x else [])
     @ (if 0 < xcode x then '' : '' @ dec_of_int (xcode x) else []) @ ''.''"

text \<open>
  The direct bases of the exception classes (none of them virtual). A handler for a class takes
  an exception whose type is that class or has it as an unambiguous base: exactly one path.
\<close>

fun exc_bases :: "exception_type \<Rightarrow> exception_type list" where
  "exc_bases TException = [TStdException]"
| "exc_bases TLogicException = [TException, TStdLogicError]"
| "exc_bases TRuntimeException = [TException, TStdRuntimeError]"
| "exc_bases TStdLogicError = [TStdException]"
| "exc_bases TStdRuntimeError = [TStdException]"
| "exc_bases TStdException = []"

fun base_paths :: "nat \<Rightarrow> exception_type \<Rightarrow> exception_type \<Rightarrow> nat" where
  "base_paths 0 t h = (if t = h then 1 else 0)"
| "base_paths (Suc f) t h = (if t = h then 1 else sum_list (map (\<lambda>b. base_paths f b h) (exc_bases t)))"

definition catches :: "exception_type \<Rightarrow> exception \<Rightarrow> bool" where
  "catches h x = (base_paths 3 (xtype x) h = 1)"

definition error_code_description :: "int \<Rightarrow> (char list, unit) outcome" where
  "error_code_description code = Fault AssertFailed"

subsection \<open>Socket errors\<close>

abbreviation (input) "EPERM \<equiv> 1 :: int"
abbreviation (input) "EINTR \<equiv> 4 :: int"
abbreviation (input) "EIO \<equiv> 5 :: int"
abbreviation (input) "EBADF \<equiv> 9 :: int"
abbreviation (input) "EAGAIN \<equiv> 11 :: int"
abbreviation (input) "EWOULDBLOCK \<equiv> 11 :: int"
abbreviation (input) "ENOMEM \<equiv> 12 :: int"
abbreviation (input) "EACCES \<equiv> 13 :: int"
abbreviation (input) "EFAULT \<equiv> 14 :: int"
abbreviation (input) "EINVAL \<equiv> 22 :: int"
abbreviation (input) "ENFILE \<equiv> 23 :: int"
abbreviation (input) "EMFILE \<equiv> 24 :: int"
abbreviation (input) "EPIPE \<equiv> 32 :: int"
abbreviation (input) "ENOLCK \<equiv> 37 :: int"
abbreviation (input) "ENOTSOCK \<equiv> 88 :: int"
abbreviation (input) "EDESTADDRREQ \<equiv> 89 :: int"
abbreviation (input) "EMSGSIZE \<equiv> 90 :: int"
abbreviation (input) "EPROTOTYPE \<equiv> 91 :: int"
abbreviation (input) "ENOPROTOOPT \<equiv> 92 :: int"
abbreviation (input) "EPROTONOSUPPORT \<equiv> 93 :: int"
abbreviation (input) "EOPNOTSUPP \<equiv> 95 :: int"
abbreviation (input) "EAFNOSUPPORT \<equiv> 97 :: int"
abbreviation (input) "EADDRINUSE \<equiv> 98 :: int"
abbreviation (input) "EADDRNOTAVAIL \<equiv> 99 :: int"
abbreviation (input) "ENETUNREACH \<equiv> 101 :: int"
abbreviation (input) "ECONNRESET \<equiv> 104 :: int"
abbreviation (input) "ENOBUFS \<equiv> 105 :: int"
abbreviation (input) "EISCONN \<equiv> 106 :: int"
abbreviation (input) "ENOTCONN \<equiv> 107 :: int"
abbreviation (input) "ETIMEDOUT \<equiv> 110 :: int"
abbreviation (input) "ECONNREFUSED \<equiv> 111 :: int"
abbreviation (input) "EALREADY \<equiv> 114 :: int"
abbreviation (input) "EINPROGRESS \<equiv> 115 :: int"

text \<open>The macros \<open>SET_ERROR\<close>, \<open>SET_LOGIC_ERROR\<close> and \<open>SET_RUNTIME_ERROR\<close>.\<close>

definition set_as :: "error_class \<Rightarrow> char list \<Rightarrow> int \<Rightarrow> error option \<Rightarrow> (unit, error option) outcome" where
  "set_as cls msg code e = Ret () (map_option (err_set cls msg code) e)"

definition set_error :: "char list \<Rightarrow> int \<Rightarrow> error option \<Rightarrow> (unit, error option) outcome" where
  "set_error msg code e = set_as GeneralError msg code e"

definition select_set_error :: "char list \<Rightarrow> int \<Rightarrow> error option \<Rightarrow> (unit, error option) outcome" where
  "select_set_error msg code e =
     (if code \<in> {EBADF, EINVAL} then set_as LogicError msg code e
      else if code = ENOMEM then set_as RuntimeError msg code e
      else set_as GeneralError msg code e)"

definition open_set_error :: "char list \<Rightarrow> int \<Rightarrow> error option \<Rightarrow> (unit, error option) outcome" where
  "open_set_error msg code e =
     (if code \<in> {EAFNOSUPPORT, EINVAL, EPROTONOSUPPORT} then set_as LogicError msg code e
      else if code \<in> {EACCES, EMFILE, ENFILE, ENOBUFS, ENOMEM} then set_as RuntimeError msg code e
      else set_as GeneralError msg code e)"

definition close_set_error :: "char list \<Rightarrow> int \<Rightarrow> error option \<Rightarrow> (unit, error option) outcome" where
  "close_set_error msg code e =
     (if code = EBADF then set_as LogicError msg code e
      else if code \<in> {EINTR, EIO} then set_as RuntimeError msg code e
      else set_as GeneralError msg code e)"

definition shutdown_set_error :: "char list \<Rightarrow> int \<Rightarrow> error option \<Rightarrow> (unit, error option) outcome" where
  "shutdown_set_error msg code e =
     (if code \<in> {EBADF, EINVAL, ENOTSOCK} then set_as LogicError msg code e
      else if code = ENOTCONN then set_as RuntimeError msg code e
      else set_as GeneralError msg code e)"

definition bind_set_error :: "char list \<Rightarrow> int \<Rightarrow> error option \<Rightarrow> (unit, error option) outcome" where
  "bind_set_error msg code e =
     (if code \<in> {EACCES, EADDRINUSE, EBADF, EINVAL, ENOTSOCK} then set_as LogicError msg code e
      else set_as GeneralError msg code e)"

definition connect_set_error :: "char list \<Rightarrow> int \<Rightarrow> error option \<Rightarrow> (unit, error option) outcome" where
  "connect_set_error msg code e =
     (if code \<in> {EAFNOSUPPORT, EALREADY, EBADF, EFAULT, EISCONN, ENOTSOCK, EPROTOTYPE}
      then set_as LogicError msg code e
      else if code \<in> {EACCES, EPERM, EADDRINUSE, EADDRNOTAVAIL, ENETUNREACH}
      then set_as RuntimeError msg code e
      else if code \<in> {EAGAIN, ECONNREFUSED, EINPROGRESS, EINTR, ETIMEDOUT} then Fault AssertFailed
      else set_as GeneralError msg code e)"

text \<open>The bodies for \<open>listen\<close> and \<open>accept\<close> are empty.\<close>

definition listen_set_error :: "char list \<Rightarrow> int \<Rightarrow> error option \<Rightarrow> (unit, error option) outcome" where
  "listen_set_error msg code e = Ret () e"

definition accept_set_error :: "char list \<Rightarrow> int \<Rightarrow> error option \<Rightarrow> (unit, error option) outcome" where
  "accept_set_error msg code e = Ret () e"

definition send_set_error :: "char list \<Rightarrow> int \<Rightarrow> error option \<Rightarrow> (unit, error option) outcome" where
  "send_set_error msg code e =
     (if code \<in> {EACCES, EBADF, EDESTADDRREQ, EFAULT, EINVAL, EISCONN, EMSGSIZE, ENOTCONN, ENOTSOCK, EOPNOTSUPP}
      then set_as LogicError msg code e
      else if code \<in> {ECONNRESET, ENOBUFS, ENOMEM} then set_as RuntimeError msg code e
      else if code \<in> {EAGAIN, EINTR, EPIPE} then Fault AssertFailed
      else set_as GeneralError msg code e)"

definition receive_set_error :: "char list \<Rightarrow> int \<Rightarrow> error option \<Rightarrow> (unit, error option) outcome" where
  "receive_set_error msg code e =
     (if code \<in> {EBADF, EFAULT, EINVAL, ENOTCONN, ENOTSOCK} then set_as LogicError msg code e
      else if code \<in> {ECONNREFUSED, ENOMEM} then set_as RuntimeError msg code e
      else if code \<in> {EAGAIN, EINTR} then Fault AssertFailed
      else set_as GeneralError msg code e)"

definition name_set_error :: "char list \<Rightarrow> int \<Rightarrow> error option \<Rightarrow> (unit, error option) outcome" where
  "name_set_error msg code e =
     (if code \<in> {EBADF, EFAULT, EINVAL, ENOTSOCK, ENOTCONN} then set_as LogicError msg code e
      else if code = ENOBUFS then set_as RuntimeError msg code e
      else set_as GeneralError msg code e)"

definition control_set_error :: "char list \<Rightarrow> int \<Rightarrow> error option \<Rightarrow> (unit, error option) outcome" where
  "control_set_error msg code e =
     (if code \<in> {EBADF, EINVAL} then set_as LogicError msg code e
      else if code \<in> {EACCES, EAGAIN, EFAULT, ENOLCK} then set_as RuntimeError msg code e
      else set_as GeneralError msg code e)"

definition option_set_error :: "char list \<Rightarrow> int \<Rightarrow> error option \<Rightarrow> (unit, error option) outcome" where
  "option_set_error msg code e =
     (if code \<in> {EBADF, EFAULT, EINVAL, ENOPROTOOPT, ENOTSOCK} then set_as LogicError msg code e
      else set_as GeneralError msg code e)"

definition is_interrupted :: "int \<Rightarrow> bool" where
  "is_interrupted code = (code = EINTR)"

definition would_block :: "int \<Rightarrow> bool" where
  "would_block code = (code = EAGAIN \<or> code = EWOULDBLOCK)"

definition in_progress :: "int \<Rightarrow> bool" where
  "in_progress code = (code = EINPROGRESS)"

subsection \<open>The contract of a setter\<close>

text \<open>
  A setter stores message and code with one of the three throwing classes, tolerates the null
  pointer, and fails an assertion exactly on the codes it does not expect.
\<close>

locale error_setter =
  fixes setter :: "char list \<Rightarrow> int \<Rightarrow> error option \<Rightarrow> (unit, error option) outcome"
    and unexpected :: "int set"
  assumes asserts: "code \<in> unexpected \<Longrightarrow> setter msg code e = Fault AssertFailed"
    and sets: "code \<notin> unexpected \<Longrightarrow>
      \<exists>cls \<in> {GeneralError, LogicError, RuntimeError}. \<forall>e. setter msg code e = set_as cls msg code e"
begin

lemma null_pointer: "code \<notin> unexpected \<Longrightarrow> setter msg code None = Ret () None"
  using sets [of code msg] by (auto simp: set_as_def)

lemma thrown_after:
  assumes "code \<notin> unexpected"
  shows "\<exists>e' x. setter msg code (Some e) = Ret () (Some e') \<and> \<not> err_empty e'
    \<and> throw_error e' = Some x \<and> xmessage x = msg \<and> xcode x = code"
  using sets [OF assms, of msg]
  by (auto simp: set_as_def err_set_def throw_error_def err_class_def err_empty_def)

lemma assertion_iff: "setter msg code e = Fault AssertFailed \<longleftrightarrow> code \<in> unexpected"
proof (cases "code \<in> unexpected")
  case True
  then show ?thesis by (simp add: asserts)
next
  case False
  from sets [OF this, of msg] show ?thesis using False by (auto simp: set_as_def)
qed

end

lemmas setter_defs = set_error_def select_set_error_def open_set_error_def close_set_error_def
  shutdown_set_error_def bind_set_error_def connect_set_error_def send_set_error_def
  receive_set_error_def name_set_error_def control_set_error_def option_set_error_def

interpretation generic: error_setter set_error "{}"
  by unfold_locales (auto simp: set_error_def)
interpretation selecting: error_setter select_set_error "{}"
  by unfold_locales (auto simp: select_set_error_def)
interpretation opened: error_setter open_set_error "{}"
  by unfold_locales (auto simp: open_set_error_def)
interpretation closed_sock: error_setter close_set_error "{}"
  by unfold_locales (auto simp: close_set_error_def)
interpretation shutting: error_setter shutdown_set_error "{}"
  by unfold_locales (auto simp: shutdown_set_error_def)
interpretation binding: error_setter bind_set_error "{}"
  by unfold_locales (auto simp: bind_set_error_def)
interpretation connecting: error_setter connect_set_error "{EAGAIN, ECONNREFUSED, EINPROGRESS, EINTR, ETIMEDOUT}"
  by unfold_locales (auto simp: connect_set_error_def)
interpretation sending: error_setter send_set_error "{EAGAIN, EINTR, EPIPE}"
  by unfold_locales (auto simp: send_set_error_def)
interpretation receiving: error_setter receive_set_error "{EAGAIN, EINTR}"
  by unfold_locales (auto simp: receive_set_error_def)
interpretation naming: error_setter name_set_error "{}"
  by unfold_locales (auto simp: name_set_error_def)
interpretation controlling: error_setter control_set_error "{}"
  by unfold_locales (auto simp: control_set_error_def)
interpretation optioning: error_setter option_set_error "{}"
  by unfold_locales (auto simp: option_set_error_def)

subsection \<open>Error objects in use\<close>

text \<open>The functions of \<open>Error\<close> that change the object.\<close>

datatype error_op =
    OpReset
  | OpSetMessageCode "char list" int
  | OpSet error_class "char list" int
  | OpSetClass error_class
  | OpSetMessage "char list"
  | OpSetCode int

fun error_step :: "error_op \<Rightarrow> error \<Rightarrow> error" where
  "error_step OpReset e = err_reset e"
| "error_step (OpSetMessageCode msg code) e = err_set_message_code msg code e"
| "error_step (OpSet cls msg code) e = err_set cls msg code e"
| "error_step (OpSetClass cls) e = err_set_class cls e"
| "error_step (OpSetMessage msg) e = err_set_message msg e"
| "error_step (OpSetCode code) e = err_set_code code e"

lemmas error_defs = err_new_def err_new_message_def err_new_class_def err_empty_def err_class_def
  err_reset_def err_default_class_def err_set_message_code_def err_set_def err_set_class_def
  err_set_message_def err_set_code_def

fun exception_for :: "error_class \<Rightarrow> exception_type" where
  "exception_for LogicError = TLogicException"
| "exception_for RuntimeError = TRuntimeException"
| "exception_for _ = TException"

lemma throw_error_cases:
  "throw_error e = (case eclass e of
       None \<Rightarrow> None
     | Some cls \<Rightarrow> if cls = NoErrorClass then None
         else Some \<lparr>xtype = exception_for cls, xmessage = emessage e, xcode = ecode e\<rparr>)"
  by (cases "err_class e") (auto simp: throw_error_def err_class_def err_empty_def split: option.splits)

text \<open>
  What the operations since the last reset say: the latest message, code and class that one of
  them was given.
\<close>

definition since_reset :: "error_op list \<Rightarrow> error_op list" where
  "since_reset ops = rev (takeWhile (\<lambda>x. x \<noteq> OpReset) (rev ops))"

fun given_message :: "error_op \<Rightarrow> char list option" where
  "given_message (OpSetMessageCode msg code) = Some msg"
| "given_message (OpSet cls msg code) = Some msg"
| "given_message (OpSetMessage msg) = Some msg"
| "given_message _ = None"

fun given_code :: "error_op \<Rightarrow> int option" where
  "given_code (OpSetMessageCode msg code) = Some code"
| "given_code (OpSet cls msg code) = Some code"
| "given_code (OpSetCode code) = Some code"
| "given_code _ = None"

fun given_class :: "error_op \<Rightarrow> error_class option" where
  "given_class (OpSet cls msg code) = Some cls"
| "given_class (OpSetClass cls) = Some cls"
| "given_class _ = None"

definition latest :: "(error_op \<Rightarrow> 'a option) \<Rightarrow> 'a \<Rightarrow> error_op list \<Rightarrow> 'a" where
  "latest g d ops = last (d # List.map_filter g ops)"

lemma since_reset_simps [simp]:
  "since_reset [] = []"
  "since_reset (ops @ [x]) = (if x = OpReset then [] else since_reset ops @ [x])"
  by (simp_all add: since_reset_def)

lemma since_reset_empty: "since_reset ops = [] \<longleftrightarrow> ops = [] \<or> last ops = OpReset"
  by (cases ops rule: rev_cases) simp_all

lemma latest_simps [simp]:
  "latest g d [] = d"
  "latest g d [x] = (case g x of Some v \<Rightarrow> v | None \<Rightarrow> d)"
  "latest g d (ops @ [x]) = (case g x of Some v \<Rightarrow> v | None \<Rightarrow> latest g d ops)"
  by (auto simp: latest_def map_filter_def split: option.splits)

lemma fold_error_step_latest:
  "fold error_step ops err_new =
    (let us = since_reset ops in
     if us = [] then err_new
     else \<lparr>eclass = Some (latest given_class GeneralError us), emessage = latest given_message [] us,
           ecode = latest given_code 0 us\<rparr>)"
proof (induction ops rule: rev_induct)
  case Nil
  then show ?case by simp
next
  case (snoc x ops)
  then show ?case
    by (cases x; cases "since_reset ops = []") (auto simp: error_defs Let_def)
qed

text \<open>
  C17. After any sequence of operations on a new error object: it is empty exactly if nothing was
  done since the last reset, it is then as new and reports ``No error.''. Otherwise its class is
  the latest one it was given since then, \<open>GeneralError\<close> where it was given none, and throwing it
  throws the exception of that class with the latest message and the latest code it was given
  since then (no message, 0); given the base class it throws nothing.
\<close>

theorem error_object_thrown:
  "let e = fold error_step ops err_new; us = since_reset ops; cls = latest given_class GeneralError us in
     (err_empty e \<longleftrightarrow> us = []) \<and> (err_empty e \<longleftrightarrow> ops = [] \<or> last ops = OpReset) \<and>
     (err_empty e \<longleftrightarrow> e = err_new) \<and>
     (err_empty e \<longleftrightarrow> err_report e = ''No error.'') \<and>
     err_class e = (if us = [] then NoErrorClass else cls) \<and>
     throw_error e = (if us = [] \<or> cls = NoErrorClass then None
       else Some \<lparr>xtype = exception_for cls, xmessage = latest given_message [] us, xcode = latest given_code 0 us\<rparr>)"
proof -
  define e where "e = fold error_step ops err_new"
  note l = fold_error_step_latest [of ops, folded e_def]
  have r: "err_empty e \<longleftrightarrow> err_report e = ''No error.''"
  proof (cases "eclass e")
    case None
    then show ?thesis by (simp add: err_empty_def err_report_def)
  next
    case (Some cls)
    have "err_report e \<noteq> ''No error.''"
    proof (cases cls)
      case NoErrorClass
      show ?thesis using Some NoErrorClass by (auto simp: err_report_def)
    qed (use Some in \<open>auto simp: err_report_def\<close>)
    then show ?thesis using Some by (simp add: err_empty_def)
  qed
  show ?thesis
    unfolding Let_def e_def [symmetric]
    using l r since_reset_empty [of ops]
    by (auto simp: Let_def throw_error_cases err_class_def err_empty_def err_new_def)
qed

text \<open>What a setter that returned hands to the caller: the object throws message and code.\<close>

definition carried :: "char list \<Rightarrow> int \<Rightarrow> (unit, error option) outcome \<Rightarrow> bool" where
  "carried msg code m = (case m of
       Ret _ (Some e) \<Rightarrow> (case throw_error e of Some x \<Rightarrow> xmessage x = msg \<and> xcode x = code | None \<Rightarrow> False)
     | _ \<Rightarrow> False)"

context error_setter
begin

lemma carried_iff: "carried msg code (setter msg code (Some e)) \<longleftrightarrow> code \<notin> unexpected"
proof (cases "code \<in> unexpected")
  case True
  then show ?thesis by (simp add: asserts carried_def)
next
  case False
  from thrown_after [OF this, of msg e] show ?thesis using False by (auto simp: carried_def)
qed

end

text \<open>
  The errors of the socket functions, reported through the pointer to an error object: the
  setters of \<open>connect\<close>, \<open>send\<close> and \<open>recv\<close> fail an assertion exactly on the codes
  their callers are to handle themselves (among them \<open>EPIPE\<close>, \<open>ECONNREFUSED\<close> and
  \<open>ETIMEDOUT\<close>); otherwise the object afterwards throws an exception with that message and
  code. Those of \<open>listen\<close> and \<open>accept\<close> leave the object as it was, so that a fresh object
  throws nothing.
\<close>

theorem socket_errors_thrown:
  "(connect_set_error msg code (Some e) = Fault AssertFailed) = (code \<in> {EAGAIN, ECONNREFUSED, EINPROGRESS, EINTR, ETIMEDOUT})
   \<and> carried msg code (connect_set_error msg code (Some e)) = (code \<notin> {EAGAIN, ECONNREFUSED, EINPROGRESS, EINTR, ETIMEDOUT})
   \<and> (send_set_error msg code (Some e) = Fault AssertFailed) = (code \<in> {EAGAIN, EINTR, EPIPE})
   \<and> carried msg code (send_set_error msg code (Some e)) = (code \<notin> {EAGAIN, EINTR, EPIPE})
   \<and> (receive_set_error msg code (Some e) = Fault AssertFailed) = (code \<in> {EAGAIN, EINTR})
   \<and> carried msg code (receive_set_error msg code (Some e)) = (code \<notin> {EAGAIN, EINTR})
   \<and> carried msg code (set_error msg code (Some e)) \<and> carried msg code (select_set_error msg code (Some e))
   \<and> carried msg code (open_set_error msg code (Some e)) \<and> carried msg code (close_set_error msg code (Some e))
   \<and> carried msg code (shutdown_set_error msg code (Some e)) \<and> carried msg code (bind_set_error msg code (Some e))
   \<and> carried msg code (name_set_error msg code (Some e)) \<and> carried msg code (control_set_error msg code (Some e))
   \<and> carried msg code (option_set_error msg code (Some e))
   \<and> listen_set_error msg code (Some e) = Ret () (Some e) \<and> accept_set_error msg code (Some e) = Ret () (Some e)
   \<and> throw_error err_new = None"
  by (simp only: connecting.carried_iff sending.carried_iff receiving.carried_iff generic.carried_iff
      selecting.carried_iff opened.carried_iff closed_sock.carried_iff shutting.carried_iff
      binding.carried_iff naming.carried_iff controlling.carried_iff optioning.carried_iff
      connecting.assertion_iff sending.assertion_iff receiving.assertion_iff empty_iff not_False_eq_True
      listen_set_error_def accept_set_error_def)
    (simp add: throw_error_def err_class_def err_new_def)

text \<open>
  A handler for \<open>std::exception\<close> takes an \<open>Exception\<close> but neither a
  \<open>LogicException\<close> nor a \<open>RuntimeException\<close>, which have that base twice; a handler for
  \<open>Exception\<close> takes all three, one for \<open>std::logic_error\<close> exactly the logic exceptions, one
  for \<open>std::runtime_error\<close> exactly the runtime exceptions. So what an error object throws
  gets past a handler for \<open>std::exception\<close> exactly if its class is a logic or a runtime error.
\<close>

theorem thrown_errors_caught:
  "throw_error e = Some x \<Longrightarrow>
     catches TException x \<and>
     catches TStdException x = (err_class e = GeneralError) \<and>
     (catches TStdLogicError x = (err_class e = LogicError)) \<and>
     (catches TStdRuntimeError x = (err_class e = RuntimeError))"
  by (cases "err_class e")
    (auto simp: throw_error_def err_empty_def catches_def numeral_3_eq_3 split: if_splits)

theorem thrown_errors_caught_witness:
  "throw_error (err_new_class RuntimeError ''select'' 12) = Some \<lparr>xtype = TRuntimeException, xmessage = ''select'', xcode = 12\<rparr>
   \<and> \<not> catches TStdException \<lparr>xtype = TRuntimeException, xmessage = ''select'', xcode = 12\<rparr>"
proof -
  have t: "throw_error (err_new_class RuntimeError ''select'' 12)
      = Some \<lparr>xtype = TRuntimeException, xmessage = ''select'', xcode = 12\<rparr>"
    by (simp add: throw_error_def err_class_def err_new_class_def err_empty_def)
  then show ?thesis
    using thrown_errors_caught [OF t] by (simp add: err_class_def err_new_class_def)
qed

end
