(* ===== verification/Selector.thy ===== *)
theory Selector
  imports Errors "HOL-Library.Multiset"
begin

text \<open>
  \<open>SocketSelector\<close>, the wrapper of \<open>select\<close>: the vector of descriptors kept as a max-heap,
  the three interest sets, and the wait. An \<open>fd_set\<close> is the set of the bits that are set;
  setting or testing a bit outside the array of \<open>FD_SETSIZE\<close> bits is undefined. What the
  kernel answers is data: a list of answers, one per call of \<open>select\<close>; a wait that has used
  up its answers has not returned.
\<close>

subsection \<open>Descriptor sets and event masks\<close>

abbreviation (input) "FD_SETSIZE \<equiv> 1024 :: int"

abbreviation (input) "SOCKET_EVENT_NONE \<equiv> 0 :: int"
abbreviation (input) "SOCKET_EVENT_READ \<equiv> 1 :: int"
abbreviation (input) "SOCKET_EVENT_WRITE \<equiv> 2 :: int"
abbreviation (input) "SOCKET_EVENT_EXCEPT \<equiv> 4 :: int"

type_synonym fd_set = "int set"

definition fd_ok :: "int \<Rightarrow> bool" where
  "fd_ok s = (0 \<le> s \<and> s < FD_SETSIZE)"

definition fd_put :: "bool \<Rightarrow> int \<Rightarrow> fd_set \<Rightarrow> (unit, fd_set) outcome" where
  "fd_put on s F = (if fd_ok s then Ret () (if on then insert s F else F - {s}) else Fault OutOfBounds)"

definition has_event :: "int \<Rightarrow> int \<Rightarrow> bool" where
  "has_event events m = (and events m \<noteq> 0)"

subsection \<open>The heap of descriptors\<close>

text \<open>
  \<open>std::make_heap\<close>: parents are sifted down from the last one to the first. The standard fixes
  the result up to the order of a heap; what a wait reports rests only on the elements being the same
  and the front the greatest, the laws of the locale below.
\<close>

definition swap_at :: "nat \<Rightarrow> nat \<Rightarrow> int list \<Rightarrow> int list" where
  "swap_at i j xs = xs[i := xs ! j, j := xs ! i]"

definition larger_child :: "nat \<Rightarrow> int list \<Rightarrow> nat" where
  "larger_child p xs =
     (if 2 * p + 2 < length xs \<and> xs ! (2 * p + 1) < xs ! (2 * p + 2) then 2 * p + 2 else 2 * p + 1)"

function sift_down :: "nat \<Rightarrow> int list \<Rightarrow> int list" where
  "sift_down p xs =
     (if 2 * p + 1 < length xs \<and> xs ! p < xs ! larger_child p xs
      then sift_down (larger_child p xs) (swap_at p (larger_child p xs) xs)
      else xs)"
  by pat_completeness auto
termination
  by (relation "measure (\<lambda>(p, xs). length xs - p)") (auto simp: larger_child_def swap_at_def)

declare sift_down.simps [simp del]

fun heapify :: "nat \<Rightarrow> int list \<Rightarrow> int list" where
  "heapify 0 xs = xs"
| "heapify (Suc p) xs = heapify p (sift_down p xs)"

definition make_heap :: "int list \<Rightarrow> int list" where
  "make_heap xs = heapify (length xs div 2) xs"

definition heap_from :: "nat \<Rightarrow> int list \<Rightarrow> bool" where
  "heap_from k xs = (\<forall>c. 0 < c \<and> c < length xs \<and> k \<le> (c - 1) div 2 \<longrightarrow> xs ! c \<le> xs ! ((c - 1) div 2))"

lemma swap_at_simps [simp]:
  "length (swap_at i j xs) = length xs"
  "i < length xs \<Longrightarrow> j < length xs \<Longrightarrow> mset (swap_at i j xs) = mset xs"
  by (simp_all add: swap_at_def mset_swap)

lemma nth_swap_at:
  "i < length xs \<Longrightarrow> j < length xs \<Longrightarrow>
     swap_at i j xs ! c = (if c = j then xs ! i else if c = i then xs ! j else xs ! c)"
  by (auto simp: swap_at_def nth_list_update)

lemma larger_child_facts:
  assumes "2 * p + 1 < length xs"
  shows "larger_child p xs < length xs" and "p < larger_child p xs"
    and "(larger_child p xs - 1) div 2 = p"
    and "0 < c \<Longrightarrow> c < length xs \<Longrightarrow> (c - 1) div 2 = p \<Longrightarrow> xs ! c \<le> xs ! larger_child p xs"
proof -
  show "larger_child p xs < length xs" "p < larger_child p xs" "(larger_child p xs - 1) div 2 = p"
    using assms by (auto simp: larger_child_def)
next
  assume c: "0 < c" "c < length xs" "(c - 1) div 2 = p"
  then have "c = 2 * p + 1 \<or> c = 2 * p + 2" by linarith
  then show "xs ! c \<le> xs ! larger_child p xs"
    using c by (auto simp: larger_child_def)
qed

lemma sift_down_mset [simp]: "mset (sift_down p xs) = mset xs"
proof (induction p xs rule: sift_down.induct)
  case (1 p xs)
  show ?case
  proof (cases "2 * p + 1 < length xs \<and> xs ! p < xs ! larger_child p xs")
    case True
    then have "p < length xs" "larger_child p xs < length xs"
      using larger_child_facts (1) [of p xs] by auto
    then show ?thesis using 1 [OF True] True by (subst sift_down.simps) simp
  next
    case False
    then show ?thesis by (subst sift_down.simps) auto
  qed
qed

lemma sift_down_length [simp]: "length (sift_down p xs) = length xs"
  using sift_down_mset [of p xs] by (metis size_mset)

text \<open>
  The state of a sift: the order holds from \<open>k\<close> on except below \<open>p\<close>, and the children of
  \<open>p\<close> are below the parent of \<open>p\<close>.
\<close>

definition heap_but :: "nat \<Rightarrow> nat \<Rightarrow> int list \<Rightarrow> bool" where
  "heap_but k p xs =
     ((\<forall>c. 0 < c \<and> c < length xs \<and> k \<le> (c - 1) div 2 \<and> (c - 1) div 2 \<noteq> p \<longrightarrow> xs ! c \<le> xs ! ((c - 1) div 2))
      \<and> (\<forall>c. 0 < p \<and> k \<le> (p - 1) div 2 \<and> 0 < c \<and> c < length xs \<and> (c - 1) div 2 = p
           \<longrightarrow> xs ! c \<le> xs ! ((p - 1) div 2)))"

lemma heap_but_step:
  assumes h: "heap_but k p xs" and k: "k \<le> p" and c: "2 * p + 1 < length xs"
    and less: "xs ! p < xs ! larger_child p xs"
  shows "heap_but k (larger_child p xs) (swap_at p (larger_child p xs) xs)"
proof -
  let ?m = "larger_child p xs"
  note m = larger_child_facts [OF c]
  have pl: "p < length xs" using c by simp
  have at: "swap_at p ?m xs ! i = (if i = ?m then xs ! p else if i = p then xs ! ?m else xs ! i)" for i
    by (rule nth_swap_at) (use m(1) pl in auto)
  have 1: "swap_at p ?m xs ! i \<le> swap_at p ?m xs ! ((i - 1) div 2)"
    if i: "0 < i" "i < length xs" "k \<le> (i - 1) div 2" "(i - 1) div 2 \<noteq> ?m" for i
  proof (cases "(i - 1) div 2 = p")
    case True
    have "p \<noteq> i" using True i(1) by linarith
    then show ?thesis using True m(4) [of i] i less m(2) unfolding at by auto
  next
    case False
    then have le: "xs ! i \<le> xs ! ((i - 1) div 2)" using h i by (auto simp: heap_but_def)
    have "i \<noteq> ?m" using False m(3) by auto
    show ?thesis
    proof (cases "i = p")
      case True
      have "k \<le> (p - 1) div 2 \<and> 0 < p" using i True by simp
      then have "xs ! ?m \<le> xs ! ((p - 1) div 2)"
        using h m(1-3) by (auto simp: heap_but_def)
      then show ?thesis using True False i \<open>i \<noteq> ?m\<close> unfolding at by auto
    next
      case False
      then show ?thesis using le i \<open>i \<noteq> ?m\<close> \<open>(i - 1) div 2 \<noteq> p\<close> unfolding at by auto
    qed
  qed
  have 2: "swap_at p ?m xs ! i \<le> swap_at p ?m xs ! ((?m - 1) div 2)"
    if i: "0 < i" "i < length xs" "(i - 1) div 2 = ?m" for i
  proof -
    have "xs ! i \<le> xs ! ?m" using h i k m(2) by (auto simp: heap_but_def)
    moreover have "i \<noteq> ?m" "i \<noteq> p" using i m(2) by linarith+
    ultimately show ?thesis using m(2,3) unfolding at by auto
  qed
  show ?thesis using 1 2 by (auto simp: heap_but_def)
qed

lemma sift_down_heap: "heap_but k p xs \<Longrightarrow> k \<le> p \<Longrightarrow> heap_from k (sift_down p xs)"
proof (induction p xs rule: sift_down.induct)
  case (1 p xs)
  show ?case
  proof (cases "2 * p + 1 < length xs \<and> xs ! p < xs ! larger_child p xs")
    case True
    then show ?thesis
      using 1 heap_but_step [of k p xs] larger_child_facts(2) [of p xs]
      by (subst sift_down.simps) (auto intro!: 1)
  next
    case False
    have "xs ! c \<le> xs ! ((c - 1) div 2)" if c: "0 < c" "c < length xs" "k \<le> (c - 1) div 2" for c
    proof (cases "(c - 1) div 2 = p")
      case True
      then have "2 * p + 1 < length xs" using c by linarith
      then show ?thesis using False larger_child_facts(4) [of p xs c] c True by fastforce
    next
      case False
      then show ?thesis using 1 c by (auto simp: heap_but_def)
    qed
    then show ?thesis using False by (subst sift_down.simps) (auto simp: heap_from_def)
  qed
qed

lemma heapify_facts:
  assumes "k \<le> length xs" and "heap_from k xs"
  shows "mset (heapify k xs) = mset xs \<and> heap_from 0 (heapify k xs)"
  using assms
proof (induction k arbitrary: xs)
  case (Suc k)
  have "heap_but k k xs"
    using Suc.prems(2) by (auto simp: heap_but_def heap_from_def)
  then have "heap_from k (sift_down k xs)" by (rule sift_down_heap) simp
  then show ?case using Suc.IH [of "sift_down k xs"] Suc.prems(1) by simp
qed simp

lemma heap_front_max:
  assumes "heap_from 0 xs" and "c < length xs"
  shows "xs ! c \<le> xs ! 0"
  using assms(2)
proof (induction c rule: less_induct)
  case (less c)
  show ?case
  proof (cases "c = 0")
    case False
    then have "xs ! c \<le> xs ! ((c - 1) div 2)" using assms(1) less.prems by (simp add: heap_from_def)
    also have "\<dots> \<le> xs ! 0" using less.IH [of "(c - 1) div 2"] less.prems False by simp
    finally show ?thesis .
  qed simp
qed

text \<open>What the selector relies on: the elements are kept and the front is the greatest.\<close>

locale max_front =
  fixes arrange :: "int list \<Rightarrow> int list"
  assumes arrange_mset: "mset (arrange xs) = mset xs"
    and arrange_front: "x \<in> set xs \<Longrightarrow> x \<le> hd (arrange xs)"
begin

lemma arrange_set [simp]: "set (arrange xs) = set xs"
  using arrange_mset [of xs] by (metis set_mset_mset)

lemma arrange_distinct [simp]: "distinct (arrange xs) = distinct xs"
  using arrange_mset [of xs] mset_eq_imp_distinct_iff by blast

lemma arrange_Nil [simp]: "arrange xs = [] \<longleftrightarrow> xs = []"
  using arrange_mset [of xs] by (metis mset_zero_iff_right)

end

lemma make_heap_mset [simp]: "mset (make_heap xs) = mset xs"
  and make_heap_heap: "heap_from 0 (make_heap xs)"
proof -
  have "(c - 1) div 2 < length xs div 2" if "0 < c" "c < length xs" for c :: nat
    using that by linarith
  then have "heap_from (length xs div 2) xs" by (fastforce simp: heap_from_def)
  then show "mset (make_heap xs) = mset xs" "heap_from 0 (make_heap xs)"
    using heapify_facts [of "length xs div 2" xs] by (simp_all add: make_heap_def)
qed

interpretation heap: max_front make_heap
proof unfold_locales
  fix xs :: "int list" and x :: int
  assume x: "x \<in> set xs"
  have s: "set (make_heap xs) = set xs" by (metis make_heap_mset set_mset_mset)
  then obtain c where c: "c < length (make_heap xs)" "make_heap xs ! c = x"
    using x by (metis in_set_conv_nth)
  then have "x \<le> make_heap xs ! 0" using heap_front_max [OF make_heap_heap] by metis
  then show "x \<le> hd (make_heap xs)" using c by (metis hd_conv_nth list.size(3) not_less_zero)
qed simp

subsection \<open>Selectors\<close>

record selector =
  descriptors :: "int list"
  read_set :: fd_set
  write_set :: fd_set
  except_set :: fd_set

definition sel_new :: selector where
  "sel_new = \<lparr>descriptors = [], read_set = {}, write_set = {}, except_set = {}\<rparr>"

definition sel_new_sets :: "fd_set option \<Rightarrow> fd_set option \<Rightarrow> fd_set option \<Rightarrow> selector" where
  "sel_new_sets r w e = sel_new\<lparr>read_set := (case r of Some F \<Rightarrow> F | None \<Rightarrow> {}),
     write_set := (case w of Some F \<Rightarrow> F | None \<Rightarrow> {}), except_set := (case e of Some F \<Rightarrow> F | None \<Rightarrow> {})\<rparr>"

definition sel_put :: "bool \<Rightarrow> bool \<Rightarrow> bool \<Rightarrow> int \<Rightarrow> selector \<Rightarrow> (unit, selector) outcome" where
  "sel_put r w e s S =
     bind_out (fd_put r s (read_set S)) (\<lambda>_ R.
     bind_out (fd_put w s (write_set S)) (\<lambda>_ W.
     bind_out (fd_put e s (except_set S)) (\<lambda>_ E.
     Ret () (S\<lparr>read_set := R, write_set := W, except_set := E\<rparr>))))"

definition sel_remove :: "int \<Rightarrow> selector \<Rightarrow> (unit, selector) outcome" where
  "sel_remove s S =
     sel_put False False False s
       (if s \<in> set (descriptors S)
        then S\<lparr>descriptors := make_heap (remove1 s (descriptors S))\<rparr> else S)"

definition sel_set :: "int \<Rightarrow> int \<Rightarrow> selector \<Rightarrow> (bool, selector) outcome" where
  "sel_set s events S =
     (if events = 0 then map_ret (\<lambda>_. True) (sel_remove s S)
      else map_ret (\<lambda>_. True)
        (sel_put (has_event events SOCKET_EVENT_READ) (has_event events SOCKET_EVENT_WRITE)
          (has_event events SOCKET_EVENT_EXCEPT) s
          (if s \<in> set (descriptors S) then S
           else S\<lparr>descriptors := make_heap (descriptors S @ [s])\<rparr>)))"

definition sel_new_events :: "int \<Rightarrow> int \<Rightarrow> (bool, selector) outcome" where
  "sel_new_events s events = sel_set s events sel_new"

definition sel_new_list :: "(int \<times> int) list \<Rightarrow> (unit, selector) outcome" where
  "sel_new_list sockets = Fault AssertFailed"

subsection \<open>Waiting\<close>

text \<open>The arguments of a call of \<open>select\<close>: \<open>nfds\<close>, the interest sets, the time limit.\<close>

record select_call =
  call_nfds :: int
  watched_read :: fd_set
  watched_write :: fd_set
  watched_except :: fd_set
  limit :: "(int \<times> int) option"

text \<open>Its answer: -1 with \<open>errno\<close>, or a count with the sets it leaves.\<close>

datatype select_answer =
    SelectFailed int
  | SelectReturned nat fd_set fd_set fd_set

type_synonym kernel_answer = "select_call \<Rightarrow> select_answer"

definition sel_nfds :: "selector \<Rightarrow> int" where
  "sel_nfds S = (if descriptors S = [] then 1 else hd (descriptors S) + 1)"

definition timeval :: "int \<Rightarrow> (int \<times> int) option" where
  "timeval timeout = (if timeout < 0 then None
     else (let sec = timeout div 1000 in Some (sec, (timeout - sec * 1000) * 1000)))"

definition sel_call :: "selector \<Rightarrow> int \<Rightarrow> select_call" where
  "sel_call S timeout = \<lparr>call_nfds = sel_nfds S, watched_read = read_set S, watched_write = write_set S,
     watched_except = except_set S, limit = timeval timeout\<rparr>"

definition active_events :: "fd_set \<Rightarrow> fd_set \<Rightarrow> fd_set \<Rightarrow> int \<Rightarrow> int" where
  "active_events R W E fd =
     or (or (if fd \<in> R then SOCKET_EVENT_READ else 0) (if fd \<in> W then SOCKET_EVENT_WRITE else 0))
        (if fd \<in> E then SOCKET_EVENT_EXCEPT else 0)"

definition sel_collect :: "int list \<Rightarrow> fd_set \<Rightarrow> fd_set \<Rightarrow> fd_set \<Rightarrow> (int \<times> int) list" where
  "sel_collect fds R W E =
     filter (\<lambda>(fd, ev). ev \<noteq> SOCKET_EVENT_NONE) (map (\<lambda>fd. (fd, active_events R W E fd)) fds)"

definition select_message :: "int \<Rightarrow> char list" where
  "select_message nfds = ''SocketSelector::Select ['' @ dec_of_int nfds @ '']''"

text \<open>
  \<open>Select\<close>: \<open>None\<close> while the answers run out (the call has not returned); otherwise the
  value returned, with the result vector and the error object, and the answers not used.
\<close>

fun sel_select :: "selector \<Rightarrow> int \<Rightarrow> kernel_answer list \<Rightarrow> (int \<times> int) list \<Rightarrow> error option
    \<Rightarrow> ((int, (int \<times> int) list \<times> error option) outcome \<times> kernel_answer list) option" where
  "sel_select S timeout [] out e = None"
| "sel_select S timeout (k # ks) out e = (case k (sel_call S timeout) of
       SelectFailed code \<Rightarrow>
         if is_interrupted code then sel_select S timeout ks out e
         else Some (bind_out (select_set_error (select_message (sel_nfds S)) code e) (\<lambda>_ e'. Ret (- 1) (out, e')), ks)
     | SelectReturned n R W E \<Rightarrow>
         Some (if n = 0
           then bind_out (set_as RuntimeError (select_message (sel_nfds S)) ETIMEDOUT e) (\<lambda>_ e'. Ret 0 (out, e'))
           else if \<not> list_all fd_ok (descriptors S) then Fault OutOfBounds
           else Ret (int n) (sel_collect (descriptors S) R W E, e), ks))"

text \<open>The throwing form.\<close>

definition sel_select_throw :: "selector \<Rightarrow> int \<Rightarrow> kernel_answer list \<Rightarrow> (int \<times> int) list
    \<Rightarrow> ((exception + int, (int \<times> int) list) outcome \<times> kernel_answer list) option" where
  "sel_select_throw S timeout ks out =
     map_option (\<lambda>(m, ks'). (bind_out m (\<lambda>ret (out', e).
       Ret (if ret < 0 then (case throw_error (the e) of Some x \<Rightarrow> Inl x | None \<Rightarrow> Inr ret) else Inr ret) out'), ks'))
       (sel_select S timeout ks out (Some err_new))"

text \<open>
  The documented behaviour of \<open>select\<close>: what it leaves are watched descriptors below
  \<open>nfds\<close>, as many bits as it returns.
\<close>

definition select_contract :: "kernel_answer \<Rightarrow> bool" where
  "select_contract k = (\<forall>c. case k c of
       SelectFailed code \<Rightarrow> True
     | SelectReturned n R W E \<Rightarrow> R \<subseteq> watched_read c \<and> W \<subseteq> watched_write c \<and> E \<subseteq> watched_except c
         \<and> (\<forall>fd \<in> R \<union> W \<union> E. 0 \<le> fd \<and> fd < call_nfds c) \<and> n = card R + card W + card E)"

subsection \<open>The interest a selector keeps\<close>

text \<open>
  The abstract view: a mask per descriptor, zero where there is no interest.
\<close>

definition tracks :: "selector \<Rightarrow> (int \<Rightarrow> int) \<Rightarrow> bool" where
  "tracks S m = (distinct (descriptors S) \<and> set (descriptors S) = {fd. m fd \<noteq> 0} \<and> list_all fd_ok (descriptors S)
     \<and> (\<forall>fd \<in> set (descriptors S). fd \<le> hd (descriptors S))
     \<and> read_set S = {fd. has_event (m fd) SOCKET_EVENT_READ}
     \<and> write_set S = {fd. has_event (m fd) SOCKET_EVENT_WRITE}
     \<and> except_set S = {fd. has_event (m fd) SOCKET_EVENT_EXCEPT})"

lemma has_event_zero [simp]: "\<not> has_event 0 e"
  by (simp add: has_event_def)

lemma tracks_new: "tracks sel_new (\<lambda>_. 0)"
  by (simp add: tracks_def sel_new_def)

lemma sel_put_ok:
  "fd_ok s \<Longrightarrow> sel_put r w e s S = Ret () (S\<lparr>
     read_set := if r then insert s (read_set S) else read_set S - {s},
     write_set := if w then insert s (write_set S) else write_set S - {s},
     except_set := if e then insert s (except_set S) else except_set S - {s}\<rparr>)"
  by (simp add: sel_put_def fd_put_def)

lemma sel_put_bad: "\<not> fd_ok s \<Longrightarrow> sel_put r w e s S = Fault OutOfBounds"
  by (simp add: sel_put_def fd_put_def)

lemma sel_set_tracks:
  assumes t: "tracks S m" and s: "fd_ok s"
  shows "\<exists>S'. sel_set s ev S = Ret True S' \<and> tracks S' (m(s := ev))"
proof (cases "ev = 0")
  case True
  have d: "{fd. (m(s := 0)) fd \<noteq> 0} = {fd. m fd \<noteq> 0} - {s}" by auto
  show ?thesis
    using True t s heap.arrange_front
    by (auto simp: sel_set_def sel_remove_def sel_put_ok tracks_def list_all_iff)
next
  case False
  then show ?thesis
    using t s heap.arrange_front [of _ "descriptors S @ [s]"]
    by (auto simp: sel_set_def sel_put_ok tracks_def list_all_iff)
qed

lemma sel_set_bad: "\<not> fd_ok s \<Longrightarrow> sel_set s ev S = Fault OutOfBounds"
  by (simp add: sel_set_def sel_remove_def sel_put_bad)

text \<open>A sequence of calls of \<open>Set\<close>; \<open>Remove\<close> is the call with no events.\<close>

fun sel_sets :: "(int \<times> int) list \<Rightarrow> selector \<Rightarrow> (unit, selector) outcome" where
  "sel_sets [] S = Ret () S"
| "sel_sets ((s, ev) # ops) S = bind_out (sel_set s ev S) (\<lambda>_ S'. sel_sets ops S')"

definition interest :: "(int \<times> int) list \<Rightarrow> int \<Rightarrow> int" where
  "interest ops fd = (case map_of (rev ops) fd of Some ev \<Rightarrow> ev | None \<Rightarrow> 0)"

lemma sel_sets_tracks:
  assumes "tracks S m" and "list_all (fd_ok \<circ> fst) ops"
  shows "\<exists>S'. sel_sets ops S = Ret () S' \<and> tracks S' (\<lambda>fd. case map_of (rev ops) fd of Some ev \<Rightarrow> ev | None \<Rightarrow> m fd)"
  using assms
proof (induction ops arbitrary: S m)
  case (Cons op ops)
  obtain s ev where op: "op = (s, ev)" by force
  then obtain S1 where S1: "sel_set s ev S = Ret True S1" "tracks S1 (m(s := ev))"
    using sel_set_tracks [OF Cons.prems(1)] Cons.prems(2) by fastforce
  have "(\<lambda>fd. case map_of (rev ops) fd of Some v \<Rightarrow> v | None \<Rightarrow> (m(s := ev)) fd)
      = (\<lambda>fd. case map_of (rev (op # ops)) fd of Some v \<Rightarrow> v | None \<Rightarrow> m fd)"
    by (auto simp: op map_add_def split: option.splits)
  then show ?case using Cons.IH [OF S1(2)] Cons.prems(2) S1(1) by (simp add: op)
qed simp

lemma sel_sets_bad: "tracks S m \<Longrightarrow> \<not> list_all (fd_ok \<circ> fst) ops \<Longrightarrow> sel_sets ops S = Fault OutOfBounds"
proof (induction ops arbitrary: S m)
  case (Cons op ops)
  obtain s ev where op: "op = (s, ev)" by force
  show ?case
  proof (cases "fd_ok s")
    case True
    then obtain S1 where "sel_set s ev S = Ret True S1" "tracks S1 (m(s := ev))"
      using sel_set_tracks [OF Cons.prems(1)] by blast
    then show ?thesis using Cons.IH Cons.prems(2) True by (simp add: op)
  qed (simp add: op sel_set_bad)
qed simp

lemma tracks_nfds:
  assumes "tracks S m" and "m fd \<noteq> 0"
  shows "0 \<le> fd \<and> fd < sel_nfds S"
  using assms by (auto simp: tracks_def sel_nfds_def list_all_iff fd_ok_def)

text \<open>The vector is arranged as a heap after each change.\<close>

lemma sel_set_heap:
  assumes "heap_from 0 (descriptors S)" and "sel_set s ev S = Ret b S'"
  shows "heap_from 0 (descriptors S')"
  using assms make_heap_heap
  by (cases "fd_ok s")
    (auto simp: sel_set_def sel_remove_def sel_put_ok sel_put_bad map_ret_def bind_out_eq_Ret split: if_splits)

lemma sel_sets_heap:
  "heap_from 0 (descriptors S) \<Longrightarrow> sel_sets ops S = Ret u S' \<Longrightarrow> heap_from 0 (descriptors S')"
  by (induction ops S rule: sel_sets.induct) (auto simp: bind_out_eq_Ret dest: sel_set_heap)

lemma heap_from_Nil: "heap_from k []"
  by (simp add: heap_from_def)

text \<open>
  C5. A selector keeps exactly the interest last set: after any sequence of \<open>Set\<close> calls on
  descriptors from 0 to 1023 the vector holds, without repetition, the descriptors whose last
  mask is not zero, it is a heap (no element is greater than its parent, the one at half its
  place), so that its front is the maximum, the three sets are the descriptors whose last
  mask has that event, and every one of these is below the \<open>nfds\<close> passed to \<open>select\<close>. With
  any other descriptor among the calls the sequence runs into undefined behaviour.
\<close>

theorem selector_keeps_interest:
  "if list_all (fd_ok \<circ> fst) ops
   then \<exists>S. sel_sets ops sel_new = Ret () S \<and> tracks S (interest ops) \<and> heap_from 0 (descriptors S)
     \<and> (\<forall>fd. interest ops fd = 0 \<or> 0 \<le> fd \<and> fd < call_nfds (sel_call S (- 1)))
   else sel_sets ops sel_new = Fault OutOfBounds"
proof (cases "list_all (fd_ok \<circ> fst) ops")
  case True
  then obtain S where S: "sel_sets ops sel_new = Ret () S"
    "tracks S (\<lambda>fd. case map_of (rev ops) fd of Some ev \<Rightarrow> ev | None \<Rightarrow> 0)"
    using sel_sets_tracks [OF tracks_new] by blast
  then have "tracks S (interest ops)" by (simp add: interest_def [abs_def])
  moreover have "heap_from 0 (descriptors S)"
    using sel_sets_heap [OF _ S(1)] by (simp add: sel_new_def heap_from_Nil)
  ultimately show ?thesis using S(1) True tracks_nfds by (auto simp: sel_call_def)
next
  case False
  then show ?thesis using sel_sets_bad [OF tracks_new] by simp
qed

subsection \<open>What a wait reports\<close>

definition event_count :: "int \<Rightarrow> nat" where
  "event_count ev = of_bool (has_event ev SOCKET_EVENT_READ) + of_bool (has_event ev SOCKET_EVENT_WRITE)
     + of_bool (has_event ev SOCKET_EVENT_EXCEPT)"

lemma active_has_event [simp]:
  "has_event (active_events R W E fd) SOCKET_EVENT_READ \<longleftrightarrow> fd \<in> R"
  "has_event (active_events R W E fd) SOCKET_EVENT_WRITE \<longleftrightarrow> fd \<in> W"
  "has_event (active_events R W E fd) SOCKET_EVENT_EXCEPT \<longleftrightarrow> fd \<in> E"
  by (auto simp: active_events_def has_event_def)

lemma active_zero [simp]: "active_events R W E fd = 0 \<longleftrightarrow> fd \<notin> R \<union> W \<union> E"
  by (auto simp: active_events_def)

lemma sel_collect_fst: "map fst (sel_collect ds R W E) = filter (\<lambda>fd. fd \<in> R \<union> W \<union> E) ds"
  by (induction ds) (auto simp: sel_collect_def)

lemma sel_collect_set:
  "set (sel_collect ds R W E) = (\<lambda>fd. (fd, active_events R W E fd)) ` (set ds \<inter> (R \<union> W \<union> E))"
  by (auto simp: sel_collect_def)

lemma card_as_sum: "distinct ds \<Longrightarrow> A \<subseteq> set ds \<Longrightarrow> card A = (\<Sum>fd\<leftarrow>ds. of_bool (fd \<in> A))"
proof (induction ds arbitrary: A)
  case (Cons d ds)
  have "card A = of_bool (d \<in> A) + card (A - {d})"
    using card.remove [of A d] finite_subset [OF Cons.prems(2)] by auto
  moreover have "card (A - {d}) = (\<Sum>fd\<leftarrow>ds. of_bool (fd \<in> A - {d}))"
    using Cons.IH [of "A - {d}"] Cons.prems by auto
  moreover have "(\<Sum>fd\<leftarrow>ds. of_bool (fd \<in> A - {d})) = (\<Sum>fd\<leftarrow>ds. of_bool (fd \<in> A) :: nat)"
    using Cons.prems(1) by (intro arg_cong [where f = sum_list] map_cong) auto
  ultimately show ?case by simp
qed simp

lemma sel_collect_count:
  assumes "distinct ds" and "R \<subseteq> set ds" and "W \<subseteq> set ds" and "E \<subseteq> set ds"
  shows "card R + card W + card E = (\<Sum>(fd, ev)\<leftarrow>sel_collect ds R W E. event_count ev)"
proof -
  have "(\<Sum>(fd, ev)\<leftarrow>sel_collect ds R W E. event_count ev)
      = (\<Sum>fd\<leftarrow>ds. of_bool (fd \<in> R)) + (\<Sum>fd\<leftarrow>ds. of_bool (fd \<in> W)) + (\<Sum>fd\<leftarrow>ds. of_bool (fd \<in> E))"
    by (induction ds) (auto simp: sel_collect_def event_count_def)
  then show ?thesis using assms by (simp add: card_as_sum [of ds])
qed

lemma sel_select_interrupted:
  assumes "list_all (\<lambda>k. k (sel_call S t) = SelectFailed EINTR) pre"
  shows "sel_select S t (pre @ ks) out e = sel_select S t ks out e"
  using assms by (induction pre) (auto simp: is_interrupted_def)

lemma wait_returns:
  assumes "tracks S m" and "k (sel_call S t) = SelectReturned n R W E" and "0 < n"
    and "list_all (\<lambda>k. k (sel_call S t) = SelectFailed EINTR) pre"
  shows "sel_select S t (pre @ k # ks) out e = Some (Ret (int n) (sel_collect (descriptors S) R W E, e), ks)"
  using assms by (simp add: sel_select_interrupted [OF assms(4)] tracks_def)

lemma wait_events_wanted:
  assumes "tracks S m" and "select_contract k" and "k (sel_call S t) = SelectReturned n R W E"
    and "(fd, ev) \<in> set (sel_collect (descriptors S) R W E)"
    and "x \<in> {SOCKET_EVENT_READ, SOCKET_EVENT_WRITE, SOCKET_EVENT_EXCEPT}" and "has_event ev x"
  shows "has_event (m fd) x"
proof -
  have "R \<subseteq> read_set S \<and> W \<subseteq> write_set S \<and> E \<subseteq> except_set S"
    using assms(2,3) by (auto simp: select_contract_def sel_call_def dest!: spec [of _ "sel_call S t"])
  then show ?thesis using assms(1,4-6) by (auto simp: tracks_def sel_collect_set)
qed

text \<open>
  C26. A wait that the kernel answers, after any number of interruptions by signals, with a
  positive count returns that count and replaces the result vector by exactly the descriptors
  with a ready event, each once and with its ready events, all of which were asked for. The
  count is that of the ready events, not that of the active sockets the comment promises: it is
  their sum over the vector and so exceeds its length as soon as a socket has two.
\<close>

theorem wait_reports_ready:
  assumes "tracks S m" and "select_contract k" and "k (sel_call S t) = SelectReturned n R W E" and "0 < n"
    and "list_all (\<lambda>k. k (sel_call S t) = SelectFailed EINTR) pre"
  shows "\<exists>out'. sel_select S t (pre @ k # ks) out e = Some (Ret (int n) (out', e), ks)
    \<and> distinct (map fst out') \<and> set out' = (\<lambda>fd. (fd, active_events R W E fd)) ` (R \<union> W \<union> E)
    \<and> (\<forall>(fd, ev) \<in> set out'. \<forall>x \<in> {SOCKET_EVENT_READ, SOCKET_EVENT_WRITE, SOCKET_EVENT_EXCEPT}.
          has_event ev x \<longrightarrow> has_event (m fd) x)
    \<and> n = (\<Sum>(fd, ev)\<leftarrow>out'. event_count ev) \<and> 1 \<le> length out' \<and> length out' \<le> n"
proof -
  let ?ds = "descriptors S" and ?out = "sel_collect (descriptors S) R W E"
  note t = assms(1) [unfolded tracks_def]
  have k: "R \<subseteq> read_set S \<and> W \<subseteq> write_set S \<and> E \<subseteq> except_set S \<and> n = card R + card W + card E"
    using assms(2,3) by (auto simp: select_contract_def sel_call_def dest!: spec [of _ "sel_call S t"])
  have sub: "R \<subseteq> set ?ds" "W \<subseteq> set ?ds" "E \<subseteq> set ?ds"
    using k t by fastforce+
  have "sel_select S t (pre @ k # ks) out e = Some (Ret (int n) (?out, e), ks)"
    using assms(1,3-5) by (rule wait_returns)
  moreover have "distinct (map fst ?out)" using t by (simp add: sel_collect_fst)
  moreover have im: "set ?out = (\<lambda>fd. (fd, active_events R W E fd)) ` (R \<union> W \<union> E)"
    using sub by (auto simp: sel_collect_set)
  moreover have "\<forall>(fd, ev) \<in> set ?out. \<forall>x \<in> {SOCKET_EVENT_READ, SOCKET_EVENT_WRITE, SOCKET_EVENT_EXCEPT}.
          has_event ev x \<longrightarrow> has_event (m fd) x"
    using wait_events_wanted [of S m k t n R W E] assms(1-3) by blast
  moreover have n: "n = (\<Sum>(fd, ev)\<leftarrow>?out. event_count ev)"
    using k sel_collect_count [of ?ds R W E] sub t by simp
  moreover have "length ?out \<le> (\<Sum>(fd, ev)\<leftarrow>?out. event_count ev)"
  proof -
    have "1 \<le> event_count ev" if "(fd, ev) \<in> set ?out" for fd ev
      using that unfolding im by (auto simp: event_count_def)
    then have "(\<Sum>p\<leftarrow>?out. 1) \<le> (\<Sum>p\<leftarrow>?out. case p of (fd, ev) \<Rightarrow> event_count ev)"
      by (intro sum_list_mono) auto
    then show ?thesis by (simp add: sum_list_triv)
  qed
  moreover have "?out \<noteq> []" using n assms(4) by auto
  ultimately show ?thesis by (auto simp: Suc_le_eq)
qed

definition demo_kernel :: kernel_answer where
  "demo_kernel c = (if 3 \<in> watched_read c \<and> 3 \<in> watched_write c \<and> 3 < call_nfds c
     then SelectReturned 2 {3} {3} {} else SelectFailed EINTR)"

definition demo_selector :: selector where
  "demo_selector = \<lparr>descriptors = [3], read_set = {3}, write_set = {3}, except_set = {}\<rparr>"

theorem wait_reports_ready_witness:
  "sel_set 3 3 sel_new = Ret True demo_selector \<and> select_contract demo_kernel
   \<and> (\<exists>out'. sel_select demo_selector (- 1) [\<lambda>_. SelectFailed EINTR, demo_kernel] [] None = Some (Ret 2 (out', None), [])
        \<and> set out' = {(3, 3)})"
proof -
  have s: "sel_set 3 3 sel_new = Ret True demo_selector"
    by (simp add: sel_set_def sel_new_def demo_selector_def sel_put_def fd_put_def fd_ok_def has_event_def
        make_heap_def)
  have t: "tracks demo_selector ((\<lambda>_. 0)(3 := 3))"
    using sel_set_tracks [OF tracks_new, of 3 3] s by (auto simp: fd_ok_def)
  have c: "select_contract demo_kernel"
    by (auto simp: select_contract_def demo_kernel_def)
  have a: "demo_kernel (sel_call demo_selector (- 1)) = SelectReturned 2 {3} {3} {}"
    by (simp add: demo_kernel_def sel_call_def demo_selector_def sel_nfds_def)
  have e: "active_events {3} {3} {} 3 = 3" by (simp add: active_events_def)
  show ?thesis
    using wait_reports_ready [OF t c a, of "[\<lambda>_. SelectFailed EINTR]" "[]" "[]" None] s c e
    by (auto simp del: sel_select.simps)
qed

end
