(* ===== verification/Address.thy ===== *)
theory Address
  imports Prelude "HOL-Library.List_Lexorder" "HOL-Library.Char_ord"
begin

text \<open>
  \<open>SocketAddress\<close>: a \<open>sockaddr_storage\<close> as the 128 bytes it is. The family, the port, the host
  and the remaining members of \<open>sockaddr_in\<close> and \<open>sockaddr_in6\<close> are read and written at their
  offsets, in host order the family, in network order port and host. The text forms of hosts
  are made by \<open>inet_pton\<close>, \<open>inet_ntop\<close> and \<open>getnameinfo\<close> of the C library, which are
  parameters.
\<close>

type_synonym address = "char list"

abbreviation (input) "AF_UNSPEC \<equiv> 0 :: 16 word"
abbreviation (input) "AF_INET \<equiv> 2 :: 16 word"
abbreviation (input) "AF_INET6 \<equiv> 10 :: 16 word"

abbreviation (input) "storage_size \<equiv> 128 :: nat"

record inet =
  pton :: "16 word \<Rightarrow> char list \<Rightarrow> char list option"
  ntop :: "16 word \<Rightarrow> char list \<Rightarrow> char list option"
  nameinfo :: "address \<Rightarrow> nat \<Rightarrow> char list option"

text \<open>The members.\<close>

definition ss_family :: "address \<Rightarrow> 16 word" where
  "ss_family a = load16 (slice 0 2 a)"

definition sin_port :: "address \<Rightarrow> 16 word" where
  "sin_port a = load16 (slice 2 2 a)"

definition sin_addr :: "address \<Rightarrow> 32 word" where
  "sin_addr a = load32 (slice 4 4 a)"

definition sin6_flowinfo :: "address \<Rightarrow> 32 word" where
  "sin6_flowinfo a = load32 (slice 4 4 a)"

definition sin6_addr :: "address \<Rightarrow> char list" where
  "sin6_addr a = slice 8 16 a"

definition sin6_scope_id :: "address \<Rightarrow> 32 word" where
  "sin6_scope_id a = load32 (slice 24 4 a)"

subsection \<open>Construction\<close>

definition addr_reset :: "16 word \<Rightarrow> address" where
  "addr_reset family = patch 0 (mem16 family) (replicate storage_size (CHR 0x00))"

definition addr_new :: address where
  "addr_new = addr_reset AF_UNSPEC"

text \<open>The assignments and the pointer forms; \<open>None\<close> is the null pointer. A \<open>memcpy\<close> reads its full
  length, which for a \<open>sockaddr\<close> of 16 octets is that of the whole storage.\<close>

definition addr_copy :: "address option \<Rightarrow> address" where
  "addr_copy sa = (case sa of None \<Rightarrow> replicate storage_size (CHR 0x00) | Some a \<Rightarrow> a)"

definition assign_sockaddr :: "char list \<Rightarrow> (address, unit) outcome" where
  "assign_sockaddr mem = (if length mem < storage_size then Fault OutOfBounds else Ret (take storage_size mem) ())"

definition addr_from_sockaddr :: "char list option \<Rightarrow> (address, unit) outcome" where
  "addr_from_sockaddr sa = (case sa of None \<Rightarrow> Ret (replicate storage_size (CHR 0x00)) () | Some mem \<Rightarrow> assign_sockaddr mem)"

definition assign_sockaddr_in :: "char list \<Rightarrow> address" where
  "assign_sockaddr_in mem = patch 0 (take 16 mem) (replicate storage_size (CHR 0x00))"

definition addr_from_sockaddr_in :: "char list option \<Rightarrow> address" where
  "addr_from_sockaddr_in sa = (case sa of None \<Rightarrow> replicate storage_size (CHR 0x00) | Some mem \<Rightarrow> assign_sockaddr_in mem)"

definition assign_sockaddr_in6 :: "char list \<Rightarrow> address" where
  "assign_sockaddr_in6 mem = patch 0 (take 28 mem) (replicate storage_size (CHR 0x00))"

definition addr_from_sockaddr_in6 :: "char list option \<Rightarrow> address" where
  "addr_from_sockaddr_in6 sa = (case sa of None \<Rightarrow> replicate storage_size (CHR 0x00) | Some mem \<Rightarrow> assign_sockaddr_in6 mem)"

definition addr_from_storage :: "address option \<Rightarrow> address" where
  "addr_from_storage sa = (case sa of None \<Rightarrow> replicate storage_size (CHR 0x00) | Some a \<Rightarrow> a)"

definition addr_empty :: "address \<Rightarrow> bool" where
  "addr_empty a = (ss_family a = AF_UNSPEC)"

definition addr_length :: "address \<Rightarrow> (nat, unit) outcome" where
  "addr_length a = (if ss_family a = AF_INET then Ret 16 ()
     else if ss_family a = AF_INET6 then Ret 28 ()
     else if ss_family a \<noteq> AF_UNSPEC then Fault AssertFailed
     else Ret storage_size ())"

definition addr_set_port :: "16 word \<Rightarrow> address \<Rightarrow> (bool, address) outcome" where
  "addr_set_port p a = (if ss_family a = AF_INET \<or> ss_family a = AF_INET6
     then Ret True (patch 2 (mem16 (htons p)) a) else Fault AssertFailed)"

definition addr_port :: "address \<Rightarrow> (16 word, unit) outcome" where
  "addr_port a = (if ss_family a = AF_INET \<or> ss_family a = AF_INET6
     then Ret (ntohs (sin_port a)) () else Fault AssertFailed)"

abbreviation (input) "INADDR_ANY \<equiv> 0 :: 32 word"
abbreviation (input) "INADDR_LOOPBACK \<equiv> 0x7F000001 :: 32 word"
abbreviation (input) "INADDR_NONE \<equiv> 0xFFFFFFFF :: 32 word"

definition in6addr_any :: "char list" where
  "in6addr_any = replicate 16 (CHR 0x00)"

definition in6addr_loopback :: "char list" where
  "in6addr_loopback = replicate 15 (CHR 0x00) @ [CHR 0x01]"

definition addr_set_host :: "inet \<Rightarrow> char list \<Rightarrow> address \<Rightarrow> (bool, address) outcome" where
  "addr_set_host I host a =
     (if ss_family a = AF_INET then
        (if host \<in> {[], ''loopback'', ''localhost''} then Ret True (patch 4 (mem32 (htonl INADDR_LOOPBACK)) a)
         else if host \<in> {''any'', ''wildcard''} then Ret True (patch 4 (mem32 (htonl INADDR_ANY)) a)
         else if host \<in> {''none'', ''broadcast''} then Ret True (patch 4 (mem32 (htonl INADDR_NONE)) a)
         else case pton I AF_INET host of None \<Rightarrow> Fault AssertFailed | Some bs \<Rightarrow> Ret True (patch 4 bs a))
      else if ss_family a = AF_INET6 then
        (if host \<in> {[], ''loopback'', ''localhost''} then Ret True (patch 8 in6addr_loopback a)
         else if host \<in> {''any'', ''wildcard''} then Ret True (patch 8 in6addr_any a)
         else if host \<in> {''none'', ''broadcast''} then Fault AssertFailed
         else case pton I AF_INET6 host of None \<Rightarrow> Fault AssertFailed | Some bs \<Rightarrow> Ret True (patch 8 bs a))
      else Fault AssertFailed)"

definition addr_host :: "inet \<Rightarrow> address \<Rightarrow> (char list, unit) outcome" where
  "addr_host I a =
     (if ss_family a = AF_INET then
        (case ntop I AF_INET (slice 4 4 a) of None \<Rightarrow> Fault AssertFailed | Some s \<Rightarrow> Ret s ())
      else if ss_family a = AF_INET6 then
        (case ntop I AF_INET6 (sin6_addr a) of None \<Rightarrow> Fault AssertFailed | Some s \<Rightarrow> Ret s ())
      else Fault AssertFailed)"

definition addr_new_port :: "16 word \<Rightarrow> 16 word \<Rightarrow> (unit, address) outcome" where
  "addr_new_port port family =
     (if port \<noteq> 0 then map_ret (\<lambda>_. ()) (addr_set_port port (addr_reset family)) else Ret () (addr_reset family))"

text \<open>The condition \<open>host != "any" || host != "wildcard"\<close> holds of every string.\<close>

definition addr_new_host :: "inet \<Rightarrow> char list \<Rightarrow> 16 word \<Rightarrow> 16 word \<Rightarrow> (unit, address) outcome" where
  "addr_new_host I host port family =
     bind_out (if host \<noteq> ''any'' \<or> host \<noteq> ''wildcard''
               then map_ret (\<lambda>_. ()) (addr_set_host I host (addr_reset family))
               else Ret () (addr_reset family)) (\<lambda>_ a.
     if port \<noteq> 0 then map_ret (\<lambda>_. ()) (addr_set_port port a) else Ret () a)"

text \<open>The eight tests for special addresses are an assertion each.\<close>

definition addr_special :: "address \<Rightarrow> (bool, unit) outcome" where
  "addr_special a = Fault AssertFailed"

definition addr_string :: "inet \<Rightarrow> address \<Rightarrow> (char list, unit) outcome" where
  "addr_string I a = bind_out (addr_length a) (\<lambda>n _. case nameinfo I a n of
       None \<Rightarrow> Fault AssertFailed
     | Some name \<Rightarrow> bind_out (addr_port a) (\<lambda>p _. Ret (name @ '':'' @ dec_of_nat (unat p)) ()))"

subsection \<open>Comparison\<close>

text \<open>\<open>memcmp\<close> compares as unsigned bytes, which is the order of characters.\<close>

definition memcmp :: "char list \<Rightarrow> char list \<Rightarrow> int" where
  "memcmp xs ys = (if xs < ys then - 1 else if xs = ys then 0 else 1)"

definition addr_eq :: "address \<Rightarrow> address \<Rightarrow> bool" where
  "addr_eq a b =
     (if ss_family a = ss_family b then
        (if ss_family b = AF_INET then sin_port a = sin_port b \<and> sin_addr a = sin_addr b
         else if ss_family b = AF_INET6 then sin_port a = sin_port b \<and> sin6_flowinfo a = sin6_flowinfo b
           \<and> memcmp (sin6_addr a) (sin6_addr b) = 0 \<and> sin6_scope_id a = sin6_scope_id b
         else memcmp a b = 0)
      else False)"

definition addr_less :: "address \<Rightarrow> address \<Rightarrow> bool" where
  "addr_less a b =
     (if ss_family a < ss_family b then True
      else if ss_family a = ss_family b then
        (if ss_family b = AF_INET then
           (if sin_port a < sin_port b then True
            else if sin_port a = sin_port b then sin_addr a < sin_addr b else False)
         else if ss_family b = AF_INET6 then
           (if sin_port a < sin_port b then True
            else if sin_port a = sin_port b then
              (if sin6_flowinfo a < sin6_flowinfo b then True
               else if sin6_flowinfo a = sin6_flowinfo b then
                 (if memcmp (sin6_addr a) (sin6_addr b) < 0 then True
                  else if memcmp (sin6_addr a) (sin6_addr b) = 0 then sin6_scope_id a < sin6_scope_id b
                  else False)
               else False)
            else False)
         else memcmp a b < 0)
      else False)"

definition addr_ne :: "address \<Rightarrow> address \<Rightarrow> bool" where
  "addr_ne a b = (\<not> addr_eq a b)"

definition addr_greater :: "address \<Rightarrow> address \<Rightarrow> bool" where
  "addr_greater a b = addr_less b a"

definition addr_le :: "address \<Rightarrow> address \<Rightarrow> bool" where
  "addr_le a b = (\<not> addr_less b a)"

definition addr_ge :: "address \<Rightarrow> address \<Rightarrow> bool" where
  "addr_ge a b = (\<not> addr_less a b)"

text \<open>
  The key by which addresses are compared: keys are ordered by their components, the first one
  that differs decides.
\<close>

datatype sort_key = SortKey "16 word" "16 word" "32 word" "char list" "32 word"

instantiation sort_key :: linorder
begin

fun less_sort_key :: "sort_key \<Rightarrow> sort_key \<Rightarrow> bool" where
  "less_sort_key (SortKey f p l c s) (SortKey f' p' l' c' s') =
     (f < f' \<or> f = f' \<and> (p < p' \<or> p = p' \<and> (l < l' \<or> l = l' \<and> (c < c' \<or> c = c' \<and> s < s'))))"

definition less_eq_sort_key :: "sort_key \<Rightarrow> sort_key \<Rightarrow> bool" where
  "less_eq_sort_key x y = (x < y \<or> x = y)"

instance
proof
  fix x y z :: sort_key
  show "x < y \<longleftrightarrow> x \<le> y \<and> \<not> y \<le> x"
    by (cases x; cases y) (auto simp: less_eq_sort_key_def)
  show "x \<le> x" by (simp add: less_eq_sort_key_def)
  show "x \<le> y \<Longrightarrow> y \<le> z \<Longrightarrow> x \<le> z"
    by (cases x; cases y; cases z) (auto simp: less_eq_sort_key_def)
  show "x \<le> y \<Longrightarrow> y \<le> x \<Longrightarrow> x = y"
    by (cases x; cases y) (auto simp: less_eq_sort_key_def)
  show "x \<le> y \<or> y \<le> x"
    by (cases x; cases y) (auto simp: less_eq_sort_key_def)
qed

end

definition addr_key :: "address \<Rightarrow> sort_key" where
  "addr_key a =
     (if ss_family a = AF_INET then SortKey (ss_family a) (sin_port a) (sin_addr a) [] 0
      else if ss_family a = AF_INET6
      then SortKey (ss_family a) (sin_port a) (sin6_flowinfo a) (sin6_addr a) (sin6_scope_id a)
      else SortKey (ss_family a) 0 0 a 0)"

lemma addr_eq_key: "addr_eq a b \<longleftrightarrow> addr_key a = addr_key b"
  by (auto simp: addr_eq_def addr_key_def memcmp_def split: if_splits)

lemma addr_less_key: "addr_less a b \<longleftrightarrow> addr_key a < addr_key b"
  by (auto simp: addr_less_def addr_key_def memcmp_def split: if_splits)

text \<open>
  What containers of addresses need of the two comparisons; the other four operators are defined
  from them.
\<close>

locale comparison =
  fixes eq less :: "'a \<Rightarrow> 'a \<Rightarrow> bool"
  assumes less_trans: "less a b \<Longrightarrow> less b c \<Longrightarrow> less a c"
    and exactly_one: "less a b \<and> \<not> eq a b \<and> \<not> less b a \<or> \<not> less a b \<and> eq a b \<and> \<not> less b a
      \<or> \<not> less a b \<and> \<not> eq a b \<and> less b a"
    and eq_less: "eq a b \<Longrightarrow> less b c \<Longrightarrow> less a c"
begin

lemma irrefl: "\<not> less a a"
  using exactly_one [of a a] by blast

lemma eq_refl: "eq a a"
  using exactly_one [of a a] by blast

lemma eq_sym: "eq a b \<Longrightarrow> eq b a"
  using exactly_one [of a b] exactly_one [of b a] by blast

lemma eq_trans: "eq a b \<Longrightarrow> eq b c \<Longrightarrow> eq a c"
  using exactly_one [of a c] exactly_one [of b c] eq_less eq_sym irrefl by blast

lemma not_less_trans: "\<not> less b a \<Longrightarrow> \<not> less c b \<Longrightarrow> \<not> less c a"
  using exactly_one [of b c] less_trans eq_less exactly_one [of a b] eq_sym by blast

end

interpretation addresses: comparison addr_eq addr_less
proof unfold_locales
  fix a b c
  show "addr_less a b \<Longrightarrow> addr_less b c \<Longrightarrow> addr_less a c"
    unfolding addr_less_key by (rule less_trans)
  show "addr_less a b \<and> \<not> addr_eq a b \<and> \<not> addr_less b a \<or> \<not> addr_less a b \<and> addr_eq a b \<and> \<not> addr_less b a
      \<or> \<not> addr_less a b \<and> \<not> addr_eq a b \<and> addr_less b a"
    by (simp only: addr_less_key addr_eq_key) (metis less_asym less_linear order_less_irrefl)
  show "addr_eq a b \<Longrightarrow> addr_less b c \<Longrightarrow> addr_less a c"
    by (simp only: addr_less_key addr_eq_key)
qed

text \<open>
  C25. The six comparisons of addresses agree: of less, equal and greater exactly one holds of any
  two addresses; not-greater is less or equal, and so on; all but unequal are transitive, equality
  is an equivalence, and equal addresses compare alike. Less, not-greater and equality are those of
  the sort keys, family first, then port, host or flow, IPv6 host and scope.
\<close>

theorem address_comparison_total:
  "(addr_less a b = (addr_key a < addr_key b)) \<and> (addr_eq a b = (addr_key a = addr_key b))
   \<and> (addr_le a b = (addr_key a \<le> addr_key b))
   \<and> ((addr_less a b \<and> addr_ne a b \<and> \<not> addr_greater a b) \<or> (\<not> addr_less a b \<and> addr_eq a b \<and> \<not> addr_greater a b)
      \<or> (\<not> addr_less a b \<and> addr_ne a b \<and> addr_greater a b))
   \<and> (addr_le a b = (addr_less a b \<or> addr_eq a b)) \<and> (addr_ge a b = (addr_greater a b \<or> addr_eq a b))
   \<and> (addr_less a b \<longrightarrow> addr_less b c \<longrightarrow> addr_less a c)
   \<and> (addr_le a b \<longrightarrow> addr_le b c \<longrightarrow> addr_le a c)
   \<and> (addr_eq a b \<longrightarrow> addr_eq b c \<longrightarrow> addr_eq a c)
   \<and> (addr_eq a b \<longrightarrow> addr_less b c \<longrightarrow> addr_less a c)"
proof -
  note ops = addr_ne_def addr_greater_def addr_le_def addr_ge_def
  have "addr_le a b = (addr_key a \<le> addr_key b)" unfolding ops addr_less_key by (rule not_less)
  moreover have "(addr_le a b = (addr_less a b \<or> addr_eq a b)) \<and> (addr_ge a b = (addr_greater a b \<or> addr_eq a b))"
    using addresses.exactly_one [of a b] unfolding ops by blast
  ultimately show ?thesis
    using addresses.exactly_one [of a b] addresses.less_trans [of a b c] addresses.not_less_trans [of b a c]
      addresses.eq_trans [of a b c] addresses.eq_less [of a b c] addr_less_key [of a b] addr_eq_key [of a b]
    unfolding ops by blast
qed

lemma ss_family_reset [simp]: "ss_family (addr_reset f) = f"
proof -
  have "slice 0 2 (addr_reset f) = mem16 f @ []"
    using slice_patch_same [of 0 "mem16 f" "replicate storage_size (CHR 0x00)"] by (simp add: addr_reset_def)
  then show ?thesis unfolding ss_family_def by (simp only: load16_mem16)
qed

theorem address_comparison_total_witness:
  "addr_less (addr_reset AF_UNSPEC) (addr_reset AF_INET) \<and> addr_less (addr_reset AF_INET) (addr_reset AF_INET6)
   \<and> addr_less (addr_reset AF_UNSPEC) (addr_reset AF_INET6) \<and> addr_le (addr_reset AF_UNSPEC) (addr_reset AF_INET)"
proof -
  have "addr_less (addr_reset AF_UNSPEC) (addr_reset AF_INET)" "addr_less (addr_reset AF_INET) (addr_reset AF_INET6)"
    by (simp_all add: addr_less_def)
  then show ?thesis
    using address_comparison_total [of "addr_reset AF_UNSPEC" "addr_reset AF_INET" "addr_reset AF_INET6"] by blast
qed

text \<open>
  The octets of a \<open>sockaddr_in\<close> are kept by the assignment from that structure; the one from a plain
  \<open>sockaddr\<close>, which has the same 16 octets, reads behind it.
\<close>

lemma sockaddr_of_sixteen:
  assumes "length mem = 16"
  shows "slice 0 16 (assign_sockaddr_in mem) = mem" "addr_from_sockaddr (Some mem) = Fault OutOfBounds"
  using slice_patch_same [of 0 mem "replicate storage_size (CHR 0x00)"] assms
  by (simp_all add: assign_sockaddr_in_def addr_from_sockaddr_def assign_sockaddr_def)

subsection \<open>Ports and hosts\<close>

lemma addr_reset_length [simp]: "length (addr_reset f) = storage_size"
  by (simp add: addr_reset_def)

definition inet_family :: "16 word \<Rightarrow> bool" where
  "inet_family f = (f = AF_INET \<or> f = AF_INET6)"

lemma load16_slice_patch:
  "k + 2 \<le> length a \<Longrightarrow> load16 (slice k 2 (patch k (mem16 w) a)) = w"
  using slice_patch_same [of k "mem16 w" a] load16_mem16 [of w "[]"] by simp

lemma ss_family_patch:
  "2 \<le> k \<Longrightarrow> k \<le> length a \<Longrightarrow> ss_family (patch k p a) = ss_family a"
  by (simp add: ss_family_def slice_patch_before)

lemma addr_set_port_ok:
  assumes "inet_family (ss_family a)" and "length a = storage_size"
  shows "addr_set_port p a = Ret True (patch 2 (mem16 (htons p)) a)"
    and "addr_port (patch 2 (mem16 (htons p)) a) = Ret p ()"
proof -
  show "addr_set_port p a = Ret True (patch 2 (mem16 (htons p)) a)"
    using assms by (auto simp: addr_set_port_def inet_family_def)
  have "sin_port (patch 2 (mem16 (htons p)) a) = htons p"
    using assms(2) by (simp add: sin_port_def load16_slice_patch)
  then show "addr_port (patch 2 (mem16 (htons p)) a) = Ret p ()"
    using assms by (auto simp: addr_port_def ss_family_patch inet_family_def)
qed

text \<open>The documented behaviour of the text conversions: printing what was parsed is parsed back.\<close>

definition inet_contract :: "inet \<Rightarrow> bool" where
  "inet_contract I = (\<forall>f s bs. pton I f s = Some bs \<longrightarrow>
     length bs = (if f = AF_INET then 4 else 16) \<and> (\<exists>t. ntop I f bs = Some t \<and> pton I f t = Some bs))"

text \<open>The bytes of a host text, by name or by conversion.\<close>

definition host_bytes :: "inet \<Rightarrow> 16 word \<Rightarrow> char list \<Rightarrow> char list option" where
  "host_bytes I f host =
     (if host \<in> {[], ''loopback'', ''localhost''}
      then Some (if f = AF_INET then mem32 (htonl INADDR_LOOPBACK) else in6addr_loopback)
      else if host \<in> {''any'', ''wildcard''}
      then Some (if f = AF_INET then mem32 (htonl INADDR_ANY) else in6addr_any)
      else if host \<in> {''none'', ''broadcast''}
      then (if f = AF_INET then Some (mem32 (htonl INADDR_NONE)) else None)
      else pton I f host)"

definition host_slice :: "address \<Rightarrow> char list" where
  "host_slice a = (if ss_family a = AF_INET then slice 4 4 a else slice 8 16 a)"

definition host_offset :: "16 word \<Rightarrow> nat" where
  "host_offset f = (if f = AF_INET then 4 else 8)"

lemma addr_set_host_bytes:
  assumes "inet_family (ss_family a)"
  shows "addr_set_host I host a = (case host_bytes I (ss_family a) host of
      None \<Rightarrow> Fault AssertFailed
    | Some bs \<Rightarrow> Ret True (patch (host_offset (ss_family a)) bs a))"
  using assms
  by (auto simp: addr_set_host_def host_bytes_def host_offset_def inet_family_def split: option.splits)

lemma host_bytes_length:
  assumes "inet_contract I" and "inet_family f" and "host_bytes I f host = Some bs"
  shows "length bs = (if f = AF_INET then 4 else 16)"
proof -
  have p: "length bs = (if f = AF_INET then 4 else 16)" if "pton I f host = Some bs"
    using assms(1) that unfolding inet_contract_def by blast
  have six: "length in6addr_any = 16" "length in6addr_loopback = 16"
    by (simp_all add: in6addr_any_def in6addr_loopback_def)
  have n: "length (if f = AF_INET then mem32 w else c) = (if f = AF_INET then 4 else 16)"
    if "length c = 16" for w c
    using that by simp
  note b = assms(3) [unfolded host_bytes_def]
  show ?thesis
  proof (cases "host \<in> {[], ''loopback'', ''localhost''}")
    case True
    then have "(if f = AF_INET then mem32 (htonl INADDR_LOOPBACK) else in6addr_loopback) = bs"
      using b by (simp only: if_True option.inject)
    then show ?thesis using n [OF six(2)] by blast
  next
    case 1: False
    show ?thesis
    proof (cases "host \<in> {''any'', ''wildcard''}")
      case True
      then have "(if f = AF_INET then mem32 (htonl INADDR_ANY) else in6addr_any) = bs"
        using b 1 by (simp only: if_True if_False option.inject)
      then show ?thesis using n [OF six(1)] by blast
    next
      case 2: False
      show ?thesis
      proof (cases "host \<in> {''none'', ''broadcast''}")
        case True
        then have q: "(if f = AF_INET then Some (mem32 (htonl INADDR_NONE)) else None) = Some bs"
          using b 1 2 by (simp only: if_True if_False)
        then have "f = AF_INET" by (cases "f = AF_INET") simp_all
        then show ?thesis using q length_mem(2) [of "htonl INADDR_NONE"] by auto
      next
        case False
        then show ?thesis using b 1 2 p by (simp only: if_False)
      qed
    qed
  qed
qed

lemma addr_port_zero: "inet_family f \<Longrightarrow> sin_port (addr_reset f) = 0"
proof -
  have "mem16 0 = replicate 2 (CHR 0x00)" by (simp add: mem16_def char_of_u8_def numeral_2_eq_2 char_of_def)
  then have "slice 2 2 (addr_reset f) = mem16 0 @ []"
    by (simp add: addr_reset_def slice_def patch_def)
  then show ?thesis unfolding sin_port_def by (simp only: load16_mem16)
qed

text \<open>The address that \<open>addr_new_host\<close> makes of the octets of a host and a port.\<close>

definition host_image :: "16 word \<Rightarrow> char list \<Rightarrow> 16 word \<Rightarrow> address" where
  "host_image f bs port = (let h = patch (host_offset f) bs (addr_reset f) in
     if port \<noteq> 0 then patch 2 (mem16 (htons port)) h else h)"

lemma host_image_facts:
  assumes "inet_family f" and len: "length bs = (if f = AF_INET then 4 else 16)"
  shows "length (host_image f bs port) = storage_size" "ss_family (host_image f bs port) = f"
    "host_slice (host_image f bs port) = bs" "addr_port (host_image f bs port) = Ret port ()"
    "host_bytes I f host = Some bs \<Longrightarrow> addr_new_host I host port f = Ret () (host_image f bs port)"
proof -
  let ?H = "patch (host_offset f) bs (addr_reset f)" and ?A = "host_image f bs port"
  have off: "host_offset f + length bs \<le> storage_size" "4 \<le> host_offset f"
    using len by (auto simp: host_offset_def)
  have lH: "length ?H = storage_size" using off(1) by simp
  have fH: "ss_family ?H = f" using off by (subst ss_family_patch) auto
  show lA: "length ?A = storage_size" using lH by (simp add: host_image_def Let_def)
  show fA: "ss_family ?A = f" using fH lH by (simp add: host_image_def Let_def ss_family_patch)
  have "slice (host_offset f) (length bs) (patch 2 p ?H) = slice (host_offset f) (length bs) ?H"
    if "length p = 2" for p
    using off lH that by (intro nth_equalityI) (auto simp: nth_slice nth_patch)
  then have "slice (host_offset f) (length bs) ?A = bs"
    using slice_patch_same [of "host_offset f" bs "addr_reset f"] off by (simp add: host_image_def Let_def)
  then show "host_slice ?A = bs"
    using len fA assms(1) by (auto simp: host_slice_def host_offset_def inet_family_def)
  show "addr_port ?A = Ret port ()"
  proof (cases "port = 0")
    case True
    have "sin_port ?A = 0"
      using True off addr_port_zero [OF assms(1)] by (simp add: host_image_def Let_def sin_port_def slice_patch_before)
    then show ?thesis using True fA assms(1) by (simp add: addr_port_def inet_family_def htons_def)
  next
    case False
    then show ?thesis using addr_set_port_ok(2) [of ?H port] lH fH assms(1) by (simp add: host_image_def Let_def)
  qed
  show "addr_new_host I host port f = Ret () ?A" if "host_bytes I f host = Some bs"
    using that assms(1) addr_set_port_ok(1) [of ?H port] lH fH
    by (simp add: addr_new_host_def addr_set_host_bytes host_image_def Let_def)
qed

text \<open>
  C31. An address made from a host text and a port, for IPv4 or IPv6: where the text is one of the
  special names or the C library converts it, the constructor returns 128 bytes of that family
  whose host member holds the address named, whose port is read back (0 included), whose length
  is that of the family's structure and whose host prints as the library prints those bytes;
  every other text, and \<open>none\<close> and \<open>broadcast\<close> for IPv6, fails an assertion.
\<close>

theorem address_of_host_and_port:
  assumes "inet_contract I" and "inet_family f"
  shows "case host_bytes I f host of
      None \<Rightarrow> addr_new_host I host port f = Fault AssertFailed
    | Some bs \<Rightarrow> (\<exists>A. addr_new_host I host port f = Ret () A \<and> length A = storage_size
        \<and> ss_family A = f \<and> host_slice A = bs \<and> addr_port A = Ret port ()
        \<and> addr_length A = Ret (if f = AF_INET then 16 else 28) ()
        \<and> addr_host I A = (case ntop I f bs of None \<Rightarrow> Fault AssertFailed | Some t \<Rightarrow> Ret t ()))"
proof (cases "host_bytes I f host")
  case None
  then show ?thesis using assms(2) by (auto simp: addr_new_host_def addr_set_host_bytes)
next
  case (Some bs)
  let ?A = "host_image f bs port"
  note A = host_image_facts [OF assms(2) host_bytes_length [OF assms Some], where port = port]
  have h: "addr_host I ?A = (case ntop I f bs of None \<Rightarrow> Fault AssertFailed | Some t \<Rightarrow> Ret t ())"
    using A(2,3) assms(2) by (auto simp: addr_host_def host_slice_def inet_family_def sin6_addr_def)
  have "addr_length ?A = Ret (if f = AF_INET then 16 else 28) ()"
    using A(2) assms(2) by (auto simp: addr_length_def inet_family_def)
  then show ?thesis unfolding Some option.case using A(1-4) A(5) [OF Some] h by blast
qed

text \<open>A C library that knows one address.\<close>

definition demo_inet :: inet where
  "demo_inet = \<lparr>pton = (\<lambda>f s. if f = AF_INET \<and> s = ''10.0.0.1'' then Some [CHR 0x0A, CHR 0x00, CHR 0x00, CHR 0x01] else None),
     ntop = (\<lambda>f bs. if f = AF_INET \<and> bs = [CHR 0x0A, CHR 0x00, CHR 0x00, CHR 0x01] then Some ''10.0.0.1'' else None),
     nameinfo = (\<lambda>a n. None)\<rparr>"

theorem address_of_host_and_port_witness:
  "inet_contract demo_inet
   \<and> (\<exists>A. addr_new_host demo_inet ''10.0.0.1'' 8080 AF_INET = Ret () A
        \<and> host_slice A = [CHR 0x0A, CHR 0x00, CHR 0x00, CHR 0x01] \<and> addr_port A = Ret 8080 ()
        \<and> addr_host demo_inet A = Ret ''10.0.0.1'' ())"
proof -
  have c: "inet_contract demo_inet" by (simp add: inet_contract_def demo_inet_def)
  have f: "inet_family AF_INET" by (simp add: inet_family_def)
  have "host_bytes demo_inet AF_INET ''10.0.0.1'' = Some [CHR 0x0A, CHR 0x00, CHR 0x00, CHR 0x01]"
    by (simp add: host_bytes_def demo_inet_def)
  then show ?thesis
    using address_of_host_and_port [OF c f, of "''10.0.0.1''" 8080] c by (auto simp: demo_inet_def)
qed

end
