(* ===== verification/Sockets.thy ===== *)
theory Sockets
  imports Selector Address StreamBuf
begin

text \<open>
  \<open>Socket\<close>, the wrapper of the socket functions of the system. The state is the object (its
  descriptor), the error object the caller's pointer designates (none for the null pointer) and
  the system: the replies it will give, one per call, the last \<open>errno\<close>, and the calls made so
  far with their replies. A call for which no reply is left has not returned. Derived classes
  extend the record, as they extend the class.
\<close>

subsection \<open>System calls\<close>

abbreviation (input) "INVALID_SOCKET \<equiv> - 1 :: int"

abbreviation (input) "SOCK_STREAM \<equiv> 1 :: int"
abbreviation (input) "SOCK_DGRAM \<equiv> 2 :: int"
abbreviation (input) "IPPROTO_TCP \<equiv> 6 :: int"
abbreviation (input) "IPPROTO_UDP \<equiv> 17 :: int"
abbreviation (input) "SOL_SOCKET \<equiv> 1 :: int"
abbreviation (input) "SO_REUSEADDR \<equiv> 2 :: int"
abbreviation (input) "SO_TYPE \<equiv> 3 :: int"
abbreviation (input) "SO_REUSEPORT \<equiv> 15 :: int"
abbreviation (input) "SOMAXCONN \<equiv> 4096 :: int"
abbreviation (input) "O_NONBLOCK \<equiv> 2048 :: int"

datatype syscall =
    SysSocket int int int
  | SysClose int
  | SysShutdown int int
  | SysBind int address nat
  | SysGetSockName int
  | SysGetPeerName int
  | SysListen int int
  | SysAccept int
  | SysConnect int address nat
  | SysSend int "char list" int
  | SysRecv int nat int
  | SysSendTo int "char list" int address nat
  | SysRecvFrom int nat int
  | SysGetFlags int
  | SysSetFlags int int
  | SysSetOption int int int int
  | SysGetOption int int int

text \<open>A reply: -1 with \<open>errno\<close>, or a value with the bytes and the address stored.\<close>

datatype reply = Failed int | Done int "char list" address

abbreviation "Ok v \<equiv> Done v [] []"

record net =
  fd :: int
  err :: "error option"
  replies :: "reply list"
  waits :: "kernel_answer list"
  errno :: int
  trace :: "(syscall \<times> reply) list"

type_synonym ('r, 'a) io = "'a net_scheme \<Rightarrow> ('r, 'a net_scheme) outcome"

definition ret :: "'r \<Rightarrow> ('r, 'a) io" where
  "ret r s = Ret r s"

definition bind_io :: "('r, 'a) io \<Rightarrow> ('r \<Rightarrow> ('q, 'a) io) \<Rightarrow> ('q, 'a) io" where
  "bind_io m k s = bind_out (m s) k"

definition lift_pure :: "('r, unit) outcome \<Rightarrow> ('r, 'a) io" where
  "lift_pure m s = bind_out m (\<lambda>r _. Ret r s)"

definition get_fd :: "(int, 'a) io" where
  "get_fd s = Ret (fd s) s"

definition put_fd :: "int \<Rightarrow> (unit, 'a) io" where
  "put_fd d s = Ret () (s\<lparr>fd := d\<rparr>)"

definition gets :: "('a net_scheme \<Rightarrow> 'r) \<Rightarrow> ('r, 'a) io" where
  "gets f s = Ret (f s) s"

definition modify :: "('a net_scheme \<Rightarrow> 'a net_scheme) \<Rightarrow> (unit, 'a) io" where
  "modify f s = Ret () (f s)"

definition fail :: "fault \<Rightarrow> ('r, 'a) io" where
  "fail x s = Fault x"

text \<open>Short-circuit \<open>&&\<close>, and the early return of a value where a step returned false.\<close>

definition and_io :: "(bool, 'a) io \<Rightarrow> (bool, 'a) io \<Rightarrow> (bool, 'a) io" where
  "and_io m k = bind_io m (\<lambda>ok. if ok then k else ret False)"

definition unless :: "(bool, 'a) io \<Rightarrow> 'r \<Rightarrow> ('r, 'a) io \<Rightarrow> ('r, 'a) io" where
  "unless m r k = bind_io m (\<lambda>ok. if ok then k else ret r)"

lemma bind_io_ret [simp]: "bind_io (ret v) k = k v"
  by (rule ext) (simp add: bind_io_def ret_def)

lemma unless_ret [simp]: "unless (ret ok) r k = (if ok then k else ret r)"
  by (simp add: unless_def)

definition log_reply :: "syscall \<Rightarrow> reply \<Rightarrow> 'a net_scheme \<Rightarrow> 'a net_scheme" where
  "log_reply c r s = s\<lparr>replies := tl (replies s), trace := trace s @ [(c, r)],
     errno := (case r of Failed code \<Rightarrow> code | Done _ _ _ \<Rightarrow> errno s)\<rparr>"

text \<open>One call; the result is none for \<open>SOCKET_ERROR\<close>.\<close>

definition sys_call :: "syscall \<Rightarrow> ((int \<times> char list \<times> address) option, 'a) io" where
  "sys_call c s = (case replies s of
       [] \<Rightarrow> Fault BlockedForever
     | r # _ \<Rightarrow> Ret (case r of Failed _ \<Rightarrow> None | Done v data a \<Rightarrow> Some (v, data, a)) (log_reply c r s))"

text \<open>
  \<open>while((ret = call) == SOCKET_ERROR) if(!Interrupted()) ...\<close>: the call is made again as
  long as it is interrupted.
\<close>

fun retry :: "syscall \<Rightarrow> reply list \<Rightarrow> ((int \<times> char list \<times> address) option, 'a) io" where
  "retry c [] s = Fault BlockedForever"
| "retry c (Failed code # rs) s =
     (if is_interrupted code then retry c rs (log_reply c (Failed code) s)
      else Ret None (log_reply c (Failed code) s))"
| "retry c (Done v data a # rs) s = Ret (Some (v, data, a)) (log_reply c (Done v data a) s)"

definition sys_retry :: "syscall \<Rightarrow> ((int \<times> char list \<times> address) option, 'a) io" where
  "sys_retry c s = retry c (replies s) s"

subsection \<open>Reporting errors\<close>

text \<open>The macros \<open>SET_SOCKET_..._ERROR(e, msg)\<close>, on the current \<open>errno\<close>.\<close>

definition report :: "(char list \<Rightarrow> int \<Rightarrow> error option \<Rightarrow> (unit, error option) outcome)
    \<Rightarrow> char list \<Rightarrow> (unit, 'a) io" where
  "report setter msg s = bind_out (setter msg (errno s) (err s)) (\<lambda>_ e. Ret () (s\<lparr>err := e\<rparr>))"

text \<open>\<open>SET_ERROR\<close>, \<open>SET_LOGIC_ERROR\<close> and \<open>SET_RUNTIME_ERROR\<close> with a given code.\<close>

definition report_as :: "error_class \<Rightarrow> char list \<Rightarrow> int \<Rightarrow> (unit, 'a) io" where
  "report_as cls msg code s = bind_out (set_as cls msg code (err s)) (\<lambda>_ e. Ret () (s\<lparr>err := e\<rparr>))"

definition reset_error :: "(unit, 'a) io" where
  "reset_error s = Ret () (s\<lparr>err := map_option err_reset (err s)\<rparr>)"

text \<open>A call without the pointer to an error object (\<open>e = nullptr\<close>).\<close>

definition quiet :: "('r, 'a) io \<Rightarrow> ('r, 'a) io" where
  "quiet m s = bind_out (m (s\<lparr>err := None\<rparr>)) (\<lambda>r s'. Ret r (s'\<lparr>err := err s\<rparr>))"

text \<open>The throwing forms: a local error object, and \<open>THROW_ERROR\<close> on failure.\<close>

definition throwing :: "('r \<Rightarrow> bool) \<Rightarrow> ('r, 'a) io \<Rightarrow> (exception + 'r, 'a) io" where
  "throwing failed m s = bind_out (m (s\<lparr>err := Some err_new\<rparr>)) (\<lambda>r s'.
     Ret (if failed r then (case Option.bind (err s') throw_error of Some x \<Rightarrow> Inl x | None \<Rightarrow> Inr r) else Inr r)
       (s'\<lparr>err := err s\<rparr>))"

definition bracket :: "char list \<Rightarrow> char list" where
  "bracket t = ''['' @ t @ '']''"

definition on_fd :: "char list \<Rightarrow> int \<Rightarrow> char list" where
  "on_fd what d = what @ '' '' @ bracket (dec_of_int d)"

definition on_fd_addr :: "inet \<Rightarrow> char list \<Rightarrow> int \<Rightarrow> address \<Rightarrow> (char list, 'a) io" where
  "on_fd_addr I what d a = bind_io (lift_pure (addr_string I a)) (\<lambda>t. ret (on_fd what d @ bracket t))"

definition flag_text :: "bool \<Rightarrow> char list" where
  "flag_text b = (if b then ''1'' else ''0'')"

text \<open>\<open>if(call == SOCKET_ERROR) { SET_..._ERROR; return false; } return true;\<close>\<close>

definition checked :: "syscall \<Rightarrow> (char list \<Rightarrow> int \<Rightarrow> error option \<Rightarrow> (unit, error option) outcome)
    \<Rightarrow> char list \<Rightarrow> (bool, 'a) io" where
  "checked c setter msg = bind_io (sys_call c) (\<lambda>r. case r of
       None \<Rightarrow> bind_io (report setter msg) (\<lambda>_. ret False)
     | Some _ \<Rightarrow> ret True)"

subsection \<open>Opening and closing\<close>

text \<open>\<open>CloseSocket\<close> invalidates its argument, which is the caller's, before it reports.\<close>

definition close_socket :: "int \<Rightarrow> (bool, 'a) io" where
  "close_socket d = checked (SysClose d) close_set_error (on_fd ''ClsoeSocket'' INVALID_SOCKET)"

definition sock_valid :: "(bool, 'a) io" where
  "sock_valid s = Ret (fd s \<noteq> INVALID_SOCKET) s"

definition sock_close :: "(bool, 'a) io" where
  "sock_close = bind_io get_fd (\<lambda>d.
     if d = INVALID_SOCKET then ret True
     else bind_io (put_fd INVALID_SOCKET) (\<lambda>_. close_socket d))"

definition init_socket :: "int \<Rightarrow> int \<Rightarrow> int \<Rightarrow> (bool, 'a) io" where
  "init_socket domain type protocol = bind_io get_fd (\<lambda>d.
     if d \<noteq> INVALID_SOCKET then fail AssertFailed
     else bind_io (sys_call (SysSocket domain type protocol)) (\<lambda>r. case r of
         None \<Rightarrow> bind_io (report open_set_error ''Socket::InitSocket'') (\<lambda>_. ret False)
       | Some (v, _) \<Rightarrow> bind_io (put_fd v) (\<lambda>_. ret True)))"

definition sock_new :: "int \<Rightarrow> int \<Rightarrow> int \<Rightarrow> (unit, 'a) io" where
  "sock_new domain type protocol = bind_io (put_fd INVALID_SOCKET) (\<lambda>_.
     bind_io (init_socket domain type protocol) (\<lambda>_. ret ()))"

definition sock_new_throw :: "int \<Rightarrow> int \<Rightarrow> int \<Rightarrow> (exception + bool, 'a) io" where
  "sock_new_throw domain type protocol = bind_io (put_fd INVALID_SOCKET) (\<lambda>_.
     throwing Not (init_socket domain type protocol))"

definition sock_new_fd :: "int \<Rightarrow> (unit, 'a) io" where
  "sock_new_fd d = put_fd d"

definition sock_delete :: "(unit, 'a) io" where
  "sock_delete = bind_io get_fd (\<lambda>d.
     if d \<noteq> INVALID_SOCKET then bind_io (quiet sock_close) (\<lambda>_. ret ()) else ret ())"

definition sock_create :: "int \<Rightarrow> int \<Rightarrow> int \<Rightarrow> (bool, 'a) io" where
  "sock_create domain type protocol = bind_io get_fd (\<lambda>d.
     bind_io (if d \<noteq> INVALID_SOCKET then quiet sock_close else ret True) (\<lambda>_.
     init_socket domain type protocol))"

definition sock_create_throw :: "int \<Rightarrow> int \<Rightarrow> int \<Rightarrow> (exception + bool, 'a) io" where
  "sock_create_throw domain type protocol = throwing Not (sock_create domain type protocol)"

definition sock_attach :: "int \<Rightarrow> (bool, 'a) io" where
  "sock_attach v = bind_io get_fd (\<lambda>d.
     bind_io (if d \<noteq> INVALID_SOCKET \<and> d \<noteq> v then quiet sock_close else ret True) (\<lambda>_.
     bind_io (put_fd v) (\<lambda>_. ret (v \<noteq> INVALID_SOCKET))))"

definition sock_detach :: "(int, 'a) io" where
  "sock_detach = bind_io get_fd (\<lambda>d. bind_io (put_fd INVALID_SOCKET) (\<lambda>_. ret d))"

definition sock_shutdown :: "int \<Rightarrow> (bool, 'a) io" where
  "sock_shutdown how = bind_io get_fd (\<lambda>d.
     if d = INVALID_SOCKET then ret True
     else checked (SysShutdown d how) shutdown_set_error (on_fd ''Socket::Shutdown'' d))"

subsection \<open>Addresses, listening, accepting, connecting\<close>

definition sock_bind :: "inet \<Rightarrow> address \<Rightarrow> (bool, 'a) io" where
  "sock_bind I a = bind_io get_fd (\<lambda>d. bind_io (lift_pure (addr_length a)) (\<lambda>n.
     bind_io (sys_call (SysBind d a n)) (\<lambda>r. case r of
         None \<Rightarrow> bind_io (on_fd_addr I ''Socket::Bind'' d a) (\<lambda>msg.
           bind_io (report bind_set_error msg) (\<lambda>_. ret False))
       | Some _ \<Rightarrow> ret True)))"

definition sock_bind_throw :: "inet \<Rightarrow> address \<Rightarrow> (exception + bool, 'a) io" where
  "sock_bind_throw I a = throwing Not (sock_bind I a)"

text \<open>On failure the zeroed storage is returned, an empty address.\<close>

definition named_address :: "syscall \<Rightarrow> char list \<Rightarrow> (address, 'a) io" where
  "named_address c msg = bind_io (sys_call c) (\<lambda>r. case r of
       None \<Rightarrow> bind_io (report name_set_error msg) (\<lambda>_. ret (addr_copy None))
     | Some (_, _, a) \<Rightarrow> ret a)"

definition sock_address :: "(address, 'a) io" where
  "sock_address = bind_io get_fd (\<lambda>d. named_address (SysGetSockName d) (on_fd ''Socket::Address'' d))"

definition sock_connected_address :: "(address, 'a) io" where
  "sock_connected_address = bind_io get_fd (\<lambda>d.
     named_address (SysGetPeerName d) (on_fd ''Socket::ConnectedAddress'' d))"

definition sock_family :: "(16 word, 'a) io" where
  "sock_family = bind_io sock_address (\<lambda>a. ret (ss_family a))"

definition sock_domain :: "(int, 'a) io" where
  "sock_domain = bind_io sock_family (\<lambda>f. ret (uint f))"

definition sock_listen :: "int \<Rightarrow> (bool, 'a) io" where
  "sock_listen backlog = bind_io get_fd (\<lambda>d.
     checked (SysListen d (if backlog < 0 then SOMAXCONN else backlog)) listen_set_error
       (on_fd ''Socket::Listen'' d))"

definition sock_listen_throw :: "int \<Rightarrow> (exception + bool, 'a) io" where
  "sock_listen_throw backlog = throwing Not (sock_listen backlog)"

definition sock_accept :: "(int, 'a) io" where
  "sock_accept = bind_io get_fd (\<lambda>d. bind_io (sys_retry (SysAccept d)) (\<lambda>r. case r of
       None \<Rightarrow> bind_io (report accept_set_error (on_fd ''Socke::Accept'' d)) (\<lambda>_. ret INVALID_SOCKET)
     | Some (v, _) \<Rightarrow> ret v))"

definition sock_accept_throw :: "(exception + int, 'a) io" where
  "sock_accept_throw = throwing (\<lambda>v. v = INVALID_SOCKET) sock_accept"

text \<open>
  With the object the address is to be stored in (\<open>None\<close> for the null pointer): it is reset
  first and holds what the system stored afterwards.
\<close>

definition sock_accept_from :: "address option \<Rightarrow> (int \<times> address option, 'a) io" where
  "sock_accept_from out = (case out of
       None \<Rightarrow> bind_io sock_accept (\<lambda>v. ret (v, None))
     | Some _ \<Rightarrow> bind_io get_fd (\<lambda>d. bind_io (sys_retry (SysAccept d)) (\<lambda>r. case r of
         None \<Rightarrow> bind_io (report accept_set_error (on_fd ''Socket::AcceptFrom'' d))
           (\<lambda>_. ret (INVALID_SOCKET, Some addr_new))
       | Some (v, _, a) \<Rightarrow> ret (v, Some a))))"

definition sock_accept_from_throw :: "address option \<Rightarrow> (exception + int \<times> address option, 'a) io" where
  "sock_accept_from_throw out = throwing (\<lambda>r. fst r = INVALID_SOCKET) (sock_accept_from out)"

definition sock_connect :: "inet \<Rightarrow> address \<Rightarrow> (bool, 'a) io" where
  "sock_connect I a = bind_io get_fd (\<lambda>d. bind_io (lift_pure (addr_length a)) (\<lambda>n.
     bind_io (sys_retry (SysConnect d a n)) (\<lambda>r. case r of
         None \<Rightarrow> bind_io (on_fd_addr I ''Socket::Connect'' d a) (\<lambda>msg.
           bind_io (report connect_set_error msg) (\<lambda>_. ret False))
       | Some _ \<Rightarrow> ret True)))"

definition sock_connect_throw :: "inet \<Rightarrow> address \<Rightarrow> (exception + bool, 'a) io" where
  "sock_connect_throw I a = throwing Not (sock_connect I a)"

subsection \<open>Waiting\<close>

text \<open>
  A selector for the one descriptor; the vector and the descriptor are asserted after success
  (the third assertion, \<open>(events | mask) > 0\<close>, cannot fail).
\<close>

definition wait_select :: "int \<Rightarrow> int \<Rightarrow> (int \<times> (int \<times> int) list, 'a) io" where
  "wait_select events timeout s = bind_out (sel_new_events (fd s) events) (\<lambda>_ S.
     case sel_select S timeout (waits s) [] (err s) of
       None \<Rightarrow> Fault BlockedForever
     | Some (m, ks) \<Rightarrow> bind_out m (\<lambda>r (out, e). Ret (r, out) (s\<lparr>waits := ks, err := e\<rparr>)))"

definition ready_fd :: "(int \<times> int) list \<Rightarrow> 'r \<Rightarrow> ('r, 'a) io" where
  "ready_fd out r s = (case out of [] \<Rightarrow> Fault AssertFailed
     | (d, _) # _ \<Rightarrow> if d = fd s then Ret r s else Fault AssertFailed)"

definition wait_for_read :: "int \<Rightarrow> (bool, 'a) io" where
  "wait_for_read timeout = bind_io (wait_select SOCKET_EVENT_READ timeout) (\<lambda>(r, out).
     if r \<le> 0 then ret False else ready_fd out True)"

definition wait_for_write :: "int \<Rightarrow> (bool, 'a) io" where
  "wait_for_write timeout = bind_io (wait_select SOCKET_EVENT_WRITE timeout) (\<lambda>(r, out).
     if r \<le> 0 then ret False else ready_fd out True)"

definition wait_for_ready :: "int \<Rightarrow> (int, 'a) io" where
  "wait_for_ready timeout =
     bind_io (wait_select (or (or SOCKET_EVENT_READ SOCKET_EVENT_WRITE) SOCKET_EVENT_EXCEPT) timeout) (\<lambda>(r, out).
     if r < 0 then ret (- 1)
     else case out of [] \<Rightarrow> ret 0
       | (d, ev) # _ \<Rightarrow> if 0 < ev then ready_fd out ev else fail AssertFailed)"

subsection \<open>Input and output\<close>

text \<open>
  The block to send is an option, none for a null pointer; a block to receive into is its size
  and whether the pointer is not null, and the bytes the system stores are returned. The value
  is that of the call, -1 for a failure.
\<close>

definition sock_send :: "char list option \<Rightarrow> int \<Rightarrow> (int, 'a) io" where
  "sock_send p flags = (case p of None \<Rightarrow> fail AssertFailed
     | Some data \<Rightarrow> bind_io get_fd (\<lambda>d. bind_io (sys_retry (SysSend d data flags)) (\<lambda>r. case r of
         None \<Rightarrow> bind_io (report send_set_error (on_fd ''Socket::Send'' d)) (\<lambda>_. ret (- 1))
       | Some (v, _) \<Rightarrow> ret v)))"

definition sock_receive :: "bool \<Rightarrow> nat \<Rightarrow> int \<Rightarrow> (int \<times> char list, 'a) io" where
  "sock_receive p n flags = (if \<not> p then fail AssertFailed
     else bind_io get_fd (\<lambda>d. bind_io (sys_retry (SysRecv d n flags)) (\<lambda>r. case r of
         None \<Rightarrow> bind_io (report receive_set_error (on_fd ''Socket::Receive'' d)) (\<lambda>_. ret (- 1, []))
       | Some (v, data, _) \<Rightarrow> ret (v, data))))"

definition sock_send_to :: "char list option \<Rightarrow> address \<Rightarrow> int \<Rightarrow> (int, 'a) io" where
  "sock_send_to p a flags = (case p of None \<Rightarrow> fail AssertFailed
     | Some data \<Rightarrow> bind_io get_fd (\<lambda>d. bind_io (lift_pure (addr_length a)) (\<lambda>n.
       bind_io (sys_retry (SysSendTo d data flags a n)) (\<lambda>r. case r of
         None \<Rightarrow> bind_io (report send_set_error (on_fd ''Socket::SendTo'' d)) (\<lambda>_. ret (- 1))
       | Some (v, _) \<Rightarrow> ret v))))"

definition sock_receive_from :: "bool \<Rightarrow> nat \<Rightarrow> address option \<Rightarrow> int
    \<Rightarrow> (int \<times> char list \<times> address option, 'a) io" where
  "sock_receive_from p n out flags = (case out of
       None \<Rightarrow> bind_io (sock_receive p n flags) (\<lambda>(v, data). ret (v, data, None))
     | Some _ \<Rightarrow> if \<not> p then fail AssertFailed
       else bind_io get_fd (\<lambda>d. bind_io (sys_retry (SysRecvFrom d n flags)) (\<lambda>r. case r of
         None \<Rightarrow> bind_io (report receive_set_error (on_fd ''Socket::ReceiveFrom'' d))
           (\<lambda>_. ret (- 1, [], Some addr_new))
       | Some (v, data, a) \<Rightarrow> ret (v, data, Some a))))"

definition sock_unimplemented :: "(int, 'a) io" where
  "sock_unimplemented = fail AssertFailed"

subsection \<open>Options\<close>

text \<open>The flags returned by the first \<open>fcntl\<close> are not checked.\<close>

definition sock_block :: "bool \<Rightarrow> (bool, 'a) io" where
  "sock_block block = bind_io get_fd (\<lambda>d. bind_io (sys_call (SysGetFlags d)) (\<lambda>r.
     let flags = (case r of None \<Rightarrow> - 1 | Some (v, _) \<Rightarrow> v);
         flags = (if block then and flags (not O_NONBLOCK) else or flags O_NONBLOCK)
     in checked (SysSetFlags d flags) control_set_error (on_fd ''Socket::Block'' d @ bracket (flag_text block))))"

definition sock_block_throw :: "bool \<Rightarrow> (exception + bool, 'a) io" where
  "sock_block_throw block = throwing Not (sock_block block)"

definition sock_reuse :: "int \<Rightarrow> char list \<Rightarrow> bool \<Rightarrow> (bool, 'a) io" where
  "sock_reuse name what reuse = bind_io get_fd (\<lambda>d.
     bind_io (sys_call (SysSetOption d SOL_SOCKET name (if reuse then 1 else 0))) (\<lambda>r.
       if (case r of None \<Rightarrow> False | Some (v, _) \<Rightarrow> v = 0) then ret True
       else bind_io (report option_set_error (on_fd what d @ bracket (flag_text reuse))) (\<lambda>_. ret False)))"

definition sock_reuse_address :: "bool \<Rightarrow> (bool, 'a) io" where
  "sock_reuse_address = sock_reuse SO_REUSEADDR ''Socket::ReuseAddress''"

definition sock_reuse_port :: "bool \<Rightarrow> (bool, 'a) io" where
  "sock_reuse_port = sock_reuse SO_REUSEPORT ''Socket::ReusePort''"

definition sock_reuse_address_throw :: "bool \<Rightarrow> (exception + bool, 'a) io" where
  "sock_reuse_address_throw reuse = throwing Not (sock_reuse_address reuse)"

definition sock_reuse_port_throw :: "bool \<Rightarrow> (exception + bool, 'a) io" where
  "sock_reuse_port_throw reuse = throwing Not (sock_reuse_port reuse)"

text \<open>\<open>SetOption\<close> and \<open>GetOption\<close> print pointers into their message; that text is an argument.\<close>

definition sock_set_option :: "int \<Rightarrow> int \<Rightarrow> int \<Rightarrow> char list \<Rightarrow> (bool, 'a) io" where
  "sock_set_option level name v text = bind_io get_fd (\<lambda>d.
     checked (SysSetOption d level name v) option_set_error (on_fd ''Socket::SetOption'' d @ text))"

definition sock_get_option :: "int \<Rightarrow> int \<Rightarrow> char list \<Rightarrow> (int option, 'a) io" where
  "sock_get_option level name text = bind_io get_fd (\<lambda>d.
     bind_io (sys_call (SysGetOption d level name)) (\<lambda>r. case r of
       None \<Rightarrow> bind_io (report option_set_error (on_fd ''Socket::GetOption'' d @ text)) (\<lambda>_. ret None)
     | Some (v, _) \<Rightarrow> ret (Some v)))"

definition sock_type :: "char list \<Rightarrow> (int, 'a) io" where
  "sock_type text = bind_io (sock_get_option SOL_SOCKET SO_TYPE text) (\<lambda>r. case r of
     None \<Rightarrow> ret (- 1) | Some v \<Rightarrow> ret v)"

end
