(* ===== verification/SocketOwnership.thy ===== *)
theory SocketOwnership
  imports Sockets
begin

text \<open>
  What the operations of \<open>Socket\<close> leave alone. The locale \<open>frame\<close> takes a relation between
  states that single system calls and the error object respect, and carries it through every
  operation; its first instance is the account of descriptors opened, closed and held, the
  ownership property of \<open>Socket\<close>.
\<close>

subsection \<open>What the operations leave alone\<close>

named_theorems frame_rules
  \<open>operations that respect a relation the single calls respect\<close>

definition leaves :: "('s \<Rightarrow> 's \<Rightarrow> bool) \<Rightarrow> ('s \<Rightarrow> ('r, 's) outcome) \<Rightarrow> bool" where
  "leaves R m \<longleftrightarrow> (\<forall>s. keeps (R s) (m s))"

lemma leavesD: "leaves R m \<Longrightarrow> m s = Ret r s' \<Longrightarrow> R s s'"
  by (auto simp: leaves_def dest: spec [of _ s])

lemma leavesI: "(\<And>s r s'. m s = Ret r s' \<Longrightarrow> R s s') \<Longrightarrow> leaves R m"
  by (simp add: leaves_def keeps_def split: outcome.splits)

lemma leaves_cases [frame_rules]:
  "leaves R m \<Longrightarrow> leaves R k \<Longrightarrow> leaves R (if b then m else k)"
  "(\<And>x y. leaves R (f x y)) \<Longrightarrow> leaves R (case p of (x, y) \<Rightarrow> f x y)"
  "leaves R m \<Longrightarrow> (\<And>x. leaves R (g x)) \<Longrightarrow> leaves R (case v of None \<Rightarrow> m | Some x \<Rightarrow> g x)"
  by (simp_all split: prod.split option.split)

lemma bind_ioE:
  assumes "bind_io m k s = Ret r s'"
  obtains q t where "m s = Ret q t" and "k q t = Ret r s'"
  using assms by (auto simp: bind_io_def bind_out_eq_Ret)

lemma report_state: "report setter msg s = Ret u s' \<Longrightarrow> \<exists>e. s' = s\<lparr>err := e\<rparr>"
  by (auto simp: report_def bind_out_eq_Ret)

lemma report_as_state: "report_as cls msg code s = Ret u s' \<Longrightarrow> \<exists>e. s' = s\<lparr>err := e\<rparr>"
  by (auto simp: report_as_def bind_out_eq_Ret)

lemma wait_select_state:
  "wait_select ev t s = Ret r s' \<Longrightarrow> \<exists>w e. s' = s\<lparr>waits := w, err := e\<rparr>"
  unfolding wait_select_def bind_out_eq_Ret by (auto simp: bind_out_eq_Ret split: option.splits) blast

lemma retry_effect:
  "retry c rs s = Ret r s' \<Longrightarrow> \<exists>is q. trace s' = trace s @ map (Pair c) (is @ [q])
     \<and> fd s' = fd s \<and> net.more s' = net.more s \<and> list_all (\<lambda>x. \<exists>code. x = Failed code) is
     \<and> (case r of None \<Rightarrow> \<exists>code. q = Failed code | Some (v, d, a) \<Rightarrow> q = Done v d a)"
proof (induction c rs s rule: retry.induct)
  case (2 c code rs s)
  show ?case
  proof (cases "is_interrupted code")
    case True
    then obtain "is" q where "trace s' = trace s @ (c, Failed code) # map (Pair c) (is @ [q])"
      "fd s' = fd s" "net.more s' = net.more s" "list_all (\<lambda>x. \<exists>code. x = Failed code) is"
      "case r of None \<Rightarrow> \<exists>code. q = Failed code | Some (v, d, a) \<Rightarrow> q = Done v d a"
      using "2.IH" [OF True] "2.prems" by (auto simp: log_reply_def)
    then show ?thesis by (intro exI [of _ "Failed code # is"] exI [of _ q]) simp
  next
    case False
    then show ?thesis
      using "2.prems" by (intro exI [of _ "[]"] exI [of _ "Failed code"]) (auto simp: log_reply_def)
  qed
next
  case (3 c v data a rs s)
  then show ?case
    by (intro exI [of _ "[]"] exI [of _ "Done v data a"]) (auto simp: log_reply_def)
qed simp

lemmas io_splits = option.splits prod.splits list.splits

locale frame =
  fixes R :: "'a net_scheme \<Rightarrow> 'a net_scheme \<Rightarrow> bool" and permitted :: "syscall \<Rightarrow> bool"
  assumes same: "R s s"
    and trans: "R s t \<Longrightarrow> R t u \<Longrightarrow> R s u"
    and logged: "permitted c \<Longrightarrow> R s (log_reply c r s)"
    and err_free: "R s (s\<lparr>err := e\<rparr>)"
    and waits_free: "R s (s\<lparr>waits := w\<rparr>)"
begin

lemma leaves_bind [frame_rules]:
  assumes "leaves R m" and "\<And>r. leaves R (k r)"
  shows "leaves R (bind_io m k)"
proof (rule leavesI)
  fix s r s'
  assume "bind_io m k s = Ret r s'"
  then obtain q t where "m s = Ret q t" "k q t = Ret r s'" by (rule bind_ioE)
  then show "R s s'" using trans leavesD [OF assms(1)] leavesD [OF assms(2)] by blast
qed

lemma leaves_pure [frame_rules]:
  "leaves R (ret r)" "leaves R (fail x)" "leaves R get_fd" "leaves R (gets f)" "leaves R (lift_pure m)"
  "leaves R sock_valid" "leaves R (ready_fd out r)"
  by (auto intro!: leavesI simp: ret_def fail_def get_fd_def gets_def lift_pure_def sock_valid_def ready_fd_def
      same bind_out_eq_Ret split: list.splits if_splits)

lemma leaves_report [frame_rules]: "leaves R (report setter msg)" "leaves R (report_as cls msg code)"
  by (auto intro!: leavesI dest!: report_state report_as_state simp: err_free)

lemma leaves_sys_call [frame_rules]: "permitted c \<Longrightarrow> leaves R (sys_call c)"
  by (rule leavesI) (auto simp: sys_call_def logged split: list.splits)

lemma retry_leaves: "permitted c \<Longrightarrow> retry c rs s = Ret r s' \<Longrightarrow> R s s'"
  by (induction c rs s rule: retry.induct) (auto split: if_splits intro: trans logged)

lemma leaves_retry [frame_rules]: "permitted c \<Longrightarrow> leaves R (sys_retry c)"
  by (rule leavesI) (auto simp: sys_retry_def intro: retry_leaves)

lemma with_err: "leaves R m \<Longrightarrow> m (s\<lparr>err := e\<rparr>) = Ret r t \<Longrightarrow> R s (t\<lparr>err := e'\<rparr>)"
  using trans [OF err_free [of s e] trans [OF leavesD [of R m] err_free [of t e']]] by blast

lemma leaves_quiet [frame_rules]: "leaves R m \<Longrightarrow> leaves R (quiet m)"
  by (rule leavesI) (auto simp: quiet_def bind_out_eq_Ret intro: with_err)

lemma leaves_throwing [frame_rules]: "leaves R m \<Longrightarrow> leaves R (throwing f m)"
  by (rule leavesI) (auto simp: throwing_def bind_out_eq_Ret intro: with_err)

lemma leaves_wait [frame_rules]: "leaves R (wait_select ev t)"
proof (rule leavesI)
  fix s s' :: "'a net_scheme" and r
  assume "wait_select ev t s = Ret r s'"
  then obtain w e where "s' = s\<lparr>waits := w, err := e\<rparr>" using wait_select_state by blast
  then show "R s s'" using trans [OF waits_free [of s w] err_free [of "s\<lparr>waits := w\<rparr>" e]] by simp
qed

lemma leaves_steps [frame_rules]:
  "leaves R m \<Longrightarrow> leaves R k \<Longrightarrow> leaves R (and_io m k)"
  "leaves R m \<Longrightarrow> leaves R l \<Longrightarrow> leaves R (unless m r l)"
  "permitted c \<Longrightarrow> leaves R (checked c setter msg)"
  unfolding and_io_def unless_def checked_def by (auto intro!: frame_rules split: io_splits)

lemma leaves_named [frame_rules]: "permitted c \<Longrightarrow> leaves R (named_address c msg)"
  unfolding named_address_def by (auto intro!: frame_rules split: io_splits)

lemma leaves_operations [frame_rules]:
  "(\<And>d. permitted (SysShutdown d how)) \<Longrightarrow> leaves R (sock_shutdown how)"
  "(\<And>d n. permitted (SysBind d a n)) \<Longrightarrow> leaves R (sock_bind I a)"
  "(\<And>d. permitted (SysGetSockName d)) \<Longrightarrow> leaves R sock_address"
  "(\<And>d. permitted (SysGetPeerName d)) \<Longrightarrow> leaves R sock_connected_address"
  "(\<And>d k. permitted (SysListen d k)) \<Longrightarrow> leaves R (sock_listen n)"
  "(\<And>d. permitted (SysAccept d)) \<Longrightarrow> leaves R sock_accept"
  "(\<And>d n. permitted (SysConnect d a n)) \<Longrightarrow> leaves R (sock_connect I a)"
  "(\<And>d data. permitted (SysSend d data flags)) \<Longrightarrow> leaves R (sock_send p flags)"
  "(\<And>d. permitted (SysRecv d k flags)) \<Longrightarrow> leaves R (sock_receive q k flags)"
  "(\<And>d data n. permitted (SysSendTo d data flags a n)) \<Longrightarrow> leaves R (sock_send_to p a flags)"
  "(\<And>d v. permitted (SysGetFlags d) \<and> permitted (SysSetFlags d v)) \<Longrightarrow> leaves R (sock_block on)"
  "(\<And>d l o' v. permitted (SysSetOption d l o' v)) \<Longrightarrow> leaves R (sock_reuse_address on)"
  "(\<And>d l o' v. permitted (SysSetOption d l o' v)) \<Longrightarrow> leaves R (sock_reuse_port on)"
  "(\<And>d. permitted (SysSetOption d l n v)) \<Longrightarrow> leaves R (sock_set_option l n v text)"
  "(\<And>d n. permitted (SysGetOption d l n)) \<Longrightarrow> leaves R (sock_get_option l n' text)"
  unfolding sock_shutdown_def sock_bind_def on_fd_addr_def sock_address_def sock_connected_address_def
    sock_listen_def sock_accept_def sock_connect_def sock_send_def sock_receive_def sock_send_to_def
    sock_block_def Let_def sock_reuse_address_def sock_reuse_port_def sock_reuse_def
    sock_set_option_def sock_get_option_def
  by (auto intro!: frame_rules split: io_splits)

lemma leaves_out_operations [frame_rules]:
  "(\<And>d. permitted (SysAccept d)) \<Longrightarrow> leaves R (sock_accept_from out)"
  "(\<And>d. permitted (SysRecvFrom d k flags) \<and> permitted (SysRecv d k flags)) \<Longrightarrow> leaves R (sock_receive_from q k out flags)"
  "leaves R (wait_for_read t)" "leaves R (wait_for_write t)" "leaves R (wait_for_ready t)"
  "(\<And>d l n. permitted (SysGetOption d l n)) \<Longrightarrow> leaves R (sock_type text)"
  unfolding sock_accept_from_def sock_receive_from_def wait_for_read_def wait_for_write_def
    wait_for_ready_def sock_type_def
  by (auto intro!: frame_rules split: io_splits)

end

subsection \<open>Descriptors opened and closed\<close>

text \<open>The descriptors opened and closed in a trace.\<close>

fun opened_in :: "(syscall \<times> reply) list \<Rightarrow> int multiset" where
  "opened_in [] = {#}"
| "opened_in ((SysSocket _ _ _, Done v _ _) # t) = (if v = INVALID_SOCKET then {#} else {#v#}) + opened_in t"
| "opened_in (_ # t) = opened_in t"

fun closed_in :: "(syscall \<times> reply) list \<Rightarrow> int multiset" where
  "closed_in [] = {#}"
| "closed_in ((SysClose d, _) # t) = {#d#} + closed_in t"
| "closed_in (_ # t) = closed_in t"

lemma opened_in_append: "opened_in (t @ u) = opened_in t + opened_in u"
  by (induction t rule: opened_in.induct) (auto simp: ac_simps)

lemma closed_in_append: "closed_in (t @ u) = closed_in t + closed_in u"
  by (induction t rule: closed_in.induct) (auto simp: ac_simps)

text \<open>Whether a call opens or closes.\<close>

fun plain_call :: "syscall \<Rightarrow> bool" where
  "plain_call (SysSocket _ _ _) = False"
| "plain_call (SysClose _) = False"
| "plain_call _ = True"

lemma plain_call_accounts:
  "plain_call c \<Longrightarrow> opened_in [(c, r)] = {#}" "plain_call c \<Longrightarrow> closed_in [(c, r)] = {#}"
  by (cases c; cases r; simp)+

definition same_descriptors :: "'a net_scheme \<Rightarrow> 'a net_scheme \<Rightarrow> bool" where
  "same_descriptors s s' \<longleftrightarrow> fd s' = fd s \<and> opened_in (trace s') = opened_in (trace s)
     \<and> closed_in (trace s') = closed_in (trace s)"

abbreviation neutral :: "('r, 'a) io \<Rightarrow> bool" where
  "neutral \<equiv> leaves same_descriptors"

interpretation descr: frame same_descriptors plain_call
  by unfold_locales
    (auto simp: same_descriptors_def log_reply_def opened_in_append closed_in_append plain_call_accounts)

lemma neutralD:
  "neutral m \<Longrightarrow> m s = Ret r s' \<Longrightarrow> fd s' = fd s \<and> opened_in (trace s') = opened_in (trace s)
     \<and> closed_in (trace s') = closed_in (trace s)"
  using leavesD [of same_descriptors m s r s'] by (simp add: same_descriptors_def)

lemma neutral_operations:
  "neutral (sock_shutdown how)" "neutral (sock_bind I a)" "neutral (sock_listen n)" "neutral sock_accept"
  "neutral (sock_connect I a)" "neutral (sock_send p flags)" "neutral (sock_receive q k flags)"
  "neutral (sock_send_to p a flags)" "neutral (sock_block on)"
  "neutral (and_io (sock_reuse_address on) (sock_reuse_port on))"
  "neutral (sock_accept_from out)" "neutral (sock_receive_from q k out flags)"
  "neutral (wait_for_read t)" "neutral (wait_for_write t)"
  by (auto intro!: frame_rules)

subsection \<open>Ownership of descriptors\<close>

definition owns :: "'a net_scheme \<Rightarrow> int multiset" where
  "owns s = (if fd s = INVALID_SOCKET then {#} else {#fd s#})"

lemma neutral_owns:
  "neutral m \<Longrightarrow> m s = Ret r s' \<Longrightarrow> owns s' = owns s \<and> opened_in (trace s') = opened_in (trace s)
     \<and> closed_in (trace s') = closed_in (trace s)"
  using neutralD [of m s r s'] by (simp add: owns_def)

lemma report_effect:
  "report setter msg s = Ret u s' \<Longrightarrow> fd s' = fd s \<and> trace s' = trace s"
  by (auto simp: report_def bind_out_eq_Ret)

lemma close_socket_accounts:
  assumes "close_socket d s = Ret r s'"
  shows "fd s' = fd s \<and> opened_in (trace s') = opened_in (trace s)
    \<and> closed_in (trace s') = closed_in (trace s) + {#d#}"
  using assms
  by (auto simp: close_socket_def checked_def sys_call_def ret_def log_reply_def opened_in_append closed_in_append
      elim!: bind_ioE split: list.splits reply.splits option.splits dest!: report_effect)

lemma sock_close_accounts:
  assumes "sock_close s = Ret r s'"
  shows "fd s' = INVALID_SOCKET \<and> opened_in (trace s') = opened_in (trace s)
    \<and> closed_in (trace s') = closed_in (trace s) + owns s"
  using assms
  by (auto simp: sock_close_def get_fd_def put_fd_def ret_def owns_def
      elim!: bind_ioE split: if_splits dest!: close_socket_accounts)

lemma quiet_close_accounts:
  assumes "quiet sock_close s = Ret r s'"
  shows "fd s' = INVALID_SOCKET \<and> opened_in (trace s') = opened_in (trace s)
    \<and> closed_in (trace s') = closed_in (trace s) + owns s"
proof -
  obtain t where "sock_close (s\<lparr>err := None\<rparr>) = Ret r t" and s': "s' = t\<lparr>err := err s\<rparr>"
    using assms by (auto simp: quiet_def bind_out_eq_Ret)
  from sock_close_accounts [OF this(1)] show ?thesis by (simp add: s' owns_def)
qed

lemma init_socket_accounts:
  assumes "init_socket d t p s = Ret r s'"
  shows "owns s = {#} \<and> opened_in (trace s') = opened_in (trace s) + owns s'
    \<and> closed_in (trace s') = closed_in (trace s)"
  using assms
  by (auto simp: init_socket_def get_fd_def put_fd_def ret_def fail_def owns_def sys_call_def log_reply_def
      opened_in_append closed_in_append
      elim!: bind_ioE split: if_splits list.splits reply.splits option.splits prod.splits dest!: report_effect)

text \<open>
  The use of one object: each operation returns the descriptors that came in by \<open>Attach\<close>
  and went out by \<open>Detach\<close>. What \<open>Accept\<close> returns never belongs to the object.
\<close>

datatype sock_op =
    OpCreate int int int
  | OpAttach int
  | OpDetach
  | OpClose
  | OpShutdown int
  | OpBind inet address
  | OpListen int
  | OpAccept
  | OpAcceptFrom "address option"
  | OpConnect inet address
  | OpSend "char list option" int
  | OpReceive bool nat int
  | OpSendTo "char list option" address int
  | OpReceiveFrom bool nat "address option" int
  | OpWaitRead int
  | OpWaitWrite int
  | OpBlock bool
  | OpReuse bool

definition as_set :: "int \<Rightarrow> int multiset" where
  "as_set d = (if d = INVALID_SOCKET then {#} else {#d#})"

definition no_transfer :: "('r, 'a) io \<Rightarrow> (int multiset \<times> int multiset, 'a) io" where
  "no_transfer m = bind_io m (\<lambda>_. ret ({#}, {#}))"

fun sock_step :: "sock_op \<Rightarrow> (int multiset \<times> int multiset, 'a) io" where
  "sock_step (OpCreate d t p) = no_transfer (sock_create d t p)"
| "sock_step (OpAttach v) = bind_io get_fd (\<lambda>d.
     bind_io (sock_attach v) (\<lambda>_. ret (if d = v then {#} else as_set v, {#})))"
| "sock_step OpDetach = bind_io sock_detach (\<lambda>d. ret ({#}, as_set d))"
| "sock_step OpClose = no_transfer sock_close"
| "sock_step (OpShutdown how) = no_transfer (sock_shutdown how)"
| "sock_step (OpBind I a) = no_transfer (sock_bind I a)"
| "sock_step (OpListen n) = no_transfer (sock_listen n)"
| "sock_step OpAccept = no_transfer sock_accept"
| "sock_step (OpAcceptFrom out) = no_transfer (sock_accept_from out)"
| "sock_step (OpConnect I a) = no_transfer (sock_connect I a)"
| "sock_step (OpSend p flags) = no_transfer (sock_send p flags)"
| "sock_step (OpReceive p n flags) = no_transfer (sock_receive p n flags)"
| "sock_step (OpSendTo p a flags) = no_transfer (sock_send_to p a flags)"
| "sock_step (OpReceiveFrom p n out flags) = no_transfer (sock_receive_from p n out flags)"
| "sock_step (OpWaitRead t) = no_transfer (wait_for_read t)"
| "sock_step (OpWaitWrite t) = no_transfer (wait_for_write t)"
| "sock_step (OpBlock b) = no_transfer (sock_block b)"
| "sock_step (OpReuse b) = no_transfer (and_io (sock_reuse_address b) (sock_reuse_port b))"

fun sock_run :: "sock_op list \<Rightarrow> (int multiset \<times> int multiset, 'a) io" where
  "sock_run [] = ret ({#}, {#})"
| "sock_run (c # cs) = bind_io (sock_step c) (\<lambda>(A, D). bind_io (sock_run cs) (\<lambda>(A', D'). ret (A + A', D + D')))"

text \<open>Opened and taken in against closed and given out, of one stretch of use.\<close>

definition balanced :: "int multiset \<Rightarrow> int multiset \<Rightarrow> 'a net_scheme \<Rightarrow> 'a net_scheme \<Rightarrow> bool" where
  "balanced A D s s' = (\<exists>O' C'. opened_in (trace s') = opened_in (trace s) + O'
     \<and> closed_in (trace s') = closed_in (trace s) + C' \<and> owns s + O' + A = owns s' + C' + D)"

lemma balanced_trans:
  assumes "balanced A D s t" and "balanced A' D' t u"
  shows "balanced (A + A') (D + D') s u"
proof -
  obtain O1 C1 where 1: "opened_in (trace t) = opened_in (trace s) + O1"
     "closed_in (trace t) = closed_in (trace s) + C1" "owns s + O1 + A = owns t + C1 + D"
    using assms(1) by (auto simp: balanced_def)
  obtain O2 C2 where 2: "opened_in (trace u) = opened_in (trace t) + O2"
     "closed_in (trace u) = closed_in (trace t) + C2" "owns t + O2 + A' = owns u + C2 + D'"
    using assms(2) by (auto simp: balanced_def)
  have "owns s + (O1 + O2) + (A + A') = (owns s + O1 + A) + O2 + A'" by (simp add: ac_simps)
  also have "\<dots> = owns t + O2 + A' + C1 + D" unfolding 1(3) by (simp add: ac_simps)
  also have "\<dots> = owns u + (C1 + C2) + (D + D')" unfolding 2(3) by (simp add: ac_simps)
  finally have eq: "owns s + (O1 + O2) + (A + A') = owns u + (C1 + C2) + (D + D')" .
  show ?thesis
    unfolding balanced_def using 1(1,2) 2(1,2) eq
    by (intro exI [of _ "O1 + O2"] exI [of _ "C1 + C2"]) (simp add: ac_simps)
qed

lemma neutral_balanced:
  "neutral m \<Longrightarrow> no_transfer m s = Ret (A, D) s' \<Longrightarrow> balanced A D s s'"
  by (auto simp: no_transfer_def ret_def balanced_def elim!: bind_ioE dest!: neutral_owns)

lemma create_balanced:
  assumes "sock_create d t p s = Ret r s'"
  shows "balanced {#} {#} s s'"
proof -
  obtain q u where u: "(if fd s \<noteq> INVALID_SOCKET then quiet sock_close else ret True) s = Ret q u"
    and i: "init_socket d t p u = Ret r s'"
    using assms by (auto simp: sock_create_def get_fd_def elim!: bind_ioE)
  have "opened_in (trace u) = opened_in (trace s)" "closed_in (trace u) = closed_in (trace s) + owns s"
    using u quiet_close_accounts [of s q u] by (auto simp: ret_def owns_def split: if_splits)
  then show ?thesis
    using init_socket_accounts [OF i] by (auto simp: balanced_def intro!: exI [of _ "owns s'"] exI [of _ "owns s"])
qed

lemma attach_balanced:
  assumes "sock_attach v s = Ret r s'"
  shows "balanced (if fd s = v then {#} else as_set v) {#} s s'"
proof -
  obtain q u where u: "(if fd s \<noteq> INVALID_SOCKET \<and> fd s \<noteq> v then quiet sock_close else ret True) s = Ret q u"
    and s': "s' = u\<lparr>fd := v\<rparr>"
    using assms by (auto simp: sock_attach_def get_fd_def put_fd_def ret_def elim!: bind_ioE)
  have own: "owns s' = as_set v" by (simp add: s' owns_def as_set_def)
  show ?thesis
  proof (cases "fd s \<noteq> INVALID_SOCKET \<and> fd s \<noteq> v")
    case True
    then have "quiet sock_close s = Ret q u" using u by simp
    from quiet_close_accounts [OF this] show ?thesis
      using own True s' by (auto simp: balanced_def intro!: exI [of _ "{#}"] exI [of _ "owns s"])
  next
    case False
    then have "u = s" using u by (auto simp: ret_def split: if_splits)
    then show ?thesis
      using own False s' by (auto simp: balanced_def owns_def as_set_def intro!: exI [of _ "{#}"])
  qed
qed

text \<open>
  Where no descriptor is transferred, keeping the balance is a frame too, which closing and
  creating respect.
\<close>

interpretation ledger: frame "balanced {#} {#}" plain_call
proof (unfold_locales, goal_cases)
  case (2 s t u)
  then show ?case using balanced_trans [of "{#}" "{#}" s t "{#}" "{#}" u] by simp
qed (simp_all add: balanced_def owns_def log_reply_def opened_in_append closed_in_append plain_call_accounts)

lemma ledger_rules [frame_rules]:
  "leaves (balanced {#} {#}) (sock_create d t p)" "leaves (balanced {#} {#}) sock_close"
  "leaves (balanced {#} {#}) sock_delete"
proof -
  show c: "leaves (balanced {#} {#}) sock_close"
    by (rule leavesI) (auto dest!: sock_close_accounts simp: balanced_def owns_def)
  show "leaves (balanced {#} {#}) (sock_create d t p)" by (rule leavesI) (rule create_balanced)
  show "leaves (balanced {#} {#}) sock_delete"
    unfolding sock_delete_def by (intro frame_rules c)
qed

lemma step_balanced:
  assumes "sock_step c s = Ret (A, D) s'"
  shows "balanced A D s s'"
proof (cases c)
  case (OpCreate d t p)
  then show ?thesis using assms create_balanced
    by (auto simp: no_transfer_def ret_def elim!: bind_ioE)
next
  case (OpAttach v)
  then show ?thesis using assms attach_balanced
    by (fastforce simp: get_fd_def ret_def elim!: bind_ioE split: if_splits)
next
  case OpDetach
  then show ?thesis using assms
    by (auto simp: sock_detach_def get_fd_def put_fd_def ret_def balanced_def owns_def as_set_def elim!: bind_ioE)
next
  case OpClose
  then show ?thesis using assms sock_close_accounts
    by (fastforce simp: no_transfer_def ret_def balanced_def owns_def elim!: bind_ioE)
qed (use assms in \<open>auto intro: neutral_balanced neutral_operations\<close>)

lemma run_balanced: "sock_run cs s = Ret (A, D) s' \<Longrightarrow> balanced A D s s'"
proof (induction cs arbitrary: s A D)
  case Nil
  then show ?case by (auto simp: ret_def balanced_def)
next
  case (Cons c cs)
  then obtain A1 D1 t A2 D2 where "sock_step c s = Ret (A1, D1) t" "sock_run cs t = Ret (A2, D2) s'"
    and AD: "A = A1 + A2" "D = D1 + D2"
    by (auto simp: ret_def elim!: bind_ioE)
  then show ?case
    unfolding AD using Cons.IH by (intro balanced_trans [of A1 D1 s t]) (auto dest: step_balanced)
qed

text \<open>
  C4. Ownership: whatever is done with a socket object, and however the system replies, the
  descriptors it opened and took over by \<open>Attach\<close> are those it closed, those it gave out by
  \<open>Detach\<close> and the one it holds, each as often; after the destructor it holds none. So none is
  leaked and none is closed twice.
\<close>

theorem descriptors_balanced:
  assumes "sock_run ops s = Ret (A, D) s'" and "fd s = INVALID_SOCKET" and "trace s = []"
    and "sock_delete s' = Ret u s''"
  shows "opened_in (trace s') + A = closed_in (trace s') + D + owns s'
    \<and> opened_in (trace s'') + A = closed_in (trace s'') + D \<and> owns s'' = {#}"
proof -
  have b: "opened_in (trace s') + A = closed_in (trace s') + D + owns s'"
    using run_balanced [OF assms(1)] assms(2,3) by (auto simp: balanced_def owns_def ac_simps)
  have "fd s'' = INVALID_SOCKET \<and> opened_in (trace s'') = opened_in (trace s')
     \<and> closed_in (trace s'') = closed_in (trace s') + owns s'"
    using assms(4) quiet_close_accounts [of s']
    by (auto simp: sock_delete_def get_fd_def ret_def owns_def elim!: bind_ioE split: if_splits)
  then show ?thesis using b by (auto simp: owns_def ac_simps)
qed

definition fresh_net :: "reply list \<Rightarrow> net" where
  "fresh_net rs = \<lparr>fd = INVALID_SOCKET, err = None, replies = rs, waits = [], errno = 0, trace = []\<rparr>"

theorem descriptors_balanced_witness:
  "\<exists>s' s''. sock_run [OpCreate 2 1 6, OpAttach 9] (fresh_net [Ok 3, Ok 0, Failed 5]) = Ret ({#9#}, {#}) s'
    \<and> sock_delete s' = Ret () s'' \<and> opened_in (trace s'') + {#9#} = closed_in (trace s'')"
proof -
  note run = fresh_net_def no_transfer_def bind_io_def ret_def sock_create_def get_fd_def put_fd_def
    init_socket_def sys_call_def log_reply_def sock_attach_def quiet_def sock_close_def close_socket_def
    checked_def as_set_def report_def close_set_error_def set_as_def sock_delete_def
  obtain s' where 1: "sock_run [OpCreate 2 1 6, OpAttach 9] (fresh_net [Ok 3, Ok 0, Failed 5]) = Ret ({#9#}, {#}) s'"
    and s': "replies s' = [Failed 5]" "fd s' = 9"
    by (auto simp: run)
  obtain s'' where 2: "sock_delete s' = Ret () s''"
    using s' by (auto simp: run)
  show ?thesis
    using descriptors_balanced [OF 1 _ _ 2] 1 2 by (auto simp: fresh_net_def)
qed

end
