(* ===== verification/TcpUdp.thy ===== *)
theory TcpUdp
  imports SocketOwnership
begin

text \<open>
  \<open>TcpSocket\<close>, \<open>TcpAcceptor\<close> and \<open>UdpSocket\<close>: each a socket object with its configured
  address and reuse rules, blocking and timed forms of its input and output, and the forms that
  work on a \<open>StreamBuffer\<close>. The forms without the pointer to an error object are the throwing
  ones.
\<close>

subsection \<open>Shared steps\<close>

definition reject :: "error_class \<Rightarrow> char list \<Rightarrow> int \<Rightarrow> 'r \<Rightarrow> ('r, 'a) io" where
  "reject cls msg code r = bind_io (report_as cls msg code) (\<lambda>_. ret r)"

text \<open>
  \<open>Valid() || Create(own.Empty() ? addr.Family() : own.Family(), type, protocol, e)\<close>.
\<close>

definition ensure_open :: "address \<Rightarrow> address \<Rightarrow> int \<Rightarrow> int \<Rightarrow> (bool, 'a) io" where
  "ensure_open own a type protocol = bind_io sock_valid (\<lambda>v.
     if v then ret True
     else sock_create (uint (if addr_empty own then ss_family a else ss_family own)) type protocol)"

text \<open>The bytes between \<open>Read()\<close> and \<open>Read() + Readable()\<close> of a buffer.\<close>

definition readable_block :: "stream_buffer \<Rightarrow> (char list, unit) outcome" where
  "readable_block b = (if length (bytes b) < rpos b + sb_readable b then Fault OutOfBounds
     else Ret (slice (rpos b) (sb_readable b) (bytes b)) ())"

definition on_buffer :: "('r, stream_buffer) outcome \<Rightarrow> ('r \<times> stream_buffer, 'a) io" where
  "on_buffer m s = bind_out m (\<lambda>r b. Ret (r, b) s)"

text \<open>\<open>ret = Send(buf.Read(), buf.Readable(), ...); if(ret > 0) buf.Read(ret);\<close>\<close>

definition send_buffer :: "(char list option \<Rightarrow> (int, 'a) io) \<Rightarrow> stream_buffer \<Rightarrow> (int \<times> stream_buffer, 'a) io" where
  "send_buffer send b = bind_io (lift_pure (readable_block b)) (\<lambda>data.
     bind_io (send (Some data)) (\<lambda>v. ret (v, if 0 < v then snd (sb_skip (nat v) b) else b)))"

text \<open>
  The receiving counterpart: room for 2048 bytes, then the whole writable block is offered.
\<close>

abbreviation (input) "RECEIVE_BUFFER_SIZE \<equiv> 2048 :: nat"

definition receive_buffer :: "char list \<Rightarrow> (nat \<Rightarrow> (int \<times> char list \<times> 'x, 'a) io) \<Rightarrow> 'x \<Rightarrow> stream_buffer
    \<Rightarrow> (int \<times> 'x \<times> stream_buffer, 'a) io" where
  "receive_buffer msg recv none b = bind_io (on_buffer (sb_reserve RECEIVE_BUFFER_SIZE b)) (\<lambda>(ok, b1).
     if \<not> ok then reject RuntimeError msg ENOBUFS (- 1, none, b1)
     else bind_io (recv (sb_writable b1)) (\<lambda>(v, data, x).
       bind_io (on_buffer (fill_writable data b1)) (\<lambda>(_, b2).
       ret (v, x, if 0 < v then snd (sb_advance (nat v) b2) else b2))))"

definition without_address :: "(int \<times> char list, 'a) io \<Rightarrow> (int \<times> char list \<times> unit, 'a) io" where
  "without_address m = bind_io m (\<lambda>(v, data). ret (v, data, ()))"

context frame begin

lemma leaves_shared_steps [frame_rules]:
  "leaves R (reject cls msg code r)" "leaves R (on_buffer b)"
  unfolding reject_def
   apply (intro frame_rules)
  apply (rule leavesI, auto simp: on_buffer_def bind_out_eq_Ret same)
  done

end

subsection \<open>TCP sockets\<close>

record tcp = net +
  tcp_address :: address
  tcp_peer :: address
  tcp_reuse_addr :: bool
  tcp_reuse_port :: bool

type_synonym ('r, 'a) tcp_io = "('r, 'a tcp_ext) io"

definition tcp_init :: "int \<Rightarrow> address \<Rightarrow> address \<Rightarrow> bool \<Rightarrow> bool \<Rightarrow> (unit, 'a) tcp_io" where
  "tcp_init d own peer ra rp = modify (\<lambda>s. s\<lparr>fd := d, tcp_address := own, tcp_peer := peer,
     tcp_reuse_addr := ra, tcp_reuse_port := rp\<rparr>)"

definition tcp_new :: "(unit, 'a) tcp_io" where
  "tcp_new = tcp_init INVALID_SOCKET addr_new addr_new False False"

definition tcp_new_family :: "16 word \<Rightarrow> (unit, 'a) tcp_io" where
  "tcp_new_family f = tcp_init INVALID_SOCKET (addr_reset f) addr_new False False"

definition tcp_new_address :: "address \<Rightarrow> bool \<Rightarrow> bool \<Rightarrow> (unit, 'a) tcp_io" where
  "tcp_new_address a ra rp = tcp_init INVALID_SOCKET a addr_new ra rp"

definition tcp_new_connected :: "int \<Rightarrow> address option \<Rightarrow> (unit, 'a) tcp_io" where
  "tcp_new_connected d a = tcp_init d addr_new (addr_copy a) False False"

text \<open>
  \<open>Connected(Error* e)\<close>. The test \<open>addr.Empty() && e\<close> is on the pointer, not on the error.
\<close>

definition tcp_connected :: "(bool, 'a) tcp_io" where
  "tcp_connected = bind_io sock_valid (\<lambda>v.
     if \<not> v then reject LogicError ''TcpSocket::Connected : Socket is not opened yet.'' EBADF False
     else bind_io (quiet (sock_type [])) (\<lambda>t.
     if t \<noteq> SOCK_STREAM then reject LogicError ''TcpSocket::Connected : Not TCP socket.'' EPROTOTYPE False
     else bind_io sock_connected_address (\<lambda>a. bind_io (gets err) (\<lambda>e.
     if addr_empty a \<and> e \<noteq> None then ret False
     else bind_io (gets tcp_peer) (\<lambda>peer.
     if \<not> addr_empty peer \<and> \<not> addr_eq peer a
     then reject LogicError ''TcpSocket::Connected : Connected address is incorrect.'' EINVAL False
     else ret True)))))"

definition tcp_connected_throw :: "(exception + bool, 'a) tcp_io" where
  "tcp_connected_throw = throwing Not tcp_connected"

definition tcp_connected_fd :: "int \<Rightarrow> address option \<Rightarrow> (bool, 'a) tcp_io" where
  "tcp_connected_fd d a = bind_io (sock_attach d) (\<lambda>_.
     bind_io (modify (\<lambda>s. case a of None \<Rightarrow> s | Some x \<Rightarrow> s\<lparr>tcp_peer := x\<rparr>)) (\<lambda>_. tcp_connected))"

definition tcp_connected_fd_throw :: "int \<Rightarrow> address option \<Rightarrow> (exception + bool, 'a) tcp_io" where
  "tcp_connected_fd_throw d a = throwing Not (tcp_connected_fd d a)"

definition tcp_do_connect :: "inet \<Rightarrow> address \<Rightarrow> bool \<Rightarrow> (bool, 'a) tcp_io" where
  "tcp_do_connect I a block = bind_io (gets tcp_address) (\<lambda>own.
     unless (ensure_open own a SOCK_STREAM IPPROTO_TCP) False
     (unless (if addr_empty own then ret True
              else bind_io (lift_pure (addr_special own)) (\<lambda>any. if any then ret True else sock_bind I own)) False
     (unless (sock_block block) False (sock_connect I a))))"

definition tcp_connect :: "inet \<Rightarrow> address \<Rightarrow> (bool, 'a) tcp_io" where
  "tcp_connect I a = tcp_do_connect I a True"

definition tcp_connect_throw :: "inet \<Rightarrow> address \<Rightarrow> (exception + bool, 'a) tcp_io" where
  "tcp_connect_throw I a = throwing Not (tcp_connect I a)"

definition tcp_connect_timed :: "inet \<Rightarrow> address \<Rightarrow> int \<Rightarrow> (bool, 'a) tcp_io" where
  "tcp_connect_timed I a timeout =
     (if timeout < 0 then tcp_connect I a
      else bind_io (tcp_do_connect I a False) (\<lambda>ok.
        if ok then ret True
        else bind_io (gets errno) (\<lambda>code.
          if 0 < timeout \<and> in_progress code
          then bind_io (wait_for_write timeout) (\<lambda>w.
            if w then bind_io reset_error (\<lambda>_. ret True) else ret False)
          else ret False)))"

definition tcp_connect_timed_throw :: "inet \<Rightarrow> address \<Rightarrow> int \<Rightarrow> (exception + bool, 'a) tcp_io" where
  "tcp_connect_timed_throw I a timeout = throwing Not (tcp_connect_timed I a timeout)"

definition tcp_close :: "(bool, 'a) tcp_io" where
  "tcp_close = sock_close"

definition tcp_get_address :: "(address, 'a) tcp_io" where
  "tcp_get_address = bind_io sock_valid (\<lambda>v. if v then sock_address else gets tcp_address)"

definition tcp_get_connected_address :: "(address, 'a) tcp_io" where
  "tcp_get_connected_address = bind_io sock_valid (\<lambda>v. if v then sock_connected_address else gets tcp_peer)"

definition tcp_send :: "char list option \<Rightarrow> (int, 'a) io" where
  "tcp_send p = unless (sock_block True) (- 1) (sock_send p 0)"

definition tcp_send_buffer :: "stream_buffer \<Rightarrow> (int \<times> stream_buffer, 'a) io" where
  "tcp_send_buffer = send_buffer tcp_send"

definition tcp_send_timed :: "int \<Rightarrow> char list option \<Rightarrow> (int, 'a) io" where
  "tcp_send_timed timeout p =
     (if timeout < 0 then tcp_send p
      else unless (sock_block False) (- 1)
        (unless (if 0 < timeout then wait_for_write timeout else ret True) (- 1) (sock_send p 0)))"

definition tcp_send_buffer_timed :: "int \<Rightarrow> stream_buffer \<Rightarrow> (int \<times> stream_buffer, 'a) io" where
  "tcp_send_buffer_timed timeout = send_buffer (tcp_send_timed timeout)"

definition tcp_receive :: "bool \<Rightarrow> nat \<Rightarrow> (int \<times> char list, 'a) io" where
  "tcp_receive p n = unless (sock_block True) (- 1, []) (sock_receive p n 0)"

definition tcp_receive_buffer :: "stream_buffer \<Rightarrow> (int \<times> unit \<times> stream_buffer, 'a) io" where
  "tcp_receive_buffer = receive_buffer ''TcpSocket::Receive : Prepare buffer failed.''
     (\<lambda>n. without_address (tcp_receive True n)) ()"

definition tcp_receive_timed :: "int \<Rightarrow> bool \<Rightarrow> nat \<Rightarrow> (int \<times> char list, 'a) io" where
  "tcp_receive_timed timeout p n =
     (if timeout < 0 then tcp_receive p n
      else unless (sock_block False) (- 1, [])
        (unless (if 0 < timeout then wait_for_read timeout else ret True) (- 1, []) (sock_receive p n 0)))"

definition tcp_receive_buffer_timed :: "int \<Rightarrow> stream_buffer \<Rightarrow> (int \<times> unit \<times> stream_buffer, 'a) io" where
  "tcp_receive_buffer_timed timeout = receive_buffer ''TcpSocket::Receive : Prepare buffer failed.''
     (\<lambda>n. without_address (tcp_receive_timed timeout True n)) ()"

subsection \<open>TCP acceptors\<close>

record acceptor = net +
  acc_address :: address
  acc_reuse_addr :: bool
  acc_reuse_port :: bool
  acc_backlog :: int

type_synonym ('r, 'a) acc_io = "('r, 'a acceptor_ext) io"

definition acc_init :: "address \<Rightarrow> bool \<Rightarrow> bool \<Rightarrow> (unit, 'a) acc_io" where
  "acc_init a ra rp = modify (\<lambda>s. s\<lparr>fd := INVALID_SOCKET, acc_address := a, acc_reuse_addr := ra,
     acc_reuse_port := rp, acc_backlog := - 1\<rparr>)"

definition acc_new :: "(unit, 'a) acc_io" where
  "acc_new = acc_init addr_new False False"

definition acc_new_family :: "16 word \<Rightarrow> (unit, 'a) acc_io" where
  "acc_new_family f = acc_init (addr_reset f) False False"

definition acc_new_address :: "address \<Rightarrow> bool \<Rightarrow> bool \<Rightarrow> (unit, 'a) acc_io" where
  "acc_new_address a ra rp = acc_init a ra rp"

definition acc_set_backlog :: "int \<Rightarrow> (unit, 'a) acc_io" where
  "acc_set_backlog n = modify (\<lambda>s. s\<lparr>acc_backlog := n\<rparr>)"

definition acc_open :: "inet \<Rightarrow> address \<Rightarrow> bool \<Rightarrow> bool \<Rightarrow> (bool, 'a) acc_io" where
  "acc_open I a ra rp =
     (if addr_empty a then reject LogicError ''TcpAcceptor::Open : Given address is invalid.'' EINVAL False
      else bind_io (gets acc_address) (\<lambda>own. bind_io (gets acc_backlog) (\<lambda>n.
        unless (ensure_open own a SOCK_STREAM IPPROTO_TCP) False
        (unless (and_io (sock_reuse_address ra) (sock_reuse_port rp)) False
        (and_io (sock_bind I a) (sock_listen n))))))"

definition acc_open_throw :: "inet \<Rightarrow> address \<Rightarrow> bool \<Rightarrow> bool \<Rightarrow> (exception + bool, 'a) acc_io" where
  "acc_open_throw I a ra rp = throwing Not (acc_open I a ra rp)"

definition acc_open_default_rules :: "inet \<Rightarrow> address \<Rightarrow> (bool, 'a) acc_io" where
  "acc_open_default_rules I a = acc_open I a True True"

definition acc_open_own :: "inet \<Rightarrow> (bool, 'a) acc_io" where
  "acc_open_own I =
     bind_io (modify (\<lambda>s. if addr_empty (acc_address s) then s\<lparr>acc_address := addr_reset AF_INET\<rparr> else s)) (\<lambda>_.
     bind_io (gets acc_address) (\<lambda>a. bind_io (gets acc_reuse_addr) (\<lambda>ra. bind_io (gets acc_reuse_port) (\<lambda>rp.
     acc_open I a ra rp))))"

definition acc_open_own_throw :: "inet \<Rightarrow> (exception + bool, 'a) acc_io" where
  "acc_open_own_throw I = throwing Not (acc_open_own I)"

definition acc_close :: "(bool, 'a) acc_io" where
  "acc_close = sock_close"

definition acc_get_address :: "(address, 'a) acc_io" where
  "acc_get_address = bind_io sock_valid (\<lambda>v. if v then sock_address else gets acc_address)"

definition acc_accept :: "(int, 'a) io" where
  "acc_accept = unless (sock_block True) INVALID_SOCKET sock_accept"

definition acc_accept_throw :: "(exception + int, 'a) io" where
  "acc_accept_throw = throwing (\<lambda>v. v = INVALID_SOCKET) acc_accept"

definition acc_accept_timed :: "int \<Rightarrow> (int, 'a) io" where
  "acc_accept_timed timeout =
     (if timeout < 0 then acc_accept
      else unless (sock_block False) INVALID_SOCKET
        (unless (if 0 < timeout then wait_for_read timeout else ret True) INVALID_SOCKET sock_accept))"

definition acc_accept_timed_throw :: "int \<Rightarrow> (exception + int, 'a) io" where
  "acc_accept_timed_throw timeout = throwing (\<lambda>v. v = INVALID_SOCKET) (acc_accept_timed timeout)"

text \<open>The forms with an address; where the call is not made the object given is as it was.\<close>

definition acc_accept_from :: "address option \<Rightarrow> (int \<times> address option, 'a) io" where
  "acc_accept_from out = unless (sock_block True) (INVALID_SOCKET, out) (sock_accept_from out)"

definition acc_accept_from_throw :: "address option \<Rightarrow> (exception + int \<times> address option, 'a) io" where
  "acc_accept_from_throw out = throwing (\<lambda>r. fst r = INVALID_SOCKET) (acc_accept_from out)"

definition acc_accept_from_timed :: "int \<Rightarrow> address option \<Rightarrow> (int \<times> address option, 'a) io" where
  "acc_accept_from_timed timeout out =
     (if timeout < 0 then acc_accept_from out
      else unless (sock_block False) (INVALID_SOCKET, out)
        (unless (if 0 < timeout then wait_for_read timeout else ret True) (INVALID_SOCKET, out)
          (sock_accept_from out)))"

definition acc_accept_from_timed_throw :: "int \<Rightarrow> address option \<Rightarrow> (exception + int \<times> address option, 'a) io" where
  "acc_accept_from_timed_throw timeout out =
     throwing (\<lambda>r. fst r = INVALID_SOCKET) (acc_accept_from_timed timeout out)"

subsection \<open>UDP sockets\<close>

record udp = net +
  udp_address :: address
  udp_reuse_addr :: bool
  udp_reuse_port :: bool

type_synonym ('r, 'a) udp_io = "('r, 'a udp_ext) io"

definition udp_init :: "address \<Rightarrow> bool \<Rightarrow> bool \<Rightarrow> (unit, 'a) udp_io" where
  "udp_init a ra rp = modify (\<lambda>s. s\<lparr>fd := INVALID_SOCKET, udp_address := a, udp_reuse_addr := ra, udp_reuse_port := rp\<rparr>)"

definition udp_new :: "(unit, 'a) udp_io" where
  "udp_new = udp_init addr_new False False"

definition udp_new_family :: "16 word \<Rightarrow> (unit, 'a) udp_io" where
  "udp_new_family f = udp_init (addr_reset f) False False"

definition udp_new_address :: "address \<Rightarrow> bool \<Rightarrow> bool \<Rightarrow> (unit, 'a) udp_io" where
  "udp_new_address a ra rp = udp_init a ra rp"

definition udp_ensure_open :: "address \<Rightarrow> (bool, 'a) udp_io" where
  "udp_ensure_open a = bind_io (gets udp_address) (\<lambda>own. ensure_open own a SOCK_DGRAM IPPROTO_UDP)"

definition udp_open :: "inet \<Rightarrow> address \<Rightarrow> bool \<Rightarrow> bool \<Rightarrow> (bool, 'a) udp_io" where
  "udp_open I a ra rp =
     (if addr_empty a then reject LogicError ''UdpSocket::Open : Given address is invalid.'' EINVAL False
      else unless (udp_ensure_open a) False
        (unless (and_io (sock_reuse_address ra) (sock_reuse_port rp)) False
        (sock_bind I a)))"

definition udp_open_throw :: "inet \<Rightarrow> address \<Rightarrow> bool \<Rightarrow> bool \<Rightarrow> (exception + bool, 'a) udp_io" where
  "udp_open_throw I a ra rp = throwing Not (udp_open I a ra rp)"

definition udp_open_default_rules :: "inet \<Rightarrow> address \<Rightarrow> (bool, 'a) udp_io" where
  "udp_open_default_rules I a = udp_open I a True True"

definition udp_open_own :: "inet \<Rightarrow> (bool, 'a) udp_io" where
  "udp_open_own I =
     bind_io (modify (\<lambda>s. if addr_empty (udp_address s) then s\<lparr>udp_address := addr_reset AF_INET\<rparr> else s)) (\<lambda>_.
     bind_io (gets udp_address) (\<lambda>a. bind_io (gets udp_reuse_addr) (\<lambda>ra. bind_io (gets udp_reuse_port) (\<lambda>rp.
     udp_open I a ra rp))))"

definition udp_open_own_throw :: "inet \<Rightarrow> (exception + bool, 'a) udp_io" where
  "udp_open_own_throw I = throwing Not (udp_open_own I)"

definition udp_close :: "(bool, 'a) udp_io" where
  "udp_close = sock_close"

definition udp_get_address :: "(address, 'a) udp_io" where
  "udp_get_address = bind_io sock_valid (\<lambda>v. if v then sock_address else gets udp_address)"

definition udp_connect :: "inet \<Rightarrow> address \<Rightarrow> (bool, 'a) udp_io" where
  "udp_connect I a = unless (udp_ensure_open a) False (sock_connect I a)"

definition udp_connect_throw :: "inet \<Rightarrow> address \<Rightarrow> (exception + bool, 'a) udp_io" where
  "udp_connect_throw I a = throwing Not (udp_connect I a)"

definition udp_get_connected_address :: "(address, 'a) udp_io" where
  "udp_get_connected_address = sock_connected_address"

text \<open>
  A rejected address and a socket that cannot be created are reported by \<open>return false\<close>: 0.
\<close>

definition udp_send_to :: "address \<Rightarrow> char list option \<Rightarrow> (int, 'a) udp_io" where
  "udp_send_to a p =
     (if addr_empty a then reject LogicError ''UdpSocket::Sendto : Given address is invalid.'' EINVAL 0
      else unless (udp_ensure_open a) 0
        (unless (sock_block True) (- 1) (sock_send_to p a 0)))"

definition udp_send_buffer_to :: "address \<Rightarrow> stream_buffer \<Rightarrow> (int \<times> stream_buffer, 'a) udp_io" where
  "udp_send_buffer_to a = send_buffer (udp_send_to a)"

text \<open>The timed forms return where \<open>Block(false, e)\<close> succeeded: the negation is missing.\<close>

definition udp_send_to_timed :: "int \<Rightarrow> address \<Rightarrow> char list option \<Rightarrow> (int, 'a) udp_io" where
  "udp_send_to_timed timeout a p =
     (if timeout < 0 then udp_send_to a p
      else if addr_empty a then reject LogicError ''UdpSocket::SendTo : Given address is invalid.'' EINVAL 0
      else unless (udp_ensure_open a) 0
        (bind_io (sock_block False) (\<lambda>ok. if ok then ret (- 1)
         else unless (if 0 < timeout then wait_for_write timeout else ret True) (- 1) (sock_send_to p a 0))))"

definition udp_send_buffer_to_timed :: "int \<Rightarrow> address \<Rightarrow> stream_buffer \<Rightarrow> (int \<times> stream_buffer, 'a) udp_io" where
  "udp_send_buffer_to_timed timeout a = send_buffer (udp_send_to_timed timeout a)"

definition udp_send :: "char list option \<Rightarrow> (int, 'a) udp_io" where
  "udp_send p = unless (sock_block True) (- 1) (sock_send p 0)"

definition udp_send_buffer :: "stream_buffer \<Rightarrow> (int \<times> stream_buffer, 'a) udp_io" where
  "udp_send_buffer = send_buffer udp_send"

definition udp_send_timed :: "int \<Rightarrow> char list option \<Rightarrow> (int, 'a) udp_io" where
  "udp_send_timed timeout p =
     (if timeout < 0 then udp_send p
      else bind_io (sock_block False) (\<lambda>ok. if ok then ret (- 1)
        else unless (if 0 < timeout then wait_for_write timeout else ret True) (- 1) (sock_send p 0)))"

definition udp_send_buffer_timed :: "int \<Rightarrow> stream_buffer \<Rightarrow> (int \<times> stream_buffer, 'a) udp_io" where
  "udp_send_buffer_timed timeout = send_buffer (udp_send_timed timeout)"

definition udp_receive_from :: "bool \<Rightarrow> nat \<Rightarrow> address option \<Rightarrow> (int \<times> char list \<times> address option, 'a) udp_io" where
  "udp_receive_from p n out = unless (sock_block True) (- 1, [], out) (sock_receive_from p n out 0)"

definition udp_receive_buffer_from :: "address option \<Rightarrow> stream_buffer \<Rightarrow> (int \<times> address option \<times> stream_buffer, 'a) udp_io" where
  "udp_receive_buffer_from out = receive_buffer ''UdpSocket::ReceiveFrom : Prepare buffer failed.''
     (\<lambda>n. udp_receive_from True n out) out"

definition udp_receive_from_timed :: "int \<Rightarrow> bool \<Rightarrow> nat \<Rightarrow> address option
    \<Rightarrow> (int \<times> char list \<times> address option, 'a) udp_io" where
  "udp_receive_from_timed timeout p n out =
     (if timeout < 0 then udp_receive_from p n out
      else unless (sock_block False) (- 1, [], out)
        (unless (if 0 < timeout then wait_for_read timeout else ret True) (- 1, [], out)
          (sock_receive_from p n out 0)))"

definition udp_receive_buffer_from_timed :: "int \<Rightarrow> address option \<Rightarrow> stream_buffer
    \<Rightarrow> (int \<times> address option \<times> stream_buffer, 'a) udp_io" where
  "udp_receive_buffer_from_timed timeout out = receive_buffer ''UdpSocket::ReceiveFrom : Prepare buffer failed.''
     (\<lambda>n. udp_receive_from_timed timeout True n out) out"

definition udp_receive :: "bool \<Rightarrow> nat \<Rightarrow> (int \<times> char list, 'a) udp_io" where
  "udp_receive p n = (if p \<and> 0 < n then unless (sock_block True) (- 1, []) (sock_receive p n 0)
     else fail AssertFailed)"

definition udp_receive_buffer :: "stream_buffer \<Rightarrow> (int \<times> unit \<times> stream_buffer, 'a) udp_io" where
  "udp_receive_buffer = receive_buffer ''UdpSocket::Receive : Prepare buffer failed.''
     (\<lambda>n. without_address (udp_receive True n)) ()"

text \<open>This one lacks the case of a negative timeout, which goes on in non-blocking mode.\<close>

definition udp_receive_timed :: "int \<Rightarrow> bool \<Rightarrow> nat \<Rightarrow> (int \<times> char list, 'a) udp_io" where
  "udp_receive_timed timeout p n =
     (if p \<and> 0 < n then unless (sock_block False) (- 1, [])
        (unless (if 0 < timeout then wait_for_read timeout else ret True) (- 1, []) (sock_receive p n 0))
      else fail AssertFailed)"

definition udp_receive_buffer_timed :: "int \<Rightarrow> stream_buffer \<Rightarrow> (int \<times> unit \<times> stream_buffer, 'a) udp_io" where
  "udp_receive_buffer_timed timeout = receive_buffer ''UdpSocket::Receive : Prepare buffer failed.''
     (\<lambda>n. without_address (udp_receive_timed timeout True n)) ()"

subsection \<open>Rules for runs\<close>

lemma bind_io_Ret: "m s = Ret r s' \<Longrightarrow> bind_io m k s = k r s'"
  by (simp add: bind_io_def)

lemma bind_io_Fault: "m s = Fault x \<Longrightarrow> bind_io m k s = Fault x"
  by (simp add: bind_io_def)

lemmas io_simps = bind_io_def ret_def fail_def get_fd_def put_fd_def gets_def modify_def unless_def and_io_def
  lift_pure_def

text \<open>What a mode switch does that the system accepts.\<close>

definition after_block :: "bool \<Rightarrow> int \<Rightarrow> 'a net_scheme \<Rightarrow> 'a net_scheme" where
  "after_block block flags s =
     log_reply (SysSetFlags (fd s) (if block then and flags (not O_NONBLOCK) else or flags O_NONBLOCK)) (Ok 0)
       (log_reply (SysGetFlags (fd s)) (Ok flags) s)"

lemma log_reply_simps [simp]:
  "fd (log_reply c r s) = fd s" "err (log_reply c r s) = err s" "waits (log_reply c r s) = waits s"
  "replies (log_reply c r s) = tl (replies s)" "trace (log_reply c r s) = trace s @ [(c, r)]"
  "errno (log_reply c (Failed code) s) = code" "errno (log_reply c (Done v data a) s) = errno s"
  by (simp_all add: log_reply_def)

lemma block_accepted:
  assumes "replies s = Ok flags # Ok 0 # rs"
  shows "sock_block block s = Ret True (after_block block flags s)"
    and "replies (after_block block flags s) = rs"
    and "fd (after_block block flags s) = fd s" and "err (after_block block flags s) = err s"
    and "waits (after_block block flags s) = waits s"
  using assms
  by (auto simp: sock_block_def checked_def sys_call_def io_simps after_block_def Let_def)

lemma block_refused:
  assumes "replies s = Ok flags # Failed code # rs"
  shows "\<exists>t. sock_block block s = Ret False t \<and> replies t = rs \<and> fd t = fd s"
proof -
  let ?msg = "on_fd ''Socket::Block'' (fd s) @ bracket (flag_text block)"
  obtain cls where "\<forall>e. control_set_error ?msg code e = set_as cls ?msg code e"
    using controlling.sets [of code ?msg] by blast
  then show ?thesis
    using assms by (simp add: sock_block_def checked_def sys_call_def io_simps Let_def report_def set_as_def)
qed

lemma retry_interrupted:
  assumes "list_all (\<lambda>r. r = Failed EINTR) is"
  shows "\<exists>t. retry c (is @ rs) s = retry c rs t \<and> fd t = fd s \<and> err t = err s \<and> waits t = waits s
    \<and> replies t = drop (length is) (replies s) \<and> trace t = trace s @ map (Pair c) is"
  using assms
proof (induction "is" arbitrary: s)
  case Nil
  then show ?case by (intro exI [of _ s]) simp
next
  case (Cons i "is")
  then have i: "i = Failed EINTR" by simp
  obtain t where t: "retry c (is @ rs) (log_reply c i s) = retry c rs t" "fd t = fd s" "err t = err s"
    "waits t = waits s" "replies t = drop (length is) (tl (replies s))"
    "trace t = (trace s @ [(c, i)]) @ map (Pair c) is"
    using Cons.IH [of "log_reply c i s"] Cons.prems by auto
  have "retry c ((i # is) @ rs) s = retry c rs t"
    using t(1) by (simp add: i is_interrupted_def)
  then show ?case using t by (intro exI [of _ t]) (simp add: i drop_Suc)
qed

lemma sys_retry_failed:
  assumes "replies s = is @ Failed code # rs" and "list_all (\<lambda>r. r = Failed EINTR) is" and "code \<noteq> EINTR"
  shows "\<exists>t. sys_retry c s = Ret None t \<and> errno t = code \<and> fd t = fd s \<and> err t = err s \<and> waits t = waits s
    \<and> replies t = rs \<and> trace t = trace s @ map (Pair c) (is @ [Failed code])"
proof -
  obtain t where t: "retry c (is @ Failed code # rs) s = retry c (Failed code # rs) t" "fd t = fd s" "err t = err s"
    "waits t = waits s" "replies t = drop (length is) (replies s)" "trace t = trace s @ map (Pair c) is"
    using retry_interrupted [OF assms(2)] by blast
  then show ?thesis
    using assms(1,3) by (intro exI [of _ "log_reply c (Failed code) t"])
      (simp add: sys_retry_def is_interrupted_def)
qed

lemma sys_retry_done:
  assumes "replies s = is @ Done v data a # rs" and "list_all (\<lambda>r. r = Failed EINTR) is"
  shows "\<exists>t. sys_retry c s = Ret (Some (v, data, a)) t \<and> fd t = fd s \<and> err t = err s \<and> waits t = waits s
    \<and> replies t = rs \<and> trace t = trace s @ map (Pair c) (is @ [Done v data a])"
proof -
  obtain t where t: "retry c (is @ Done v data a # rs) s = retry c (Done v data a # rs) t" "fd t = fd s" "err t = err s"
    "waits t = waits s" "replies t = drop (length is) (replies s)" "trace t = trace s @ map (Pair c) is"
    using retry_interrupted [OF assms(2)] by blast
  then show ?thesis
    using assms(1) by (intro exI [of _ "log_reply c (Done v data a) t"]) (simp add: sys_retry_def)
qed

lemma report_asserts:
  "setter msg (errno s) (err s) = Fault AssertFailed \<Longrightarrow> report setter msg s = Fault AssertFailed"
  by (simp add: report_def)

lemma connect_asserts:
  assumes "replies s = is @ Failed EINPROGRESS # rs" and "list_all (\<lambda>r. r = Failed EINTR) is"
    and "addr_length a = Ret n ()"
  shows "sock_connect I a s = Fault AssertFailed"
proof -
  obtain t where t: "sys_retry (SysConnect (fd s) a n) s = Ret None t" "errno t = EINPROGRESS"
    using sys_retry_failed [OF assms(1,2)] by (metis numeral_eq_iff semiring_norm(88,89))
  have "on_fd_addr I ''Socket::Connect'' (fd s) a t = Fault AssertFailed
      \<or> (\<exists>msg. on_fd_addr I ''Socket::Connect'' (fd s) a t = Ret msg t)"
    by (auto simp: on_fd_addr_def io_simps addr_string_def addr_length_def addr_port_def split: option.splits)
  then show ?thesis
    using t assms(3) by (auto simp: sock_connect_def io_simps report_def connect_set_error_def)
qed

text \<open>
  The replies by which a non-blocking socket says ``not yet'' stop the program: after the
  mode switch, and any number of interruptions, a send that would block or whose peer is gone, a
  receive with nothing to receive and a connect in progress (on an open socket without a bound
  address) fail the assertion of the error setter, with every timeout that is not negative; so
  the code after a connect in progress, which waits for its end, is never reached.
\<close>

theorem not_ready_asserts:
  assumes "replies s = Ok flags # Ok 0 # is @ Failed code # rs" and "list_all (\<lambda>r. r = Failed EINTR) is"
  shows "(code \<in> {EAGAIN, EPIPE} \<longrightarrow> tcp_send_timed 0 (Some p) s = Fault AssertFailed)
    \<and> (code = EAGAIN \<longrightarrow> tcp_receive_timed 0 True n s = Fault AssertFailed)
    \<and> (code = EINPROGRESS \<and> 0 \<le> timeout \<and> fd s' \<noteq> INVALID_SOCKET \<and> addr_empty (tcp_address s')
        \<and> addr_length a = Ret k () \<and> replies s' = replies s
        \<longrightarrow> tcp_connect_timed I a timeout s' = Fault AssertFailed)"
proof (intro conjI impI; (elim conjE)?)
  let ?t = "after_block False flags s"
  note b = block_accepted [OF assms(1), of False]
  assume "code \<in> {EAGAIN, EPIPE}"
  then have "code \<noteq> EINTR" by auto
  then obtain t where "sys_retry (SysSend (fd s) p 0) ?t = Ret None t" "errno t = code"
    using sys_retry_failed [OF b(2) assms(2)] by blast
  then show "tcp_send_timed 0 (Some p) s = Fault AssertFailed"
    using \<open>code \<in> {EAGAIN, EPIPE}\<close> b(1,3)
    by (auto simp: tcp_send_timed_def sock_send_def io_simps report_def send_set_error_def)
next
  let ?t = "after_block False flags s"
  note b = block_accepted [OF assms(1), of False]
  assume c: "code = EAGAIN"
  then have "code \<noteq> EINTR" by auto
  then obtain t where "sys_retry (SysRecv (fd s) n 0) ?t = Ret None t" "errno t = code"
    using sys_retry_failed [OF b(2) assms(2)] by blast
  then show "tcp_receive_timed 0 True n s = Fault AssertFailed"
    using c b(1,3) by (auto simp: tcp_receive_timed_def sock_receive_def io_simps report_def receive_set_error_def)
next
  assume s': "0 \<le> timeout" "fd s' \<noteq> INVALID_SOCKET" "addr_empty (tcp_address s')" "addr_length a = Ret k ()"
    and c: "code = EINPROGRESS" and "replies s' = replies s"
  then have r: "replies s' = Ok flags # Ok 0 # is @ Failed EINPROGRESS # rs" using assms(1) by simp
  note b = block_accepted [OF r, of False]
  have "sock_connect I a (after_block False flags s') = Fault AssertFailed"
    by (rule connect_asserts [OF b(2) assms(2) s'(4)])
  then show "tcp_connect_timed I a timeout s' = Fault AssertFailed"
    using s' b(1) by (simp add: tcp_connect_timed_def tcp_do_connect_def ensure_open_def sock_valid_def io_simps)
qed

definition demo_tcp :: "reply list \<Rightarrow> tcp" where
  "demo_tcp rs = \<lparr>fd = 5, err = None, replies = rs, waits = [], errno = 0, trace = [], tcp_address = addr_new,
     tcp_peer = addr_new, tcp_reuse_addr = False, tcp_reuse_port = False\<rparr>"

theorem not_ready_asserts_witness:
  "tcp_receive_timed 0 True 100 (demo_tcp [Ok 2, Ok 0, Failed EINTR, Failed EAGAIN]) = Fault AssertFailed
   \<and> tcp_connect_timed demo_inet addr_new 1000 (demo_tcp [Ok 2, Ok 0, Failed EINPROGRESS]) = Fault AssertFailed"
proof -
  have 1: "replies (demo_tcp [Ok 2, Ok 0, Failed EINTR, Failed EAGAIN]) = Ok 2 # Ok 0 # [Failed EINTR] @ Failed EAGAIN # []"
    by (simp add: demo_tcp_def)
  have 2: "replies (demo_tcp [Ok 2, Ok 0, Failed EINPROGRESS]) = Ok 2 # Ok 0 # [] @ Failed EINPROGRESS # []"
    by (simp add: demo_tcp_def)
  have "addr_length addr_new = Ret storage_size ()" "addr_empty addr_new"
    by (simp_all add: addr_length_def addr_new_def addr_empty_def)
  then show ?thesis
    using not_ready_asserts [OF 1, of undefined 100] not_ready_asserts [OF 2, of undefined _ 1000 "demo_tcp [Ok 2, Ok 0, Failed EINPROGRESS]"]
    by (auto simp: demo_tcp_def)
qed

text \<open>
  The timed UDP sends: where the system accepts the mode switch they return -1 without
  having sent anything or set an error, whatever the timeout (if not negative), and the buffer
  forms leave their buffer; the datagram is sent exactly when the switch fails.
\<close>

theorem timed_udp_send_inverted:
  assumes "0 \<le> timeout" and "fd s \<noteq> INVALID_SOCKET" and "\<not> addr_empty a"
    and "replies s = Ok flags # r # rs" and "readable_block b = Ret data ()"
  shows "(r = Ok 0 \<longrightarrow>
       udp_send_timed timeout p s = Ret (- 1) (after_block False flags s)
     \<and> udp_send_to_timed timeout a p s = Ret (- 1) (after_block False flags s)
     \<and> udp_send_buffer_timed timeout b s = Ret (- 1, b) (after_block False flags s)
     \<and> udp_send_buffer_to_timed timeout a b s = Ret (- 1, b) (after_block False flags s)
     \<and> map fst (trace (after_block False flags s))
         = map fst (trace s) @ [SysGetFlags (fd s), SysSetFlags (fd s) (or flags O_NONBLOCK)])
   \<and> (r = Failed code \<and> rs = [Ok v] \<longrightarrow>
       (\<exists>s'. udp_send_timed 0 (Some data) s = Ret v s' \<and> (SysSend (fd s) data 0, Ok v) \<in> set (trace s')))"
proof (intro conjI impI; (elim conjE)?)
  assume "r = Ok 0"
  then have r: "replies s = Ok flags # Ok 0 # rs" using assms(4) by simp
  note b = block_accepted [OF r, of False]
  show 1: "udp_send_timed timeout q s = Ret (- 1) (after_block False flags s)" for q
    using assms(1) b(1) by (simp add: udp_send_timed_def io_simps)
  show 2: "udp_send_to_timed timeout a q s = Ret (- 1) (after_block False flags s)" for q
    using assms(1-3) b(1) by (simp add: udp_send_to_timed_def udp_ensure_open_def ensure_open_def sock_valid_def io_simps)
  show "udp_send_buffer_timed timeout b s = Ret (- 1, b) (after_block False flags s)"
    using 1 assms(5) by (simp add: udp_send_buffer_timed_def send_buffer_def io_simps)
  show "udp_send_buffer_to_timed timeout a b s = Ret (- 1, b) (after_block False flags s)"
    using 2 assms(5) by (simp add: udp_send_buffer_to_timed_def send_buffer_def io_simps)
  show "map fst (trace (after_block False flags s))
     = map fst (trace s) @ [SysGetFlags (fd s), SysSetFlags (fd s) (or flags O_NONBLOCK)]"
    by (simp add: after_block_def)
next
  assume r: "r = Failed code" "rs = [Ok v]"
  have "replies s = Ok flags # Failed code # [Ok v]" using assms(4) r by simp
  then obtain t where t: "sock_block False s = Ret False t" "replies t = [Ok v]" "fd t = fd s"
    using block_refused by blast
  have "udp_send_timed 0 (Some data) s = Ret v (log_reply (SysSend (fd s) data 0) (Ok v) t)"
    using t by (simp add: udp_send_timed_def sock_send_def sys_retry_def io_simps)
  then show "\<exists>s'. udp_send_timed 0 (Some data) s = Ret v s' \<and> (SysSend (fd s) data 0, Ok v) \<in> set (trace s')"
    by auto
qed

definition demo_udp :: "reply list \<Rightarrow> udp" where
  "demo_udp rs = \<lparr>fd = 5, err = None, replies = rs, waits = [], errno = 0, trace = [], udp_address = addr_new,
     udp_reuse_addr = False, udp_reuse_port = False\<rparr>"

theorem timed_udp_send_inverted_witness:
  "udp_send_timed 1000 (Some ''abc'') (demo_udp [Ok 2, Ok 0]) = Ret (- 1) (after_block False 2 (demo_udp [Ok 2, Ok 0]))"
proof -
  let ?b = "\<lparr>bytes = ''abc'', limit = 0, opos = 0, rpos = 0, wpos = 3\<rparr>"
  have "replies (demo_udp [Ok 2, Ok 0]) = Ok 2 # Ok 0 # []" by (simp add: demo_udp_def)
  moreover have "readable_block ?b = Ret ''abc'' ()"
    by (simp add: readable_block_def sb_readable_def sz_sub_def slice_def)
  moreover have "fd (demo_udp [Ok 2, Ok 0]) \<noteq> INVALID_SOCKET" "\<not> addr_empty (addr_reset AF_INET)"
    by (simp_all add: demo_udp_def addr_empty_def)
  ultimately show ?thesis
    using timed_udp_send_inverted [of 1000 "demo_udp [Ok 2, Ok 0]" "addr_reset AF_INET" 2 "Ok 0" "[]" ?b "''abc''" "Some ''abc''"]
    by simp
qed

lemma throw_error_new: "throw_error err_new = None"
  by (simp add: throw_error_def err_class_def err_new_def)

text \<open>
  A failed \<open>listen\<close> or \<open>accept\<close> is not reported: the throwing forms throw nothing and
  return false or -1 for every error code but an interruption, which repeats the call.
\<close>

theorem accept_failure_not_thrown:
  assumes "list_all (\<lambda>r. r = Failed EINTR) is" and "code \<noteq> EINTR"
    and "replies s = Ok flags # Ok 0 # is @ Failed code # rs" and "replies t = Failed code # rs"
  shows "(\<exists>s'. acc_accept_throw s = Ret (Inr INVALID_SOCKET) s' \<and> err s' = err s)
    \<and> (\<exists>s'. acc_accept_timed_throw 0 s = Ret (Inr INVALID_SOCKET) s' \<and> err s' = err s)
    \<and> (\<exists>t'. sock_listen_throw n t = Ret (Inr False) t' \<and> err t' = err t)"
proof -
  have accept: "\<exists>s'. unless (sock_block b) INVALID_SOCKET sock_accept (s\<lparr>err := Some err_new\<rparr>) = Ret (- 1) s'
      \<and> err s' = Some err_new" for b
  proof -
    have r: "replies (s\<lparr>err := Some err_new\<rparr>) = Ok flags # Ok 0 # is @ Failed code # rs" using assms(3) by simp
    note bl = block_accepted [OF r, of b]
    obtain u where "sys_retry (SysAccept (fd s)) (after_block b flags (s\<lparr>err := Some err_new\<rparr>)) = Ret None u"
      "err u = Some err_new"
      using sys_retry_failed [OF bl(2) assms(1,2)] bl(4) by fastforce
    then show ?thesis
      using bl(1,3) by (simp add: sock_accept_def io_simps report_def accept_set_error_def)
  qed
  have 1: "\<exists>s'. acc_accept_throw s = Ret (Inr INVALID_SOCKET) s' \<and> err s' = err s"
  proof -
    obtain u where "unless (sock_block True) INVALID_SOCKET sock_accept (s\<lparr>err := Some err_new\<rparr>) = Ret (- 1) u"
      "err u = Some err_new"
      using accept by blast
    then show ?thesis
      by (auto simp: throw_error_new acc_accept_throw_def acc_accept_def throwing_def)
  qed
  have 2: "\<exists>s'. acc_accept_timed_throw 0 s = Ret (Inr INVALID_SOCKET) s' \<and> err s' = err s"
  proof -
    obtain u where "unless (sock_block False) INVALID_SOCKET sock_accept (s\<lparr>err := Some err_new\<rparr>) = Ret (- 1) u"
      "err u = Some err_new"
      using accept by blast
    then show ?thesis
      by (auto simp: throw_error_new acc_accept_timed_throw_def acc_accept_timed_def throwing_def)
  qed
  have 3: "\<exists>t'. sock_listen_throw n t = Ret (Inr False) t' \<and> err t' = err t"
    using assms(4)
    by (auto simp: throw_error_new sock_listen_throw_def sock_listen_def throwing_def checked_def sys_call_def io_simps report_def
        listen_set_error_def)
  show ?thesis using 1 2 3 by blast
qed

theorem accept_failure_not_thrown_witness:
  "\<exists>s' :: net. acc_accept_throw (fresh_net [Ok 2, Ok 0, Failed EINTR, Failed EMFILE]) = Ret (Inr INVALID_SOCKET) s'"
proof -
  have "list_all (\<lambda>r. r = Failed EINTR) [Failed EINTR]" "EMFILE \<noteq> EINTR"
    and "replies (fresh_net [Ok 2, Ok 0, Failed EINTR, Failed EMFILE]) = Ok 2 # Ok 0 # [Failed EINTR] @ Failed EMFILE # []"
    and "replies (fresh_net [Failed EMFILE]) = Failed EMFILE # []"
    by (simp_all add: fresh_net_def)
  from accept_failure_not_thrown [OF this, of 5] show ?thesis by blast
qed

lemma readable_block_unread: "sb_wf b \<Longrightarrow> readable_block b = Ret (sb_unread b) ()"
  using sb_wfD [of b] length_sb_unread [of b] sb_readable_unread [of b]
  by (simp add: readable_block_def sb_unread_def)

end
