(* ===== verification/EventLoop.thy ===== *)
theory EventLoop
  imports Selector
begin

text \<open>
  \<open>EventLoop\<close> and \<open>EventHandler\<close>: the reactor. The loop owns a selector, the
  \<open>std::map\<close> from descriptors to handlers, the queue of functors and the wake-up pipe; the
  handlers are objects of a store, so that one that was deleted can still be pointed at. The code
  of the application, which callbacks and functors run, is a parameter \<open>env\<close> that takes and
  returns the whole state. The argument \<open>inl\<close> of an operation says whether its caller is the
  loop thread. At the end the same run is given as steps of the loop thread interleaved with the
  calls of other threads.
\<close>

subsection \<open>State\<close>

datatype 'f callback = OnWakeupRead | UserCallback 'f

datatype 'f task = AttachInLoop nat | DetachInLoop nat | UpdateInLoop nat | UserFunctor 'f

record 'f handler =
  hsocket :: int
  hevents :: int
  detached :: bool
  read_callback :: "'f callback option"
  write_callback :: "'f callback option"

record 'f loop =
  stopped :: bool
  lselector :: selector
  handlers :: "(int \<times> nat) list"
  current_handler :: "nat option"
  event_handling :: bool
  queue :: "'f task list"
  queue_invoking :: bool
  pipe_bytes :: nat
  pipe_alive :: bool
  objects :: "nat \<Rightarrow> 'f handler option"

type_synonym ('r, 'f) action = "'f loop \<Rightarrow> ('r, 'f loop) outcome"

type_synonym 'f env = "'f \<Rightarrow> int option \<Rightarrow> (unit, 'f) action"

text \<open>Following the pointer to a handler.\<close>

definition with_handler :: "nat \<Rightarrow> ('f handler \<Rightarrow> ('r, 'f) action) \<Rightarrow> ('r, 'f) action" where
  "with_handler h k L = (case objects L h of None \<Rightarrow> Fault WildPointer | Some ob \<Rightarrow> k ob L)"

definition put_handler :: "nat \<Rightarrow> 'f handler \<Rightarrow> 'f loop \<Rightarrow> 'f loop" where
  "put_handler h ob L = L\<lparr>objects := (objects L)(h := Some ob)\<rparr>"

definition on_selector :: "(selector \<Rightarrow> ('r, selector) outcome) \<Rightarrow> ('r, 'f) action" where
  "on_selector f L = bind_out (f (lselector L)) (\<lambda>r S. Ret r (L\<lparr>lselector := S\<rparr>))"

subsection \<open>The map of handlers\<close>

text \<open>\<open>std::map\<close> is kept in the order of its keys; \<open>operator[]\<close> inserts there.\<close>

fun map_insert :: "int \<Rightarrow> 'a \<Rightarrow> (int \<times> 'a) list \<Rightarrow> (int \<times> 'a) list" where
  "map_insert k v [] = [(k, v)]"
| "map_insert k v ((l, w) # m) =
     (if k < l then (k, v) # (l, w) # m else if k = l then (k, v) # m else (l, w) # map_insert k v m)"

definition set_interest :: "'f handler \<Rightarrow> (bool, 'f) action" where
  "set_interest ob = on_selector (sel_set (hsocket ob) (hevents ob))"

definition register_handler :: "bool \<Rightarrow> nat \<Rightarrow> (bool, 'f) action" where
  "register_handler inl h L =
     (if \<not> inl then Fault AssertFailed
      else with_handler h (\<lambda>ob L.
        set_interest ob
          (if map_of (handlers L) (hsocket ob) = None
           then L\<lparr>handlers := map_insert (hsocket ob) h (handlers L)\<rparr> else L)) L)"

definition update_handler :: "bool \<Rightarrow> nat \<Rightarrow> (bool, 'f) action" where
  "update_handler inl h L =
     (if \<not> inl then Fault AssertFailed
      else with_handler h (\<lambda>ob L.
        if map_of (handlers L) (hsocket ob) = None then Ret False L else set_interest ob L) L)"

text \<open>
  The loop of \<open>RemoveHandler\<close>. After \<open>it = _handlers.erase(it)\<close> the iterator is at the next
  entry, and the selector is told to remove the key found there; behind the last entry there is
  none, and reading it is undefined.
\<close>

fun remove_scan :: "nat \<Rightarrow> (int \<times> nat) list \<Rightarrow> (int \<times> nat) list \<Rightarrow> selector
    \<Rightarrow> ((int \<times> nat) list, selector) outcome" where
  "remove_scan h done [] S = Ret done S"
| "remove_scan h done ((fd, g) # rest) S =
     (if g = h then (case rest of
          [] \<Rightarrow> Fault OutOfBounds
        | (fd', _) # _ \<Rightarrow> bind_out (sel_remove fd' S) (\<lambda>_ S'. remove_scan h done rest S'))
      else remove_scan h (done @ [(fd, g)]) rest S)"

definition remove_handler :: "nat \<Rightarrow> (bool, 'f) action" where
  "remove_handler h L = bind_out (remove_scan h [] (handlers L) (lselector L))
     (\<lambda>m S. Ret True (L\<lparr>handlers := m, lselector := S\<rparr>))"

subsection \<open>Waking up and queueing\<close>

text \<open>
  The pipe of the loop, as far as it is used here: the number of octets written and not yet read,
  and whether reading and writing succeed. Reading from an empty pipe blocks the loop thread.
\<close>

definition wakeup :: "(unit, 'f) action" where
  "wakeup L = (if pipe_alive L then Ret () (L\<lparr>pipe_bytes := pipe_bytes L + 1\<rparr>) else Fault AssertFailed)"

definition on_wakeup_read :: "(unit, 'f) action" where
  "on_wakeup_read L = (if \<not> pipe_alive L then Fault AssertFailed
     else if pipe_bytes L = 0 then Fault BlockedForever
     else Ret () (L\<lparr>pipe_bytes := pipe_bytes L - 1\<rparr>))"

definition stop :: "bool \<Rightarrow> (unit, 'f) action" where
  "stop inl L = (let L = L\<lparr>stopped := True\<rparr> in if inl then Ret () L else wakeup L)"

definition invoke_later :: "bool \<Rightarrow> 'f task \<Rightarrow> (unit, 'f) action" where
  "invoke_later inl f L =
     (let L = L\<lparr>queue := queue L @ [f]\<rparr> in if \<not> inl \<or> queue_invoking L then wakeup L else Ret () L)"

subsection \<open>What runs in the loop\<close>

definition attach_in_loop :: "nat \<Rightarrow> (unit, 'f) action" where
  "attach_in_loop h L = bind_out (register_handler True h L) (\<lambda>ok.
     with_handler h (\<lambda>ob L. Ret () (put_handler h (ob\<lparr>detached := \<not> ok\<rparr>) L)))"

definition detach_in_loop :: "nat \<Rightarrow> (unit, 'f) action" where
  "detach_in_loop h = with_handler h (\<lambda>_ L. bind_out (remove_handler h L) (\<lambda>_.
     with_handler h (\<lambda>ob L. Ret () (put_handler h (ob\<lparr>detached := True\<rparr>) L))))"

definition update_in_loop :: "nat \<Rightarrow> (unit, 'f) action" where
  "update_in_loop h = with_handler h (\<lambda>ob L.
     if detached ob then Fault AssertFailed else map_ret (\<lambda>_. ()) (update_handler True h L))"

fun exec :: "'f env \<Rightarrow> 'f task \<Rightarrow> (unit, 'f) action" where
  "exec env (AttachInLoop h) L = attach_in_loop h L"
| "exec env (DetachInLoop h) L = detach_in_loop h L"
| "exec env (UpdateInLoop h) L = update_in_loop h L"
| "exec env (UserFunctor f) L = env f None L"

definition invoke :: "'f env \<Rightarrow> bool \<Rightarrow> 'f task \<Rightarrow> (unit, 'f) action" where
  "invoke env inl f L = (if inl then exec env f L else invoke_later inl f L)"

subsection \<open>Event handlers\<close>

definition handler_new :: "'f env \<Rightarrow> bool \<Rightarrow> nat \<Rightarrow> int \<Rightarrow> (unit, 'f) action" where
  "handler_new env inl h fd L = invoke env inl (AttachInLoop h)
     (put_handler h \<lparr>hsocket = fd, hevents = 0, detached = True, read_callback = None, write_callback = None\<rparr> L)"

definition set_read_callback :: "nat \<Rightarrow> 'f callback \<Rightarrow> (unit, 'f) action" where
  "set_read_callback h cb = with_handler h (\<lambda>ob L. Ret () (put_handler h (ob\<lparr>read_callback := Some cb\<rparr>) L))"

definition set_write_callback :: "nat \<Rightarrow> 'f callback \<Rightarrow> (unit, 'f) action" where
  "set_write_callback h cb = with_handler h (\<lambda>ob L. Ret () (put_handler h (ob\<lparr>write_callback := Some cb\<rparr>) L))"

text \<open>\<open>Update\<close>, after the four functions that change the mask.\<close>

definition update :: "'f env \<Rightarrow> bool \<Rightarrow> nat \<Rightarrow> (bool, 'f) action" where
  "update env inl h = with_handler h (\<lambda>ob L.
     if \<not> inl then map_ret (\<lambda>_. True) (invoke env inl (UpdateInLoop h) L)
     else if detached ob then Fault AssertFailed
     else update_handler inl h L)"

definition change_events :: "(int \<Rightarrow> int) \<Rightarrow> 'f env \<Rightarrow> bool \<Rightarrow> nat \<Rightarrow> (bool, 'f) action" where
  "change_events g env inl h = with_handler h (\<lambda>ob L.
     update env inl h (put_handler h (ob\<lparr>hevents := g (hevents ob)\<rparr>) L))"

definition enable_reading :: "'f env \<Rightarrow> bool \<Rightarrow> nat \<Rightarrow> (bool, 'f) action" where
  "enable_reading = change_events (\<lambda>ev. or ev SOCKET_EVENT_READ)"

definition disable_reading :: "'f env \<Rightarrow> bool \<Rightarrow> nat \<Rightarrow> (unit, 'f) action" where
  "disable_reading env inl h L = map_ret (\<lambda>_. ()) (change_events (\<lambda>ev. and ev (not SOCKET_EVENT_READ)) env inl h L)"

definition enable_writing :: "'f env \<Rightarrow> bool \<Rightarrow> nat \<Rightarrow> (bool, 'f) action" where
  "enable_writing = change_events (\<lambda>ev. or ev SOCKET_EVENT_WRITE)"

definition disable_writing :: "'f env \<Rightarrow> bool \<Rightarrow> nat \<Rightarrow> (unit, 'f) action" where
  "disable_writing env inl h L = map_ret (\<lambda>_. ()) (change_events (\<lambda>ev. and ev (not SOCKET_EVENT_WRITE)) env inl h L)"

text \<open>
  \<open>Detach\<close>: \<open>Some ok\<close> is its return; \<open>None\<close> is a caller from another thread, which has
  posted the request and waits until \<open>detached\<close> is set.
\<close>

definition detach :: "'f env \<Rightarrow> bool \<Rightarrow> nat \<Rightarrow> (bool option, 'f) action" where
  "detach env inl h = with_handler h (\<lambda>ob L.
     if detached ob then Ret (Some True) L
     else if \<not> inl then map_ret (\<lambda>_. None) (invoke env inl (DetachInLoop h) L)
     else bind_out (remove_handler h L) (\<lambda>ok.
       with_handler h (\<lambda>ob L. Ret (Some ok) (put_handler h (ob\<lparr>detached := ok\<rparr>) L))))"

text \<open>The destructor: \<open>Detach\<close>, and once that has returned the object is gone.\<close>

definition handler_delete :: "'f env \<Rightarrow> bool \<Rightarrow> nat \<Rightarrow> (bool option, 'f) action" where
  "handler_delete env inl h L = bind_out (detach env inl h L) (\<lambda>r L.
     Ret r (if r = None then L else L\<lparr>objects := (objects L)(h := None)\<rparr>))"

text \<open>\<open>HandleEvents\<close>; a callback may delete the handler, whose fields are then read dangling.\<close>

fun run_callback :: "'f env \<Rightarrow> int \<Rightarrow> 'f callback option \<Rightarrow> (unit, 'f) action" where
  "run_callback env fd None L = Ret () L"
| "run_callback env fd (Some OnWakeupRead) L = on_wakeup_read L"
| "run_callback env fd (Some (UserCallback f)) L = env f (Some fd) L"

definition handle_events :: "'f env \<Rightarrow> nat \<Rightarrow> int \<Rightarrow> (unit, 'f) action" where
  "handle_events env h events L =
     bind_out (if has_event events SOCKET_EVENT_READ
               then with_handler h (\<lambda>ob. run_callback env (hsocket ob) (read_callback ob)) L
               else Ret () L) (\<lambda>_ L.
     if has_event events SOCKET_EVENT_WRITE
     then with_handler h (\<lambda>ob. run_callback env (hsocket ob) (write_callback ob)) L
     else Ret () L)"

subsection \<open>The loop\<close>

text \<open>One entry of the ready list: \<open>_handlers[it->fd]\<close> inserts a null pointer if there is none.\<close>

definition dispatch_one :: "'f env \<Rightarrow> int \<times> int \<Rightarrow> (unit, 'f) action" where
  "dispatch_one env se L = (case map_of (handlers L) (fst se) of
       None \<Rightarrow> Fault AssertFailed
     | Some h \<Rightarrow> handle_events env h (snd se) (L\<lparr>current_handler := Some h\<rparr>))"

fun dispatch :: "'f env \<Rightarrow> (int \<times> int) list \<Rightarrow> (unit, 'f) action" where
  "dispatch env [] L = Ret () L"
| "dispatch env (se # ses) L = bind_out (dispatch_one env se L) (\<lambda>_. dispatch env ses)"

definition handle_ready :: "'f env \<Rightarrow> (int \<times> int) list \<Rightarrow> (unit, 'f) action" where
  "handle_ready env ses L = bind_out (dispatch env ses (L\<lparr>event_handling := True\<rparr>))
     (\<lambda>_ L. Ret () (L\<lparr>current_handler := None, event_handling := False\<rparr>))"

fun exec_all :: "'f env \<Rightarrow> 'f task list \<Rightarrow> (unit, 'f) action" where
  "exec_all env [] L = Ret () L"
| "exec_all env (f # fs) L = bind_out (exec env f L) (\<lambda>_. exec_all env fs)"

definition run_queue :: "'f env \<Rightarrow> (unit, 'f) action" where
  "run_queue env L = bind_out (exec_all env (queue L) (L\<lparr>queue_invoking := True, queue := []\<rparr>))
     (\<lambda>_ L. Ret () (L\<lparr>queue_invoking := False\<rparr>))"

definition run_iteration :: "'f env \<Rightarrow> kernel_answer list \<Rightarrow> 'f loop
    \<Rightarrow> ((unit, 'f loop) outcome \<times> kernel_answer list) option" where
  "run_iteration env ks L = map_option (\<lambda>(m, ks').
     (bind_out m (\<lambda>ret (ses, _).
        bind_out (if 0 < ret then handle_ready env ses L else Ret () L) (\<lambda>_. run_queue env)), ks'))
     (sel_select (lselector L) (- 1) ks [] None)"

lemma sel_select_uses: "sel_select S t ks out e = Some (m, ks') \<Longrightarrow> length ks' < length ks"
  by (induction S t ks out e rule: sel_select.induct)
    (auto split: select_answer.splits if_splits)

text \<open>\<open>Run\<close>: it has returned, or it waits in \<open>select\<close> for an answer.\<close>

datatype 'f run = Waiting "'f loop" | Finished "(unit, 'f loop) outcome"

function run_loop :: "'f env \<Rightarrow> kernel_answer list \<Rightarrow> 'f loop \<Rightarrow> 'f run" where
  "run_loop env ks L =
     (if stopped L then Finished (Ret () L)
      else case run_iteration env ks L of
          None \<Rightarrow> Waiting L
        | Some (Fault x, ks') \<Rightarrow> Finished (Fault x)
        | Some (Ret _ L', ks') \<Rightarrow> run_loop env ks' L')"
  by pat_completeness auto
termination
  by (relation "measure (\<lambda>(env, ks, L). length ks)") (auto simp: run_iteration_def dest: sel_select_uses)

declare run_loop.simps [simp del]

text \<open>The wake-up handler is the object 0.\<close>

abbreviation (input) "WAKEUP \<equiv> 0 :: nat"

definition run :: "'f env \<Rightarrow> bool \<Rightarrow> kernel_answer list \<Rightarrow> 'f loop \<Rightarrow> 'f run" where
  "run env inl ks L =
     (if \<not> inl then Finished (Fault AssertFailed)
      else case enable_reading env True WAKEUP (L\<lparr>stopped := False\<rparr>) of
          Fault x \<Rightarrow> Finished (Fault x)
        | Ret _ L' \<Rightarrow> run_loop env ks L')"

definition loop_new :: "'f env \<Rightarrow> int \<Rightarrow> bool \<Rightarrow> (unit, 'f loop) outcome" where
  "loop_new env fd alive =
     bind_out (handler_new env True WAKEUP fd
       \<lparr>stopped = False, lselector = sel_new, handlers = [], current_handler = None, event_handling = False,
        queue = [], queue_invoking = False, pipe_bytes = 0, pipe_alive = alive, objects = (\<lambda>_. None)\<rparr>)
       (\<lambda>_. set_read_callback WAKEUP OnWakeupRead)"

text \<open>The destructor deletes the wake-up handler.\<close>

definition loop_delete :: "'f env \<Rightarrow> bool \<Rightarrow> (bool option, 'f) action" where
  "loop_delete env inl = handler_delete env inl WAKEUP"

subsection \<open>Interleaving with other threads\<close>

text \<open>
  The loop thread is waiting in \<open>select\<close>, has ready entries to dispatch, or has functors to
  run. Its steps are single dispatches and single functors; between them other threads may call
  the operations meant for them.
\<close>

datatype 'f phase = AtSelect | Dispatching "(int \<times> int) list" | Running "'f task list"

datatype 'f call =
    InvokeCall "'f task"
  | StopCall
  | EventsCall "int \<Rightarrow> int" nat
  | DetachCall nat
  | CreateCall nat int

fun other_thread :: "'f env \<Rightarrow> 'f call \<Rightarrow> (unit, 'f) action" where
  "other_thread env (InvokeCall f) L = invoke env False f L"
| "other_thread env StopCall L = stop False L"
| "other_thread env (EventsCall g h) L = map_ret (\<lambda>_. ()) (change_events g env False h L)"
| "other_thread env (DetachCall h) L = map_ret (\<lambda>_. ()) (detach env False h L)"
| "other_thread env (CreateCall h fd) L = handler_new env False h fd L"

text \<open>
  The code of the application in the loop thread, the callbacks and functors behind \<open>env\<close>: a
  program of calls of the loop and of its handlers, each followed by what the application does
  with the result. \<open>Invoke\<close> in the loop thread is the call of the functor, whose calls stand in
  its place.
\<close>

datatype 'f app =
    Return
  | Crash fault
  | CallInvokeLater 'f "'f app"
  | CallStop "'f app"
  | CallEvents "int \<Rightarrow> int" nat "bool \<Rightarrow> 'f app"
  | CallDetach nat "bool option \<Rightarrow> 'f app"
  | CallCreate nat int "'f app"
  | CallDelete nat "bool option \<Rightarrow> 'f app"
  | CallSetRead nat 'f "'f app"
  | CallSetWrite nat 'f "'f app"

primrec run_app :: "'f app \<Rightarrow> 'f env \<Rightarrow> (unit, 'f) action" where
  "run_app Return = (\<lambda>env. Ret ())"
| "run_app (Crash x) = (\<lambda>env L. Fault x)"
| "run_app (CallInvokeLater f p) = (\<lambda>env L. bind_out (invoke_later True (UserFunctor f) L) (\<lambda>_. run_app p env))"
| "run_app (CallStop p) = (\<lambda>env L. bind_out (stop True L) (\<lambda>_. run_app p env))"
| "run_app (CallEvents g h k) = (\<lambda>env L. bind_out (change_events g env True h L) (\<lambda>ok. run_app (k ok) env))"
| "run_app (CallDetach h k) = (\<lambda>env L. bind_out (detach env True h L) (\<lambda>r. run_app (k r) env))"
| "run_app (CallCreate h v p) = (\<lambda>env L. bind_out (handler_new env True h v L) (\<lambda>_. run_app p env))"
| "run_app (CallDelete h k) = (\<lambda>env L. bind_out (handler_delete env True h L) (\<lambda>r. run_app (k r) env))"
| "run_app (CallSetRead h f p) =
     (\<lambda>env L. bind_out (set_read_callback h (UserCallback f) L) (\<lambda>_. run_app p env))"
| "run_app (CallSetWrite h f p) =
     (\<lambda>env L. bind_out (set_write_callback h (UserCallback f) L) (\<lambda>_. run_app p env))"

text \<open>Every callback and functor runs such a program, which may depend on everything.\<close>

definition app_env :: "'f env \<Rightarrow> bool" where
  "app_env env = (\<forall>f v L. \<exists>p. env f v L = run_app p env L)"

inductive loop_step :: "'f env \<Rightarrow> 'f phase \<times> 'f loop \<Rightarrow> 'f phase \<times> 'f loop \<Rightarrow> bool" for env where
  ready: "\<not> stopped L \<Longrightarrow> sel_select (lselector L) (- 1) ks [] None = Some (Ret ret (ses, e), ks') \<Longrightarrow> 0 < ret \<Longrightarrow>
    loop_step env (AtSelect, L) (Dispatching ses, L\<lparr>event_handling := True\<rparr>)"
| failed: "\<not> stopped L \<Longrightarrow> sel_select (lselector L) (- 1) ks [] None = Some (Ret ret (ses, e), ks') \<Longrightarrow> ret \<le> 0 \<Longrightarrow>
    loop_step env (AtSelect, L) (Running (queue L), L\<lparr>queue_invoking := True, queue := []\<rparr>)"
| handle: "dispatch_one env se L = Ret () L' \<Longrightarrow>
    loop_step env (Dispatching (se # ses), L) (Dispatching ses, L')"
| handled: "loop_step env (Dispatching [], L)
    (Running (queue L), L\<lparr>current_handler := None, event_handling := False, queue_invoking := True, queue := []\<rparr>)"
| task: "exec env f L = Ret () L' \<Longrightarrow>
    loop_step env (Running (f # fs), L) (Running fs, L')"
| idle: "loop_step env (Running [], L) (AtSelect, L\<lparr>queue_invoking := False\<rparr>)"
| other: "other_thread env c L = Ret () L' \<Longrightarrow> loop_step env (ph, L) (ph, L')"

inductive_cases loop_stepE: "loop_step env (ph, L) (ph', L')"

definition loop_steps :: "'f env \<Rightarrow> 'f phase \<times> 'f loop \<Rightarrow> 'f phase \<times> 'f loop \<Rightarrow> bool" where
  "loop_steps env = (loop_step env)\<^sup>*\<^sup>*"

lemma steps_dispatch:
  "dispatch env ses L = Ret () L' \<Longrightarrow> loop_steps env (Dispatching ses, L) (Dispatching [], L')"
proof (induction ses arbitrary: L)
  case (Cons se ses)
  then obtain L1 where "dispatch_one env se L = Ret () L1" "dispatch env ses L1 = Ret () L'"
    by (auto simp: bind_out_eq_Ret)
  then show ?case
    using Cons.IH loop_step.handle converse_rtranclp_into_rtranclp
    unfolding loop_steps_def by metis
qed (simp add: loop_steps_def)

lemma steps_exec_all:
  "exec_all env fs L = Ret () L' \<Longrightarrow> loop_steps env (Running fs, L) (Running [], L')"
proof (induction fs arbitrary: L)
  case (Cons f fs)
  then obtain L1 where "exec env f L = Ret () L1" "exec_all env fs L1 = Ret () L'"
    by (auto simp: bind_out_eq_Ret)
  then show ?case
    using Cons.IH loop_step.task converse_rtranclp_into_rtranclp
    unfolding loop_steps_def by metis
qed (simp add: loop_steps_def)

text \<open>An iteration of \<open>Run\<close> that returns is a run of the steps from one wait to the next.\<close>

lemma run_iteration_steps:
  assumes "\<not> stopped L" and "run_iteration env ks L = Some (Ret () L', ks')"
  shows "loop_steps env (AtSelect, L) (AtSelect, L')"
proof -
  obtain ret ses e where s: "sel_select (lselector L) (- 1) ks [] None = Some (Ret ret (ses, e), ks')"
    and r: "bind_out (if 0 < ret then handle_ready env ses L else Ret () L) (\<lambda>_. run_queue env) = Ret () L'"
    using assms(2) by (auto simp: run_iteration_def bind_out_eq_Ret)
  have q: "loop_steps env (Running (queue M), M\<lparr>queue_invoking := True, queue := []\<rparr>) (AtSelect, L')"
    if "run_queue env M = Ret () L'" for M
    using that steps_exec_all loop_step.idle
    by (fastforce simp: run_queue_def bind_out_eq_Ret loop_steps_def intro: rtranclp.rtrancl_into_rtrancl)
  show ?thesis
  proof (cases "0 < ret")
    case True
    then obtain M where "dispatch env ses (L\<lparr>event_handling := True\<rparr>) = Ret () M"
      and M: "run_queue env (M\<lparr>current_handler := None, event_handling := False\<rparr>) = Ret () L'"
      using r by (auto simp: handle_ready_def bind_out_eq_Ret)
    then have "loop_steps env (Dispatching ses, L\<lparr>event_handling := True\<rparr>) (Dispatching [], M)"
      by (simp add: steps_dispatch)
    moreover have "loop_step env (AtSelect, L) (Dispatching ses, L\<lparr>event_handling := True\<rparr>)"
      using assms(1) s True by (rule loop_step.ready)
    ultimately show ?thesis
      using q [OF M] loop_step.handled [of env M] unfolding loop_steps_def
      by (simp add: converse_rtranclp_into_rtranclp rtranclp_trans)
  next
    case False
    then have "loop_step env (AtSelect, L) (Running (queue L), L\<lparr>queue_invoking := True, queue := []\<rparr>)"
      using assms(1) s by (intro loop_step.failed) auto
    then show ?thesis
      using q [of L] r False unfolding loop_steps_def by (simp add: converse_rtranclp_into_rtranclp)
  qed
qed

subsection \<open>No wake-up is lost\<close>

text \<open>
  What the operations the application can call have in common: they leave the flag of the functor
  phase alone, and in that phase what they queue comes with an octet in the pipe.
\<close>

definition tame_action :: "('r, 'f) action \<Rightarrow> bool" where
  "tame_action A = (\<forall>L r L'. A L = Ret r L' \<longrightarrow> queue_invoking L' = queue_invoking L
     \<and> (queue_invoking L \<and> (queue L \<noteq> [] \<longrightarrow> 0 < pipe_bytes L) \<longrightarrow> queue L' \<noteq> [] \<longrightarrow> 0 < pipe_bytes L'))"

definition tame :: "'f env \<Rightarrow> bool" where
  "tame env = (\<forall>f s. tame_action (env f s))"

definition same_queue :: "'f loop \<Rightarrow> 'f loop \<Rightarrow> bool" where
  "same_queue L L' = (queue L' = queue L \<and> pipe_bytes L' = pipe_bytes L \<and> queue_invoking L' = queue_invoking L)"

lemma same_queue_refl [simp]: "same_queue L L"
  and same_queue_trans: "same_queue L M \<Longrightarrow> same_queue M N \<Longrightarrow> same_queue L N"
  by (simp_all add: same_queue_def)

lemma same_queue_updates [simp]:
  "same_queue L (put_handler h ob M) = same_queue L M"
  "same_queue L (M\<lparr>lselector := S\<rparr>) = same_queue L M"
  "same_queue L (M\<lparr>handlers := m\<rparr>) = same_queue L M"
  "same_queue L (M\<lparr>objects := f\<rparr>) = same_queue L M"
  "same_queue L (M\<lparr>stopped := b\<rparr>) = same_queue L M"
  by (simp_all add: same_queue_def put_handler_def)

lemma keeps_with_handler: "(\<And>ob. keeps P (k ob L)) \<Longrightarrow> keeps P (with_handler h k L)"
  by (simp add: with_handler_def split: option.splits)

lemma keeps_on_selector: "(\<And>S. P (L\<lparr>lselector := S\<rparr>)) \<Longrightarrow> keeps P (on_selector f L)"
  by (cases "f (lselector L)") (simp_all add: on_selector_def)

lemma same_queue_register: "keeps (same_queue L) (register_handler inl h L)"
  unfolding register_handler_def set_interest_def
  by (auto intro!: keeps_with_handler keeps_on_selector)

lemma same_queue_update: "keeps (same_queue L) (update_handler inl h L)"
  unfolding update_handler_def set_interest_def
  by (auto intro!: keeps_with_handler keeps_on_selector)

lemma same_queue_remove: "keeps (same_queue L) (remove_handler h L)"
  unfolding remove_handler_def by (cases "remove_scan h [] (handlers L) (lselector L)") simp_all

lemma same_queue_internal:
  "keeps (same_queue L) (attach_in_loop h L)"
  "keeps (same_queue L) (detach_in_loop h L)"
  "keeps (same_queue L) (update_in_loop h L)"
  unfolding attach_in_loop_def detach_in_loop_def update_in_loop_def
  by (auto intro!: keeps_with_handler keeps_bind [OF same_queue_register] keeps_bind [OF same_queue_remove]
      same_queue_update)

lemma tame_same_queue: "(\<And>L. keeps (same_queue L) (A L)) \<Longrightarrow> tame_action A"
proof -
  assume k: "\<And>L. keeps (same_queue L) (A L)"
  have "same_queue L L'" if "A L = Ret r L'" for L r L'
    using k [of L] that by (rule keepsD)
  then show ?thesis unfolding tame_action_def same_queue_def by auto
qed

lemma tame_exec: "tame env \<Longrightarrow> tame_action (exec env f)"
proof (cases f)
  case (UserFunctor u)
  assume "tame env"
  then show ?thesis unfolding tame_def tame_action_def UserFunctor by simp
qed (auto intro!: tame_same_queue same_queue_internal)

lemma wakeup_ret: "wakeup L = Ret u L' \<longleftrightarrow> pipe_alive L \<and> L' = L\<lparr>pipe_bytes := pipe_bytes L + 1\<rparr>"
  by (auto simp: wakeup_def)

lemma tame_invoke_later: "tame_action (invoke_later inl f)"
  by (auto simp: tame_action_def invoke_later_def Let_def wakeup_ret split: if_splits)

lemma tame_invoke: "tame env \<Longrightarrow> tame_action (invoke env inl f)"
  using tame_exec [of env f] tame_invoke_later [of inl f]
  by (cases inl) (simp_all add: invoke_def [abs_def])

lemma tame_bind:
  assumes "tame_action A" and "\<And>r. tame_action (k r)"
  shows "tame_action (\<lambda>L. bind_out (A L) k)"
  unfolding tame_action_def
proof (intro allI impI)
  fix L r L'
  assume "bind_out (A L) k = Ret r L'"
  then obtain q M where "A L = Ret q M" "k q M = Ret r L'" by (auto simp: bind_out_eq_Ret)
  then show "queue_invoking L' = queue_invoking L
      \<and> (queue_invoking L \<and> (queue L \<noteq> [] \<longrightarrow> 0 < pipe_bytes L) \<longrightarrow> queue L' \<noteq> [] \<longrightarrow> 0 < pipe_bytes L')"
    using assms unfolding tame_action_def by metis
qed

lemma same_queue_from:
  "keeps (same_queue M) m \<Longrightarrow> same_queue L M \<Longrightarrow> keeps (same_queue L) m"
  by (cases m) (auto intro: same_queue_trans)

lemma same_queue_set:
  "same_queue L M \<Longrightarrow> keeps (same_queue L) (update_handler True h M)"
  "same_queue L M \<Longrightarrow> keeps (same_queue L) (attach_in_loop h M)"
  by (rule same_queue_from [OF same_queue_update] same_queue_from [OF same_queue_internal(1)], assumption)+

lemma same_queue_detach: "keeps (same_queue L) (detach env True h L)"
  unfolding detach_def
  by (auto intro!: keeps_with_handler keeps_bind [OF same_queue_remove])

lemma same_queue_in_loop:
  "keeps (same_queue L) (change_events g env True h L)"
  "keeps (same_queue L) (handler_new env True h v L)"
  "keeps (same_queue L) (handler_delete env True h L)"
  "keeps (same_queue L) (set_read_callback h cb L)"
  "keeps (same_queue L) (set_write_callback h cb L)"
  "keeps (same_queue L) (stop True L)"
  unfolding change_events_def update_def handler_new_def handler_delete_def invoke_def
    set_read_callback_def set_write_callback_def stop_def Let_def
  by (auto intro!: keeps_with_handler keeps_bind [OF same_queue_detach] same_queue_set)

lemmas same_queue_calls = same_queue_in_loop same_queue_detach

lemma tame_run_app: "tame_action (run_app p env)"
proof (induction p)
  case Return
  then show ?case by (simp add: tame_action_def)
next
  case (Crash x)
  then show ?case by (simp add: tame_action_def)
qed (simp_all add: tame_bind tame_invoke_later tame_same_queue same_queue_calls)

lemma app_env_tame: "app_env env \<Longrightarrow> tame env"
proof -
  assume e: "app_env env"
  have "tame_action (env f v)" for f v
    unfolding tame_action_def
  proof (intro allI impI)
    fix L r L'
    assume r: "env f v L = Ret r L'"
    obtain p where "env f v L = run_app p env L" using e unfolding app_env_def by blast
    with r show "queue_invoking L' = queue_invoking L
        \<and> (queue_invoking L \<and> (queue L \<noteq> [] \<longrightarrow> 0 < pipe_bytes L) \<longrightarrow> queue L' \<noteq> [] \<longrightarrow> 0 < pipe_bytes L')"
      using tame_run_app [of p env] by (simp add: tame_action_def)
  qed
  then show ?thesis by (simp add: tame_def)
qed

text \<open>The phases of the loop thread and what each guarantees.\<close>

fun no_lost_wakeup :: "'f phase \<times> 'f loop \<Rightarrow> bool" where
  "no_lost_wakeup (AtSelect, L) = (\<not> queue_invoking L \<and> (queue L \<noteq> [] \<longrightarrow> 0 < pipe_bytes L))"
| "no_lost_wakeup (Dispatching ses, L) = (\<not> queue_invoking L)"
| "no_lost_wakeup (Running fs, L) = (queue_invoking L \<and> (queue L \<noteq> [] \<longrightarrow> 0 < pipe_bytes L))"

lemma posted_wakes:
  assumes "invoke_later False f L = Ret u L'"
  shows "0 < pipe_bytes L' \<and> queue_invoking L' = queue_invoking L \<and> queue L' = queue L @ [f]"
  using assms by (auto simp: invoke_later_def wakeup_ret)

lemma other_thread_effect:
  assumes "other_thread env c L = Ret u L'"
  shows "queue_invoking L' = queue_invoking L \<and> (0 < pipe_bytes L' \<or> queue L' = queue L \<and> pipe_bytes L' = pipe_bytes L)"
proof (cases c)
  case (InvokeCall f)
  then show ?thesis using assms posted_wakes [of f L u L'] by (auto simp: invoke_def)
next
  case StopCall
  then show ?thesis using assms by (auto simp: stop_def wakeup_ret)
next
  case (EventsCall g h)
  then show ?thesis using assms
    by (auto simp: map_ret_def bind_out_eq_Ret change_events_def update_def with_handler_def invoke_def
        put_handler_def split: option.splits if_splits dest!: posted_wakes)
next
  case (DetachCall h)
  then show ?thesis using assms
    by (auto simp: map_ret_def bind_out_eq_Ret detach_def with_handler_def invoke_def
        split: option.splits if_splits dest!: posted_wakes)
next
  case (CreateCall h fd)
  then show ?thesis using assms
    by (auto simp: handler_new_def invoke_def put_handler_def dest!: posted_wakes)
qed

lemma dispatch_one_flag:
  assumes "tame env" and "dispatch_one env se L = Ret u L'"
  shows "queue_invoking L' = queue_invoking L"
proof -
  have cb: "queue_invoking M' = queue_invoking M" if "run_callback env fd cb M = Ret w M'" for fd cb M w M'
    using that assms(1)
    by (cases "(env, fd, cb, M)" rule: run_callback.cases)
      (auto simp: on_wakeup_read_def tame_def tame_action_def split: if_splits)
  show ?thesis using assms(2)
    by (auto simp: dispatch_one_def handle_events_def with_handler_def bind_out_eq_Ret
        split: option.splits if_splits dest!: cb)
qed

lemma loop_step_wakeup:
  assumes "loop_step env c c'" and "tame env" and "no_lost_wakeup c"
  shows "no_lost_wakeup c'"
  using assms
proof (induction rule: loop_step.induct)
  case (handle se L L' ses)
  then show ?case using dispatch_one_flag by fastforce
next
  case (task f L L' fs)
  then show ?case using tame_exec [of env f] by (auto simp: tame_action_def)
next
  case (other c L L' ph)
  then show ?case using other_thread_effect [of env c L "()" L'] by (cases ph) auto
qed auto

text \<open>
  C2. No wake-up is lost: from a loop that waits, no functor running, with nothing queued or an
  octet in its pipe, whatever callbacks and functors call (each a program of the calls in \<open>app\<close>)
  and whatever other threads call in between, the loop thread never waits in \<open>select\<close> with a
  functor in the queue and no octet in the wake-up pipe; and the flag by which the loop thread
  recognises that it must wake itself is set exactly while functors run. Each call of another
  thread is one step, its push and its wake-up together. The start excludes a functor the loop
  thread queued before \<open>Run\<close>, which waits (\<open>queued_before_run_waits\<close>).
\<close>

theorem waiting_loop_is_woken:
  assumes "app_env env" and "\<not> queue_invoking L0" and "queue L0 \<noteq> [] \<longrightarrow> 0 < pipe_bytes L0"
    and "loop_steps env (AtSelect, L0) (ph, L)"
  shows "(ph = AtSelect \<and> queue L \<noteq> [] \<longrightarrow> 0 < pipe_bytes L)
    \<and> (queue_invoking L \<longleftrightarrow> (\<exists>fs. ph = Running fs))"
proof -
  have "no_lost_wakeup (ph, L)"
    using assms(4) unfolding loop_steps_def
  proof (induction rule: rtranclp_induct)
    case base
    then show ?case using assms(2,3) by simp
  qed (rule loop_step_wakeup [OF _ app_env_tame [OF assms(1)]])
  then show ?thesis by (cases ph) auto
qed

definition demo_loop :: "unit loop" where
  "demo_loop = \<lparr>stopped = False, lselector = sel_new, handlers = [], current_handler = None, event_handling = False,
     queue = [], queue_invoking = False, pipe_bytes = 0, pipe_alive = True, objects = (\<lambda>_. None)\<rparr>"

text \<open>A functor that queues itself again.\<close>

definition demo_env :: "unit env" where
  "demo_env f v = invoke_later True (UserFunctor ())"

lemma demo_env_app: "app_env demo_env"
proof -
  have "demo_env f v L = run_app (CallInvokeLater () Return) demo_env L" for f v L
    by (cases "invoke_later True (UserFunctor ()) L :: (unit, unit loop) outcome") (simp_all add: demo_env_def)
  then show ?thesis unfolding app_env_def by blast
qed

theorem waiting_loop_is_woken_witness:
  "app_env demo_env \<and> (\<exists>L. loop_steps demo_env (AtSelect, demo_loop) (AtSelect, L) \<and> queue L = [UserFunctor ()]
     \<and> 0 < pipe_bytes L)"
proof -
  let ?L = "demo_loop\<lparr>queue := [UserFunctor ()], pipe_bytes := 1\<rparr>"
  have "other_thread demo_env (InvokeCall (UserFunctor ())) demo_loop = Ret () ?L"
    by (simp add: invoke_def invoke_later_def wakeup_def demo_loop_def)
  then have s: "loop_steps demo_env (AtSelect, demo_loop) (AtSelect, ?L)"
    unfolding loop_steps_def using loop_step.other by blast
  have "(AtSelect :: unit phase) = AtSelect \<and> queue ?L \<noteq> [] \<longrightarrow> 0 < pipe_bytes ?L"
    using waiting_loop_is_woken [OF demo_env_app _ _ s] by (simp add: demo_loop_def)
  then show ?thesis using demo_env_app s by (auto intro!: exI [of _ ?L])
qed

text \<open>
  The exception is the time before \<open>Run\<close>: a functor queued then by the loop thread brings no
  octet, and \<open>Run\<close> waits with it in the queue.
\<close>

lemma queued_before_run_waits:
  assumes "\<not> queue_invoking L"
  shows "invoke_later True f L = Ret () (L\<lparr>queue := queue L @ [f]\<rparr>)"
  using assms by (simp add: invoke_later_def)

text \<open>A \<open>Stop\<close> that comes before \<open>Run\<close> is undone by it.\<close>

lemma stop_before_run_undone:
  "run env inl ks (L\<lparr>stopped := True\<rparr>) = run env inl ks L"
  by (simp add: run_def)

subsection \<open>Removing a handler\<close>

lemma remove_scan_skip:
  "h \<notin> snd ` set pre \<Longrightarrow> remove_scan h done (pre @ rest) S = remove_scan h (done @ pre) rest S"
  by (induction pre arbitrary: "done") auto

lemma remove_scan_absent: "h \<notin> snd ` set m \<Longrightarrow> remove_scan h done m S = Ret (done @ m) S"
  using remove_scan_skip [of h m "done" "[]" S] by simp

text \<open>
  C33. Removing a handler: where its descriptor is the greatest in the map (as when it is the only
  one, so in the destructor of a loop whose other handlers are gone) the removal reads past the end of the map. Otherwise
  the handler leaves the map, but the selector forgets the interest of the \<^emph>\<open>next\<close> handler and
  keeps that of the removed one; as soon as the kernel reports that descriptor, dispatching it
  fails the assertion on the null handler.
\<close>

theorem removal_hits_next_handler:
  assumes "handlers L = pre @ (fd, h) # post" and "h \<notin> snd ` set pre \<union> snd ` set post"
    and "distinct (map fst (handlers L))"
    and "tracks (lselector L) m" and "list_all (fd_ok \<circ> fst) (handlers L)"
  shows "case post of
      [] \<Rightarrow> remove_handler h L = Fault OutOfBounds
    | (fd', _) # _ \<Rightarrow> (\<exists>L'. remove_handler h L = Ret True L' \<and> handlers L' = pre @ post
         \<and> tracks (lselector L') (m(fd' := 0)) \<and> fd' \<noteq> fd
         \<and> dispatch_one env (fd, ev) L' = Fault AssertFailed)"
proof -
  have scan: "remove_scan h [] (handlers L) (lselector L) = remove_scan h pre ((fd, h) # post) (lselector L)"
    using assms(1,2) remove_scan_skip [of h pre "[]"] by simp
  show ?thesis
  proof (cases post)
    case Nil
    then show ?thesis using scan by (simp add: remove_handler_def)
  next
    case (Cons p post')
    obtain fd' g where p: "p = (fd', g)" by force
    have "fd_ok fd'" using assms(1,5) Cons p by simp
    from sel_set_tracks [OF assms(4) this, of 0] obtain S' where
      S': "sel_remove fd' (lselector L) = Ret () S'" "tracks S' (m(fd' := 0))"
      by (auto simp: sel_set_def map_ret_def bind_out_eq_Ret)
    have rest: "remove_scan h pre post S' = Ret (pre @ post) S'"
      using assms(2) by (intro remove_scan_absent) auto
    let ?L' = "L\<lparr>handlers := pre @ post, lselector := S'\<rparr>"
    have "remove_handler h L = Ret True ?L'"
      using scan S'(1) rest Cons p by (simp add: remove_handler_def del: remove_scan.simps(2))
        (simp add: Cons p)
    moreover have "fd' \<noteq> fd" using assms(1,3) Cons p by auto
    moreover have none: "map_of (handlers ?L') fd = None"
      using assms(1,3) by (simp add: map_of_eq_None_iff)
    have "dispatch_one env (fd, ev) ?L' = Fault AssertFailed"
      unfolding dispatch_one_def fst_conv none by (simp only: option.case)
    ultimately show ?thesis using S'(2) \<open>fd' \<noteq> fd\<close> Cons p by auto
  qed
qed

theorem removal_hits_next_handler_witness:
  "\<exists>L' :: unit loop. remove_handler 1 (demo_loop\<lparr>handlers := [(3, 1), (5, 2)],
      lselector := \<lparr>descriptors = [5, 3], read_set = {3, 5}, write_set = {}, except_set = {}\<rparr>\<rparr>) = Ret True L'
    \<and> handlers L' = [(5, 2)] \<and> tracks (lselector L') ((\<lambda>_. 0)(3 := 1))
    \<and> dispatch_one demo_env (3, 1) L' = Fault AssertFailed"
proof -
  let ?S = "\<lparr>descriptors = [5, 3], read_set = {3, 5}, write_set = {}, except_set = {}\<rparr>"
  let ?L = "demo_loop\<lparr>handlers := [(3, 1), (5, 2)], lselector := ?S\<rparr>"
  have t: "tracks (lselector ?L) ((\<lambda>_. 0)(3 := 1, 5 := 1))"
    by (auto simp: tracks_def fd_ok_def has_event_def)
  have u: "(\<lambda>_ :: int. 0 :: int)(3 := 1, 5 := 1, 5 := 0) = (\<lambda>_. 0)(3 := 1)" by auto
  show ?thesis
    using removal_hits_next_handler [of ?L "[]" 3 1 "[(5, 2)]", OF _ _ _ t] u by (auto simp: fd_ok_def)
qed

subsection \<open>Registration\<close>

text \<open>The interest the handlers of the map have, and a loop whose selector agrees with it.\<close>

definition wanted :: "'f loop \<Rightarrow> int \<Rightarrow> int" where
  "wanted L fd = (case map_of (handlers L) fd of None \<Rightarrow> 0
     | Some h \<Rightarrow> (case objects L h of None \<Rightarrow> 0 | Some ob \<Rightarrow> hevents ob))"

text \<open>Every handler object is registered under its descriptor and attached.\<close>

definition in_sync :: "'f loop \<Rightarrow> bool" where
  "in_sync L = (tracks (lselector L) (wanted L) \<and> sorted_wrt (<) (map fst (handlers L))
     \<and> (\<forall>(fd, h) \<in> set (handlers L). fd_ok fd \<and> (\<exists>ob. objects L h = Some ob \<and> hsocket ob = fd))
     \<and> (\<forall>h ob. objects L h = Some ob \<longrightarrow> (hsocket ob, h) \<in> set (handlers L) \<and> \<not> detached ob))"

lemma map_insert_set:
  "k \<notin> fst ` set m \<Longrightarrow> set (map_insert k v m) = insert (k, v) (set m)"
  by (induction k v m rule: map_insert.induct) auto

lemma map_insert_sorted:
  "k \<notin> fst ` set m \<Longrightarrow> sorted_wrt (<) (map fst m) \<Longrightarrow> sorted_wrt (<) (map fst (map_insert k v m))"
  by (induction k v m rule: map_insert.induct) (auto simp: map_insert_set)

lemma map_insert_lookup:
  "map_of (map_insert k v m) = (map_of m)(k \<mapsto> v)"
  by (induction k v m rule: map_insert.induct) (auto simp: fun_eq_iff)

lemma in_sync_lookup:
  assumes "in_sync L"
  shows "map_of (handlers L) fd = Some h \<longleftrightarrow> (\<exists>ob. objects L h = Some ob \<and> hsocket ob = fd)"
proof -
  have "distinct (map fst (handlers L))"
    using assms unfolding in_sync_def by (simp add: strict_sorted_iff)
  then show ?thesis using assms by (force simp: in_sync_def)
qed

text \<open>The abstract registry: descriptor and mask of every handler.\<close>

type_synonym registry = "nat \<Rightarrow> (int \<times> int) option"

definition registry_of :: "'f loop \<Rightarrow> registry" where
  "registry_of L h = map_option (\<lambda>ob. (hsocket ob, hevents ob)) (objects L h)"

datatype registry_call = Register nat int | Change nat "int \<Rightarrow> int"

fun registry_step :: "registry_call \<Rightarrow> registry \<Rightarrow> registry option" where
  "registry_step (Register h fd) R =
     (if R h = None \<and> fd_ok fd \<and> fd \<notin> fst ` ran R then Some (R(h \<mapsto> (fd, 0))) else None)"
| "registry_step (Change h g) R = map_option (\<lambda>(fd, ev). R(h \<mapsto> (fd, g ev))) (R h)"

fun registry_run :: "registry_call list \<Rightarrow> registry \<Rightarrow> registry option" where
  "registry_run [] R = Some R"
| "registry_run (c # cs) R = Option.bind (registry_step c R) (registry_run cs)"

fun loop_call :: "'f env \<Rightarrow> registry_call \<Rightarrow> (unit, 'f) action" where
  "loop_call env (Register h fd) L = handler_new env True h fd L"
| "loop_call env (Change h g) L = map_ret (\<lambda>_. ()) (change_events g env True h L)"

fun loop_calls :: "'f env \<Rightarrow> registry_call list \<Rightarrow> (unit, 'f) action" where
  "loop_calls env [] L = Ret () L"
| "loop_calls env (c # cs) L = bind_out (loop_call env c L) (\<lambda>_. loop_calls env cs)"

lemma in_sync_register:
  assumes s: "in_sync L" and h: "objects L h = None" and fd: "fd_ok fd" "fd \<notin> fst ` ran (registry_of L)"
  shows "\<exists>L'. handler_new env True h fd L = Ret () L' \<and> in_sync L'
    \<and> registry_of L' = (registry_of L)(h \<mapsto> (fd, 0))"
proof -
  have new: "map_of (handlers L) fd = None"
  proof (rule ccontr)
    assume "map_of (handlers L) fd \<noteq> None"
    then obtain g ob where "objects L g = Some ob" "hsocket ob = fd"
      using in_sync_lookup [OF s] by auto
    then have "(fd, hevents ob) \<in> ran (registry_of L)"
      by (auto simp: ran_def registry_of_def)
    then show False using fd(2) by force
  qed
  then have fresh: "fd \<notin> fst ` set (handlers L)" by (simp add: map_of_eq_None_iff)
  let ?ob = "\<lparr>hsocket = fd, hevents = 0, detached = True, read_callback = None, write_callback = None\<rparr>"
  obtain S' where S': "sel_set fd 0 (lselector L) = Ret True S'" "tracks S' ((wanted L)(fd := 0))"
    using sel_set_tracks [of "lselector L" "wanted L" fd 0] s fd(1) by (auto simp: in_sync_def)
  let ?L' = "L\<lparr>handlers := map_insert fd h (handlers L), lselector := S',
     objects := (objects L)(h \<mapsto> ?ob\<lparr>detached := False\<rparr>)\<rparr>"
  have r: "handler_new env True h fd L = Ret () ?L'"
    using new S'(1)
    by (simp add: handler_new_def invoke_def put_handler_def attach_in_loop_def register_handler_def
        with_handler_def set_interest_def on_selector_def)
  have "wanted ?L' = (wanted L)(fd := 0)"
  proof (rule ext)
    fix x
    show "wanted ?L' x = ((wanted L)(fd := 0)) x"
      using in_sync_lookup [OF s, of x] h
      by (cases "map_of (handlers L) x") (auto simp: wanted_def map_insert_lookup)
  qed
  then have "in_sync ?L'"
    using s S'(2) h fd(1) fresh map_insert_sorted [OF fresh, of h]
    by (auto simp: in_sync_def map_insert_set [OF fresh])
  moreover have "registry_of ?L' = (registry_of L)(h \<mapsto> (fd, 0))"
    by (auto simp: registry_of_def)
  ultimately show ?thesis using r by blast
qed

lemma in_sync_change:
  assumes s: "in_sync L" and h: "registry_of L h = Some (fd, ev)"
  shows "\<exists>L'. change_events g env True h L = Ret True L' \<and> in_sync L'
    \<and> registry_of L' = (registry_of L)(h \<mapsto> (fd, g ev))"
proof -
  obtain ob where ob: "objects L h = Some ob" "hsocket ob = fd" "hevents ob = ev"
    using h by (auto simp: registry_of_def)
  have reg: "map_of (handlers L) fd = Some h" using in_sync_lookup [OF s] ob by auto
  have o: "fd_ok fd" "\<not> detached ob" using s ob by (auto simp: in_sync_def)
  obtain S' where S': "sel_set fd (g ev) (lselector L) = Ret True S'" "tracks S' ((wanted L)(fd := g ev))"
    using sel_set_tracks [of "lselector L" "wanted L" fd "g ev"] s o(1) by (auto simp: in_sync_def)
  let ?L' = "L\<lparr>lselector := S', objects := (objects L)(h \<mapsto> ob\<lparr>hevents := g ev\<rparr>)\<rparr>"
  have r: "change_events g env True h L = Ret True ?L'"
    using ob o reg S'(1)
    by (simp add: change_events_def update_def update_handler_def with_handler_def put_handler_def
        set_interest_def on_selector_def)
  have "wanted ?L' = (wanted L)(fd := g ev)"
  proof (rule ext)
    fix x
    show "wanted ?L' x = ((wanted L)(fd := g ev)) x"
      using in_sync_lookup [OF s, of x] ob reg
      by (cases "map_of (handlers L) x") (auto simp: wanted_def)
  qed
  then have "in_sync ?L'" using s S'(2) ob by (auto simp: in_sync_def)
  moreover have "registry_of ?L' = (registry_of L)(h \<mapsto> (fd, g ev))"
    using ob by (auto simp: registry_of_def)
  ultimately show ?thesis using r by blast
qed

lemma in_sync_callbacks:
  assumes s: "in_sync L" and h: "registry_of L h = Some r"
  shows "\<exists>L'. set_read_callback h cb L = Ret () L' \<and> in_sync L' \<and> registry_of L' = registry_of L"
    and "\<exists>L'. set_write_callback h cb L = Ret () L' \<and> in_sync L' \<and> registry_of L' = registry_of L"
proof -
  obtain ob where ob: "objects L h = Some ob" using h by (auto simp: registry_of_def)
  have "in_sync (L\<lparr>objects := (objects L)(h \<mapsto> ob')\<rparr>) \<and> registry_of (L\<lparr>objects := (objects L)(h \<mapsto> ob')\<rparr>) = registry_of L"
    if "hsocket ob' = hsocket ob" "hevents ob' = hevents ob" "detached ob' = detached ob" for ob'
  proof -
    let ?L = "L\<lparr>objects := (objects L)(h \<mapsto> ob')\<rparr>"
    have "wanted ?L = wanted L" using ob that by (auto simp: wanted_def fun_eq_iff split: option.splits)
    then have "in_sync ?L" using s ob that by (auto simp: in_sync_def)
    moreover have "registry_of ?L = registry_of L" using ob that by (auto simp: registry_of_def fun_eq_iff)
    ultimately show ?thesis by simp
  qed
  note same = this
  show "\<exists>L'. set_read_callback h cb L = Ret () L' \<and> in_sync L' \<and> registry_of L' = registry_of L"
    using same [of "ob\<lparr>read_callback := Some cb\<rparr>"] ob
    by (simp add: set_read_callback_def with_handler_def put_handler_def)
  show "\<exists>L'. set_write_callback h cb L = Ret () L' \<and> in_sync L' \<and> registry_of L' = registry_of L"
    using same [of "ob\<lparr>write_callback := Some cb\<rparr>"] ob
    by (simp add: set_write_callback_def with_handler_def put_handler_def)
qed

lemma loop_calls_registry:
  assumes "in_sync L" and "registry_run cs (registry_of L) = Some R"
  shows "\<exists>L'. loop_calls env cs L = Ret () L' \<and> in_sync L' \<and> registry_of L' = R"
  using assms
proof (induction cs arbitrary: L)
  case (Cons c cs)
  obtain R1 where R1: "registry_step c (registry_of L) = Some R1" "registry_run cs R1 = Some R"
    using Cons.prems(2) by (auto simp: bind_eq_Some_conv)
  have "\<exists>L1. loop_call env c L = Ret () L1 \<and> in_sync L1 \<and> registry_of L1 = R1"
  proof (cases c)
    case (Register h fd)
    then have "objects L h = None" "fd_ok fd" "fd \<notin> fst ` ran (registry_of L)"
      and "R1 = (registry_of L)(h \<mapsto> (fd, 0))"
      using R1(1) by (auto simp: registry_of_def split: if_splits)
    then show ?thesis using in_sync_register [OF Cons.prems(1), of h fd env] Register by auto
  next
    case (Change h g)
    then obtain fd ev where "registry_of L h = Some (fd, ev)" "R1 = (registry_of L)(h \<mapsto> (fd, g ev))"
      using R1(1) by auto
    then show ?thesis using in_sync_change [OF Cons.prems(1), of h fd ev g env] Change by auto
  qed
  then show ?case using Cons.IH R1(2) by fastforce
qed simp

lemma loop_new_in_sync:
  assumes "fd_ok fd"
  shows "\<exists>L. loop_new env fd True = Ret () L \<and> in_sync L \<and> registry_of L = [WAKEUP \<mapsto> (fd, 0)]"
proof -
  define B :: "'a loop" where "B = \<lparr>stopped = False, lselector = sel_new, handlers = [], current_handler = None,
        event_handling = False, queue = [], queue_invoking = False, pipe_bytes = 0, pipe_alive = True,
        objects = (\<lambda>_. None)\<rparr>"
  have "wanted B = (\<lambda>_. 0)" by (simp add: B_def wanted_def fun_eq_iff)
  then have "in_sync B" using tracks_new by (simp add: in_sync_def B_def)
  moreover have r: "registry_of B = Map.empty" by (simp add: registry_of_def B_def fun_eq_iff)
  ultimately obtain L where L: "handler_new env True WAKEUP fd B = Ret () L" "in_sync L"
    "registry_of L = [WAKEUP \<mapsto> (fd, 0)]"
    using in_sync_register [of B WAKEUP fd env] assms by (auto simp: B_def)
  then have "registry_of L WAKEUP = Some (fd, 0)" by simp
  then obtain ob where ob: "objects L WAKEUP = Some ob" by (auto simp: registry_of_def)
  let ?L' = "L\<lparr>objects := (objects L)(WAKEUP \<mapsto> ob\<lparr>read_callback := Some OnWakeupRead\<rparr>)\<rparr>"
  have "loop_new env fd True = Ret () ?L'"
    using L(1) ob by (simp add: loop_new_def B_def set_read_callback_def with_handler_def put_handler_def)
  moreover have "wanted ?L' = wanted L"
    using ob by (auto simp: wanted_def fun_eq_iff split: option.splits)
  then have "in_sync ?L'" using L(2) ob by (auto simp: in_sync_def)
  moreover have "registry_of ?L' = registry_of L"
    using ob by (auto simp: registry_of_def fun_eq_iff)
  ultimately show ?thesis using L(3) by auto
qed

text \<open>
  C8. Registration as far as it goes: from a new loop, any sequence of handler creations in the
  loop thread on fresh descriptors from 0 to 1023 and of changes of their masks runs without
  fault and leaves the handlers an abstract registry predicts; whatever the kernel then answers
  with a positive count, each reported descriptor has its handler in the map, an object that is
  attached and asked for all the events reported.
\<close>

theorem ready_entries_have_handlers:
  assumes "fd_ok fd0" and "registry_run cs [WAKEUP \<mapsto> (fd0, 0)] = Some R"
  shows "\<exists>L0 L. loop_new env fd0 True = Ret () L0 \<and> loop_calls env cs L0 = Ret () L \<and> registry_of L = R
    \<and> (\<forall>k n A W E. select_contract k \<and> k (sel_call (lselector L) (- 1)) = SelectReturned n A W E \<and> 0 < n \<longrightarrow>
        (\<exists>ses. sel_select (lselector L) (- 1) [k] [] None = Some (Ret (int n) (ses, None), [])
          \<and> (\<forall>(fd, ev) \<in> set ses. \<exists>h mask. map_of (handlers L) fd = Some h \<and> R h = Some (fd, mask)
               \<and> (\<forall>x \<in> {SOCKET_EVENT_READ, SOCKET_EVENT_WRITE, SOCKET_EVENT_EXCEPT}. has_event ev x \<longrightarrow> has_event mask x))))"
proof -
  obtain L0 where L0: "loop_new env fd0 True = Ret () L0" "in_sync L0" "registry_of L0 = [WAKEUP \<mapsto> (fd0, 0)]"
    using loop_new_in_sync [OF assms(1)] by blast
  then obtain L where L: "loop_calls env cs L0 = Ret () L" "in_sync L" "registry_of L = R"
    using loop_calls_registry assms(2) by metis
  have t: "tracks (lselector L) (wanted L)" using L(2) by (simp add: in_sync_def)
  have handler: "\<exists>h. map_of (handlers L) fd = Some h \<and> R h = Some (fd, wanted L fd)"
    if "fd \<in> set (descriptors (lselector L))" for fd
  proof -
    have "wanted L fd \<noteq> 0" using t that by (simp add: tracks_def)
    then show ?thesis using in_sync_lookup [OF L(2), of fd] L(3)
      by (auto simp: wanted_def registry_of_def split: option.splits)
  qed
  have ready: "\<exists>ses. sel_select (lselector L) (- 1) [k] [] None = Some (Ret (int n) (ses, None), [])
        \<and> (\<forall>(fd, ev) \<in> set ses. \<exists>h mask. map_of (handlers L) fd = Some h \<and> R h = Some (fd, mask)
          \<and> (\<forall>x \<in> {SOCKET_EVENT_READ, SOCKET_EVENT_WRITE, SOCKET_EVENT_EXCEPT}. has_event ev x \<longrightarrow> has_event mask x))"
    if k: "select_contract k" "k (sel_call (lselector L) (- 1)) = SelectReturned n A W E" "0 < n" for k n A W E
  proof -
    let ?ses = "sel_collect (descriptors (lselector L)) A W E"
    have "\<forall>(fd, ev) \<in> set ?ses. \<exists>h mask. map_of (handlers L) fd = Some h \<and> R h = Some (fd, mask)
        \<and> (\<forall>x \<in> {SOCKET_EVENT_READ, SOCKET_EVENT_WRITE, SOCKET_EVENT_EXCEPT}. has_event ev x \<longrightarrow> has_event mask x)"
      using wait_events_wanted [of "lselector L" "wanted L" k "- 1" n A W E] t k handler by (fastforce simp: sel_collect_set)
    moreover have "sel_select (lselector L) (- 1) [k] [] None = Some (Ret (int n) (?ses, None), [])"
      using wait_returns [of "lselector L" "wanted L" k "- 1" n A W E "[]" "[]" "[]" None] t k by simp
    ultimately show ?thesis by blast
  qed
  show ?thesis
    by (intro exI [of _ L0] exI [of _ L] conjI L0(1) L(1,3)) (use ready in blast)
qed

theorem ready_entries_have_handlers_witness:
  "\<exists>L0 L R. loop_new demo_env 3 True = Ret () L0
    \<and> loop_calls demo_env [Change WAKEUP (\<lambda>ev. or ev 1), Register 1 5, Change 1 (\<lambda>ev. or ev 2)] L0 = Ret () L
    \<and> registry_of L = R \<and> R 1 = Some (5, 2)"
proof -
  have r: "registry_run [Change WAKEUP (\<lambda>ev. or ev 1), Register 1 5, Change 1 (\<lambda>ev. or ev 2)] [WAKEUP \<mapsto> (3, 0)]
      = Some [WAKEUP \<mapsto> (3, 1), 1 \<mapsto> (5, 2)]"
    by (auto simp: fd_ok_def ran_def)
  have "fd_ok 3" by (simp add: fd_ok_def)
  from ready_entries_have_handlers [OF this r, of demo_env]
  obtain L0 L :: "unit loop" where "loop_new demo_env 3 True = Ret () L0"
    "loop_calls demo_env [Change WAKEUP (\<lambda>ev. or ev 1), Register 1 5, Change 1 (\<lambda>ev. or ev 2)] L0 = Ret () L"
    "registry_of L = [WAKEUP \<mapsto> (3, 1), 1 \<mapsto> (5, 2)]"
    by blast
  then show ?thesis by (intro exI [of _ L0] exI [of _ L] exI [of _ "[WAKEUP \<mapsto> (3, 1), 1 \<mapsto> (5, 2)]"]) simp
qed

end
