(* ===== verification/Reactor.thy ===== *)
theory Reactor
  imports TcpUdp EventLoop
begin

text \<open>
  What the asynchronous sockets share: the pointer to the event loop, the handler that ties the
  socket to it, and the steps the three classes repeat. The state of the loop is part of the
  state of the socket; where that part lies in the record of a class is given by its selector
  and its update function, the arguments \<open>get\<close> and \<open>upd\<close>.
\<close>

subsection \<open>State\<close>

text \<open>The callbacks a socket binds, and the functors and callbacks of the application.\<close>

datatype 'u bound = OnRead | OnWrite | AppCode 'u

text \<open>
  \<open>allocations\<close> is what \<open>new (std::nothrow) EventHandler\<close> yields, call by call: the address
  of an object, or none for the null pointer; so does an empty list.
\<close>

record 'u reactor =
  rloop :: "'u bound loop option"
  rhandler :: "nat option"
  allocations :: "nat option list"

type_synonym ('u, 's) getter = "'s \<Rightarrow> 'u reactor"
type_synonym ('u, 's) updater = "('u reactor \<Rightarrow> 'u reactor) \<Rightarrow> 's \<Rightarrow> 's"

definition on_loop :: "('u, 's) getter \<Rightarrow> ('u, 's) updater \<Rightarrow> ('r, 'u bound) action \<Rightarrow> 's \<Rightarrow> ('r, 's) outcome" where
  "on_loop get upd A s = (case rloop (get s) of None \<Rightarrow> Fault WildPointer
     | Some L \<Rightarrow> bind_out (A L) (\<lambda>r L'. Ret r (upd (rloop_update (\<lambda>_. Some L')) s)))"

definition allocate :: "('u, 's) getter \<Rightarrow> ('u, 's) updater \<Rightarrow> 's \<Rightarrow> (nat option, 's) outcome" where
  "allocate get upd s = (case allocations (get s) of [] \<Rightarrow> Ret None s
     | a # as \<Rightarrow> Ret a (upd (allocations_update (\<lambda>_. as)) s))"

definition put_rhandler :: "('u, 's) updater \<Rightarrow> nat option \<Rightarrow> 's \<Rightarrow> (unit, 's) outcome" where
  "put_rhandler upd h s = Ret () (upd (rhandler_update (\<lambda>_. h)) s)"

text \<open>Following the pointer \<open>_handler\<close>, with the fault of a null pointer where there is no test.\<close>

definition on_handler :: "('u, 'a net_scheme) getter \<Rightarrow> ('u, 'a net_scheme) updater \<Rightarrow> fault
    \<Rightarrow> (nat \<Rightarrow> ('r, 'u bound) action) \<Rightarrow> ('r, 'a) io" where
  "on_handler get upd x A = bind_io (gets (\<lambda>s. rhandler (get s))) (\<lambda>h. case h of
     None \<Rightarrow> fail x | Some h \<Rightarrow> on_loop get upd (A h))"

subsection \<open>Creating the handler\<close>

text \<open>
  \<open>if(!_handler)\<close> and its block: the handler is constructed, which registers it or queues
  that, and then given its callbacks.
\<close>

definition make_handler :: "('u, 'a net_scheme) getter \<Rightarrow> ('u, 'a net_scheme) updater \<Rightarrow> 'u bound env \<Rightarrow> bool
    \<Rightarrow> char list \<Rightarrow> bool \<Rightarrow> (bool, 'a) io" where
  "make_handler get upd env inl no_memory writes = bind_io (gets (\<lambda>s. rhandler (get s))) (\<lambda>old. case old of
       Some _ \<Rightarrow> ret True
     | None \<Rightarrow> bind_io (allocate get upd) (\<lambda>new. case new of
           None \<Rightarrow> reject RuntimeError no_memory ENOMEM False
         | Some h \<Rightarrow> bind_io get_fd (\<lambda>d.
             bind_io (on_loop get upd (handler_new env inl h d)) (\<lambda>_.
             bind_io (put_rhandler upd (Some h)) (\<lambda>_.
             bind_io (on_loop get upd (set_read_callback h (UserCallback OnRead))) (\<lambda>_.
             bind_io (if writes then on_loop get upd (set_write_callback h (UserCallback OnWrite)) else ret ()) (\<lambda>_.
             ret True)))))))"

text \<open>\<open>InitHandler\<close> of the two data sockets, with the texts of its three errors.\<close>

definition init_handler :: "('u, 'a net_scheme) getter \<Rightarrow> ('u, 'a net_scheme) updater \<Rightarrow> 'u bound env \<Rightarrow> bool
    \<Rightarrow> char list \<times> char list \<times> char list \<Rightarrow> (bool, 'a) io" where
  "init_handler get upd env inl texts = (case texts of (no_loop, not_open, no_memory) \<Rightarrow>
     bind_io (gets (\<lambda>s. rloop (get s))) (\<lambda>L.
     if L = None then reject LogicError no_loop EINVAL False
     else bind_io sock_valid (\<lambda>v.
     if \<not> v then reject LogicError not_open EBADF False
     else unless (sock_block False) False (make_handler get upd env inl no_memory True))))"

definition enable_io :: "('u, 'a net_scheme) getter \<Rightarrow> ('u, 'a net_scheme) updater
    \<Rightarrow> (nat \<Rightarrow> (bool, 'u bound) action) \<Rightarrow> (bool, 'a) io \<Rightarrow> (bool, 'a) io" where
  "enable_io get upd enable init = unless init False (on_handler get upd WildPointer enable)"

subsection \<open>Isolating the socket from the loop\<close>

text \<open>
  \<open>_handler->Detach(); delete _handler; _handler = 0;\<close>. A caller in another thread waits
  for the loop thread; what that thread does in the meantime is the parameter \<open>others\<close>.
\<close>

definition detach_wait :: "'f env \<Rightarrow> (unit, 'f) action \<Rightarrow> bool \<Rightarrow> nat \<Rightarrow> (bool, 'f) action" where
  "detach_wait env others inl h L = bind_out (detach env inl h L) (\<lambda>r L. case r of
       Some ok \<Rightarrow> Ret ok L
     | None \<Rightarrow> bind_out (others L) (\<lambda>_. with_handler h (\<lambda>ob L.
         if detached ob then Ret True L else Fault BlockedForever)))"

definition isolate :: "('u, 'a net_scheme) getter \<Rightarrow> ('u, 'a net_scheme) updater \<Rightarrow> 'u bound env
    \<Rightarrow> (unit, 'u bound) action \<Rightarrow> bool \<Rightarrow> (unit, 'a) io" where
  "isolate get upd env others inl = bind_io (gets (\<lambda>s. rhandler (get s))) (\<lambda>h. case h of
       None \<Rightarrow> ret ()
     | Some h \<Rightarrow> bind_io (on_loop get upd (detach_wait env others inl h)) (\<lambda>_.
         bind_io (on_loop get upd (handler_delete env inl h)) (\<lambda>_. put_rhandler upd None)))"

text \<open>
  A socket served by a loop in order: its handler is registered for its descriptor with the mask
  \<open>m\<close>.
\<close>

definition served :: "('u, 'a net_scheme) getter \<Rightarrow> nat \<Rightarrow> int \<Rightarrow> 'a net_scheme \<Rightarrow> bool" where
  "served get h m s \<longleftrightarrow> (\<exists>L. rloop (get s) = Some L \<and> rhandler (get s) = Some h \<and> in_sync L
     \<and> registry_of L h = Some (fd s, m))"

subsection \<open>The part of a record\<close>

text \<open>
  A class that has the part: what is put there is found there, and the members of \<open>Socket\<close> are
  elsewhere.
\<close>

locale reactor_part =
  fixes get :: "('u, 'a net_scheme) getter" and upd :: "('u, 'a net_scheme) updater"
  assumes get_upd: "get (upd f s) = f (get s)"
    and upd_net: "fd (upd f s) = fd s" "err (upd f s) = err s" "replies (upd f s) = replies s"
      "trace (upd f s) = trace s"
    and get_net: "get (log_reply c r s) = get s" "get (s\<lparr>err := e\<rparr>) = get s"
begin

lemma make_handler_present:
  "rhandler (get s) = Some h \<Longrightarrow> make_handler get upd env inl text w s = Ret True s"
  by (simp add: make_handler_def bind_io_def gets_def ret_def)

text \<open>
  An accepted mode switch and a handler that is there already: enabling only changes the mask
  of that handler.
\<close>

lemma enable_present:
  assumes "rloop (get s) = Some L" and "rhandler (get s) = Some h" and "fd s \<noteq> INVALID_SOCKET"
    and "replies s = Ok flags # Ok 0 # rs" and "A h L = Ret ok L'"
  shows "enable_io get upd A (init_handler get upd env inl texts) s
    = Ret ok (upd (rloop_update (\<lambda>_. Some L')) (after_block False flags s))"
proof -
  obtain no_loop not_open no_memory where t: "texts = (no_loop, not_open, no_memory)" by (cases texts)
  have b: "sock_block False s = Ret True (after_block False flags s)" by (rule block_accepted(1) [OF assms(4)])
  have g: "get (after_block False flags s) = get s" by (simp add: after_block_def get_net)
  show ?thesis
    using assms b make_handler_present [of "after_block False flags s"] g
    by (simp add: enable_io_def init_handler_def on_handler_def on_loop_def io_simps sock_valid_def t)
qed

text \<open>
  The first time, in the loop thread and on a loop in order: the handler is created, registered
  for the descriptor and asks for the events.
\<close>

lemma make_handler_fresh:
  assumes "rloop (get s) = Some L" and "rhandler (get s) = None" and "allocations (get s) = Some h # as"
    and "in_sync L" and "objects L h = None" and "fd_ok (fd s)" and "fd s \<notin> fst ` ran (registry_of L)"
  shows "\<exists>s' L'. make_handler get upd env True text w s = Ret True s' \<and> rloop (get s') = Some L'
    \<and> rhandler (get s') = Some h \<and> in_sync L' \<and> registry_of L' = (registry_of L)(h \<mapsto> (fd s, 0))
    \<and> fd s' = fd s \<and> replies s' = replies s \<and> err s' = err s"
proof -
  obtain L1 where L1: "handler_new env True h (fd s) L = Ret () L1" "in_sync L1"
    "registry_of L1 = (registry_of L)(h \<mapsto> (fd s, 0))"
    using in_sync_register [OF assms(4,5,6,7)] by blast
  then have r1: "registry_of L1 h = Some (fd s, 0)" by simp
  obtain L2 where L2: "set_read_callback h (UserCallback OnRead) L1 = Ret () L2" "in_sync L2"
    "registry_of L2 = registry_of L1"
    using in_sync_callbacks(1) [OF L1(2) r1] by blast
  then have r2: "registry_of L2 h = Some (fd s, 0)" using r1 by simp
  obtain L3 where L3: "set_write_callback h (UserCallback OnWrite) L2 = Ret () L3" "in_sync L3"
    "registry_of L3 = registry_of L2"
    using in_sync_callbacks(2) [OF L2(2) r2] by blast
  show ?thesis
    using assms(1-3) L1 L2 L3
    by (auto simp: make_handler_def allocate_def put_rhandler_def on_loop_def io_simps get_upd upd_net)
qed

lemma enable_fresh:
  assumes "rloop (get s) = Some L" and "rhandler (get s) = None" and "allocations (get s) = Some h # as"
    and "in_sync L" and "objects L h = None" and "fd_ok (fd s)" and "fd s \<notin> fst ` ran (registry_of L)"
    and "replies s = Ok flags # Ok 0 # rs"
  shows "\<exists>s'. enable_io get upd (change_events g env True) (init_handler get upd env True texts) s = Ret True s'
    \<and> served get h (g 0) s' \<and> fd s' = fd s \<and> replies s' = rs \<and> err s' = err s"
proof -
  let ?t = "after_block False flags s"
  obtain no_loop not_open no_memory where t: "texts = (no_loop, not_open, no_memory)" by (cases texts)
  note b = block_accepted [OF assms(8), of False]
  have g: "get ?t = get s" by (simp add: after_block_def get_net)
  obtain u M where u: "make_handler get upd env True no_memory True ?t = Ret True u" "rloop (get u) = Some M"
    "rhandler (get u) = Some h" "in_sync M" "registry_of M = (registry_of L)(h \<mapsto> (fd s, 0))" "fd u = fd s"
    "replies u = rs" "err u = err s"
    using make_handler_fresh [of ?t L h as env no_memory True] assms g b by auto
  then obtain M' where M': "change_events g env True h M = Ret True M'" "in_sync M'"
    "registry_of M' = (registry_of M)(h \<mapsto> (fd s, g 0))"
    using in_sync_change [of M h "fd s" 0 g env] by auto
  show ?thesis
    using assms(1,6) b u M'
    by (auto simp: enable_io_def init_handler_def on_handler_def on_loop_def io_simps sock_valid_def t fd_ok_def
        served_def get_upd upd_net)
qed

text \<open>Changing the mask of a handler that is registered.\<close>

lemma on_handler_change:
  assumes "served get h ev s"
  shows "\<exists>L'. on_handler get upd x (change_events g env True) s = Ret True (upd (rloop_update (\<lambda>_. Some L')) s)
    \<and> served get h (g ev) (upd (rloop_update (\<lambda>_. Some L')) s)"
proof -
  obtain L where L: "rloop (get s) = Some L" "rhandler (get s) = Some h" "in_sync L" "registry_of L h = Some (fd s, ev)"
    using assms by (auto simp: served_def)
  then show ?thesis
    using in_sync_change [OF L(3,4), of g env]
    by (fastforce simp: on_handler_def on_loop_def io_simps served_def get_upd upd_net)
qed

lemma on_handler_disable:
  assumes "served get h ev s"
  shows "\<exists>L'. on_handler get upd x (disable_writing env True) s = Ret () (upd (rloop_update (\<lambda>_. Some L')) s)
      \<and> served get h (and ev (not SOCKET_EVENT_WRITE)) (upd (rloop_update (\<lambda>_. Some L')) s)"
    and "\<exists>L'. on_handler get upd x (disable_reading env True) s = Ret () (upd (rloop_update (\<lambda>_. Some L')) s)
      \<and> served get h (and ev (not SOCKET_EVENT_READ)) (upd (rloop_update (\<lambda>_. Some L')) s)"
proof -
  obtain L where L: "rloop (get s) = Some L" "rhandler (get s) = Some h" "in_sync L" "registry_of L h = Some (fd s, ev)"
    using assms by (auto simp: served_def)
  show "\<exists>L'. on_handler get upd x (disable_writing env True) s = Ret () (upd (rloop_update (\<lambda>_. Some L')) s)
      \<and> served get h (and ev (not SOCKET_EVENT_WRITE)) (upd (rloop_update (\<lambda>_. Some L')) s)"
    using L in_sync_change [OF L(3,4), of "\<lambda>ev. and ev (not SOCKET_EVENT_WRITE)" env]
    by (fastforce simp: disable_writing_def on_handler_def on_loop_def io_simps served_def get_upd upd_net)
  show "\<exists>L'. on_handler get upd x (disable_reading env True) s = Ret () (upd (rloop_update (\<lambda>_. Some L')) s)
      \<and> served get h (and ev (not SOCKET_EVENT_READ)) (upd (rloop_update (\<lambda>_. Some L')) s)"
    using L in_sync_change [OF L(3,4), of "\<lambda>ev. and ev (not SOCKET_EVENT_READ)" env]
    by (fastforce simp: disable_reading_def on_handler_def on_loop_def io_simps served_def get_upd upd_net)
qed

lemma isolate_no_handler: "rhandler (get s) = None \<Longrightarrow> isolate get upd env others inl s = Ret () s"
  by (simp add: isolate_def io_simps)

end

text \<open>A relation that also leaves the part alone.\<close>

locale reactor_frame = frame R permitted + reactor_part get upd
  for R :: "'a net_scheme \<Rightarrow> 'a net_scheme \<Rightarrow> bool" and permitted :: "syscall \<Rightarrow> bool"
    and get :: "('u, 'a net_scheme) getter" and upd :: "('u, 'a net_scheme) updater" +
  assumes upd_free: "R s (upd f s)"
    and mode_permitted: "permitted (SysGetFlags d)" "permitted (SysSetFlags d v)"
begin

lemma leaves_on_loop [frame_rules]: "leaves R (on_loop get upd A)"
  by (rule leavesI) (auto simp: on_loop_def bind_out_eq_Ret upd_free split: option.splits)

lemma leaves_allocate [frame_rules]: "leaves R (allocate get upd)" "leaves R (put_rhandler upd h)"
  by (auto intro!: leavesI simp: allocate_def put_rhandler_def upd_free same split: list.splits)

lemma leaves_on_handler [frame_rules]: "leaves R (on_handler get upd x A)"
  unfolding on_handler_def by (auto intro!: frame_rules split: option.splits)

lemma leaves_make_handler [frame_rules]: "leaves R (make_handler get upd env inl text w)"
  unfolding make_handler_def reject_def by (auto intro!: frame_rules split: option.splits)

lemma leaves_init_handler [frame_rules]: "leaves R (init_handler get upd env inl texts)"
  unfolding init_handler_def reject_def
  by (auto intro!: frame_rules simp: mode_permitted split: prod.splits)

lemma leaves_enable [frame_rules]: "leaves R m \<Longrightarrow> leaves R (enable_io get upd A m)"
  unfolding enable_io_def by (auto intro!: frame_rules)

lemma leaves_isolate [frame_rules]: "leaves R (isolate get upd env others inl)"
  unfolding isolate_def by (auto intro!: frame_rules split: option.splits)

end

subsection \<open>A loop for the examples\<close>

text \<open>One handler, the object 1, for the descriptor 5.\<close>

definition idle_env :: "unit bound env" where
  "idle_env f d L = Ret () L"

definition demo_handler_loop :: "unit bound loop" where
  "demo_handler_loop = \<lparr>stopped = False, lselector = sel_new, handlers = [(5, 1)], current_handler = None,
     event_handling = False, queue = [], queue_invoking = False, pipe_bytes = 0, pipe_alive = True,
     objects = [1 \<mapsto> \<lparr>hsocket = 5, hevents = 0, detached = False, read_callback = None, write_callback = None\<rparr>]\<rparr>"

lemma demo_in_sync: "in_sync demo_handler_loop" "registry_of demo_handler_loop 1 = Some (5, 0)"
proof -
  have "wanted demo_handler_loop = (\<lambda>_. 0)"
    by (auto simp: wanted_def demo_handler_loop_def fun_eq_iff)
  then show "in_sync demo_handler_loop"
    using tracks_new by (auto simp: in_sync_def demo_handler_loop_def fd_ok_def)
  show "registry_of demo_handler_loop 1 = Some (5, 0)"
    by (simp add: registry_of_def demo_handler_loop_def)
qed

end
