(* ===== verification/BufferTransfer.thy ===== *)
theory BufferTransfer
  imports TcpUdp
begin

text \<open>
  What the programs on top of the sockets share: sending from and receiving into a
  \<open>StreamBuffer\<close>, addresses made from a host and a port, and a state in which several objects
  use one system.
\<close>

subsection \<open>Sending from a buffer and receiving into one\<close>

lemma send_buffer_takes:
  assumes "sb_wf b" and "send (Some (sb_unread b)) s = Ret (int n) t" and "n \<le> length (sb_unread b)"
  shows "\<exists>c. send_buffer send b s = Ret (int n, c) t \<and> sb_consumes n b c"
proof -
  have n: "n \<le> wpos b - rpos b" and small: "n < 2 ^ 63"
    using assms(3) length_sb_unread [OF assms(1)] sb_wfD [OF assms(1)] by auto
  have "send_buffer send b s = Ret (int n, if 0 < n then b\<lparr>rpos := rpos b + n\<rparr> else b) t"
    using assms(2,3) n readable_block_unread [OF assms(1)]
    by (simp add: send_buffer_def io_simps sb_skip_wf [OF assms(1) small])
  then show ?thesis using n assms(1) length_sb_unread [OF assms(1)] by (auto simp: sb_consumes_def)
qed

lemma send_buffer_refused:
  "sb_wf b \<Longrightarrow> send (Some (sb_unread b)) s = Ret v t \<Longrightarrow> v \<le> 0 \<Longrightarrow> send_buffer send b s = Ret (v, b) t"
  by (simp add: send_buffer_def io_simps readable_block_unread)

lemma receive_buffer_takes:
  assumes "sb_wf b" and "sb_room 2048 b" and "\<And>k. recv k s = Ret (int (length data), data, x) (t k)"
    and "length data \<le> 2048"
  shows "\<exists>c k. receive_buffer msg recv none b s = Ret (int (length data), x, c) (t k) \<and> sb_extends data b c
    \<and> 2048 \<le> k"
proof -
  obtain b1 where b1: "sb_reserve 2048 b = Ret True b1" "sb_extends [] b b1" "wpos b1 + 2048 \<le> length (bytes b1)"
    using sb_reserve_room [OF assms(1,2)] by blast
  have "wpos b1 + length data \<le> length (bytes b1)" using b1(3) assms(4) by simp
  note fill = sb_fill_advance [OF sb_extendsD(1) [OF b1(2)] this]
  let ?c = "b1\<lparr>bytes := patch (wpos b1) data (bytes b1), wpos := wpos b1 + length data\<rparr>"
  have e: "sb_extends data b ?c" using sb_extends_trans [OF b1(2) fill(3)] by simp
  have z: "patch (wpos b1) [] (bytes b1) = bytes b1" using b1(3) by (simp add: patch_def)
  have "receive_buffer msg recv none b s = Ret (int (length data), x, ?c) (t (sb_writable b1))"
    using b1(1) fill(1,2) assms(3) z
    by (auto simp: receive_buffer_def io_simps on_buffer_def)
  moreover have "2048 \<le> sb_writable b1" using b1(3) by (simp add: sb_writable_wf [OF sb_extendsD(1) [OF b1(2)]])
  ultimately show ?thesis using e by blast
qed

lemma receive_buffer_nothing:
  assumes "sb_wf b" and "sb_room 2048 b" and "\<And>k. recv k s = Ret (v, [], x) (t k)" and "v \<le> 0"
  shows "\<exists>c k. receive_buffer msg recv none b s = Ret (v, x, c) (t k) \<and> sb_extends [] b c"
proof -
  obtain b1 where b1: "sb_reserve 2048 b = Ret True b1" "sb_extends [] b b1" "wpos b1 + 2048 \<le> length (bytes b1)"
    using sb_reserve_room [OF assms(1,2)] by blast
  have z: "fill_writable [] b1 = Ret () b1" using b1(3) by (simp add: fill_writable_def patch_def)
  show ?thesis using b1 assms(3,4) z by (auto simp: receive_buffer_def io_simps on_buffer_def)
qed

text \<open>
  C29. The buffer forms of \<open>Send\<close> and \<open>Receive\<close> carry the stream over: what \<open>Send\<close>
  offers is the unread part of its buffer, it takes out of the buffer the bytes the system
  accepted and no other, and a \<open>Receive\<close> at the other end, of a delivery of at most 2048
  bytes, appends just the bytes delivered to its buffer, so that both buffers keep their order.
\<close>

theorem tcp_buffer_transfer:
  assumes "sb_wf b" and "sb_wf c" and "sb_room 2048 c"
    and "list_all (\<lambda>r. r = Failed EINTR) is" and "list_all (\<lambda>r. r = Failed EINTR) js"
    and "data = take n (sb_unread b)" and "length data = n" and "0 < n" and "n \<le> 2048"
    and "replies s = Ok flags # Ok 0 # is @ Ok (int n) # rs"
    and "replies t = Ok flags' # Ok 0 # js @ Done (int n) data a # rs'"
  shows "\<exists>b' s' c' t'. tcp_send_buffer b s = Ret (int n, b') s'
    \<and> (SysSend (fd s) (sb_unread b) 0, Ok (int n)) \<in> set (trace s')
    \<and> sb_wf b' \<and> sb_data b' = sb_data b \<and> sb_unread b = data @ sb_unread b'
    \<and> tcp_receive_buffer c t = Ret (int n, (), c') t'
    \<and> sb_wf c' \<and> sb_data c' = sb_data c @ data \<and> sb_unread c' = sb_unread c @ data"
proof -
  have n: "n \<le> length (sb_unread b)" using assms(6,7) by simp
  obtain s' where s': "sys_retry (SysSend (fd s) (sb_unread b) 0) (after_block True flags s) = Ret (Some (int n, [], [])) s'"
    "(SysSend (fd s) (sb_unread b) 0, Ok (int n)) \<in> set (trace s')"
    using sys_retry_done [OF block_accepted(2) [OF assms(10)] assms(4)] by fastforce
  then have "tcp_send (Some (sb_unread b)) s = Ret (int n) s'"
    using block_accepted(1,3) [OF assms(10), of True] by (simp add: tcp_send_def sock_send_def io_simps)
  then obtain b' where b': "tcp_send_buffer b s = Ret (int n, b') s'" "sb_consumes n b b'"
    using send_buffer_takes [OF assms(1) _ n] unfolding tcp_send_buffer_def by blast
  have "\<forall>k. \<exists>t'. sys_retry (SysRecv (fd t) k 0) (after_block True flags' t) = Ret (Some (int n, data, a)) t'"
    using sys_retry_done [OF block_accepted(2) [OF assms(11)] assms(5)] by blast
  then obtain t' where t': "\<And>k. sys_retry (SysRecv (fd t) k 0) (after_block True flags' t) = Ret (Some (int n, data, a)) (t' k)"
    by (auto dest: choice)
  then have r: "without_address (tcp_receive True k) t = Ret (int (length data), data, ()) (t' k)" for k
    using block_accepted(1,3) [OF assms(11), of True] assms(7)
    by (simp add: tcp_receive_def without_address_def sock_receive_def io_simps)
  obtain c' k where c': "tcp_receive_buffer c t = Ret (int n, (), c') (t' k)" "sb_extends data c c'"
    using receive_buffer_takes [OF assms(2,3), where recv = "\<lambda>n. without_address (tcp_receive True n)" and s = t, OF r]
      assms(7,9) unfolding tcp_receive_buffer_def by blast
  have "sb_unread b = data @ sb_unread b'"
    using sb_consumes_unread [OF assms(1) b'(2)] assms(6) by simp
  then show ?thesis
    using b' s'(2) c' sb_consumes_wf [OF assms(1) b'(2)] sb_consumes_data [OF b'(2)]
      sb_extendsD(1) [OF c'(2)] sb_extends_data [OF assms(2) c'(2)] sb_extends_unread [OF assms(2) c'(2)]
    by blast
qed

theorem tcp_buffer_transfer_witness:
  "\<exists>b' c' s' t'. tcp_send_buffer \<lparr>bytes = ''abc'', limit = 0, opos = 0, rpos = 1, wpos = 3\<rparr> (fresh_net [Ok 2, Ok 0, Ok 1])
       = Ret (1, b') (s' :: net)
     \<and> tcp_receive_buffer \<lparr>bytes = [], limit = 0, opos = 0, rpos = 0, wpos = 0\<rparr>
         (fresh_net [Ok 2, Ok 0, Failed EINTR, Done 1 ''b'' []]) = Ret (1, (), c') (t' :: net)
     \<and> sb_unread c' = ''b''"
proof -
  let ?b = "\<lparr>bytes = ''abc'', limit = 0, opos = 0, rpos = 1, wpos = 3\<rparr>"
  let ?c = "\<lparr>bytes = [], limit = 0, opos = 0, rpos = 0, wpos = 0\<rparr>"
  have w: "sb_wf ?b" "sb_wf ?c" "sb_room 2048 ?c" and e: "list_all (\<lambda>r. r = Failed EINTR) []"
      "list_all (\<lambda>r. r = Failed EINTR) [Failed EINTR]"
    by (simp_all add: sb_wf_def vec_max_def sb_room_def sb_cap_def)
  have d: "''b'' = take 1 (sb_unread ?b)" "sb_unread ?c = []" and l: "length ''b'' = (1 :: nat)" "(0::nat) < 1" "(1::nat) \<le> 2048"
    by (simp_all add: sb_unread_def slice_def)
  have r: "replies (fresh_net [Ok 2, Ok 0, Ok 1] :: net) = Ok 2 # Ok 0 # [] @ Ok (int 1) # []"
      "replies (fresh_net [Ok 2, Ok 0, Failed EINTR, Done 1 ''b'' []] :: net)
      = Ok 2 # Ok 0 # [Failed EINTR] @ Done (int 1) ''b'' [] # []"
    by (simp_all add: fresh_net_def)
  show ?thesis
    using tcp_buffer_transfer [OF w e d(1) l r] unfolding d(2) append_Nil of_nat_1 by blast
qed

subsection \<open>Addresses\<close>

text \<open>An address constructed on the way; the constructor may fail an assertion.\<close>

definition make_address :: "(unit, address) outcome \<Rightarrow> (address, 'a) io" where
  "make_address m s = bind_out m (\<lambda>_ a. Ret a s)"

subsection \<open>Streams on a trace\<close>

text \<open>The bytes the system took, of a trace; and replies that are honest about their size.\<close>

fun sent_in :: "(syscall \<times> reply) list \<Rightarrow> char list" where
  "sent_in [] = []"
| "sent_in ((SysSend d data flags, Done v x a) # t) = take (nat v) data @ sent_in t"
| "sent_in (_ # t) = sent_in t"

fun honest :: "syscall \<times> reply \<Rightarrow> bool" where
  "honest (SysSend d data flags, Done v x a) \<longleftrightarrow> 0 \<le> v \<and> v \<le> int (length data)"
| "honest (SysRecv d n flags, Done v x a) \<longleftrightarrow> v = int (length x) \<and> length x \<le> n"
| "honest _ \<longleftrightarrow> True"

fun not_send :: "syscall \<Rightarrow> bool" where
  "not_send (SysSend d data flags) = False"
| "not_send _ = True"

lemma sent_in_append: "sent_in (t @ u) = sent_in t @ sent_in u"
  by (induction t rule: sent_in.induct) auto

lemma sent_in_not_send: "not_send c \<Longrightarrow> sent_in [(c, r)] = []"
  by (cases c) auto

lemma sent_in_failures:
  "list_all (\<lambda>x. \<exists>code. x = Failed code) is \<Longrightarrow> sent_in (map (Pair c) is) = []"
  by (induction "is") auto

text \<open>What \<open>send\<close> returns is what the trace says went out.\<close>

lemma sock_send_out:
  assumes "sock_send (Some data) flags s = Ret v s'"
  shows "sent_in (trace s') = sent_in (trace s) @ take (nat v) data \<and> (\<exists>t. trace s' = trace s @ t)
    \<and> net.more s' = net.more s
    \<and> (list_all honest (trace s') \<longrightarrow> - 1 \<le> v \<and> v \<le> int (length data))"
proof -
  obtain r t where t: "retry (SysSend (fd s) data flags) (replies s) s = Ret r t"
    and k: "(case r of None \<Rightarrow> bind_io (report send_set_error (on_fd ''Socket::Send'' (fd s))) (\<lambda>_. ret (- 1))
       | Some (v, _) \<Rightarrow> ret v) t = Ret v s'"
    using assms by (auto simp: sock_send_def get_fd_def sys_retry_def elim!: bind_ioE)
  obtain "is" q where e: "trace t = trace s @ map (Pair (SysSend (fd s) data flags)) (is @ [q])" "net.more t = net.more s"
    and "is": "list_all (\<lambda>x. \<exists>code. x = Failed code) is"
    and q: "case r of None \<Rightarrow> \<exists>code. q = Failed code | Some (v, d, a) \<Rightarrow> q = Done v d a"
    using retry_effect [OF t] by blast
  show ?thesis
  proof (cases r)
    case None
    then obtain y where "v = - 1" "s' = t\<lparr>err := y\<rparr>"
      using k by (auto simp: ret_def elim!: bind_ioE dest!: report_state)
    then show ?thesis
      using e q None sent_in_failures [OF "is"] by (auto simp: sent_in_append)
  next
    case (Some p)
    then obtain d a where "q = Done v d a" "s' = t" using k q by (cases p) (auto simp: ret_def)
    then show ?thesis
      using e sent_in_failures [OF "is"] by (auto simp: sent_in_append)
  qed
qed

text \<open>The bytes the system delivered.\<close>

fun received_in :: "(syscall \<times> reply) list \<Rightarrow> char list" where
  "received_in [] = []"
| "received_in ((SysRecv d n flags, Done v x a) # t) = x @ received_in t"
| "received_in (_ # t) = received_in t"

fun not_stream :: "syscall \<Rightarrow> bool" where
  "not_stream (SysSend d data flags) = False"
| "not_stream (SysRecv d n flags) = False"
| "not_stream _ = True"

lemma received_in_append: "received_in (t @ u) = received_in t @ received_in u"
  by (induction t rule: received_in.induct) auto

subsection \<open>Several objects on one system\<close>

text \<open>
  The system and the caller's error object go with the object in use: they are lent to it for an
  operation and taken back afterwards. Where the object lies in the state is given by its
  selector and its update function.
\<close>

definition lend :: "'a net_scheme \<Rightarrow> 'b net_scheme \<Rightarrow> 'b net_scheme" where
  "lend s x = x\<lparr>err := err s, replies := replies s, waits := waits s, errno := errno s, trace := trace s\<rparr>"

definition on_object :: "('s net_scheme \<Rightarrow> 'b net_scheme) \<Rightarrow> (('b net_scheme \<Rightarrow> 'b net_scheme) \<Rightarrow> 's net_scheme \<Rightarrow> 's net_scheme)
    \<Rightarrow> ('r, 'b) io \<Rightarrow> ('r, 's) io" where
  "on_object get upd m s = bind_out (m (lend s (get s))) (\<lambda>r x. Ret r (lend x (upd (\<lambda>_. x) s)))"

text \<open>Going on unless an exception was thrown.\<close>

definition unless_thrown :: "(exception + 'r, 'a) io \<Rightarrow> ('r \<Rightarrow> (exception option, 'a) io) \<Rightarrow> (exception option, 'a) io" where
  "unless_thrown m k = bind_io m (\<lambda>r. case r of Inl x \<Rightarrow> ret (Some x) | Inr v \<Rightarrow> k v)"

end
