(* ===== verification/PipeThread.thy ===== *)
theory PipeThread
  imports Reactor BufferTransfer
begin

text \<open>
  \<open>SocketPipe\<close>, the pair of connected sockets an event loop wakes itself up with, and
  \<open>EventLoopThread\<close>, a loop in a thread of its own.
\<close>

subsection \<open>The pipe\<close>

text \<open>The reader is the descriptor of the state; \<open>on_writer\<close> runs an operation on the writer.\<close>

record pipe = net +
  writer_fd :: int

type_synonym ('r, 'a) pipe_io = "('r, 'a pipe_ext) io"

abbreviation (input) "PF_INET \<equiv> 2 :: int"

definition on_writer :: "('r, 'a) pipe_io \<Rightarrow> ('r, 'a) pipe_io" where
  "on_writer m s = bind_out (m (s\<lparr>fd := writer_fd s, writer_fd := fd s\<rparr>))
     (\<lambda>r t. Ret r (t\<lparr>fd := writer_fd t, writer_fd := fd t\<rparr>))"

definition loopback_any_port :: "inet \<Rightarrow> (address, 'a) io" where
  "loopback_any_port I = make_address (addr_new_host I ''loopback'' 0 AF_INET)"

text \<open>The block of \<open>try\<close>.\<close>

definition pair_up :: "inet \<Rightarrow> (exception option, 'a) pipe_io" where
  "pair_up I = bind_io (loopback_any_port I) (\<lambda>a.
     unless_thrown (sock_bind_throw I a) (\<lambda>_.
     unless_thrown (sock_listen_throw 1) (\<lambda>_.
     bind_io (quiet sock_address) (\<lambda>actual.
     unless_thrown (on_writer (sock_connect_throw I actual)) (\<lambda>_.
     unless_thrown sock_accept_throw (\<lambda>v.
     bind_io (sock_attach v) (\<lambda>_. ret None)))))))"

definition keep_error :: "error_class \<Rightarrow> char list \<Rightarrow> int \<Rightarrow> (unit, 'a) io" where
  "keep_error cls msg code = modify (\<lambda>s. s\<lparr>err := map_option (\<lambda>e. err_set_class cls (err_set_message_code msg code e)) (err s)\<rparr>)"

text \<open>The handlers, in their order; the first two have no \<open>return false\<close>.\<close>

definition make_pair :: "inet \<Rightarrow> (bool, 'a) pipe_io" where
  "make_pair I = bind_io (pair_up I) (\<lambda>x. case x of
       None \<Rightarrow> ret True
     | Some x \<Rightarrow>
         if catches TRuntimeException x then bind_io (keep_error RuntimeError (xmessage x) (xcode x)) (\<lambda>_. ret True)
         else if catches TLogicException x then bind_io (keep_error LogicError (xmessage x) (xcode x)) (\<lambda>_. ret True)
         else if catches TException x then bind_io (keep_error GeneralError (xmessage x) (xcode x)) (\<lambda>_. ret False)
         else bind_io (keep_error GeneralError (exc_what x) 0) (\<lambda>_. ret False))"

text \<open>The destructor destroys the members, the writer first.\<close>

definition pipe_delete :: "(unit, 'a) pipe_io" where
  "pipe_delete = bind_io (on_writer sock_delete) (\<lambda>_. sock_delete)"

text \<open>
  The throwing constructor. None: the object is constructed; an exception destroys the members
  constructed before the body.
\<close>

definition pipe_new :: "inet \<Rightarrow> (exception option, 'a) pipe_io" where
  "pipe_new I = bind_io (modify (\<lambda>s. s\<lparr>fd := INVALID_SOCKET, writer_fd := INVALID_SOCKET\<rparr>)) (\<lambda>_.
     bind_io
      (unless_thrown (sock_create_throw PF_INET SOCK_STREAM IPPROTO_TCP) (\<lambda>_.
       unless_thrown (on_writer (sock_create_throw PF_INET SOCK_STREAM IPPROTO_TCP)) (\<lambda>_.
       unless_thrown (throwing Not (make_pair I)) (\<lambda>_. ret None))))
      (\<lambda>x. if x = None then ret None else bind_io pipe_delete (\<lambda>_. ret x)))"

definition pipe_new_error :: "inet \<Rightarrow> (unit, 'a) pipe_io" where
  "pipe_new_error I = bind_io (modify (\<lambda>s. s\<lparr>fd := INVALID_SOCKET, writer_fd := INVALID_SOCKET\<rparr>)) (\<lambda>_.
     bind_io (and_io (sock_create PF_INET SOCK_STREAM IPPROTO_TCP)
       (and_io (on_writer (sock_create PF_INET SOCK_STREAM IPPROTO_TCP)) (make_pair I))) (\<lambda>_. ret ()))"

definition pipe_read :: "nat \<Rightarrow> (int \<times> char list, 'a) pipe_io" where
  "pipe_read n = sock_receive True n 0"

definition pipe_write :: "char list \<Rightarrow> (int, 'a) pipe_io" where
  "pipe_write data = on_writer (sock_send (Some data) 0)"

subsection \<open>What the constructor makes\<close>

definition loopback :: address where
  "loopback = patch 4 (mem32 (htonl 0x7F000001)) (addr_reset AF_INET)"

lemma loopback_any_port: "loopback_any_port I s = Ret loopback s"
  by (simp add: loopback_any_port_def make_address_def addr_new_host_def addr_set_host_def loopback_def)

lemma loopback_family: "ss_family loopback = AF_INET"
  by (simp add: loopback_def ss_family_patch)

lemma loopback_length: "addr_length loopback = Ret 16 ()"
  by (simp add: addr_length_def loopback_family)

text \<open>
  The pipe when every call succeeds: the reader listens on a port of the loopback address,
  the writer connects to the address the reader got, the listening descriptor is closed and the
  reader holds the accepted one.
\<close>

theorem pipe_connects:
  assumes "replies s = Ok r # Ok w # Ok 0 # Ok 0 # Done 0 [] a # Ok 0 # Done v [] b # Ok 0 # rs"
    and "r \<noteq> INVALID_SOCKET" and "v \<noteq> INVALID_SOCKET" and "v \<noteq> r" and "addr_length a = Ret n ()"
  shows "\<exists>s'. pipe_new I s = Ret None s' \<and> fd s' = v \<and> writer_fd s' = w \<and> replies s' = rs \<and> err s' = err s
    \<and> map fst (trace s') = map fst (trace s) @ [SysSocket 2 1 6, SysSocket 2 1 6, SysBind r loopback 16, SysListen r 1,
        SysGetSockName r, SysConnect w a n, SysAccept r, SysClose r]"
  using assms
  by (simp add: pipe_new_def unless_thrown_def io_simps throwing_def sock_create_throw_def sock_create_def init_socket_def
      sys_call_def on_writer_def make_pair_def pair_up_def loopback_any_port loopback_length sock_bind_throw_def sock_bind_def
      checked_def sock_listen_throw_def sock_listen_def quiet_def sock_address_def named_address_def
      sock_connect_throw_def sock_connect_def sys_retry_def sock_accept_throw_def sock_accept_def sock_attach_def sock_close_def
      close_socket_def log_reply_def)

theorem pipe_connects_witness:
  "\<exists>s' :: pipe. pipe_new demo_inet \<lparr>fd = 0, err = None,
      replies = [Ok 3, Ok 4, Ok 0, Ok 0, Done 0 [] (addr_reset AF_INET), Ok 0, Done 5 [] addr_new, Ok 0],
      waits = [], errno = 0, trace = [], writer_fd = 0\<rparr> = Ret None s' \<and> fd s' = 5 \<and> writer_fd s' = 4"
proof -
  let ?s = "\<lparr>fd = 0, err = None, replies = [Ok 3, Ok 4, Ok 0, Ok 0, Done 0 [] (addr_reset AF_INET), Ok 0, Done 5 [] addr_new, Ok 0],
      waits = [], errno = 0, trace = [], writer_fd = 0\<rparr>"
  have "replies ?s = Ok 3 # Ok 4 # Ok 0 # Ok 0 # Done 0 [] (addr_reset AF_INET) # Ok 0 # Done 5 [] addr_new # Ok 0 # []"
    "addr_length (addr_reset AF_INET) = Ret 16 ()"
    by (simp_all add: addr_length_def)
  from pipe_connects [OF this(1) _ _ _ this(2), of demo_inet] show ?thesis by auto
qed

text \<open>
  The pipe when a call fails: a failed bind that is a logic error, such as an address in
  use, is caught and reported as success; so is a failed accept, which is not even reported.
  The constructor returns an object whose reader is not connected, or holds no descriptor.
\<close>

theorem pipe_failure_hidden:
  assumes "r \<noteq> INVALID_SOCKET" and "addr_string I loopback = Ret msg ()" and "addr_length a = Ret n ()"
    and "code \<in> {EACCES, EADDRINUSE, EBADF, EINVAL, ENOTSOCK}" and "code' \<noteq> EINTR"
    and "replies s = Ok r # Ok w # Failed code # rs"
    and "replies t = Ok r # Ok w # Ok 0 # Ok 0 # Done 0 [] a # Ok 0 # Failed code' # Ok 0 # rs"
  shows "(\<exists>s'. pipe_new I s = Ret None s' \<and> fd s' = r \<and> writer_fd s' = w \<and> replies s' = rs
      \<and> map fst (trace s') = map fst (trace s) @ [SysSocket 2 1 6, SysSocket 2 1 6, SysBind r loopback 16])
    \<and> (\<exists>t'. pipe_new I t = Ret None t' \<and> fd t' = INVALID_SOCKET \<and> writer_fd t' = w \<and> replies t' = rs)"
proof
  have c: "bind_set_error msg code (Some e) = Ret () (Some (err_set LogicError msg code e))" for msg e
    using assms(4) by (auto simp: bind_set_error_def set_as_def)
  have th: "throw_error (err_set LogicError msg code e) = Some \<lparr>xtype = TLogicException, xmessage = msg, xcode = code\<rparr>" for msg e
    by (simp add: throw_error_def err_class_def err_set_def err_empty_def)
  have h: "catches TLogicException \<lparr>xtype = TLogicException, xmessage = m, xcode = k\<rparr>"
    "\<not> catches TRuntimeException \<lparr>xtype = TLogicException, xmessage = m, xcode = k\<rparr>" for m k
    by (simp_all add: catches_def numeral_3_eq_3)
  show "\<exists>s'. pipe_new I s = Ret None s' \<and> fd s' = r \<and> writer_fd s' = w \<and> replies s' = rs
      \<and> map fst (trace s') = map fst (trace s) @ [SysSocket 2 1 6, SysSocket 2 1 6, SysBind r loopback 16]"
    using assms(1,2,6)
    by (simp add: pipe_new_def unless_thrown_def io_simps throwing_def sock_create_throw_def sock_create_def init_socket_def
        sys_call_def on_writer_def make_pair_def pair_up_def loopback_any_port loopback_length sock_bind_throw_def sock_bind_def
        checked_def on_fd_addr_def report_def c th h keep_error_def log_reply_def)
  show "\<exists>t'. pipe_new I t = Ret None t' \<and> fd t' = INVALID_SOCKET \<and> writer_fd t' = w \<and> replies t' = rs"
    using assms(1,3,5,7)
    by (simp add: pipe_new_def unless_thrown_def io_simps throwing_def sock_create_throw_def sock_create_def init_socket_def
        sys_call_def on_writer_def make_pair_def pair_up_def loopback_any_port loopback_length sock_bind_throw_def sock_bind_def
        checked_def sock_listen_throw_def sock_listen_def quiet_def sock_address_def named_address_def
        sock_connect_throw_def sock_connect_def sys_retry_def is_interrupted_def sock_accept_throw_def sock_accept_def
        report_def accept_set_error_def throw_error_new sock_attach_def sock_close_def close_socket_def log_reply_def)
qed

theorem pipe_failure_hidden_witness:
  "\<exists>s' :: pipe. pipe_new (demo_inet\<lparr>nameinfo := (\<lambda>a n. Some ''127.0.0.1'')\<rparr>)
      \<lparr>fd = 0, err = None, replies = [Ok 3, Ok 4, Failed EADDRINUSE], waits = [], errno = 0, trace = [], writer_fd = 0\<rparr>
     = Ret None s' \<and> fd s' = 3 \<and> writer_fd s' = 4"
proof -
  let ?I = "demo_inet\<lparr>nameinfo := (\<lambda>a n. Some ''127.0.0.1'')\<rparr>"
  let ?s = "\<lparr>fd = 0, err = None, replies = [Ok 3, Ok 4, Failed EADDRINUSE], waits = [], errno = 0, trace = [], writer_fd = 0\<rparr>"
  let ?t = "\<lparr>fd = 0, err = None, replies = [Ok 3, Ok 4, Ok 0, Ok 0, Done 0 [] (addr_reset AF_INET), Ok 0, Failed EMFILE, Ok 0],
     waits = [], errno = 0, trace = [], writer_fd = 0\<rparr>"
  obtain msg where "addr_string ?I loopback = Ret msg ()"
    by (simp add: addr_string_def loopback_length addr_port_def loopback_family)
  moreover have "addr_length (addr_reset AF_INET) = Ret 16 ()" by (simp add: addr_length_def)
  moreover have "replies ?s = Ok 3 # Ok 4 # Failed EADDRINUSE # []"
    "replies ?t = Ok 3 # Ok 4 # Ok 0 # Ok 0 # Done 0 [] (addr_reset AF_INET) # Ok 0 # Failed EMFILE # Ok 0 # []"
    by simp_all
  moreover have "(3 :: int) \<noteq> INVALID_SOCKET" "EADDRINUSE \<in> {EACCES, EADDRINUSE, EBADF, EINVAL, ENOTSOCK}" "EMFILE \<noteq> EINTR"
    by simp_all
  ultimately show ?thesis
    using pipe_failure_hidden [of 3 ?I msg "addr_reset AF_INET" 16 EADDRINUSE EMFILE ?s 4 "[]" ?t] by blast
qed

subsection \<open>A loop in its own thread\<close>

text \<open>
  \<open>EventLoopThread\<close> as steps of two threads: the one that \<open>Start\<close> creates, with its loop as
  a local object, and the owner, who calls \<open>Start\<close> and the destructor. The loop's pointer is
  published when \<open>_loop\<close> is set, which is what \<open>Start\<close> waits for. A turn of the loop is
  a \<open>loop_step\<close>, which covers the calls of further threads too.
\<close>

datatype 'f thread_phase =
    NotStarted | Entered | Constructed "'f loop" | Published "'f loop" | Looping "'f phase" "'f loop" | Exited

datatype owner_phase = Outside | Starting | Started | Joining | Gone

inductive thread_step :: "'f env \<Rightarrow> int \<Rightarrow> 'f thread_phase \<times> owner_phase \<Rightarrow> 'f thread_phase \<times> owner_phase \<Rightarrow> bool"
  for env d where
  start: "thread_step env d (NotStarted, Outside) (Entered, Starting)"
| construct: "loop_new env d True = Ret () L \<Longrightarrow> thread_step env d (Entered, w) (Constructed L, w)"
| publish: "thread_step env d (Constructed L, w) (Published L, w)"
| start_returns: "thread_step env d (Published L, Starting) (Published L, Started)"
| start_returns_late: "thread_step env d (Looping ph L, Starting) (Looping ph L, Started)"
| run: "enable_reading env True WAKEUP (L\<lparr>stopped := False\<rparr>) = Ret ok L' \<Longrightarrow>
    thread_step env d (Published L, w) (Looping AtSelect L', w)"
| turn: "loop_step env (ph, L) (ph', L') \<Longrightarrow> thread_step env d (Looping ph L, w) (Looping ph' L', w)"
| leave: "stopped L \<Longrightarrow> thread_step env d (Looping AtSelect L, w) (Exited, w)"
| destroy: "stop False L = Ret () L' \<Longrightarrow> thread_step env d (Published L, Started) (Published L', Joining)"
| destroy_running: "stop False L = Ret () L' \<Longrightarrow> thread_step env d (Looping ph L, Started) (Looping ph L', Joining)"
| joined: "thread_step env d (Exited, Joining) (Exited, Gone)"

definition thread_steps :: "'f env \<Rightarrow> int \<Rightarrow> 'f thread_phase \<times> owner_phase \<Rightarrow> 'f thread_phase \<times> owner_phase \<Rightarrow> bool" where
  "thread_steps env d = (thread_step env d)\<^sup>*\<^sup>*"

lemma steps_then: "thread_steps env d a b \<Longrightarrow> thread_step env d b c \<Longrightarrow> thread_steps env d a c"
  unfolding thread_steps_def by simp

text \<open>A new loop, and the same loop once \<open>Run\<close> has asked for wake-ups.\<close>

definition wakeup_loop :: "int \<Rightarrow> bool \<Rightarrow> bool \<Rightarrow> nat \<Rightarrow> 'f loop" where
  "wakeup_loop d watching halt n = \<lparr>stopped = halt,
     lselector = (if watching then \<lparr>descriptors = [d], read_set = {d}, write_set = {}, except_set = {}\<rparr> else sel_new),
     handlers = [(d, WAKEUP)], current_handler = None, event_handling = False, queue = [], queue_invoking = False,
     pipe_bytes = n, pipe_alive = True,
     objects = [WAKEUP \<mapsto> \<lparr>hsocket = d, hevents = (if watching then SOCKET_EVENT_READ else 0), detached = False,
       read_callback = Some OnWakeupRead, write_callback = None\<rparr>]\<rparr>"

lemma has_event_read: "has_event SOCKET_EVENT_READ SOCKET_EVENT_READ" "\<not> has_event SOCKET_EVENT_READ SOCKET_EVENT_WRITE"
  "\<not> has_event SOCKET_EVENT_READ SOCKET_EVENT_EXCEPT"
  by (simp_all add: has_event_def)

lemma make_heap_single: "make_heap [x] = [x]"
  using make_heap_mset [of "[x]"] by (simp add: make_heap_def)

lemma wakeup_loop_new: "fd_ok d \<Longrightarrow> loop_new env d True = Ret () (wakeup_loop d False False 0)"
  by (simp add: loop_new_def handler_new_def invoke_def put_handler_def attach_in_loop_def register_handler_def
      with_handler_def set_interest_def on_selector_def sel_set_def sel_remove_def sel_put_ok sel_new_def
      set_read_callback_def wakeup_loop_def)

lemma wakeup_loop_run:
  "fd_ok d \<Longrightarrow> enable_reading env True WAKEUP (wakeup_loop d False False n) = Ret True (wakeup_loop d True False n)"
  by (simp add: enable_reading_def change_events_def with_handler_def wakeup_loop_def put_handler_def update_def
      update_handler_def set_interest_def on_selector_def sel_set_def sel_new_def make_heap_single sel_put_ok has_event_read)

text \<open>The loop reads the one octet and waits again.\<close>

lemma wakeup_loop_turn:
  assumes "fd_ok d"
  shows "loop_steps env (AtSelect, wakeup_loop d True False 1) (AtSelect, wakeup_loop d True False 0)"
proof -
  let ?L = "wakeup_loop d True False 1 :: 'a loop"
  let ?k = "\<lambda>c :: select_call. SelectReturned 1 {d} {} {}"
  have s: "sel_select (lselector ?L) (- 1) [?k] [] None = Some (Ret 1 ([(d, SOCKET_EVENT_READ)], None), [])"
    using assms by (simp add: wakeup_loop_def sel_collect_def active_events_def)
  have d: "dispatch_one env (d, SOCKET_EVENT_READ) (?L\<lparr>event_handling := True\<rparr>)
      = Ret () (wakeup_loop d True False 0\<lparr>event_handling := True, current_handler := Some WAKEUP\<rparr>)"
    by (simp add: dispatch_one_def wakeup_loop_def handle_events_def has_event_read with_handler_def on_wakeup_read_def)
  have 1: "loop_step env (AtSelect, ?L) (Dispatching [(d, SOCKET_EVENT_READ)], ?L\<lparr>event_handling := True\<rparr>)"
    by (rule loop_step.ready [OF _ s]) (simp_all add: wakeup_loop_def)
  note 2 = loop_step.handle [OF d, of "[]"]
  note 3 = loop_step.handled [of env "wakeup_loop d True False 0\<lparr>event_handling := True, current_handler := Some WAKEUP\<rparr>"]
  note 4 = loop_step.idle [of env "wakeup_loop d True False 0\<lparr>queue_invoking := True\<rparr>"]
  have q: "queue (wakeup_loop d True False 0 :: 'a loop) = []"
    "(wakeup_loop d True False 0 :: 'a loop)\<lparr>event_handling := True, current_handler := Some WAKEUP,
        current_handler := None, event_handling := False, queue_invoking := True, queue := []\<rparr>
      = wakeup_loop d True False 0\<lparr>queue_invoking := True\<rparr>"
    "(wakeup_loop d True False 0 :: 'a loop)\<lparr>queue_invoking := False\<rparr> = wakeup_loop d True False 0"
    by (simp_all add: wakeup_loop_def)
  show ?thesis
    using 1 2 3 4 q unfolding loop_steps_def
    by (simp add: converse_rtranclp_into_rtranclp)
qed

lemma turns: "loop_steps env (ph, L) (ph', L') \<Longrightarrow> thread_steps env d (Looping ph L, w) (Looping ph' L', w)"
  unfolding loop_steps_def thread_steps_def
proof (induction "(ph, L)" "(ph', L')" arbitrary: ph' L' rule: rtranclp.induct)
  case (rtrancl_into_rtrancl b)
  then show ?case
    by (cases b) (auto intro: rtranclp.rtrancl_into_rtrancl thread_step.turn)
qed simp

text \<open>
  C35. The destructor can wait forever: where the owner destroys the object between the return
  of \<open>Start\<close> and the beginning of \<open>Run\<close>, the stop flag it sets is reset by \<open>Run\<close>, the octet
  it wrote is read, and then the owner waits in \<open>join\<close> for a loop that waits in \<open>select\<close>
  with nothing to wake it: not stopped, no octet in the pipe, no functor queued.
\<close>

theorem thread_destructor_hangs:
  assumes "fd_ok d"
  shows "\<exists>L. thread_steps env d (NotStarted, Outside) (Published L, Started)
    \<and> (\<exists>M. thread_steps env d (Published L, Started) (Looping AtSelect M, Joining)
      \<and> \<not> stopped M \<and> pipe_bytes M = 0 \<and> queue M = [])"
proof -
  let ?L = "wakeup_loop d False False 0 :: 'a loop" and ?M = "wakeup_loop d True False 0 :: 'a loop"
  have "thread_steps env d (NotStarted, Outside) (Published ?L, Started)"
  proof -
    have "thread_steps env d (NotStarted, Outside) (Entered, Starting)"
      unfolding thread_steps_def by (rule r_into_rtranclp, rule thread_step.start)
    from steps_then [OF this thread_step.construct [OF wakeup_loop_new [OF assms]]]
    have "thread_steps env d (NotStarted, Outside) (Constructed ?L, Starting)" .
    from steps_then [OF steps_then [OF this thread_step.publish] thread_step.start_returns] show ?thesis .
  qed
  moreover have "thread_steps env d (Published ?L, Started) (Looping AtSelect ?M, Joining)"
  proof -
    have "stop False ?L = Ret () (wakeup_loop d False True 1)"
      by (simp add: stop_def wakeup_def wakeup_loop_def)
    then have 1: "thread_step env d (Published ?L, Started) (Published (wakeup_loop d False True 1), Joining)"
      by (rule thread_step.destroy)
    have "(wakeup_loop d False True 1 :: 'a loop)\<lparr>stopped := False\<rparr> = wakeup_loop d False False 1"
      by (simp add: wakeup_loop_def)
    then have 2: "thread_step env d (Published (wakeup_loop d False True 1), Joining) (Looping AtSelect (wakeup_loop d True False 1), Joining)"
      using wakeup_loop_run [OF assms, of env 1] by (intro thread_step.run) simp
    show ?thesis
      using 1 2 turns [OF wakeup_loop_turn [OF assms, of env], of d Joining] unfolding thread_steps_def
      by (meson converse_rtranclp_into_rtranclp)
  qed
  moreover have "\<not> stopped ?M" "pipe_bytes ?M = 0" "queue ?M = []" by (simp_all add: wakeup_loop_def)
  ultimately show ?thesis by blast
qed

theorem thread_destructor_hangs_witness:
  "\<exists>M. thread_steps idle_env 3 (NotStarted, Outside) (Looping AtSelect M, Joining) \<and> \<not> stopped M"
proof -
  have "fd_ok 3" by (simp add: fd_ok_def)
  from thread_destructor_hangs [OF this, of idle_env] show ?thesis
    unfolding thread_steps_def by (meson rtranclp_trans)
qed

end
