(* ===== verification/Resolver.thy ===== *)
theory Resolver
  imports DnsMsg BufferTransfer
begin

text \<open>
  \<open>dns::Resolver\<close> of the example \<open>examples/dns\<close>: one query to a server over a \<open>UdpSocket\<close> and
  its answer, each packed into and unpacked from a \<open>StreamBuffer\<close>. The query is printed first,
  which changes nothing. The arguments \<open>junk\<close> and \<open>rnd\<close> are those of the DNS messages.
\<close>

subsection \<open>The class\<close>

record resolver = udp +
  server_address :: address

type_synonym ('r, 'a) resolver_io = "('r, 'a resolver_ext udp_ext) io"

abbreviation (input) "DEFAULT_DNS_HOST \<equiv> ''8.8.8.8''"
abbreviation (input) "DEFAULT_DNS_PORT \<equiv> 53 :: 16 word"

definition resolver_new_server :: "inet \<Rightarrow> char list \<Rightarrow> 16 word \<Rightarrow> 16 word \<Rightarrow> (unit, 'a) resolver_io" where
  "resolver_new_server I host port family = bind_io udp_new (\<lambda>_.
     bind_io (make_address (addr_new_host I host port family)) (\<lambda>a. modify (\<lambda>s. s\<lparr>server_address := a\<rparr>)))"

definition resolver_new :: "inet \<Rightarrow> (unit, 'a) resolver_io" where
  "resolver_new I = resolver_new_server I DEFAULT_DNS_HOST DEFAULT_DNS_PORT AF_INET"

definition resolver_delete :: "(unit, 'a) resolver_io" where
  "resolver_delete = sock_delete"

text \<open>The result is the returned value with the query and the response as they are left.\<close>

definition resolve :: "16 word \<Rightarrow> message \<Rightarrow> message option \<Rightarrow> (bool \<times> message \<times> message, 'a) resolver_io" where
  "resolve junk query response = (case response of None \<Rightarrow> fail AssertFailed
     | Some m \<Rightarrow> bind_io (on_buffer (sb_new DEFAULT_BUFFER_SIZE MAX_BUFFER_SIZE)) (\<lambda>(_, b).
     bind_io (on_buffer (msg_to_buffer query b)) (\<lambda>((ok, q), b).
     if \<not> ok then reject GeneralError ''Packing query into buffer failed'' 0 (False, q, m)
     else bind_io (gets server_address) (\<lambda>a.
     bind_io (udp_send_buffer_to a b) (\<lambda>(sent, b).
     if sent \<le> 0 then ret (False, q, m)
     else if sb_readable b \<noteq> 0 then fail AssertFailed
     else bind_io (udp_receive_buffer_from None (sb_clear b)) (\<lambda>(n, _, b).
     if n \<le> 0 then ret (False, q, m)
     else bind_io (on_buffer (msg_from_buffer junk m b)) (\<lambda>((ok, m), b).
     if \<not> ok then reject GeneralError ''Unpacking reponse from buffer failed'' 0 (False, q, m)
     else ret (True, q, m))))))))"

definition resolve_name :: "nat \<Rightarrow> 16 word \<Rightarrow> char list \<Rightarrow> QTYPE \<Rightarrow> message option
    \<Rightarrow> (bool \<times> message \<times> message, 'a) resolver_io" where
  "resolve_name rnd junk name t response = bind_io (\<lambda>s. bind_out (query_new_name rnd name (qt_code t)) (\<lambda>_ q. Ret q s))
     (\<lambda>q. resolve junk q response)"

text \<open>
  The program: four lookups of the first argument with one resolver and one error object. An
  error is printed and the response printed in any case, so what counts is how each one is left.
\<close>

fun lookups :: "16 word \<Rightarrow> char list \<Rightarrow> (nat \<times> QTYPE) list \<Rightarrow> (message list, 'a) resolver_io" where
  "lookups junk domain [] = ret []"
| "lookups junk domain ((rnd, t) # ts) = bind_io (resolve_name rnd junk domain t (Some message_new)) (\<lambda>(_, _, m).
     bind_io (lookups junk domain ts) (\<lambda>ms. ret (m # ms)))"

definition resolver_main :: "inet \<Rightarrow> nat list \<Rightarrow> 16 word \<Rightarrow> char list list \<Rightarrow> (message list, 'a) resolver_io" where
  "resolver_main I rnds junk args = (case args of [] \<Rightarrow> ret []
     | domain # _ \<Rightarrow> bind_io (modify (\<lambda>s. s\<lparr>err := Some err_new\<rparr>)) (\<lambda>_. bind_io (resolver_new I) (\<lambda>_.
       bind_io (lookups junk domain (zip rnds [QT RT_A, QT RT_CNAME, QT RT_MX, QT RT_TXT])) (\<lambda>ms.
       bind_io resolver_delete (\<lambda>_. ret ms)))))"

subsection \<open>One exchange\<close>

lemma opened_on_demand:
  assumes "if fd s = INVALID_SOCKET then replies s = Ok d # rs \<and> d \<noteq> INVALID_SOCKET else replies s = rs \<and> d = fd s"
  shows "\<exists>t. udp_ensure_open a s = Ret True t \<and> fd t = d \<and> err t = err s \<and> replies t = rs"
  using assms
  by (auto simp: udp_ensure_open_def ensure_open_def sock_valid_def io_simps sock_create_def init_socket_def sys_call_def
      log_reply_def split: if_splits)

lemma blocking_retry:
  assumes "replies s = Ok f # Ok 0 # js @ Done v data a # rs" and "list_all (\<lambda>r. r = Failed EINTR) js"
  shows "\<exists>t. sock_block True s = Ret True (after_block True f s)
    \<and> sys_retry c (after_block True f s) = Ret (Some (v, data, a)) t
    \<and> fd t = fd s \<and> err t = err s \<and> replies t = rs \<and> (c, Done v data a) \<in> set (trace t)
    \<and> (\<exists>u. trace t = trace s @ u)"
proof -
  obtain t where t: "sys_retry c (after_block True f s) = Ret (Some (v, data, a)) t"
    "fd t = fd (after_block True f s)" "err t = err (after_block True f s)" "replies t = rs"
    "trace t = trace (after_block True f s) @ map (Pair c) (js @ [Done v data a])"
    using sys_retry_done [OF block_accepted(2) [OF assms(1), of True] assms(2)] by blast
  then show ?thesis
    using block_accepted [OF assms(1), of True] by (intro exI [of _ t]) (auto simp: after_block_def)
qed

lemma datagram_sent:
  assumes "\<not> addr_empty a" and "addr_length a = Ret k ()" and "list_all (\<lambda>r. r = Failed EINTR) js"
    and "if fd s = INVALID_SOCKET then replies s = Ok d # rs \<and> d \<noteq> INVALID_SOCKET else replies s = rs \<and> d = fd s"
    and "rs = Ok f # Ok 0 # js @ Ok v # rs'"
  shows "\<exists>t. udp_send_to a (Some p) s = Ret v t \<and> fd t = d \<and> err t = err s \<and> replies t = rs'
    \<and> (SysSendTo d p 0 a k, Ok v) \<in> set (trace t)"
proof -
  obtain s1 where s1: "udp_ensure_open a s = Ret True s1" "fd s1 = d" "err s1 = err s" "replies s1 = rs"
    using opened_on_demand [OF assms(4)] by blast
  have r: "replies s1 = Ok f # Ok 0 # js @ Done v [] [] # rs'" using s1(4) assms(5) by simp
  show ?thesis
    using blocking_retry [OF r assms(3), of "SysSendTo d p 0 a k"] block_accepted(3) [OF r, of True] s1 assms(1,2)
    by (auto simp: udp_send_to_def io_simps sock_send_to_def)
qed

lemma datagram_received:
  assumes "replies s = Ok f # Ok 0 # js @ Done v data a # rs" and "list_all (\<lambda>r. r = Failed EINTR) js"
  shows "\<exists>t. udp_receive_from True n None s = Ret (v, data, None) t \<and> fd t = fd s \<and> err t = err s
    \<and> replies t = rs \<and> (\<exists>u. trace t = trace s @ u)"
  using blocking_retry [OF assms, of "SysRecv (fd s) n 0"] block_accepted(3) [OF assms(1), of True]
  by (auto simp: udp_receive_from_def io_simps sock_receive_from_def sock_receive_def)

text \<open>The buffer of an exchange: packed into, emptied by sending, cleared and received into.\<close>

definition fresh_buffer :: stream_buffer where
  "fresh_buffer = \<lparr>bytes = replicate DEFAULT_BUFFER_SIZE (CHR 0x00), limit = MAX_BUFFER_SIZE, opos = 0, rpos = 0, wpos = 0\<rparr>"

lemma fresh_buffer_facts:
  "sb_new DEFAULT_BUFFER_SIZE MAX_BUFFER_SIZE = Ret () fresh_buffer" "sb_wf fresh_buffer" "sb_unread fresh_buffer = []"
  "sb_room n fresh_buffer \<longleftrightarrow> n \<le> MAX_BUFFER_SIZE" "stream_buffer.limit fresh_buffer = MAX_BUFFER_SIZE"
  by (simp_all add: fresh_buffer_def sb_new_def sb_wf_def sb_unread_def sb_room_def sb_cap_def
      DEFAULT_BUFFER_SIZE_def MAX_BUFFER_SIZE_def vec_max_def)

lemma cleared_buffer:
  assumes "sb_wf b" and "stream_buffer.limit b = MAX_BUFFER_SIZE"
  shows "sb_wf (sb_clear b)" "sb_room 2048 (sb_clear b)" "sb_unread (sb_clear b) = []" "sb_data (sb_clear b) = []"
  using sb_clear_wf [OF assms(1)] assms(2)
  by (simp_all add: sb_clear_def sb_room_def sb_cap_def sb_unread_def sb_data_def MAX_BUFFER_SIZE_def vec_max_def)

lemma query_sent:
  assumes "answers q = []" "authorities q = []" "additionals q = []" and "length (msg_wire q) \<le> MAX_BUFFER_SIZE"
    and "udp_send_to a (Some (msg_wire q)) s = Ret (int (length (msg_wire q))) t"
  shows "\<exists>b1 b2. msg_to_buffer q fresh_buffer = Ret (True, q) b1
    \<and> udp_send_buffer_to a b1 s = Ret (int (length (msg_wire q)), b2) t
    \<and> sb_readable b2 = 0 \<and> sb_wf b2 \<and> stream_buffer.limit b2 = MAX_BUFFER_SIZE"
proof -
  obtain b1 where b1: "msg_to_buffer q fresh_buffer = Ret (True, q) b1" "sb_extends (msg_wire q) fresh_buffer b1"
    using emits_retD [OF msg_to_buffer_questions [OF assms(1-3)] fresh_buffer_facts(2)] assms(4)
    by (auto simp: fresh_buffer_facts)
  note wf = sb_extendsD(1) [OF b1(2)]
  have u: "sb_unread b1 = msg_wire q" using sb_extends_unread [OF fresh_buffer_facts(2) b1(2)] by (simp add: fresh_buffer_facts)
  obtain b2 where b2: "udp_send_buffer_to a b1 s = Ret (int (length (msg_wire q)), b2) t"
    "sb_consumes (length (msg_wire q)) b1 b2"
    using send_buffer_takes [OF wf, where send = "udp_send_to a" and s = s and n = "length (msg_wire q)"] assms(5) u
    unfolding udp_send_buffer_to_def by auto
  note wf2 = sb_consumes_wf [OF wf b2(2)]
  have "sb_readable b2 = 0" using sb_consumes_unread [OF wf b2(2)] u by (simp add: sb_readable_unread [OF wf2])
  moreover have "stream_buffer.limit b2 = MAX_BUFFER_SIZE"
    using b2(2) sb_extendsD(4) [OF b1(2)] by (simp add: sb_consumes_def fresh_buffer_facts)
  ultimately show ?thesis using b1(1) b2(1) wf2 by blast
qed

lemma answer_received:
  assumes "sb_wf b" and "stream_buffer.limit b = MAX_BUFFER_SIZE" and "length data \<le> 2048"
    and "message_at junk data m p" and "take (length p) data = p"
    and "replies s = Ok f # Ok 0 # js @ Done (int (length data)) data a # rs" and "list_all (\<lambda>r. r = Failed EINTR) js"
  shows "\<exists>b3 b4 t. udp_receive_buffer_from None (sb_clear b) s = Ret (int (length data), None, b3) t
    \<and> msg_from_buffer junk message_new b3 = Ret (True, m) b4
    \<and> fd t = fd s \<and> err t = err s \<and> replies t = rs \<and> (\<exists>u. trace t = trace s @ u)"
proof -
  note cl = cleared_buffer [OF assms(1,2)]
  have "\<forall>n. \<exists>t. udp_receive_from True n None s = Ret (int (length data), data, None) t \<and> fd t = fd s \<and> err t = err s
      \<and> replies t = rs \<and> (\<exists>u. trace t = trace s @ u)"
    using datagram_received [OF assms(6,7)] by blast
  then obtain t where t: "\<And>n. udp_receive_from True n None s = Ret (int (length data), data, None) (t n)"
    "\<And>n. fd (t n) = fd s \<and> err (t n) = err s \<and> replies (t n) = rs \<and> (\<exists>u. trace (t n) = trace s @ u)"
    by (auto dest!: choice)
  obtain b3 n where b3: "udp_receive_buffer_from None (sb_clear b) s = Ret (int (length data), None, b3) (t n)"
    "sb_extends data (sb_clear b) b3"
    using receive_buffer_takes [OF cl(1,2), where recv = "\<lambda>n. udp_receive_from True n None" and s = s, OF t(1) assms(3)]
    unfolding udp_receive_buffer_from_def by blast
  have "sb_unread b3 = data" "sb_data b3 = data"
    using sb_extends_unread [OF cl(1) b3(2)] sb_extends_data [OF cl(1) b3(2)] cl(3,4) by simp_all
  then obtain b4 where "msg_from_buffer junk message_new b3 = Ret (True, m) b4"
    using msg_from_buffer_reads [OF sb_extendsD(1) [OF b3(2)], of p junk m] assms(4,5) by auto
  then show ?thesis using b3(1) t(2) [of n] by blast
qed

text \<open>
  C36. A lookup: the octets of the query, at most 1048576, go to the configured server in one
  datagram, on a socket opened on demand, and from any datagram of at most 2048 octets that begins
  with a message in the standard format (A, CNAME, MX, one-string TXT and empty SOA records, names
  plain or with a pointer below 256 to a plain name, the uninitialised length of CNAME zero), the
  response is the message in it; the error object stays as it is. The system may interrupt the
  calls as often as it likes, and otherwise accepts them and takes the query whole. Neither the
  identifier of the message nor its sender is compared with those of the query: the message \<open>m\<close>
  and the address \<open>sender\<close> are arbitrary.
\<close>

theorem lookup_returns_answer:
  assumes "query_new_name rnd name (qt_code t) = Ret () q" and "length (msg_wire q) \<le> MAX_BUFFER_SIZE"
    and "\<not> addr_empty (server_address s)" and "addr_length (server_address s) = Ret k ()"
    and "if fd s = INVALID_SOCKET then replies s = Ok d # rs \<and> d \<noteq> INVALID_SOCKET else replies s = rs \<and> d = fd s"
    and "rs = Ok f # Ok 0 # early @ Ok (int (length (msg_wire q)))
      # Ok g # Ok 0 # late @ Done (int (length data)) data sender # rest"
    and "list_all (\<lambda>r. r = Failed EINTR) early" and "list_all (\<lambda>r. r = Failed EINTR) late"
    and "take (length p) data = p" and "message_at junk data m p" and "length data \<le> 2048"
  shows "\<exists>s'. resolve_name rnd junk name t (Some message_new) s = Ret (True, q, m) s'
    \<and> (SysSendTo d (msg_wire q) 0 (server_address s) k, Ok (int (length (msg_wire q)))) \<in> set (trace s')
    \<and> replies s' = rest \<and> err s' = err s \<and> fd s' = d"
proof -
  note q = query_new_ok [OF assms(1)]
  obtain s2 where s2: "udp_send_to (server_address s) (Some (msg_wire q)) s = Ret (int (length (msg_wire q))) s2"
    "fd s2 = d" "err s2 = err s" "replies s2 = Ok g # Ok 0 # late @ Done (int (length data)) data sender # rest"
    "(SysSendTo d (msg_wire q) 0 (server_address s) k, Ok (int (length (msg_wire q)))) \<in> set (trace s2)"
    using datagram_sent [OF assms(3,4,7,5,6), of "msg_wire q"] by blast
  obtain b1 b2 where b: "msg_to_buffer q fresh_buffer = Ret (True, q) b1"
    "udp_send_buffer_to (server_address s) b1 s = Ret (int (length (msg_wire q)), b2) s2"
    "sb_readable b2 = 0" "sb_wf b2" "stream_buffer.limit b2 = MAX_BUFFER_SIZE"
    using query_sent [OF q(1-3) assms(2) s2(1)] by blast
  obtain b3 b4 s3 where s3: "udp_receive_buffer_from None (sb_clear b2) s2 = Ret (int (length data), None, b3) s3"
    "msg_from_buffer junk message_new b3 = Ret (True, m) b4" "fd s3 = d" "err s3 = err s" "replies s3 = rest"
    "\<exists>u. trace s3 = trace s2 @ u"
    using answer_received [OF b(4,5) assms(11,10,9) s2(4) assms(8)] s2(2,3) by auto
  have "0 < length p" using assms(10) by cases (simp add: header_wire_def flags_wire_def)
  moreover have pos: "0 < length (msg_wire q)"
    by (simp add: msg_wire_def header_wire_def flags_wire_def)
  ultimately have "0 < length data" using assms(9) by (cases data) auto
  then have "resolve_name rnd junk name t (Some message_new) s = Ret (True, q, m) s3"
    using b(1-3) s3(1,2) pos
    by (simp add: resolve_name_def resolve_def io_simps on_buffer_def assms(1) fresh_buffer_facts(1))
  then show ?thesis using s2(5) s3(3-6) by auto
qed

definition demo_resolver :: "reply list \<Rightarrow> resolver" where
  "demo_resolver rs = \<lparr>fd = INVALID_SOCKET, err = None, replies = rs, waits = [], errno = 0, trace = [],
     udp_address = addr_new, udp_reuse_addr = False, udp_reuse_port = False, server_address = addr_reset AF_INET\<rparr>"

theorem lookup_returns_answer_witness:
  "\<exists>s'. resolve_name 5 3 ''a.b'' (QT RT_MX) (Some message_new)
      (demo_resolver [Ok 7, Ok 2, Ok 0, Failed EINTR, Ok 21, Ok 2, Ok 0, Done 37 demo_octets addr_new])
    = Ret (True, demo_query, demo_response) s'"
proof -
  let ?rs = "[Ok 2, Ok 0, Failed EINTR, Ok 21, Ok 2, Ok 0, Done 37 demo_octets addr_new]"
  have q: "query_new_name 5 ''a.b'' (qt_code (QT RT_MX)) = Ret () demo_query" using demo_query_new by simp
  have a: "length (msg_wire demo_query) \<le> MAX_BUFFER_SIZE" "\<not> addr_empty (server_address (demo_resolver (Ok 7 # ?rs)))"
    "addr_length (server_address (demo_resolver (Ok 7 # ?rs))) = Ret 16 ()"
    by (simp_all add: length_msg_wire_demo MAX_BUFFER_SIZE_def demo_resolver_def addr_empty_def addr_length_def)
  have o: "if fd (demo_resolver (Ok 7 # ?rs)) = INVALID_SOCKET then replies (demo_resolver (Ok 7 # ?rs)) = Ok 7 # ?rs \<and> 7 \<noteq> INVALID_SOCKET
      else replies (demo_resolver (Ok 7 # ?rs)) = ?rs \<and> 7 = fd (demo_resolver (Ok 7 # ?rs))"
    by (simp add: demo_resolver_def)
  have r: "?rs = Ok 2 # Ok 0 # [Failed EINTR] @ Ok (int (length (msg_wire demo_query)))
      # Ok 2 # Ok 0 # [] @ Done (int (length demo_octets)) demo_octets addr_new # []"
    by (simp add: length_msg_wire_demo length_demo_octets)
  have m: "take (length demo_octets) demo_octets = demo_octets"
    "message_at 3 demo_octets demo_response demo_octets" "length demo_octets \<le> 2048"
    by (simp_all add: demo_octets_at length_demo_octets)
  show ?thesis using lookup_returns_answer [OF q a o r _ _ m] by auto
qed

end
