(* ===== verification/EchoPrograms.thy ===== *)
theory EchoPrograms
  imports BufferTransfer Http
begin

text \<open>
  The echo servers and clients of \<open>examples/tcp\<close> and \<open>examples/udp\<close>, each written on \<open>Socket\<close>
  or on the classes above it, with exceptions or with an error object. A program is a function
  of its arguments (without its own name); what it prints is left out, except that printing an
  address asks for it and may fail an assertion. A server has the socket of the connection as
  its state and the listening object beside it; its loops run on a bound that the number of
  replies of the system gives, since every turn makes a call.
\<close>

subsection \<open>Arguments\<close>

definition port_or :: "16 word \<Rightarrow> char list \<Rightarrow> 16 word" where
  "port_or usual arg = (let n = atoi_int arg in if 0 < n \<and> n \<le> 65535 then word_of_int n else usual)"

definition server_port :: "16 word \<Rightarrow> char list list \<Rightarrow> 16 word" where
  "server_port usual args = (case args of [p] \<Rightarrow> port_or usual p | _ \<Rightarrow> usual)"

definition client_target :: "16 word \<Rightarrow> char list list \<Rightarrow> char list \<times> 16 word" where
  "client_target usual args =
     (case args of [p] \<Rightarrow> ([], port_or usual p) | [h, p] \<Rightarrow> (h, port_or usual p) | _ \<Rightarrow> ([], usual))"

definition own_address :: "char list list \<Rightarrow> (address, 'a) io" where
  "own_address args = make_address (addr_new_port (server_port 9000 args) AF_INET)"

definition target_address :: "inet \<Rightarrow> 16 word \<Rightarrow> char list list \<Rightarrow> (address, 'a) io" where
  "target_address I usual args =
     make_address (addr_new_host I (fst (client_target usual args)) (snd (client_target usual args)) AF_INET)"

text \<open>\<open>std::cout << x.Address().String()\<close>.\<close>

definition shown :: "inet \<Rightarrow> (address, 'a) io \<Rightarrow> (unit, 'a) io" where
  "shown I m = bind_io (quiet m) (\<lambda>a. bind_io (lift_pure (addr_string I a)) (\<lambda>_. ret ()))"

definition all_replies :: "(nat \<Rightarrow> ('r, 'a) io) \<Rightarrow> ('r, 'a) io" where
  "all_replies f s = f (Suc (length (replies s))) s"

subsection \<open>TCP servers on sockets\<close>

record raw_server = net +
  raw_listener :: net

abbreviation on_raw_listener :: "('r, unit) io \<Rightarrow> ('r, 'a raw_server_ext) io" where
  "on_raw_listener \<equiv> on_object raw_listener raw_listener_update"

text \<open>The block \<open>buf\<close> keeps what a shorter delivery does not overwrite.\<close>

fun echo_chars :: "nat \<Rightarrow> char list \<Rightarrow> (char list, 'a) io" where
  "echo_chars 0 buf = fail BlockedForever"
| "echo_chars (Suc n) buf = bind_io (quiet (sock_receive True 2048 0)) (\<lambda>(v, data).
     let buf = patch 0 data buf in
     if 0 < v then bind_io (quiet (sock_send (Some (take (nat v) buf)) 0)) (\<lambda>_. echo_chars n buf)
     else ret buf)"

fun raw_serve :: "(exception + int, unit) io \<Rightarrow> nat \<Rightarrow> char list \<Rightarrow> (exception option, 'a raw_server_ext) io" where
  "raw_serve accept 0 buf = fail BlockedForever"
| "raw_serve accept (Suc n) buf = unless_thrown (on_raw_listener accept) (\<lambda>v. bind_io (sock_attach v) (\<lambda>ok.
     if ok then bind_io (echo_chars n buf) (raw_serve accept n) else ret None))"

definition raw_end :: "(unit, 'a raw_server_ext) io" where
  "raw_end = bind_io sock_delete (\<lambda>_. on_raw_listener sock_delete)"

definition raw_begin :: "(unit, 'a raw_server_ext) io" where
  "raw_begin = bind_io (put_fd INVALID_SOCKET) (\<lambda>_. on_raw_listener (put_fd INVALID_SOCKET))"

definition tcp_server1 :: "inet \<Rightarrow> char list \<Rightarrow> char list list \<Rightarrow> (unit, 'a raw_server_ext) io" where
  "tcp_server1 I junk args = bind_io raw_begin (\<lambda>_. bind_io
     (unless_thrown (on_raw_listener (sock_new_throw 2 SOCK_STREAM IPPROTO_TCP)) (\<lambda>_.
      unless_thrown (on_raw_listener (sock_reuse_address_throw True)) (\<lambda>_.
      unless_thrown (on_raw_listener (sock_reuse_port_throw True)) (\<lambda>_.
      bind_io (own_address args) (\<lambda>a.
      unless_thrown (on_raw_listener (sock_bind_throw I a)) (\<lambda>_.
      unless_thrown (on_raw_listener (sock_listen_throw (- 1))) (\<lambda>_.
      bind_io (on_raw_listener (shown I sock_address)) (\<lambda>_.
      all_replies (\<lambda>n. raw_serve sock_accept_throw n junk)))))))))
     (\<lambda>_. raw_end))"

definition tcp_server2 :: "inet \<Rightarrow> char list \<Rightarrow> char list list \<Rightarrow> (unit, 'a raw_server_ext) io" where
  "tcp_server2 I junk args = bind_io raw_begin (\<lambda>_.
     bind_io (modify (\<lambda>s. s\<lparr>err := Some err_new\<rparr>)) (\<lambda>_.
     bind_io (and_io (on_raw_listener (sock_create 2 SOCK_STREAM IPPROTO_TCP))
       (and_io (on_raw_listener (sock_reuse_address True))
       (and_io (on_raw_listener (sock_reuse_port True))
       (and_io (bind_io (own_address args) (\<lambda>a. on_raw_listener (sock_bind I a)))
       (on_raw_listener (sock_listen (- 1))))))) (\<lambda>ok.
     bind_io (if \<not> ok then ret None
       else bind_io (on_raw_listener (shown I sock_address)) (\<lambda>_.
         all_replies (\<lambda>n. raw_serve (bind_io sock_accept (\<lambda>v. ret (Inr v))) n junk)))
     (\<lambda>_. raw_end))))"

subsection \<open>TCP servers on acceptor and connection\<close>

record tcp_server = tcp +
  tcp_listener :: acceptor

abbreviation on_tcp_listener :: "('r, unit acceptor_ext) io \<Rightarrow> ('r, 'a tcp_server_ext tcp_ext) io" where
  "on_tcp_listener \<equiv> on_object tcp_listener tcp_listener_update"

fun echo_buffer :: "nat \<Rightarrow> stream_buffer \<Rightarrow> (stream_buffer, 'a) io" where
  "echo_buffer 0 b = fail BlockedForever"
| "echo_buffer (Suc n) b = bind_io (quiet (tcp_receive_buffer b)) (\<lambda>(v, _, b).
     if 0 < v then bind_io (quiet (tcp_send_buffer b)) (\<lambda>(w, b).
       echo_buffer n (if 0 < w then snd (sb_flush b) else b))
     else ret b)"

fun buffer_serve :: "(exception + bool, 'a tcp_server_ext tcp_ext) io \<Rightarrow> nat \<Rightarrow> stream_buffer
    \<Rightarrow> (exception option, 'a tcp_server_ext tcp_ext) io" where
  "buffer_serve connect 0 b = fail BlockedForever"
| "buffer_serve connect (Suc n) b = unless_thrown connect (\<lambda>ok.
     if ok then bind_io (echo_buffer n b) (\<lambda>b. buffer_serve connect n (sb_clear b)) else ret None)"

definition tcp_end :: "(unit, 'a tcp_server_ext tcp_ext) io" where
  "tcp_end = bind_io sock_delete (\<lambda>_. on_tcp_listener sock_delete)"

definition tcp_begin :: "char list list \<Rightarrow> (unit, 'a tcp_server_ext tcp_ext) io" where
  "tcp_begin args = bind_io tcp_new (\<lambda>_. bind_io (own_address args) (\<lambda>a.
     on_tcp_listener (acc_new_address a True True)))"

definition connect_next_throw :: "(exception + bool, 'a tcp_server_ext tcp_ext) io" where
  "connect_next_throw = bind_io (on_tcp_listener acc_accept_throw) (\<lambda>r. case r of
     Inl x \<Rightarrow> ret (Inl x) | Inr v \<Rightarrow> tcp_connected_fd_throw v None)"

definition connect_next :: "(exception + bool, 'a tcp_server_ext tcp_ext) io" where
  "connect_next = bind_io (on_tcp_listener acc_accept) (\<lambda>v. bind_io (tcp_connected_fd v None) (\<lambda>ok. ret (Inr ok)))"

definition tcp_server3 :: "inet \<Rightarrow> char list list \<Rightarrow> (unit, 'a tcp_server_ext tcp_ext) io" where
  "tcp_server3 I args = bind_io (tcp_begin args) (\<lambda>_. bind_io
     (unless_thrown (on_tcp_listener (acc_open_own_throw I)) (\<lambda>_.
      bind_io (on_tcp_listener (shown I acc_get_address)) (\<lambda>_.
      bind_io (on_buffer (sb_new 2048 MAX_BUFFER_SIZE)) (\<lambda>(_, b).
      all_replies (\<lambda>n. buffer_serve connect_next_throw n b)))))
     (\<lambda>_. tcp_end))"

definition tcp_server4 :: "inet \<Rightarrow> char list list \<Rightarrow> (unit, 'a tcp_server_ext tcp_ext) io" where
  "tcp_server4 I args = bind_io (tcp_begin args) (\<lambda>_.
     bind_io (modify (\<lambda>s. s\<lparr>err := Some err_new\<rparr>)) (\<lambda>_.
     bind_io (on_tcp_listener (acc_open_own I)) (\<lambda>ok.
     bind_io (if \<not> ok then ret None
       else bind_io (on_tcp_listener (shown I acc_get_address)) (\<lambda>_.
         bind_io (on_buffer (sb_new 2048 MAX_BUFFER_SIZE)) (\<lambda>(_, b).
         all_replies (\<lambda>n. buffer_serve connect_next n b))))
     (\<lambda>_. tcp_end))))"

subsection \<open>UDP servers\<close>

text \<open>The sender's address is printed for every datagram that was sent back.\<close>

fun echo_datagrams :: "inet \<Rightarrow> nat \<Rightarrow> char list \<Rightarrow> (unit, 'a) io" where
  "echo_datagrams I 0 buf = fail BlockedForever"
| "echo_datagrams I (Suc n) buf = bind_io (quiet (sock_receive_from True 2048 (Some addr_new) 0)) (\<lambda>(v, data, a).
     let buf = patch 0 data buf; a = (case a of None \<Rightarrow> addr_new | Some a \<Rightarrow> a) in
     if 0 < v then bind_io (quiet (sock_send_to (Some (take (nat v) buf)) a 0)) (\<lambda>w.
       bind_io (if 0 < w then shown I (ret a) else ret ()) (\<lambda>_. echo_datagrams I n buf))
     else ret ())"

fun echo_packets :: "inet \<Rightarrow> nat \<Rightarrow> stream_buffer \<Rightarrow> (unit, 'a udp_ext) io" where
  "echo_packets I 0 b = fail BlockedForever"
| "echo_packets I (Suc n) b = bind_io (quiet (udp_receive_buffer_from (Some addr_new) b)) (\<lambda>(v, a, b).
     let a = (case a of None \<Rightarrow> addr_new | Some a \<Rightarrow> a) in
     if 0 < v then bind_io (quiet (udp_send_buffer_to a b)) (\<lambda>(w, b).
       bind_io (if 0 < w then shown I (ret a) else ret ()) (\<lambda>_. echo_packets I n (sb_clear b)))
     else ret ())"

definition udp_server1 :: "inet \<Rightarrow> char list \<Rightarrow> char list list \<Rightarrow> (unit, 'a) io" where
  "udp_server1 I junk args = bind_io
     (unless_thrown (sock_new_throw 2 SOCK_DGRAM IPPROTO_UDP) (\<lambda>_.
      bind_io (own_address args) (\<lambda>a.
      unless_thrown (sock_bind_throw I a) (\<lambda>_.
      bind_io (shown I sock_address) (\<lambda>_.
      bind_io (all_replies (\<lambda>n. echo_datagrams I n junk)) (\<lambda>_. ret None))))))
     (\<lambda>_. sock_delete)"

definition udp_server2 :: "inet \<Rightarrow> char list \<Rightarrow> char list list \<Rightarrow> (unit, 'a) io" where
  "udp_server2 I junk args = bind_io (put_fd INVALID_SOCKET) (\<lambda>_.
     bind_io (modify (\<lambda>s. s\<lparr>err := Some err_new\<rparr>)) (\<lambda>_.
     bind_io (and_io (sock_create 2 SOCK_DGRAM IPPROTO_UDP)
       (bind_io (own_address args) (sock_bind I))) (\<lambda>ok.
     bind_io (if \<not> ok then ret ()
       else bind_io (shown I sock_address) (\<lambda>_. all_replies (\<lambda>n. echo_datagrams I n junk)))
     (\<lambda>_. sock_delete))))"

definition udp_server3 :: "inet \<Rightarrow> char list list \<Rightarrow> (unit, 'a udp_ext) io" where
  "udp_server3 I args = bind_io (own_address args) (\<lambda>a. bind_io (udp_new_address a True True) (\<lambda>_. bind_io
     (unless_thrown (udp_open_own_throw I) (\<lambda>_.
      bind_io (shown I udp_get_address) (\<lambda>_.
      bind_io (on_buffer (sb_new 2048 MAX_BUFFER_SIZE)) (\<lambda>(_, b).
      bind_io (all_replies (\<lambda>n. echo_packets I n b)) (\<lambda>_. ret None)))))
     (\<lambda>_. sock_delete)))"

subsection \<open>Clients\<close>

text \<open>The text received, none where an error is printed.\<close>

definition exchange :: "(int, 'a) io \<Rightarrow> (int \<times> char list, 'a) io \<Rightarrow> (char list option, 'a) io" where
  "exchange send receive = bind_io send (\<lambda>v. if v \<le> 0 then ret None
     else bind_io receive (\<lambda>(v, data). ret (if v \<le> 0 then None else Some (take (nat v) data))))"

definition closing :: "('r, 'a) io \<Rightarrow> ('r, 'a) io" where
  "closing m = bind_io m (\<lambda>r. bind_io sock_delete (\<lambda>_. ret r))"

definition with_error :: "(unit, 'a) io" where
  "with_error = modify (\<lambda>s. s\<lparr>err := Some err_new\<rparr>)"

definition tcp_client1 :: "inet \<Rightarrow> char list list \<Rightarrow> (char list option, 'a) io" where
  "tcp_client1 I args = bind_io (put_fd INVALID_SOCKET) (\<lambda>_. closing (bind_io
     (unless_thrown (sock_create_throw 2 SOCK_STREAM IPPROTO_TCP) (\<lambda>_.
      bind_io (target_address I 9000 args) (\<lambda>a. unless_thrown (sock_connect_throw I a) (\<lambda>_. ret None))))
     (\<lambda>x. if x \<noteq> None then ret None
       else bind_io with_error (\<lambda>_. exchange (sock_send (Some ''Hello'') 0) (sock_receive True 2048 0)))))"

definition tcp_client2 :: "inet \<Rightarrow> char list list \<Rightarrow> (char list option, 'a) io" where
  "tcp_client2 I args = bind_io with_error (\<lambda>_. bind_io (put_fd INVALID_SOCKET) (\<lambda>_. closing (bind_io
     (and_io (sock_create 2 SOCK_STREAM IPPROTO_TCP) (bind_io (target_address I 9000 args) (sock_connect I)))
     (\<lambda>ok. if \<not> ok then ret None
       else exchange (sock_send (Some ''Hello'') 0) (sock_receive True 10 0)))))"

definition tcp_client3 :: "inet \<Rightarrow> char list list \<Rightarrow> (char list option, 'a tcp_ext) io" where
  "tcp_client3 I args = bind_io tcp_new (\<lambda>_. closing (bind_io
     (bind_io (target_address I 9000 args) (\<lambda>a. unless_thrown (tcp_connect_throw I a) (\<lambda>_. ret None)))
     (\<lambda>x. if x \<noteq> None then ret None
       else bind_io with_error (\<lambda>_. exchange (tcp_send (Some ''Hello'')) (tcp_receive True 10)))))"

text \<open>What is printed in the end is the readable part of the buffer.\<close>

definition exchange_buffer :: "(int, 'a) io \<Rightarrow> (stream_buffer \<Rightarrow> (int \<times> unit \<times> stream_buffer, 'a) io) \<Rightarrow> (char list option, 'a) io" where
  "exchange_buffer send receive = bind_io (on_buffer (sb_new 10 MAX_BUFFER_SIZE)) (\<lambda>(_, b).
     bind_io send (\<lambda>v. if v \<le> 0 then ret None
     else bind_io (receive b) (\<lambda>(v, _, b). if v \<le> 0 then ret None
       else bind_io (lift_pure (readable_block b)) (\<lambda>t. ret (Some t)))))"

definition tcp_client4 :: "inet \<Rightarrow> char list list \<Rightarrow> (char list option, 'a tcp_ext) io" where
  "tcp_client4 I args = bind_io with_error (\<lambda>_. bind_io tcp_new (\<lambda>_. closing (bind_io
     (bind_io (target_address I 9000 args) (tcp_connect I))
     (\<lambda>ok. if \<not> ok then ret None
       else exchange_buffer (tcp_send (Some ''Hello'')) tcp_receive_buffer))))"

definition receive_from_any :: "nat \<Rightarrow> address \<Rightarrow> (int \<times> char list, 'a) io" where
  "receive_from_any n a = bind_io (sock_receive_from True n (Some a) 0) (\<lambda>(v, data, _). ret (v, data))"

definition udp_client1 :: "inet \<Rightarrow> char list list \<Rightarrow> (char list option, 'a) io" where
  "udp_client1 I args = bind_io (put_fd INVALID_SOCKET) (\<lambda>_. closing (bind_io
     (sock_create_throw 2 SOCK_DGRAM IPPROTO_UDP) (\<lambda>r. case r of Inl x \<Rightarrow> ret None
     | Inr _ \<Rightarrow> bind_io with_error (\<lambda>_. bind_io (target_address I 9000 args) (\<lambda>a.
         exchange (sock_send_to (Some ''Hello'') a 0) (receive_from_any 2048 a))))))"

definition udp_client2 :: "inet \<Rightarrow> char list list \<Rightarrow> (char list option, 'a) io" where
  "udp_client2 I args = bind_io with_error (\<lambda>_. bind_io (put_fd INVALID_SOCKET) (\<lambda>_. closing (bind_io
     (sock_create 2 SOCK_DGRAM IPPROTO_UDP) (\<lambda>ok. if \<not> ok then ret None
     else bind_io (target_address I 9000 args) (\<lambda>a.
         exchange (sock_send_to (Some ''Hello'') a 0) (receive_from_any 10 a))))))"

definition udp_client3 :: "inet \<Rightarrow> char list list \<Rightarrow> (char list option, 'a udp_ext) io" where
  "udp_client3 I args = bind_io udp_new (\<lambda>_. closing (bind_io
     (bind_io (target_address I 9000 args) (\<lambda>a. unless_thrown (udp_connect_throw I a) (\<lambda>_.
      bind_io (shown I udp_get_connected_address) (\<lambda>_. ret None))))
     (\<lambda>x. if x \<noteq> None then ret None
       else bind_io with_error (\<lambda>_. exchange_buffer (udp_send (Some ''Hello'')) udp_receive_buffer))))"

end
