(* ===== verification/EchoRuns.thy ===== *)
theory EchoRuns
  imports EchoPrograms
begin

text \<open>
  What the echo servers do with the bytes that pass through them: a connection on a buffer keeps
  the stream of bytes whatever part of it the system takes at a time, the datagram servers send
  every datagram back to the address it came from, and the bounds of the loops are no limit.
\<close>

subsection \<open>Streams that are echoed\<close>

text \<open>Calls that move no bytes of the stream extend the trace by nothing that counts.\<close>

definition same_stream :: "'a net_scheme \<Rightarrow> 'a net_scheme \<Rightarrow> bool" where
  "same_stream s s' \<longleftrightarrow> (\<exists>u. trace s' = trace s @ u \<and> list_all (\<lambda>x. not_stream (fst x)) u)"

interpretation stream_free: frame same_stream not_stream
  by unfold_locales (fastforce simp: same_stream_def log_reply_def)+

text \<open>
  The writing position of a buffer that receives, sends and flushes: up by what is delivered,
  back to zero when all of it was taken.
\<close>

fun level_step :: "nat \<Rightarrow> syscall \<times> reply \<Rightarrow> nat" where
  "level_step w (SysRecv d n flags, Done v x a) = w + length x"
| "level_step w (SysSend d data flags, Done v x a) = (if v = int (length data) then 0 else w)"
| "level_step w _ = w"

fun level_ok :: "nat \<Rightarrow> (syscall \<times> reply) list \<Rightarrow> bool" where
  "level_ok w [] \<longleftrightarrow> w + 2048 \<le> MAX_BUFFER_SIZE"
| "level_ok w (e # u) \<longleftrightarrow> w + 2048 \<le> MAX_BUFFER_SIZE \<and> level_ok (level_step w e) u"

lemma level_ok_start: "level_ok w u \<Longrightarrow> w + 2048 \<le> MAX_BUFFER_SIZE"
  by (cases u) simp_all

lemma level_ok_append: "level_ok w (u @ v) \<Longrightarrow> level_ok (foldl level_step w u) v"
  by (induction u arbitrary: w) simp_all

lemma stream_free_calls:
  assumes "list_all (\<lambda>x. not_stream (fst x)) u"
  shows "sent_in u = []" "received_in u = []" "foldl level_step w u = w"
proof -
  have step: "sent_in [x] = [] \<and> received_in [x] = [] \<and> level_step w x = w" if "not_stream (fst x)" for x w
    using that by (cases x; cases "fst x") auto
  have "sent_in u = [] \<and> received_in u = [] \<and> foldl level_step w u = w" using assms
  proof (induction u)
    case (Cons x u)
    then show ?case
      using step [of x] sent_in_append [of "[x]" u] received_in_append [of "[x]" u] by simp
  qed simp
  then show "sent_in u = []" "received_in u = []" "foldl level_step w u = w" by simp_all
qed

lemma failed_calls:
  assumes "list_all (\<lambda>x. \<exists>code. x = Failed code) is"
  shows "sent_in (map (Pair c) is) = []" "received_in (map (Pair c) is) = []" "foldl level_step w (map (Pair c) is) = w"
proof -
  have step: "received_in [(c, Failed code)] = []" "level_step w (c, Failed code) = w" for code w
    by (cases c; simp)+
  have "received_in (map (Pair c) is) = [] \<and> foldl level_step w (map (Pair c) is) = w" using assms
  proof (induction "is")
    case (Cons x "is")
    then show ?case
      using step received_in_append [of "[(c, x)]" "map (Pair c) is"] by auto
  qed simp
  then show "received_in (map (Pair c) is) = []" "foldl level_step w (map (Pair c) is) = w" by simp_all
  show "sent_in (map (Pair c) is) = []" by (rule sent_in_failures [OF assms])
qed

lemma quietE:
  assumes "quiet m s = Ret r s'"
  obtains t where "m (s\<lparr>err := None\<rparr>) = Ret r t" "trace s' = trace t" "replies s' = replies t"
  using assms by (auto simp: quiet_def bind_out_eq_Ret)

lemma receive_call:
  assumes "sock_receive True n flags s = Ret (v, data) s'"
  shows "\<exists>u. trace s' = trace s @ u \<and> sent_in u = [] \<and> received_in u = data \<and> foldl level_step w u = w + length data
    \<and> (list_all honest u \<longrightarrow> length data \<le> n \<and> nat v = length data)"
proof -
  let ?c = "SysRecv (fd s) n flags"
  obtain r t where t: "retry ?c (replies s) s = Ret r t"
    and k: "(case r of None \<Rightarrow> bind_io (report receive_set_error (on_fd ''Socket::Receive'' (fd s))) (\<lambda>_. ret (- 1, []))
       | Some (v, data, _) \<Rightarrow> ret (v, data)) t = Ret (v, data) s'"
    using assms by (auto simp: sock_receive_def get_fd_def sys_retry_def elim!: bind_ioE)
  obtain "is" q where e: "trace t = trace s @ map (Pair ?c) (is @ [q])"
    and "is": "list_all (\<lambda>x. \<exists>code. x = Failed code) is"
    and q: "case r of None \<Rightarrow> \<exists>code. q = Failed code | Some (v, d, a) \<Rightarrow> q = Done v d a"
    using retry_effect [OF t] by blast
  note f = failed_calls [OF "is", where c = ?c]
  show ?thesis
  proof (cases r)
    case None
    then obtain y where "v = - 1" "data = []" "s' = t\<lparr>err := y\<rparr>"
      using k by (auto simp: ret_def elim!: bind_ioE dest!: report_state)
    then show ?thesis
      using e q f None by (intro exI [of _ "map (Pair ?c) (is @ [q])"]) (auto simp: sent_in_append received_in_append)
  next
    case (Some p)
    then obtain a where "q = Done v data a" "s' = t" using k q by (cases p) (auto simp: ret_def)
    then show ?thesis
      using e f by (intro exI [of _ "map (Pair ?c) (is @ [q])"]) (auto simp: sent_in_append received_in_append)
  qed
qed

lemma send_call:
  assumes "sock_send (Some data) flags s = Ret v s'"
  shows "\<exists>u. trace s' = trace s @ u \<and> received_in u = [] \<and> sent_in u = take (nat v) data
    \<and> foldl level_step w u = (if v = int (length data) then 0 else w) \<and> (list_all honest u \<longrightarrow> v \<le> int (length data))"
proof -
  let ?c = "SysSend (fd s) data flags"
  obtain r t where t: "retry ?c (replies s) s = Ret r t"
    and k: "(case r of None \<Rightarrow> bind_io (report send_set_error (on_fd ''Socket::Send'' (fd s))) (\<lambda>_. ret (- 1))
       | Some (v, _) \<Rightarrow> ret v) t = Ret v s'"
    using assms by (auto simp: sock_send_def get_fd_def sys_retry_def elim!: bind_ioE)
  obtain "is" q where e: "trace t = trace s @ map (Pair ?c) (is @ [q])"
    and "is": "list_all (\<lambda>x. \<exists>code. x = Failed code) is"
    and q: "case r of None \<Rightarrow> \<exists>code. q = Failed code | Some (v, d, a) \<Rightarrow> q = Done v d a"
    using retry_effect [OF t] by blast
  note f = failed_calls [OF "is", where c = ?c]
  show ?thesis
  proof (cases r)
    case None
    then obtain y where "v = - 1" "s' = t\<lparr>err := y\<rparr>"
      using k by (auto simp: ret_def elim!: bind_ioE dest!: report_state)
    then show ?thesis
      using e q f None by (intro exI [of _ "map (Pair ?c) (is @ [q])"]) (auto simp: sent_in_append received_in_append)
  next
    case (Some p)
    then obtain x a where "q = Done v x a" "s' = t" using k q by (cases p) (auto simp: ret_def)
    then show ?thesis
      using e f by (intro exI [of _ "map (Pair ?c) (is @ [q])"]) (auto simp: sent_in_append received_in_append)
  qed
qed

text \<open>The blocking forms: a mode switch first, which is no part of the stream.\<close>

lemma block_call:
  assumes "sock_block on s = Ret ok t"
  shows "\<exists>u. trace t = trace s @ u \<and> list_all (\<lambda>x. not_stream (fst x)) u"
proof -
  have "leaves same_stream (sock_block on)" by (intro frame_rules) simp
  from leavesD [OF this assms] show ?thesis by (simp add: same_stream_def)
qed

lemma tcp_receive_call:
  assumes "tcp_receive True n s = Ret (v, data) s'"
  shows "\<exists>u. trace s' = trace s @ u \<and> sent_in u = [] \<and> received_in u = data \<and> foldl level_step w u = w + length data
    \<and> (list_all honest u \<longrightarrow> length data \<le> n \<and> nat v = length data)"
proof -
  obtain ok t where t: "sock_block True s = Ret ok t"
    and k: "(if ok then sock_receive True n 0 else ret (- 1, [])) t = Ret (v, data) s'"
    using assms by (auto simp: tcp_receive_def unless_def elim!: bind_ioE)
  obtain x where x: "trace t = trace s @ x" "list_all (\<lambda>x. not_stream (fst x)) x" using block_call [OF t] by blast
  note f = stream_free_calls [OF x(2)]
  show ?thesis
  proof (cases ok)
    case True
    then have "sock_receive True n 0 t = Ret (v, data) s'" using k by simp
    from receive_call [OF this, of w] obtain y where "trace s' = trace t @ y" "sent_in y = []" "received_in y = data"
      "foldl level_step w y = w + length data"
      "list_all honest y \<longrightarrow> length data \<le> n \<and> nat v = length data" by blast
    then show ?thesis using x(1) f by (intro exI [of _ "x @ y"]) (auto simp: sent_in_append received_in_append)
  qed (use k x f in \<open>auto simp: ret_def\<close>)
qed

lemma tcp_send_call:
  assumes "tcp_send (Some data) s = Ret v s'"
  shows "\<exists>u. trace s' = trace s @ u \<and> received_in u = [] \<and> sent_in u = take (nat v) data
    \<and> foldl level_step w u = (if v = int (length data) then 0 else w) \<and> (list_all honest u \<longrightarrow> v \<le> int (length data))"
proof -
  obtain ok t where t: "sock_block True s = Ret ok t"
    and k: "(if ok then sock_send (Some data) 0 else ret (- 1)) t = Ret v s'"
    using assms by (auto simp: tcp_send_def unless_def elim!: bind_ioE)
  obtain x where x: "trace t = trace s @ x" "list_all (\<lambda>x. not_stream (fst x)) x" using block_call [OF t] by blast
  note f = stream_free_calls [OF x(2)]
  show ?thesis
  proof (cases ok)
    case True
    then have "sock_send (Some data) 0 t = Ret v s'" using k by simp
    from send_call [OF this, of w] obtain y where "trace s' = trace t @ y" "received_in y = []"
      "sent_in y = take (nat v) data" "foldl level_step w y = (if v = int (length data) then 0 else w)"
      "list_all honest y \<longrightarrow> v \<le> int (length data)" by blast
    then show ?thesis using x(1) f by (intro exI [of _ "x @ y"]) (auto simp: sent_in_append received_in_append)
  qed (use k x f in \<open>auto simp: ret_def\<close>)
qed

text \<open>One delivery into the buffer, and one block out of it.\<close>

lemma room_for_block:
  assumes "sb_wf b" and "stream_buffer.limit b = MAX_BUFFER_SIZE" and "wpos b + 2048 \<le> MAX_BUFFER_SIZE"
  obtains b1 where "sb_reserve 2048 b = Ret True b1" and "sb_extends [] b b1" and "2048 \<le> sb_writable b1"
proof -
  have "sb_room 2048 b" using assms(2,3) by (simp add: sb_room_def sb_cap_def MAX_BUFFER_SIZE_def vec_max_def)
  then obtain b1 where "sb_reserve 2048 b = Ret True b1" "sb_extends [] b b1" "wpos b1 + 2048 \<le> length (bytes b1)"
    using sb_reserve_room [OF assms(1)] by blast
  then show thesis using that sb_writable_wf [OF sb_extendsD(1)] by fastforce
qed

lemma delivered_block:
  assumes "sb_extends [] b b1" and "fill_writable data b1 = Ret y b2" and "length data \<le> sb_writable b1"
    and "nat v = length data"
  shows "sb_extends data b (if 0 < v then snd (sb_advance (nat v) b2) else b2)"
proof -
  note wf1 = sb_extendsD(1) [OF assms(1)]
  have fits: "wpos b1 + length data \<le> length (bytes b1)"
    using assms(3) sb_wfD(4) [OF wf1] by (simp add: sb_writable_wf [OF wf1])
  note fill = sb_fill_advance [OF wf1 fits]
  have z: "patch (wpos b1) [] (bytes b1) = bytes b1" using fits by (simp add: patch_def)
  have "sb_extends data b1 (if 0 < v then snd (sb_advance (nat v) b2) else b2)"
    using fill assms(2,4) z by (cases "0 < v") (auto simp: sb_extends_refl [OF wf1])
  from sb_extends_trans [OF assms(1) this] show ?thesis by simp
qed

lemma receive_step:
  assumes "quiet (tcp_receive_buffer b) s = Ret (v, x, c) s'" and "sb_wf b" and "stream_buffer.limit b = MAX_BUFFER_SIZE"
    and "wpos b + 2048 \<le> MAX_BUFFER_SIZE"
  shows "\<exists>u. trace s' = trace s @ u \<and> (list_all honest u \<longrightarrow> sb_extends (received_in u) b c \<and> sent_in u = []
    \<and> foldl level_step (wpos b) u = wpos c \<and> (0 < v \<longrightarrow> received_in u \<noteq> []))"
proof -
  obtain b1 where b1: "sb_reserve 2048 b = Ret True b1" "sb_extends [] b b1" "2048 \<le> sb_writable b1"
    using room_for_block [OF assms(2-4)] .
  obtain t where "tcp_receive_buffer b (s\<lparr>err := None\<rparr>) = Ret (v, x, c) t" and tr: "trace s' = trace t"
    using assms(1) by (rule quietE)
  then obtain data t1 b2 y where r: "tcp_receive True (sb_writable b1) (s\<lparr>err := None\<rparr>) = Ret (v, data) t"
    and c: "fill_writable data b1 = Ret y b2" "c = (if 0 < v then snd (sb_advance (nat v) b2) else b2)"
    using b1(1) by (auto simp: tcp_receive_buffer_def receive_buffer_def on_buffer_def without_address_def ret_def
        bind_out_eq_Ret elim!: bind_ioE)
  obtain u where u: "trace t = trace s @ u" "sent_in u = []" "received_in u = data"
    "foldl level_step (wpos b) u = wpos b + length data"
    "list_all honest u \<longrightarrow> length data \<le> sb_writable b1 \<and> nat v = length data"
    using tcp_receive_call [OF r, of "wpos b"] by auto
  have "sb_extends data b c \<and> wpos c = wpos b + length data \<and> (0 < v \<longrightarrow> data \<noteq> [])" if "list_all honest u"
  proof -
    have n: "length data \<le> sb_writable b1" "nat v = length data" using u(5) that by auto
    have "sb_extends data b c" using delivered_block [OF b1(2) c(1) n] c(2) by simp
    then show ?thesis using n(2) sb_extendsD(5) by auto
  qed
  then show ?thesis using u tr by auto
qed

lemma send_step:
  assumes "quiet (tcp_send_buffer b) s = Ret (v, c) s'" and "sb_wf b" and "sb_unread b \<noteq> []"
  shows "\<exists>u. trace s' = trace s @ u \<and> (list_all honest u \<longrightarrow> received_in u = []
    \<and> sb_wf (if 0 < v then snd (sb_flush c) else c)
    \<and> sent_in u @ sb_unread (if 0 < v then snd (sb_flush c) else c) = sb_unread b
    \<and> stream_buffer.limit (if 0 < v then snd (sb_flush c) else c) = stream_buffer.limit b
    \<and> foldl level_step (wpos b) u = wpos (if 0 < v then snd (sb_flush c) else c))"
proof -
  obtain t where "tcp_send_buffer b (s\<lparr>err := None\<rparr>) = Ret (v, c) t" and tr: "trace s' = trace t"
    using assms(1) by (rule quietE)
  then have r: "tcp_send (Some (sb_unread b)) (s\<lparr>err := None\<rparr>) = Ret v t"
    and c: "c = (if 0 < v then snd (sb_skip (nat v) b) else b)"
    by (auto simp: tcp_send_buffer_def send_buffer_def lift_pure_def readable_block_unread [OF assms(2)] ret_def
        elim!: bind_ioE)
  obtain u where u: "trace t = trace s @ u" "received_in u = []" "sent_in u = take (nat v) (sb_unread b)"
    "foldl level_step (wpos b) u = (if v = int (length (sb_unread b)) then 0 else wpos b)"
    "list_all honest u \<longrightarrow> v \<le> int (length (sb_unread b))"
    using tcp_send_call [OF r, of "wpos b"] by auto
  have "sb_wf d \<and> sent_in u @ sb_unread d = sb_unread b \<and> stream_buffer.limit d = stream_buffer.limit b
      \<and> foldl level_step (wpos b) u = wpos d"
    if "list_all honest u" and d: "d = (if 0 < v then snd (sb_flush c) else c)" for d
  proof (cases "0 < v")
    case True
    have n: "nat v \<le> length (sb_unread b)" using u(5) that(1) by simp
    have small: "nat v < 2 ^ 63" using n length_sb_unread [OF assms(2)] sb_wfD(6) [OF assms(2)] by linarith
    have con: "sb_consumes (nat v) b c"
      using c True n sb_skip_wf [OF assms(2) small] by (simp add: sb_consumes_def)
    note wf = sb_consumes_wf [OF assms(2) con]
    have "wpos d = (if v = int (length (sb_unread b)) then 0 else wpos b)"
      using con True n d length_sb_unread [OF assms(2)] sb_wfD(2) [OF assms(2)]
      by (auto simp: sb_flush_def sb_clear_def Let_def sb_consumes_def)
    moreover have "stream_buffer.limit d = stream_buffer.limit b"
      using con True d by (simp add: sb_flush_def sb_clear_def Let_def sb_consumes_def)
    moreover have "sent_in u @ sb_unread d = sb_unread b"
      using u(3) sb_flush_contents [OF wf] sb_consumes_unread [OF assms(2) con] True d by simp
    ultimately show ?thesis using u(4) sb_flush_wf [OF wf] True d by simp
  next
    case False
    then show ?thesis using c d u(3,4) assms(2,3) by auto
  qed
  from this [OF _ refl] show ?thesis using u(1,2) tr by (intro exI [of _ u]) simp
qed

definition logs_more :: "'a net_scheme \<Rightarrow> 'a net_scheme \<Rightarrow> bool" where
  "logs_more s s' \<longleftrightarrow> (\<exists>u. trace s' = trace s @ u)"

interpretation logging: frame logs_more "\<lambda>_. True"
  by unfold_locales (auto simp: logs_more_def log_reply_def)

lemma logs_more_buffer_calls [frame_rules]:
  "leaves logs_more (tcp_receive_buffer b)" "leaves logs_more (tcp_send_buffer b)"
  unfolding tcp_receive_buffer_def receive_buffer_def without_address_def tcp_receive_def
    tcp_send_buffer_def send_buffer_def tcp_send_def
  by (intro frame_rules TrueI conjI allI; simp)+

lemma echo_buffer_logs: "leaves logs_more (echo_buffer n b)"
proof (induction n arbitrary: b)
  case (Suc n)
  show ?case unfolding echo_buffer.simps by (intro frame_rules Suc.IH)
qed (simp, intro frame_rules)

lemma echo_datagrams_logs: "leaves logs_more (echo_datagrams I n buf)"
proof (induction n arbitrary: buf)
  case (Suc n)
  show ?case unfolding echo_datagrams.simps shown_def Let_def by (intro frame_rules Suc.IH TrueI conjI)
qed (simp, intro frame_rules)

text \<open>
  C37. A connection of the TCP servers on a buffer of the default limit: whatever part of a block
  the system takes at a time, the bytes sent so far followed by those still unread in the buffer
  are those that were in the buffer followed by those received: nothing is lost, doubled or
  reordered. Two conditions: a call reports no more bytes than it was given or delivered
  (\<open>honest\<close>), and before each call the writing position, which goes back to the start only when
  everything was sent, leaves room for a block of 2048 octets below the limit of 1048576
  (\<open>level_ok\<close>). Beyond that the write that reclaims a flushed front does lose bytes.
\<close>

theorem echo_buffer_stream:
  "echo_buffer n b s = Ret b' s' \<Longrightarrow> trace s' = trace s @ u \<Longrightarrow> list_all honest u \<Longrightarrow> level_ok (wpos b) u \<Longrightarrow>
    sb_wf b \<Longrightarrow> stream_buffer.limit b = MAX_BUFFER_SIZE \<Longrightarrow>
    sb_wf b' \<and> stream_buffer.limit b' = MAX_BUFFER_SIZE \<and> sent_in u @ sb_unread b' = sb_unread b @ received_in u"
proof (induction n arbitrary: b s u)
  case (Suc n)
  obtain v c s1 where r: "quiet (tcp_receive_buffer b) s = Ret (v, (), c) s1"
    and k: "(if 0 < v then bind_io (quiet (tcp_send_buffer c)) (\<lambda>(w, b). echo_buffer n (if 0 < w then snd (sb_flush b) else b))
      else ret c) s1 = Ret b' s'"
    using Suc.prems(1) by (auto elim!: bind_ioE)
  obtain x where x: "trace s1 = trace s @ x" "list_all honest x \<longrightarrow> sb_extends (received_in x) b c \<and> sent_in x = []
      \<and> foldl level_step (wpos b) x = wpos c \<and> (0 < v \<longrightarrow> received_in x \<noteq> [])"
    using receive_step [OF r Suc.prems(5,6) level_ok_start [OF Suc.prems(4)]] by blast
  show ?case
  proof (cases "0 < v")
    case False
    then have "b' = c" "u = x" using k x(1) Suc.prems(2) by (simp_all add: ret_def)
    then show ?thesis
      using x(2) Suc.prems(3,5,6) sb_extendsD(1,4) sb_extends_unread by auto
  next
    case True
    obtain w d s2 where q: "quiet (tcp_send_buffer c) s1 = Ret (w, d) s2"
      and l: "echo_buffer n (if 0 < w then snd (sb_flush d) else d) s2 = Ret b' s'"
      using k True by (auto elim!: bind_ioE)
    have "leaves logs_more (quiet (tcp_send_buffer c))" by (intro frame_rules)
    from leavesD [OF this q] leavesD [OF echo_buffer_logs l] obtain y z
      where y: "trace s2 = trace s1 @ y" and z: "trace s' = trace s2 @ z" by (auto simp: logs_more_def)
    have u: "u = x @ y @ z" using Suc.prems(2) x(1) y z by simp
    then have ext: "sb_extends (received_in x) b c" and sx: "sent_in x = []" "received_in x \<noteq> []"
      and lx: "foldl level_step (wpos b) x = wpos c" and hy: "list_all honest y"
      using x(2) Suc.prems(3) True by simp_all
    note uc = sb_extends_unread [OF Suc.prems(5) ext]
    define e where "e = (if 0 < w then snd (sb_flush d) else d)"
    have e: "received_in y = []" "sb_wf e" "sent_in y @ sb_unread e = sb_unread c"
      "stream_buffer.limit e = MAX_BUFFER_SIZE" "foldl level_step (wpos c) y = wpos e"
      using send_step [OF q sb_extendsD(1) [OF ext]] uc sx(2) y hy sb_extendsD(4) [OF ext] Suc.prems(6)
      by (auto simp: e_def)
    have "level_ok (wpos e) z"
      using level_ok_append [of "wpos b" "x @ y" z] Suc.prems(4) u lx e(5) by simp
    then have "sb_wf b' \<and> stream_buffer.limit b' = MAX_BUFFER_SIZE \<and> sent_in z @ sb_unread b' = sb_unread e @ received_in z"
      using Suc.IH [OF l [folded e_def] z] e(2,4) Suc.prems(3) u by simp
    then show ?thesis
      using e(1,3) sx(1) uc u by (simp add: sent_in_append received_in_append)
  qed
qed (simp add: fail_def)

subsection \<open>The bounds of the loops\<close>

text \<open>No operation gives replies back; one that asks the system uses one up.\<close>

definition no_replies_added :: "'a net_scheme \<Rightarrow> 'a net_scheme \<Rightarrow> bool" where
  "no_replies_added s s' \<longleftrightarrow> length (replies s') \<le> length (replies s)"

definition replies_used :: "'a net_scheme \<Rightarrow> 'a net_scheme \<Rightarrow> bool" where
  "replies_used s s' \<longleftrightarrow> length (replies s') < length (replies s)"

interpretation spending: frame no_replies_added "\<lambda>_. True"
  by unfold_locales (auto simp: no_replies_added_def log_reply_def)

lemma replies_used_first:
  assumes "leaves replies_used m" and "\<And>r. leaves no_replies_added (k r)"
  shows "leaves replies_used (bind_io m k)"
proof (rule leavesI)
  fix s r s' assume "bind_io m k s = Ret r s'"
  then obtain q t where "m s = Ret q t" "k q t = Ret r s'" by (rule bind_ioE)
  then show "replies_used s s'"
    using leavesD [OF assms(1)] leavesD [OF assms(2)] unfolding replies_used_def no_replies_added_def by fastforce
qed

lemma replies_used_later:
  assumes "leaves no_replies_added m" and "\<And>r. leaves replies_used (k r)"
  shows "leaves replies_used (bind_io m k)"
proof (rule leavesI)
  fix s r s' assume "bind_io m k s = Ret r s'"
  then obtain q t where "m s = Ret q t" "k q t = Ret r s'" by (rule bind_ioE)
  then show "replies_used s s'"
    using leavesD [OF assms(1)] leavesD [OF assms(2)] unfolding replies_used_def no_replies_added_def by fastforce
qed

lemma retry_uses:
  "retry c rs s = Ret r s' \<Longrightarrow> length (replies s) = length rs \<Longrightarrow> length (replies s') < length rs"
proof (induction c rs s rule: retry.induct)
  case (2 c code rs s)
  then show ?case
    using "2.IH" by (cases "is_interrupted code") (auto simp: log_reply_def less_Suc_eq)
qed (auto simp: log_reply_def)

lemma replies_used_calls:
  "leaves replies_used (sys_retry c)" "leaves replies_used (sys_call c)"
  by (auto intro!: leavesI simp: sys_retry_def sys_call_def replies_used_def log_reply_def
      dest: retry_uses split: list.splits)

lemma quiet_uses: "leaves replies_used m \<Longrightarrow> leaves replies_used (quiet m)"
  by (rule leavesI) (fastforce simp: quiet_def bind_out_eq_Ret replies_used_def dest: leavesD)

lemma on_objectE:
  assumes "on_object get upd m s = Ret r s'"
  obtains x where "m (lend s (get s)) = Ret r x" and "replies s' = replies x" and "replies (lend s (get s)) = replies s"
  using assms by (auto simp: on_object_def bind_out_eq_Ret lend_def)

lemma on_object_replies [frame_rules]:
  fixes m :: "('r, 'b) io" and get :: "'s net_scheme \<Rightarrow> 'b net_scheme"
  shows "leaves no_replies_added m \<Longrightarrow> leaves no_replies_added (on_object get upd m)"
    and "leaves replies_used m \<Longrightarrow> leaves replies_used (on_object get upd m)"
  by (rule leavesI, erule on_objectE, drule (1) leavesD, simp add: no_replies_added_def replies_used_def)+

lemma throwing_uses: "leaves replies_used m \<Longrightarrow> leaves replies_used (throwing f m)"
  by (rule leavesI) (fastforce simp: throwing_def bind_out_eq_Ret replies_used_def dest: leavesD)

lemma members_add_none [frame_rules]:
  "leaves no_replies_added (put_fd d)" "leaves no_replies_added sock_close" "leaves no_replies_added (sock_attach d)"
proof -
  show put: "leaves no_replies_added (put_fd d)" for d
    by (rule leavesI) (auto simp: put_fd_def no_replies_added_def)
  show "leaves no_replies_added sock_close"
    unfolding sock_close_def close_socket_def by (intro frame_rules put TrueI)
  then show "leaves no_replies_added (sock_attach d)"
    unfolding sock_attach_def by (intro frame_rules put TrueI)
qed

lemma udp_open_adds_none [frame_rules]: "leaves no_replies_added (udp_ensure_open a)"
  unfolding udp_ensure_open_def ensure_open_def sock_create_def init_socket_def by (intro frame_rules TrueI)

lemma socket_calls_use:
  "leaves replies_used (sock_block on)" "leaves replies_used sock_accept" "leaves replies_used (sock_receive True n flags)"
  "leaves replies_used (sock_receive_from True n (Some a) flags)"
  unfolding sock_block_def sock_accept_def sock_receive_def sock_receive_from_def option.case simp_thms if_False Let_def
  by (intro replies_used_later replies_used_first replies_used_calls frame_rules TrueI; simp)+

lemma receive_buffer_uses:
  assumes "receive_buffer msg recv x0 b s = Ret (v, x, c) s'" and "0 < v" and "\<And>n. leaves replies_used (recv n)"
  shows "replies_used s s'"
proof -
  obtain n r t where "recv n s = Ret r t" and "replies s' = replies t"
    using assms(1,2) by (auto simp: receive_buffer_def on_buffer_def bind_out_eq_Ret reject_def ret_def
        split: if_splits elim!: bind_ioE)
  then show ?thesis using leavesD [OF assms(3)] by (simp add: replies_used_def)
qed

lemma bind_io_same:
  "(\<And>r t. m s = Ret r t \<Longrightarrow> k r t = l r t) \<Longrightarrow> bind_io m k s = bind_io m l s"
  by (cases "m s") (simp_all add: bind_io_def)

lemma receive_calls_use:
  "tcp_receive_buffer b s = Ret (v, y, c) s' \<Longrightarrow> 0 < v \<Longrightarrow> replies_used s s'"
  "udp_receive_buffer_from a b t = Ret (v, x, c) t' \<Longrightarrow> 0 < v \<Longrightarrow> replies_used t t'"
proof -
  have block: "leaves replies_used (unless (sock_block True) r m)" if "leaves no_replies_added m" for r m
    unfolding unless_def by (intro replies_used_first socket_calls_use frame_rules that)
  show "tcp_receive_buffer b s = Ret (v, y, c) s' \<Longrightarrow> 0 < v \<Longrightarrow> replies_used s s'"
    unfolding tcp_receive_buffer_def without_address_def
    by (rule receive_buffer_uses, assumption+, intro replies_used_first frame_rules)
      (unfold tcp_receive_def, simp, intro impI block frame_rules TrueI)
  show "udp_receive_buffer_from a b t = Ret (v, x, c) t' \<Longrightarrow> 0 < v \<Longrightarrow> replies_used t t'"
    unfolding udp_receive_buffer_from_def
    by (rule receive_buffer_uses, assumption+) (unfold udp_receive_from_def, intro block frame_rules TrueI conjI)
qed

lemma quiet_receive_uses:
  assumes "quiet m s = Ret r s'" and "\<And>t t'. m t = Ret r t' \<Longrightarrow> replies_used t t'"
  shows "replies_used s s'"
  using assms(1) assms(2) [of "s\<lparr>err := None\<rparr>"] by (auto simp: quiet_def bind_out_eq_Ret replies_used_def)

lemma echo_loops_add_none [frame_rules]:
  "leaves no_replies_added (echo_chars n buf)" "leaves no_replies_added (echo_buffer n b)"
proof -
  show "leaves no_replies_added (echo_chars n buf)"
  proof (induction n arbitrary: buf)
    case (Suc n)
    show ?case unfolding echo_chars.simps Let_def by (intro frame_rules Suc.IH TrueI)
  qed (simp, intro frame_rules)
  show "leaves no_replies_added (echo_buffer n b)"
  proof (induction n arbitrary: b)
    case (Suc n)
    show ?case unfolding echo_buffer.simps tcp_receive_buffer_def receive_buffer_def without_address_def tcp_receive_def
        tcp_send_buffer_def send_buffer_def tcp_send_def by (intro frame_rules Suc.IH TrueI conjI)
  qed (simp, intro frame_rules)
qed

text \<open>Programs that do the same as long as fewer than \<open>n\<close> replies are left.\<close>

definition same_below :: "nat \<Rightarrow> ('r, 'a) io \<Rightarrow> ('r, 'a) io \<Rightarrow> bool" where
  "same_below n f g \<longleftrightarrow> (\<forall>s. length (replies s) < n \<longrightarrow> f s = g s)"

lemma same_below_refl: "same_below n f f"
  by (simp add: same_below_def)

lemma same_below_bind:
  assumes "leaves no_replies_added m" and "\<And>r. same_below n (k r) (l r)"
  shows "same_below n (bind_io m k) (bind_io m l)"
  unfolding same_below_def
proof (intro allI impI bind_io_same)
  fix s r t assume "length (replies s) < n" "m s = Ret r t"
  then show "k r t = l r t"
    using leavesD [OF assms(1)] assms(2) [of r] unfolding same_below_def no_replies_added_def by fastforce
qed

lemma same_below_both:
  assumes "same_below n m m'" and "leaves no_replies_added m" and "\<And>r. same_below n (k r) (l r)"
  shows "same_below n (bind_io m k) (bind_io m' l)"
proof -
  have "same_below n (bind_io m l) (bind_io m' l)" using assms(1) by (simp add: same_below_def bind_io_def)
  with same_below_bind [OF assms(2,3)] show ?thesis by (simp add: same_below_def bind_io_def)
qed

lemma same_below_step:
  assumes "\<And>s r t. m s = Ret r t \<Longrightarrow> k r = l r \<or> replies_used s t" and "\<And>r. same_below n (k r) (l r)"
  shows "same_below (Suc n) (bind_io m k) (bind_io m l)"
  unfolding same_below_def
proof (intro allI impI bind_io_same)
  fix s r t assume "length (replies s) < Suc n" "m s = Ret r t"
  then show "k r t = l r t"
    using assms(1) [of s r t] assms(2) [of r] unfolding same_below_def replies_used_def by fastforce
qed

lemma same_below_cases:
  "same_below n f g \<Longrightarrow> same_below n f' g' \<Longrightarrow> same_below n (if c then f else f') (if c then g else g')"
  "(\<And>x y. same_below n (h x y) (h' x y)) \<Longrightarrow> same_below n (case p of (x, y) \<Rightarrow> h x y) (case p of (x, y) \<Rightarrow> h' x y)"
  "(\<And>x. same_below n (u x) (u' x)) \<Longrightarrow> (\<And>x. same_below n (v x) (v' x))
    \<Longrightarrow> same_below n (case q of Inl x \<Rightarrow> u x | Inr x \<Rightarrow> v x) (case q of Inl x \<Rightarrow> u' x | Inr x \<Rightarrow> v' x)"
  by (auto split: prod.split sum.split)

lemmas same_below_rules = same_below_cases same_below_bind frame_rules TrueI conjI

lemma echo_chars_below: "n \<le> m \<Longrightarrow> same_below n (echo_chars n buf) (echo_chars m buf)"
proof (induction n arbitrary: m buf)
  case (Suc n)
  then obtain k where m: "m = Suc k" "n \<le> k" by (cases m) auto
  show ?case unfolding m echo_chars.simps Let_def
    by (rule same_below_step, use leavesD [OF quiet_uses [OF socket_calls_use(3)]] in blast)
      (intro same_below_rules Suc.IH m same_below_refl)
qed (simp add: same_below_def)

lemma echo_buffer_below: "n \<le> m \<Longrightarrow> same_below n (echo_buffer n b) (echo_buffer m b)"
proof (induction n arbitrary: m b)
  case (Suc n)
  then obtain k where m: "m = Suc k" "n \<le> k" by (cases m) auto
  have send: "leaves no_replies_added (tcp_send_buffer b)" for b
    unfolding tcp_send_buffer_def send_buffer_def tcp_send_def by (intro frame_rules TrueI conjI)
  show ?case unfolding m echo_buffer.simps
    by (rule same_below_step, use quiet_receive_uses receive_calls_use(1) in fastforce)
      (intro same_below_rules Suc.IH m same_below_refl send)
qed (simp add: same_below_def)

lemma echo_datagrams_below: "n \<le> m \<Longrightarrow> same_below n (echo_datagrams I n buf) (echo_datagrams I m buf)"
proof (induction n arbitrary: m buf)
  case (Suc n)
  then obtain k where m: "m = Suc k" "n \<le> k" by (cases m) auto
  show ?case unfolding m echo_datagrams.simps Let_def shown_def
    by (rule same_below_step, use leavesD [OF quiet_uses [OF socket_calls_use(4)]] in blast)
      (intro same_below_rules Suc.IH m same_below_refl)
qed (simp add: same_below_def)

lemma echo_packets_below: "n \<le> m \<Longrightarrow> same_below n (echo_packets I n b) (echo_packets I m b)"
proof (induction n arbitrary: m b)
  case (Suc n)
  then obtain k where m: "m = Suc k" "n \<le> k" by (cases m) auto
  have send: "leaves no_replies_added (udp_send_buffer_to a b)" for a b
    unfolding udp_send_buffer_to_def send_buffer_def udp_send_to_def by (intro frame_rules TrueI conjI)
  show ?case unfolding m echo_packets.simps Let_def shown_def
    by (rule same_below_step, use quiet_receive_uses receive_calls_use(2) in fastforce)
      (intro same_below_rules Suc.IH m same_below_refl send)
qed (simp add: same_below_def)

lemma raw_serve_below:
  assumes "leaves replies_used accept"
  shows "n \<le> m \<Longrightarrow> same_below n (raw_serve accept n buf) (raw_serve accept m buf)"
proof (induction n arbitrary: m buf)
  case (Suc n)
  then obtain k where m: "m = Suc k" "n \<le> k" by (cases m) auto
  show ?case unfolding m raw_serve.simps unless_thrown_def
    by (rule same_below_step, use leavesD [OF on_object_replies(2) [OF assms]] in blast)
      (intro same_below_rules same_below_both same_below_refl echo_chars_below Suc.IH m)
qed (simp add: same_below_def)

lemma buffer_serve_below:
  assumes "leaves replies_used connect"
  shows "n \<le> m \<Longrightarrow> same_below n (buffer_serve connect n b) (buffer_serve connect m b)"
proof (induction n arbitrary: m b)
  case (Suc n)
  then obtain k where m: "m = Suc k" "n \<le> k" by (cases m) auto
  show ?case unfolding m buffer_serve.simps unless_thrown_def
    by (rule same_below_step, use leavesD [OF assms] in blast)
      (intro same_below_rules same_below_both same_below_refl echo_buffer_below Suc.IH m)
qed (simp add: same_below_def)

text \<open>What the accept loops wait for.\<close>

lemma accept_uses:
  "leaves replies_used (acc_accept :: (int, 'a) io)"
  "leaves replies_used (bind_io sock_accept (\<lambda>v. ret (Inr v)))" "leaves replies_used sock_accept_throw"
  unfolding acc_accept_def unless_def sock_accept_throw_def
  by (intro replies_used_first socket_calls_use throwing_uses frame_rules TrueI)+

lemma connect_uses: "leaves replies_used connect_next" "leaves replies_used connect_next_throw"
proof -
  have C: "leaves no_replies_added (tcp_connected_fd v None)" for v
    unfolding tcp_connected_fd_def tcp_connected_def
    by (intro frame_rules TrueI) (auto intro!: leavesI simp: modify_def no_replies_added_def)
  show "leaves replies_used connect_next" "leaves replies_used connect_next_throw"
    unfolding connect_next_def connect_next_throw_def acc_accept_throw_def tcp_connected_fd_throw_def
    by (intro replies_used_first on_object_replies accept_uses throwing_uses frame_rules C;
        auto split: sum.split intro!: frame_rules C)+
qed

lemma all_replies_same:
  "(\<And>n m. n \<le> m \<Longrightarrow> same_below n (f n) (f m)) \<Longrightarrow> length (replies s) < n \<Longrightarrow> f n s = all_replies f s"
  unfolding same_below_def all_replies_def by (metis Suc_leI lessI)

text \<open>
  The loops of the servers stop for want of events, never for want of turns: with any bound
  above the number of replies of the system each of them does the same.
\<close>

theorem server_loops_bounded:
  assumes "length (replies s) < n" and "length (replies t) < n" and "length (replies u) < n" and "length (replies w) < n"
  shows "echo_datagrams I n buf s = all_replies (\<lambda>n. echo_datagrams I n buf) s
    \<and> echo_packets I n b t = all_replies (\<lambda>n. echo_packets I n b) t
    \<and> raw_serve sock_accept_throw n buf u = all_replies (\<lambda>n. raw_serve sock_accept_throw n buf) u
    \<and> raw_serve (bind_io sock_accept (\<lambda>v. ret (Inr v))) n buf u
      = all_replies (\<lambda>n. raw_serve (bind_io sock_accept (\<lambda>v. ret (Inr v))) n buf) u
    \<and> buffer_serve connect_next_throw n b w = all_replies (\<lambda>n. buffer_serve connect_next_throw n b) w
    \<and> buffer_serve connect_next n b w = all_replies (\<lambda>n. buffer_serve connect_next n b) w"
  by (intro conjI all_replies_same [OF echo_datagrams_below assms(1)] all_replies_same [OF echo_packets_below assms(2)]
      all_replies_same [OF raw_serve_below assms(3)] all_replies_same [OF buffer_serve_below assms(4)]
      accept_uses connect_uses; assumption)

subsection \<open>Blocks and datagrams that are echoed\<close>

lemma take_patched: "take (length data) (patch 0 data buf) = data"
  by (simp add: patch_def)

text \<open>A repeated call: interruptions, then one reply that is none.\<close>

fun interrupted_reply :: "reply \<Rightarrow> bool" where
  "interrupted_reply (Failed code) = is_interrupted code"
| "interrupted_reply (Done v x a) = False"

lemma retry_attempts:
  "retry c rs s = Ret r s' \<Longrightarrow> \<exists>is q. trace s' = trace s @ map (Pair c) is @ [(c, q)]
     \<and> list_all interrupted_reply is \<and> \<not> interrupted_reply q
     \<and> (case r of None \<Rightarrow> \<exists>code. q = Failed code | Some (v, d, a) \<Rightarrow> q = Done v d a)"
proof (induction c rs s rule: retry.induct)
  case (2 c code rs s)
  show ?case
  proof (cases "is_interrupted code")
    case True
    then obtain "is" q where "trace s' = trace s @ (c, Failed code) # map (Pair c) is @ [(c, q)]" "list_all interrupted_reply is"
      "\<not> interrupted_reply q" "case r of None \<Rightarrow> \<exists>code. q = Failed code | Some (v, d, a) \<Rightarrow> q = Done v d a"
      using "2.IH" [OF True] "2.prems" by (auto simp: log_reply_def)
    then show ?thesis using True by (intro exI [of _ "Failed code # is"] exI [of _ q]) simp
  next
    case False
    then show ?thesis
      using "2.prems" by (intro exI [of _ "[]"] exI [of _ "Failed code"]) (auto simp: log_reply_def)
  qed
next
  case (3 c v data a rs s)
  then show ?case by (intro exI [of _ "[]"] exI [of _ "Done v data a"]) (auto simp: log_reply_def)
qed simp

text \<open>The datagrams of a trace, with their addresses: those received, and those offered to the system.\<close>

fun datagrams_in :: "(syscall \<times> reply) list \<Rightarrow> (char list \<times> address) list" where
  "datagrams_in [] = []"
| "datagrams_in ((SysRecvFrom d n flags, Done v x a) # t) = (x, a) # datagrams_in t"
| "datagrams_in (_ # t) = datagrams_in t"

fun datagrams_out :: "(syscall \<times> reply) list \<Rightarrow> (char list \<times> address) list" where
  "datagrams_out [] = []"
| "datagrams_out ((SysSendTo d data flags a n, r) # t) = (if interrupted_reply r then [] else [(data, a)]) @ datagrams_out t"
| "datagrams_out (_ # t) = datagrams_out t"

fun honest_datagram :: "syscall \<times> reply \<Rightarrow> bool" where
  "honest_datagram (SysRecvFrom d n flags, Done v x a) \<longleftrightarrow> v = int (length x) \<and> length x \<le> n"
| "honest_datagram _ \<longleftrightarrow> True"

lemma datagrams_append:
  shows "datagrams_in (t @ u) = datagrams_in t @ datagrams_in u" and "datagrams_out (t @ u) = datagrams_out t @ datagrams_out u"
proof -
  show "datagrams_in (t @ u) = datagrams_in t @ datagrams_in u" by (induction t rule: datagrams_in.induct) auto
  show "datagrams_out (t @ u) = datagrams_out t @ datagrams_out u" by (induction t rule: datagrams_out.induct) auto
qed

lemma datagrams_interrupted:
  assumes "list_all interrupted_reply is"
  shows "datagrams_in (map (Pair c) is) = []" "datagrams_out (map (Pair c) is) = []"
proof -
  have "datagrams_in (map (Pair c) is) = [] \<and> datagrams_out (map (Pair c) is) = []" using assms
  proof (induction "is")
    case (Cons x "is")
    then show ?case by (cases c; cases x) auto
  qed simp
  then show "datagrams_in (map (Pair c) is) = []" "datagrams_out (map (Pair c) is) = []" by simp_all
qed

lemma receive_from_call:
  assumes "quiet (sock_receive_from True n (Some a) flags) s = Ret (v, data, b) s'"
  shows "\<exists>u. trace s' = trace s @ u \<and> datagrams_out u = [] \<and>
    (if datagrams_in u = [] then v = - 1 else \<exists>c. b = Some c \<and> datagrams_in u = [(data, c)]
      \<and> (list_all honest_datagram u \<longrightarrow> v = int (length data)))"
proof -
  obtain q where q: "sock_receive_from True n (Some a) flags (s\<lparr>err := None\<rparr>) = Ret (v, data, b) q" and tr: "trace s' = trace q"
    using assms by (rule quietE)
  let ?c = "SysRecvFrom (fd s) n flags"
  obtain r t where t: "retry ?c (replies s) (s\<lparr>err := None\<rparr>) = Ret r t"
    and k: "(case r of None \<Rightarrow> bind_io (report receive_set_error (on_fd ''Socket::ReceiveFrom'' (fd s))) (\<lambda>_. ret (- 1, [], Some addr_new))
       | Some (v, data, a) \<Rightarrow> ret (v, data, Some a)) t = Ret (v, data, b) q"
    using q by (auto simp: sock_receive_from_def get_fd_def sys_retry_def elim!: bind_ioE)
  obtain "is" p where e: "trace t = trace s @ map (Pair ?c) is @ [(?c, p)]" and "is": "list_all interrupted_reply is"
    and p: "case r of None \<Rightarrow> \<exists>code. p = Failed code | Some (v, d, a) \<Rightarrow> p = Done v d a"
    using retry_attempts [OF t] by auto
  note d = datagrams_interrupted [OF "is", where c = ?c]
  have "trace q = trace t" using k by (auto simp: ret_def elim!: bind_ioE dest!: report_state split: option.splits)
  moreover have "if r = None then v = - 1 else \<exists>c. b = Some c \<and> p = Done v data c"
    using k p by (auto simp: ret_def elim!: bind_ioE split: option.splits)
  ultimately show ?thesis
    using e d p tr by (intro exI [of _ "map (Pair ?c) is @ [(?c, p)]"]) (auto simp: datagrams_append split: option.splits if_splits)
qed

lemma send_to_call:
  assumes "quiet (sock_send_to (Some data) a flags) s = Ret v s'"
  shows "\<exists>u. trace s' = trace s @ u \<and> datagrams_in u = [] \<and> datagrams_out u = [(data, a)]"
proof -
  obtain q where q: "sock_send_to (Some data) a flags (s\<lparr>err := None\<rparr>) = Ret v q" and tr: "trace s' = trace q"
    using assms by (rule quietE)
  obtain k r t where t: "retry (SysSendTo (fd s) data flags a k) (replies s) (s\<lparr>err := None\<rparr>) = Ret r t"
    and r: "(case r of None \<Rightarrow> bind_io (report send_set_error (on_fd ''Socket::SendTo'' (fd s))) (\<lambda>_. ret (- 1))
       | Some (v, _) \<Rightarrow> ret v) t = Ret v q"
    using q by (auto simp: sock_send_to_def get_fd_def sys_retry_def lift_pure_def bind_out_eq_Ret elim!: bind_ioE)
  let ?c = "SysSendTo (fd s) data flags a k"
  obtain "is" p where e: "trace t = trace s @ map (Pair ?c) is @ [(?c, p)]" and "is": "list_all interrupted_reply is"
    and p: "\<not> interrupted_reply p"
    using retry_attempts [OF t] by auto
  have "trace q = trace t" using r by (auto simp: ret_def elim!: bind_ioE dest!: report_state split: option.splits)
  then show ?thesis
    using e datagrams_interrupted [OF "is", where c = ?c] p tr
    by (intro exI [of _ "map (Pair ?c) is @ [(?c, p)]"]) (auto simp: datagrams_append)
qed

text \<open>
  C38. A run of the datagram servers on a plain socket: the datagrams that came in with any bytes
  at all are offered back, each once, unchanged and whole, in their order, and each to the address
  it came from. The block they share shows through nowhere: no byte of it or of an earlier
  datagram is sent.
\<close>

theorem datagrams_echoed:
  assumes "echo_datagrams I n buf s = Ret () s'" and "trace s' = trace s @ u" and "list_all honest_datagram u"
  shows "datagrams_out u = filter (\<lambda>(data, a). data \<noteq> []) (datagrams_in u)"
  using assms
proof (induction n arbitrary: buf s u)
  case (Suc n)
  obtain v data a s1 where r: "quiet (sock_receive_from True 2048 (Some addr_new) 0) s = Ret (v, data, a) s1"
    and k: "(let buf = patch 0 data buf; a = (case a of None \<Rightarrow> addr_new | Some a \<Rightarrow> a) in
       if 0 < v then bind_io (quiet (sock_send_to (Some (take (nat v) buf)) a 0)) (\<lambda>w.
         bind_io (if 0 < w then shown I (ret a) else ret ()) (\<lambda>_. echo_datagrams I n buf))
       else ret ()) s1 = Ret () s'"
    using Suc.prems(1) by (auto elim!: bind_ioE)
  obtain x where x: "trace s1 = trace s @ x" "datagrams_out x = []"
    and xi: "if datagrams_in x = [] then v = - 1 else \<exists>c. a = Some c \<and> datagrams_in x = [(data, c)]
      \<and> (list_all honest_datagram x \<longrightarrow> v = int (length data))"
    using receive_from_call [OF r] by blast
  show ?case
  proof (cases "0 < v")
    case False
    then have "u = x" using k x(1) Suc.prems(2) by (simp add: Let_def ret_def)
    then show ?thesis using False xi x(2) Suc.prems(3) by (auto split: if_splits)
  next
    case True
    then obtain c where c: "a = Some c" "datagrams_in x = [(data, c)]"
      and v: "list_all honest_datagram x \<Longrightarrow> v = int (length data)"
      using xi by (auto split: if_splits)
    obtain w s2 s3 where q: "quiet (sock_send_to (Some (take (nat v) (patch 0 data buf))) c 0) s1 = Ret w s2"
      and h: "(if 0 < w then shown I (ret c) else ret ()) s2 = Ret () s3"
      and l: "echo_datagrams I n (patch 0 data buf) s3 = Ret () s'"
      using k True c(1) by (auto simp: Let_def elim!: bind_ioE)
    obtain y where y: "trace s2 = trace s1 @ y" "datagrams_in y = []"
      "datagrams_out y = [(take (nat v) (patch 0 data buf), c)]"
      using send_to_call [OF q] by blast
    have "trace s3 = trace s2"
      using h by (auto simp: shown_def quiet_def ret_def lift_pure_def bind_out_eq_Ret split: if_splits elim!: bind_ioE)
    then obtain z where z: "trace s' = trace s3 @ z" "u = x @ y @ z"
      using leavesD [OF echo_datagrams_logs l] x(1) y(1) Suc.prems(2) by (auto simp: logs_more_def)
    have "datagrams_out z = filter (\<lambda>(data, a). data \<noteq> []) (datagrams_in z)"
      using Suc.IH [OF l z(1)] Suc.prems(3) z(2) by simp
    moreover have "v = int (length data)" using v Suc.prems(3) z(2) by simp
    ultimately show ?thesis
      using True x(2) y(2,3) c(2) z(2) by (auto simp: datagrams_append take_patched)
  qed
qed (simp add: fail_def)

subsection \<open>Concrete runs\<close>

definition demo_peer :: address where
  "demo_peer = addr_reset AF_INET"

definition demo_names :: inet where
  "demo_names = demo_inet\<lparr>nameinfo := (\<lambda>a n. Some ''127.0.0.1'')\<rparr>"

definition demo_net :: "reply list \<Rightarrow> net" where
  "demo_net rs = \<lparr>fd = 5, err = None, replies = rs, waits = [], errno = 0, trace = []\<rparr>"

definition demo_server :: "reply list \<Rightarrow> tcp_server" where
  "demo_server rs = \<lparr>fd = 5, err = None, replies = rs, waits = [], errno = 0, trace = [], tcp_address = addr_new,
     tcp_peer = addr_new, tcp_reuse_addr = False, tcp_reuse_port = False,
     tcp_listener = \<lparr>fd = 4, err = None, replies = [], waits = [], errno = 0, trace = [],
       acc_address = addr_new, acc_reuse_addr = False, acc_reuse_port = False, acc_backlog = 5\<rparr>\<rparr>"

lemmas run_simps = io_simps quiet_def sys_retry_def sys_call_def is_interrupted_def log_reply_def get_fd_def

lemma demo_peer_length: "addr_length demo_peer = Ret 16 ()"
  by (simp add: demo_peer_def addr_length_def)

lemma demo_peer_shown: "shown demo_names (ret demo_peer) s = Ret () s"
proof -
  have "\<exists>p. addr_port demo_peer = Ret p ()" by (simp add: demo_peer_def addr_port_def)
  then show ?thesis
    by (auto simp: shown_def quiet_def run_simps lift_pure_def addr_string_def demo_peer_length demo_names_def)
qed

theorem datagrams_echoed_witness:
  "\<exists>s' u. echo_datagrams demo_names 2 ''zzzz'' (demo_net [Done 2 ''ab'' demo_peer, Failed EINTR, Ok 2, Done 0 [] demo_peer]) = Ret () s'
     \<and> trace s' = u \<and> datagrams_out u = [(''ab'', demo_peer)]"
proof -
  let ?s = "demo_net [Done 2 ''ab'' demo_peer, Failed EINTR, Ok 2, Done 0 [] demo_peer]"
  let ?u = "[(SysRecvFrom 5 2048 0, Done 2 ''ab'' demo_peer), (SysSendTo 5 ''ab'' 0 demo_peer 16, Failed EINTR),
     (SysSendTo 5 ''ab'' 0 demo_peer 16, Ok 2), (SysRecvFrom 5 2048 0, Done 0 [] demo_peer)]"
  have "\<exists>s'. echo_datagrams demo_names (Suc (Suc 0)) ''zzzz'' ?s = Ret () s' \<and> trace s' = ?u"
    by (simp add: demo_net_def sock_receive_from_def sock_send_to_def run_simps demo_peer_length demo_peer_shown patch_def
        lift_pure_def Let_def)
  then obtain s' where s': "echo_datagrams demo_names 2 ''zzzz'' ?s = Ret () s'" "trace s' = ?u"
    by (auto simp: numeral_2_eq_2)
  have "trace s' = trace ?s @ ?u" using s'(2) by (simp add: demo_net_def)
  from datagrams_echoed [OF s'(1) this] have "datagrams_out ?u = [(''ab'', demo_peer)]" by simp
  then show ?thesis using s' by blast
qed

definition demo_block :: stream_buffer where
  "demo_block = \<lparr>bytes = replicate 4096 (CHR 0x00), limit = MAX_BUFFER_SIZE, opos = 0, rpos = 0, wpos = 0\<rparr>"

theorem echo_buffer_stream_witness:
  "\<exists>b s' u. echo_buffer 2 demo_block (demo_server [Ok 2, Ok 0, Done 3 ''abc'' [], Ok 2, Ok 0, Ok 2, Ok 2, Ok 0, Done 0 [] []]) = Ret b s'
     \<and> trace s' = u \<and> sent_in u = ''ab'' \<and> sb_unread b = ''c'' \<and> received_in u = ''abc''"
proof -
  let ?s = "demo_server [Ok 2, Ok 0, Done 3 ''abc'' [], Ok 2, Ok 0, Ok 2, Ok 2, Ok 0, Done 0 [] []]"
  have w: "sb_wf demo_block" "stream_buffer.limit demo_block = MAX_BUFFER_SIZE" "sb_unread demo_block = []" "wpos demo_block = 0"
    by (simp_all add: demo_block_def sb_wf_def sb_unread_def MAX_BUFFER_SIZE_def vec_max_def)
  have "\<exists>b s'. echo_buffer (Suc (Suc 0)) demo_block ?s = Ret b s' \<and> (\<exists>f g. trace s' = [(SysGetFlags 5, Ok 2), (SysSetFlags 5 f, Ok 0), (SysRecv 5 4096 0, Done 3 ''abc'' []),
     (SysGetFlags 5, Ok 2), (SysSetFlags 5 f, Ok 0), (SysSend 5 ''abc'' 0, Ok 2),
     (SysGetFlags 5, Ok 2), (SysSetFlags 5 f, Ok 0), (SysRecv 5 4093 0, Done 0 [] [])])"
    by (simp add: demo_server_def demo_block_def tcp_receive_buffer_def receive_buffer_def without_address_def on_buffer_def
       tcp_receive_def sock_receive_def sock_block_def checked_def unless_def run_simps lift_pure_def Let_def
       sb_reserve_def sb_writable_def fill_writable_def patch_def sb_advance_def
       tcp_send_buffer_def send_buffer_def readable_block_def sb_readable_def slice_def tcp_send_def sock_send_def
       sb_skip_def sb_flush_def MAX_BUFFER_SIZE_def sz_sub_def sz_add_def)
  then obtain b s' f where r: "echo_buffer 2 demo_block ?s = Ret b s'" and
    t: "trace s' = [(SysGetFlags 5, Ok 2), (SysSetFlags 5 f, Ok 0), (SysRecv 5 4096 0, Done 3 ''abc'' []),
     (SysGetFlags 5, Ok 2), (SysSetFlags 5 f, Ok 0), (SysSend 5 ''abc'' 0, Ok 2),
     (SysGetFlags 5, Ok 2), (SysSetFlags 5 f, Ok 0), (SysRecv 5 4093 0, Done 0 [] [])]"
    by (auto simp: numeral_2_eq_2)
  have e: "trace s' = trace ?s @ trace s'" by (simp add: demo_server_def)
  have "list_all honest (trace s')" "level_ok (wpos demo_block) (trace s')" by (simp_all add: t w(4) MAX_BUFFER_SIZE_def)
  from echo_buffer_stream [OF r e this w(1,2)] have "sent_in (trace s') @ sb_unread b = received_in (trace s')"
    by (simp add: w(3))
  then show ?thesis using r by (auto simp: t)
qed
definition demo_raw :: "reply list \<Rightarrow> raw_server" where
  "demo_raw rs = \<lparr>fd = 5, err = None, replies = rs, waits = [], errno = 0, trace = [],
     raw_listener = \<lparr>fd = 4, err = None, replies = [], waits = [], errno = 0, trace = []\<rparr>\<rparr>"

theorem server_loops_bounded_witness:
  "buffer_serve connect_next 3 demo_block (demo_server [Failed EBADF, Failed EINTR])
   = all_replies (\<lambda>n. buffer_serve connect_next n demo_block) (demo_server [Failed EBADF, Failed EINTR])"
proof -
  have "length (replies (demo_net [])) < 3" "length (replies (demo_udp [])) < 3" "length (replies (demo_raw [])) < 3"
    "length (replies (demo_server [Failed EBADF, Failed EINTR])) < 3"
    by (simp_all add: demo_net_def demo_udp_def demo_raw_def demo_server_def)
  from server_loops_bounded [OF this, of _ _ demo_block] show ?thesis by blast
qed

text \<open>On a plain socket what a send does not take is gone: the next block overwrites it.\<close>

lemma raw_echo_drops_rest:
  "\<exists>b s'. echo_chars 2 ''zzzz'' (demo_net [Done 3 ''abc'' [], Ok 2, Done 0 [] []]) = Ret b s'
     \<and> received_in (trace s') = ''abc'' \<and> sent_in (trace s') = ''ab''"
  by (simp add: numeral_2_eq_2 demo_net_def sock_receive_def sock_send_def run_simps patch_def Let_def)

end
