(* ===== verification/AsyncTcp.thy ===== *)
theory AsyncTcp
  imports Reactor BufferTransfer
begin

text \<open>
  \<open>AsyncTcpSocket\<close>. The state extends that of \<open>TcpSocket\<close> by the part shared with the loop
  and by the two buffers. The callbacks of the application are arguments of the operations that call
  them, none where none is set; they act on the whole state. \<open>SentCallback\<close> has no caller. The operations without the pointer to an
  error object are the throwing ones.
\<close>

subsection \<open>Asynchronous TCP sockets\<close>

record 'u async_tcp = tcp +
  tcp_reactor :: "'u reactor"
  in_buffer :: stream_buffer
  out_buffer :: stream_buffer

type_synonym ('r, 'u, 'a) atcp_io = "('r, ('u, 'a) async_tcp_ext tcp_ext) io"

text \<open>The constructors, on that of the base class: the members, then \<open>assert(_loop)\<close>.\<close>

definition at_init :: "'u bound loop option \<Rightarrow> (unit, 'u, 'a) atcp_io \<Rightarrow> (unit, 'u, 'a) atcp_io" where
  "at_init L base = bind_io base (\<lambda>_.
     bind_io (on_buffer (sb_new DEFAULT_BUFFER_SIZE MAX_BUFFER_SIZE)) (\<lambda>(_, i).
     bind_io (on_buffer (sb_new DEFAULT_BUFFER_SIZE MAX_BUFFER_SIZE)) (\<lambda>(_, b).
     bind_io (modify (\<lambda>s. s\<lparr>tcp_reactor := (tcp_reactor s)\<lparr>rloop := L, rhandler := None\<rparr>,
       in_buffer := i, out_buffer := b\<rparr>)) (\<lambda>_.
     if L = None then fail AssertFailed else ret ()))))"

definition at_new :: "'u bound loop option \<Rightarrow> (unit, 'u, 'a) atcp_io" where
  "at_new L = at_init L tcp_new"

definition at_new_family :: "'u bound loop option \<Rightarrow> 16 word \<Rightarrow> (unit, 'u, 'a) atcp_io" where
  "at_new_family L f = at_init L (tcp_new_family f)"

definition at_new_address :: "'u bound loop option \<Rightarrow> address \<Rightarrow> bool \<Rightarrow> bool \<Rightarrow> (unit, 'u, 'a) atcp_io" where
  "at_new_address L a ra rp = at_init L (tcp_new_address a ra rp)"

definition at_new_connected :: "'u bound loop option \<Rightarrow> int \<Rightarrow> address option \<Rightarrow> (unit, 'u, 'a) atcp_io" where
  "at_new_connected L d a = at_init L (tcp_new_connected d a)"

definition at_isolate :: "'u bound env \<Rightarrow> (unit, 'u bound) action \<Rightarrow> bool \<Rightarrow> (unit, 'u, 'a) atcp_io" where
  "at_isolate = isolate tcp_reactor tcp_reactor_update"

text \<open>The destructor, with that of \<open>Socket\<close> behind it.\<close>

definition at_delete :: "'u bound env \<Rightarrow> (unit, 'u bound) action \<Rightarrow> bool \<Rightarrow> (unit, 'u, 'a) atcp_io" where
  "at_delete env others inl = bind_io (at_isolate env others inl) (\<lambda>_. sock_delete)"

definition at_init_handler :: "'u bound env \<Rightarrow> bool \<Rightarrow> (bool, 'u, 'a) atcp_io" where
  "at_init_handler env inl = init_handler tcp_reactor tcp_reactor_update env inl
     (''AsyncTcpSocket::InitHandler : Event loop is not set.'',
      ''AsyncTcpSocket::InitHandler : Socket is not opened yet.'',
      ''AsyncTcpSocket::InitHandler : New event handler failed.'')"

definition at_enable_reading :: "'u bound env \<Rightarrow> bool \<Rightarrow> (bool, 'u, 'a) atcp_io" where
  "at_enable_reading env inl = enable_io tcp_reactor tcp_reactor_update (enable_reading env inl) (at_init_handler env inl)"

definition at_enable_writing :: "'u bound env \<Rightarrow> bool \<Rightarrow> (bool, 'u, 'a) atcp_io" where
  "at_enable_writing env inl = enable_io tcp_reactor tcp_reactor_update (enable_writing env inl) (at_init_handler env inl)"

definition at_close :: "'u bound env \<Rightarrow> (unit, 'u bound) action \<Rightarrow> bool \<Rightarrow> (bool, 'u, 'a) atcp_io" where
  "at_close env others inl = bind_io (at_isolate env others inl) (\<lambda>_. tcp_close)"

definition at_connected :: "'u bound env \<Rightarrow> bool \<Rightarrow> (bool, 'u, 'a) atcp_io" where
  "at_connected env inl = and_io tcp_connected (at_enable_reading env inl)"

text \<open>The inherited form with a descriptor calls the virtual \<open>Connected(Error*)\<close>.\<close>

definition at_connected_fd :: "'u bound env \<Rightarrow> bool \<Rightarrow> int \<Rightarrow> address option \<Rightarrow> (bool, 'u, 'a) atcp_io" where
  "at_connected_fd env inl d a = bind_io (sock_attach d) (\<lambda>_.
     bind_io (modify (\<lambda>s. case a of None \<Rightarrow> s | Some x \<Rightarrow> s\<lparr>tcp_peer := x\<rparr>)) (\<lambda>_. at_connected env inl))"

definition at_connect :: "inet \<Rightarrow> 'u bound env \<Rightarrow> (unit, 'u bound) action \<Rightarrow> bool \<Rightarrow> address \<Rightarrow> (bool, 'u, 'a) atcp_io" where
  "at_connect I env others inl a = bind_io (and_io (tcp_connect I a) (at_enable_reading env inl)) (\<lambda>ok.
     if ok then ret True else bind_io (quiet (at_close env others inl)) (\<lambda>_. ret False))"

definition at_connect_timed :: "inet \<Rightarrow> 'u bound env \<Rightarrow> (unit, 'u bound) action \<Rightarrow> bool \<Rightarrow> address \<Rightarrow> int
    \<Rightarrow> (bool, 'u, 'a) atcp_io" where
  "at_connect_timed I env others inl a timeout =
     (if timeout < 0 then at_connect I env others inl a
      else bind_io (and_io (tcp_connect_timed I a timeout) (at_enable_reading env inl)) (\<lambda>ok.
        if ok then ret True else bind_io (quiet (at_close env others inl)) (\<lambda>_. ret False)))"

subsection \<open>Sending and receiving\<close>

text \<open>\<open>_out_buffer.Write(p, n)\<close>.\<close>

definition out_write :: "char list \<Rightarrow> (bool, 'u, 'a) atcp_io" where
  "out_write p = bind_io (gets out_buffer) (\<lambda>b. bind_io (on_buffer (sb_write p b)) (\<lambda>(off, b').
     bind_io (modify (\<lambda>s. s\<lparr>out_buffer := b'\<rparr>)) (\<lambda>_. ret (off \<noteq> None))))"

text \<open>
  \<open>Send(p, n, e)\<close>. \<open>sent < n\<close> compares as \<open>size_t\<close>. Another thread holds the mutex of the
  buffer, which the loop thread does not take.
\<close>

definition at_send :: "'u bound env \<Rightarrow> bool \<Rightarrow> char list \<Rightarrow> (int, 'u, 'a) atcp_io" where
  "at_send env inl data = bind_io (gets (\<lambda>s. rloop (tcp_reactor s))) (\<lambda>L.
     if L = None then fail AssertFailed
     else if inl then
       bind_io (gets out_buffer) (\<lambda>b.
       bind_io (if sb_empty b then tcp_send_timed 0 (Some data) else ret 0) (\<lambda>sent.
       bind_io (if of_ssize sent < length data
           then bind_io (out_write (drop (if sent < 0 then 0 else nat sent) data)) (\<lambda>ok.
             ret (if ok then int (length data) else sent))
           else ret sent) (\<lambda>sent.
       bind_io (gets out_buffer) (\<lambda>b.
       bind_io (if sb_empty b then ret True else quiet (at_enable_writing env inl)) (\<lambda>_. ret sent)))))
     else unless (out_write data) 0
       (bind_io (quiet (at_enable_writing env inl)) (\<lambda>_. ret (int (length data)))))"

text \<open>
  \<open>Send(StreamBuffer*, e)\<close> is the inherited form on a buffer, which calls the virtual one.
\<close>

definition at_send_buffer :: "'u bound env \<Rightarrow> bool \<Rightarrow> stream_buffer \<Rightarrow> (int \<times> stream_buffer, 'u, 'a) atcp_io" where
  "at_send_buffer env inl = send_buffer (\<lambda>p. case p of None \<Rightarrow> fail WildPointer | Some data \<Rightarrow> at_send env inl data)"

text \<open>The timed forms of \<open>Send\<close> and all of \<open>Receive\<close> only report that they do not work.\<close>

definition at_no_send :: "(int, 'a) io" where
  "at_no_send = reject LogicError ''AsyncTcpSocket::Send : Function not work in this mode.'' EACCES (- 1)"

definition at_no_receive :: "(int, 'a) io" where
  "at_no_receive = reject LogicError ''AsyncTcpSocket::Receive : Function not work in this mode.'' EACCES (- 1)"

text \<open>
  The loop calls \<open>OnRead\<close> and \<open>OnWrite\<close> in its own thread. \<open>received\<close> and \<open>connected\<close>
  are the callbacks of the application.
\<close>

definition at_on_read :: "'u bound env \<Rightarrow> (unit, 'u, 'a) atcp_io option \<Rightarrow> (bool \<Rightarrow> (unit, 'u, 'a) atcp_io) option
    \<Rightarrow> (unit, 'u, 'a) atcp_io" where
  "at_on_read env received connected = bind_io (gets in_buffer) (\<lambda>b.
     bind_io (on_buffer (sb_reserve 2048 b)) (\<lambda>(ok, b1).
     bind_io (if ok then quiet (sock_receive True (sb_writable b1) 0) else ret (0, [])) (\<lambda>(n, data).
     bind_io (on_buffer (fill_writable data b1)) (\<lambda>(_, b2).
     if 0 < n then
       bind_io (modify (\<lambda>s. s\<lparr>in_buffer := snd (sb_advance (nat n) b2)\<rparr>)) (\<lambda>_.
       case received of None \<Rightarrow> ret () | Some f \<Rightarrow> f)
     else
       bind_io (modify (\<lambda>s. s\<lparr>in_buffer := b2\<rparr>)) (\<lambda>_.
       bind_io (on_handler tcp_reactor tcp_reactor_update AssertFailed (disable_reading env True)) (\<lambda>_.
       case connected of None \<Rightarrow> ret () | Some f \<Rightarrow> f False))))))"

definition at_on_write :: "'u bound env \<Rightarrow> (unit, 'u, 'a) atcp_io" where
  "at_on_write env = bind_io (gets out_buffer) (\<lambda>b.
     bind_io (if 0 < sb_readable b
       then bind_io (lift_pure (readable_block b)) (\<lambda>data.
         bind_io (quiet (sock_send (Some data) 0)) (\<lambda>sent.
         modify (\<lambda>s. if 0 < sent then s\<lparr>out_buffer := snd (sb_skip (nat sent) b)\<rparr> else s)))
       else ret ()) (\<lambda>_.
     bind_io (gets out_buffer) (\<lambda>b.
     if sb_readable b = 0
     then on_handler tcp_reactor tcp_reactor_update AssertFailed (disable_writing env True)
     else ret ())))"

interpretation tcp_part: reactor_part
    "tcp_reactor :: ('u, ('u, 'a) async_tcp_ext tcp_ext net_scheme) getter" tcp_reactor_update
  by unfold_locales (simp_all add: log_reply_def)

subsection \<open>What goes out\<close>

definition same_output :: "('u, 'a) async_tcp_scheme \<Rightarrow> ('u, 'a) async_tcp_scheme \<Rightarrow> bool" where
  "same_output s s' \<longleftrightarrow> out_buffer s' = out_buffer s \<and> sent_in (trace s') = sent_in (trace s)
     \<and> (\<exists>t. trace s' = trace s @ t)"

interpretation tcp_out: reactor_frame "same_output :: ('u, 'a) async_tcp_scheme \<Rightarrow> _" not_send
    tcp_reactor tcp_reactor_update
  by unfold_locales (auto simp: same_output_def log_reply_def sent_in_append sent_in_not_send)

text \<open>A buffer as \<open>AsyncTcpSocket\<close> has it: of the default limit and never flushed.\<close>

definition unflushed :: "stream_buffer \<Rightarrow> bool" where
  "unflushed b \<longleftrightarrow> sb_wf b \<and> opos b = 0 \<and> limit b = MAX_BUFFER_SIZE \<and> length (bytes b) \<le> MAX_BUFFER_SIZE"

lemma unflushedD:
  "unflushed b \<Longrightarrow> sb_wf b" "unflushed b \<Longrightarrow> wpos b \<le> MAX_BUFFER_SIZE" "unflushed b \<Longrightarrow> sb_empty b \<longleftrightarrow> wpos b = 0"
  by (auto simp: unflushed_def sb_wf_def sb_empty_def)

lemma unflushed_room: "unflushed b \<Longrightarrow> sb_room n b \<longleftrightarrow> wpos b + n \<le> MAX_BUFFER_SIZE"
  by (auto simp: unflushed_def sb_room_def sb_cap_def MAX_BUFFER_SIZE_def vec_max_def)

lemma unflushed_extends: "unflushed b \<Longrightarrow> sb_extends p b c \<Longrightarrow> unflushed c"
  by (auto simp: unflushed_def sb_extends_def sb_cap_def MAX_BUFFER_SIZE_def vec_max_def)

lemma unflushed_full:
  assumes "unflushed b" and "MAX_BUFFER_SIZE < wpos b + n" and "n < 2 ^ 63"
  shows "sb_reserve n b = Ret False b"
  using assms sb_wfD [OF unflushedD(1) [OF assms(1)]]
  by (auto simp: sb_reserve_def unflushed_def sb_writable_wf sz_sub_exact sz_add_exact MAX_BUFFER_SIZE_def)

lemma out_write_cases:
  assumes "unflushed (out_buffer s)" and "length p < 2 ^ 63"
  obtains b where "wpos (out_buffer s) + length p \<le> MAX_BUFFER_SIZE" "out_write p s = Ret True (s\<lparr>out_buffer := b\<rparr>)"
      "sb_extends p (out_buffer s) b"
  | "MAX_BUFFER_SIZE < wpos (out_buffer s) + length p" "out_write p s = Ret False s"
proof (cases "wpos (out_buffer s) + length p \<le> MAX_BUFFER_SIZE")
  case True
  then obtain c where "sb_write p (out_buffer s) = Ret (Some (wpos (out_buffer s))) c" "sb_extends p (out_buffer s) c"
    using sb_write_room unflushedD(1) unflushed_room assms(1) by blast
  with True that(1) show ?thesis by (simp add: out_write_def io_simps on_buffer_def)
next
  case False
  then have "sb_reserve (length p) (out_buffer s) = Ret False (out_buffer s)"
    using unflushed_full assms by simp
  with False that(2) show ?thesis by (simp add: out_write_def io_simps on_buffer_def sb_write_def)
qed

lemma same_output_at_enable:
  fixes s :: "('u, 'a) async_tcp_scheme"
  assumes "quiet (at_enable_writing env inl) s = Ret r s'"
  shows "same_output s s'"
proof -
  have "leaves same_output (quiet (at_enable_writing env inl) :: (bool, 'u, 'a) atcp_io)"
    unfolding at_enable_writing_def at_init_handler_def by (intro frame_rules)
  from leavesD [OF this assms] show ?thesis .
qed

lemma more_out_buffer:
  fixes s s' :: "('u, 'a) async_tcp_scheme"
  assumes "net.more s = net.more s'"
  shows "out_buffer s = out_buffer s'" "tcp_reactor s = tcp_reactor s'" "in_buffer s = in_buffer s'"
  using assms by (cases s; cases s'; simp)+

lemma tcp_send_now:
  fixes s :: "('u, 'a) async_tcp_scheme"
  assumes "tcp_send_timed 0 (Some data) s = Ret v s'"
  shows "out_buffer s' = out_buffer s \<and> sent_in (trace s') = sent_in (trace s) @ take (nat v) data
    \<and> (\<exists>t. trace s' = trace s @ t) \<and> (list_all honest (trace s') \<longrightarrow> - 1 \<le> v \<and> v \<le> int (length data))"
proof -
  obtain ok t where t: "sock_block False s = Ret ok t"
    and k: "(if ok then sock_send (Some data) 0 else ret (- 1)) t = Ret v s'"
    using assms by (auto simp: tcp_send_timed_def unless_def elim!: bind_ioE split: if_splits)
  have "leaves same_output (sock_block False :: (bool, 'u, 'a) atcp_io)"
    by (intro frame_rules) simp
  from leavesD [OF this t] have st: "same_output s t" .
  show ?thesis
  proof (cases ok)
    case True
    then have "sock_send (Some data) 0 t = Ret v s'" using k by simp
    from sock_send_out [OF this] st show ?thesis
      using more_out_buffer [of s' t] by (auto simp: same_output_def)
  next
    case False
    then show ?thesis using k st by (auto simp: ret_def same_output_def)
  qed
qed

text \<open>
  From one state to a later one, \<open>p\<close> was added at the end of what has gone out followed by what
  waits in the buffer. A buffer once used takes all of it.
\<close>

definition carries :: "char list \<Rightarrow> ('u, 'a) async_tcp_scheme \<Rightarrow> ('u, 'a) async_tcp_scheme \<Rightarrow> bool" where
  "carries p s s' \<longleftrightarrow> (\<exists>t. trace s' = trace s @ t) \<and>
     (unflushed (out_buffer s) \<and> list_all honest (trace s') \<longrightarrow> unflushed (out_buffer s')
      \<and> sent_in (trace s') @ sb_unread (out_buffer s') = sent_in (trace s) @ sb_unread (out_buffer s) @ p
      \<and> (0 < wpos (out_buffer s) \<longrightarrow> wpos (out_buffer s') = wpos (out_buffer s) + length p))"

lemma carriesD:
  assumes "carries p s s'" and "unflushed (out_buffer s)" and "list_all honest (trace s')"
  shows "unflushed (out_buffer s')"
    and "sent_in (trace s') @ sb_unread (out_buffer s') = sent_in (trace s) @ sb_unread (out_buffer s) @ p"
    and "0 < wpos (out_buffer s) \<Longrightarrow> wpos (out_buffer s') = wpos (out_buffer s) + length p"
  using assms by (auto simp: carries_def)

lemma carries_ext: "carries p s s' \<Longrightarrow> \<exists>t. trace s' = trace s @ t"
  by (simp add: carries_def)

lemma carries_trans:
  assumes "carries p s t" and "carries q t u"
  shows "carries (p @ q) s u"
proof -
  obtain x y where xy: "trace t = trace s @ x" "trace u = trace t @ y"
    using carries_ext [OF assms(1)] carries_ext [OF assms(2)] by blast
  have "unflushed (out_buffer u)
      \<and> sent_in (trace u) @ sb_unread (out_buffer u) = sent_in (trace s) @ sb_unread (out_buffer s) @ p @ q
      \<and> (0 < wpos (out_buffer s) \<longrightarrow> wpos (out_buffer u) = wpos (out_buffer s) + length (p @ q))"
    if "unflushed (out_buffer s)" "list_all honest (trace u)"
  proof -
    have "list_all honest (trace t)" using that(2) xy(2) by simp
    note st = carriesD [OF assms(1) that(1) this]
    note tu = carriesD [OF assms(2) st(1) that(2)]
    show ?thesis using st tu append_assoc by (metis add.assoc append_assoc length_append trans_less_add1)
  qed
  moreover have "\<exists>z. trace u = trace s @ z" using xy by simp
  ultimately show ?thesis unfolding carries_def by blast
qed

lemma carries_same: "same_output s t \<Longrightarrow> carries [] s t"
  by (auto simp: carries_def same_output_def)

lemma carries_refl: "carries [] s s"
  by (simp add: carries_def)

lemma carries_sent:
  assumes "tcp_send_timed 0 (Some data) s = Ret v t" and "unflushed (out_buffer s) \<longrightarrow> sb_empty (out_buffer s)"
  shows "carries (take (nat v) data) s t"
proof -
  have "sb_unread (out_buffer s) = []" "wpos (out_buffer s) = 0" if "unflushed (out_buffer s)"
    using that assms(2) unflushedD [OF that] by (auto simp: sb_unread_def slice_def)
  then show ?thesis using tcp_send_now [OF assms(1)] by (auto simp: carries_def)
qed

lemma carries_write:
  assumes "out_write p s = Ret ok t" and "length p < 2 ^ 63" and "unflushed (out_buffer s)"
  shows "carries (if ok then p else []) s t"
  using assms(3,2)
proof (cases rule: out_write_cases)
  case (1 b)
  then show ?thesis
    using assms(1,3) unflushed_extends sb_extends_unread [OF unflushedD(1) [OF assms(3)] 1(3)] sb_extendsD(5) [OF 1(3)]
    by (auto simp: carries_def)
qed (use assms(1) in \<open>auto simp: carries_refl\<close>)

lemma out_write_state:
  "out_write p s = Ret ok t \<Longrightarrow> \<exists>b. t = s\<lparr>out_buffer := b\<rparr>"
  by (auto simp: out_write_def gets_def modify_def on_buffer_def ret_def bind_out_eq_Ret elim!: bind_ioE)

lemma at_send_carries:
  assumes "at_send env inl data s = Ret r s'" and "length data < 2 ^ 63" and "unflushed (out_buffer s)"
    and "list_all honest (trace s')"
  shows "carries (take (nat r) data) s s'"
proof (cases inl)
  case False
  then obtain ok t where w: "out_write data s = Ret ok t"
    and k: "(if ok then bind_io (quiet (at_enable_writing env inl)) (\<lambda>_. ret (int (length data))) else ret 0) t = Ret r s'"
    using assms(1) by (auto simp: at_send_def gets_def unless_def fail_def elim!: bind_ioE split: if_splits)
  note cw = carries_write [OF w assms(2,3)]
  show ?thesis
  proof (cases ok)
    case True
    then obtain q where "quiet (at_enable_writing env inl) t = Ret q s'" "r = int (length data)"
      using k by (auto simp: ret_def elim!: bind_ioE)
    then show ?thesis using carries_trans [OF cw carries_same [OF same_output_at_enable]] True by simp
  qed (use k cw in \<open>auto simp: ret_def\<close>)
next
  case True
  let ?b = "out_buffer s"
  obtain v t r' u q where v: "(if sb_empty ?b then tcp_send_timed 0 (Some data) else ret 0) s = Ret v t"
    and w: "(if of_ssize v < length data
         then bind_io (out_write (drop (if v < 0 then 0 else nat v) data)) (\<lambda>ok. ret (if ok then int (length data) else v))
         else ret v) t = Ret r u"
    and e: "(if sb_empty (out_buffer u) then ret True else quiet (at_enable_writing env inl)) u = Ret q s'"
    using assms(1) True by (auto simp: at_send_def gets_def fail_def ret_def elim!: bind_ioE split: if_splits)
  have c1: "carries (take (nat v) data) s t"
    using v carries_sent [of data s v t] by (auto simp: ret_def carries_refl split: if_splits)
  have c3: "carries [] u s'"
    using e carries_same [OF same_output_at_enable] by (auto simp: ret_def carries_refl split: if_splits)
  have ext: "\<exists>x. trace s' = trace t @ x"
    using w c3 out_write_state by (fastforce simp: carries_def ret_def elim!: bind_ioE split: if_splits)
  then have honest: "list_all honest (trace t)" using assms(4) by auto
  then have uf: "unflushed (out_buffer t)" using c1 assms(3) by (simp add: carries_def)
  have range: "- 1 \<le> v \<and> v \<le> int (length data)"
    using v tcp_send_now [of data s v t] honest by (auto simp: ret_def split: if_splits)
  have "carries (take (nat r) data) s u"
  proof (cases "of_ssize v < length data")
    case True
    have pos: "0 \<le> v"
    proof (rule ccontr)
      assume "\<not> 0 \<le> v"
      then have "v = - 1" using range by simp
      then show False using True assms(2) by (simp add: of_ssize_minus_one)
    qed
    obtain ok where ok: "out_write (drop (nat v) data) t = Ret ok u" "r = (if ok then int (length data) else v)"
      using w True pos by (auto simp: ret_def elim!: bind_ioE split: if_splits)
    from carries_trans [OF c1 carries_write [OF ok(1) _ uf]] assms(2) ok(2) show ?thesis by (simp split: if_splits)
  next
    case False
    then show ?thesis using w c1 by (simp add: ret_def)
  qed
  from carries_trans [OF this c3] show ?thesis by simp
qed

lemma same_output_in_buffer [frame_rules]:
  "leaves same_output (modify (\<lambda>s :: ('u, 'a) async_tcp_scheme. s\<lparr>in_buffer := b\<rparr>))"
  by (rule leavesI) (auto simp: modify_def same_output_def)

lemma same_output_on_read: "leaves same_output (at_on_read env None None :: (unit, 'u, 'a) atcp_io)"
  unfolding at_on_read_def option.case by (intro frame_rules) simp_all

lemma carries_on_write:
  fixes s :: "('u, 'a) async_tcp_scheme"
  assumes "at_on_write env s = Ret u s'" and "unflushed (out_buffer s)" and "list_all honest (trace s')"
  shows "carries [] s s'"
proof -
  let ?b = "out_buffer s"
  obtain q t where w: "(if 0 < sb_readable ?b
       then bind_io (lift_pure (readable_block ?b)) (\<lambda>data.
         bind_io (quiet (sock_send (Some data) 0)) (\<lambda>sent.
         modify (\<lambda>s. if 0 < sent then s\<lparr>out_buffer := snd (sb_skip (nat sent) ?b)\<rparr> else s)))
       else ret ()) s = Ret q t"
    and d: "(if sb_readable (out_buffer t) = 0
      then on_handler tcp_reactor tcp_reactor_update AssertFailed (disable_writing env True) else ret ()) t = Ret u s'"
    using assms(1) by (auto simp: at_on_write_def gets_def elim!: bind_ioE)
  have "leaves same_output (if sb_readable (out_buffer t) = 0
      then on_handler tcp_reactor tcp_reactor_update AssertFailed (disable_writing env True)
      else ret () :: (unit, 'u, 'a) atcp_io)" for t :: "('u, 'a) async_tcp_scheme"
    by (intro frame_rules)
  from leavesD [OF this d] have c2: "carries [] t s'" by (rule carries_same)
  have honest: "list_all honest (trace t)" using carries_ext [OF c2] assms(3) by auto
  have "carries [] s t"
  proof (cases "0 < sb_readable ?b")
    case True
    then obtain data v y where data: "readable_block ?b = Ret data ()"
      and y: "quiet (sock_send (Some data) 0) s = Ret v y"
      and t: "t = (if 0 < v then y\<lparr>out_buffer := snd (sb_skip (nat v) ?b)\<rparr> else y)"
      using w by (auto simp: lift_pure_def modify_def bind_out_eq_Ret elim!: bind_ioE split: if_splits)
    obtain z where z: "sock_send (Some data) 0 (s\<lparr>err := None\<rparr>) = Ret v z" "y = z\<lparr>err := err s\<rparr>"
      using y by (auto simp: quiet_def bind_out_eq_Ret)
    note z1 = sock_send_out [OF z(1)]
    have out: "out_buffer y = ?b" using z1 more_out_buffer(1) [of z "s\<lparr>err := None\<rparr>"] z(2) by simp
    have tr: "trace t = trace z" "trace y = trace z" using t z(2) by auto
    have eq: "data = sb_unread ?b" using data readable_block_unread [OF unflushedD(1) [OF assms(2)]] by simp
    show ?thesis
    proof (cases "0 < v")
      case True
      have v: "nat v \<le> length (sb_unread ?b)" using z1 honest tr eq by auto
      have wf: "sb_wf ?b" by (rule unflushedD(1) [OF assms(2)])
      have small: "nat v < 2 ^ 63" using v length_sb_unread [OF wf] sb_wfD(6) [OF wf] by linarith
      have t': "out_buffer t = ?b\<lparr>rpos := rpos ?b + nat v\<rparr>" using t True sb_skip_wf [OF wf small] v by simp
      have con: "sb_consumes (nat v) ?b (out_buffer t)" using v t' by (simp add: sb_consumes_def)
      have "unflushed (out_buffer t)" using assms(2) sb_consumes_wf [OF wf con] t' by (auto simp: unflushed_def)
      then show ?thesis
        using z1 tr eq t' sb_consumes_unread [OF wf con] by (auto simp: carries_def)
    next
      case False
      then show ?thesis using t out z1 tr by (auto simp: carries_def)
    qed
  qed (use w in \<open>auto simp: ret_def carries_refl\<close>)
  from carries_trans [OF this c2] show ?thesis by simp
qed

subsection \<open>The life of a connection\<close>

text \<open>
  The calls of the application, from the loop thread or another, and the events of the loop. A
  callback runs at the end of \<open>OnRead\<close>: one that sends is an event \<open>AtReadable\<close> followed by
  the calls it makes. The result is the bytes that were accepted.
\<close>

datatype at_event = AtSend bool "char list" | AtWritable | AtReadable

fun at_run :: "'u bound env \<Rightarrow> at_event list \<Rightarrow> (char list, 'u, 'a) atcp_io" where
  "at_run env [] = ret []"
| "at_run env (AtSend inl data # es) = bind_io (at_send env inl data) (\<lambda>r.
     bind_io (at_run env es) (\<lambda>more. ret (take (nat r) data @ more)))"
| "at_run env (AtWritable # es) = bind_io (at_on_write env) (\<lambda>_. at_run env es)"
| "at_run env (AtReadable # es) = bind_io (at_on_read env None None) (\<lambda>_. at_run env es)"

fun block_sized :: "at_event \<Rightarrow> bool" where
  "block_sized (AtSend inl data) = (length data < 2 ^ 63)"
| "block_sized _ = True"

definition extends_trace :: "('u, 'a) async_tcp_scheme \<Rightarrow> ('u, 'a) async_tcp_scheme \<Rightarrow> bool" where
  "extends_trace s s' \<longleftrightarrow> (\<exists>t. trace s' = trace s @ t)"

interpretation tcp_trace: reactor_frame "extends_trace :: ('u, 'a) async_tcp_scheme \<Rightarrow> _" "\<lambda>_. True"
    tcp_reactor tcp_reactor_update
  by unfold_locales (auto simp: extends_trace_def log_reply_def)

lemma extends_trace_members [frame_rules]:
  "leaves extends_trace (modify (\<lambda>s :: ('u, 'a) async_tcp_scheme. s\<lparr>in_buffer := b\<rparr>))"
  "leaves extends_trace (modify (\<lambda>s :: ('u, 'a) async_tcp_scheme. s\<lparr>out_buffer := b\<rparr>))"
  "leaves extends_trace (modify (\<lambda>s :: ('u, 'a) async_tcp_scheme. if c then s\<lparr>out_buffer := b\<rparr> else s))"
  by (auto intro!: leavesI simp: modify_def extends_trace_def)

lemma at_run_extends: "leaves extends_trace (at_run env es :: (char list, 'u, 'a) atcp_io)"
proof (induction env es rule: at_run.induct)
  case (2 env inl data es)
  show ?case
    unfolding at_run.simps at_send_def out_write_def at_enable_writing_def at_init_handler_def tcp_send_timed_def
      tcp_send_def
    by (intro frame_rules 2) simp_all
next
  case (3 env es)
  show ?case unfolding at_run.simps at_on_write_def by (intro frame_rules 3) simp_all
next
  case (4 env es)
  show ?case unfolding at_run.simps at_on_read_def option.case by (intro frame_rules 4) simp_all
qed (simp, intro frame_rules)

lemma at_run_carries:
  assumes "at_run env es s = Ret p s'" and "list_all block_sized es" and "unflushed (out_buffer s)"
    and "list_all honest (trace s')"
  shows "carries p s s'"
  using assms
proof (induction env es arbitrary: s p rule: at_run.induct)
  case (1 env)
  then show ?case by (simp add: ret_def carries_refl)
next
  case (2 env inl data es)
  then obtain r t q where s: "at_send env inl data s = Ret r t" and r: "at_run env es t = Ret q s'"
    and p: "p = take (nat r) data @ q"
    by (auto simp: ret_def elim!: bind_ioE)
  have t: "list_all honest (trace t)"
    using leavesD [OF at_run_extends r] "2.prems"(4) by (auto simp: extends_trace_def)
  have c: "carries (take (nat r) data) s t" using at_send_carries [OF s _ "2.prems"(3) t] "2.prems"(2) by simp
  have "carries q t s'" using "2.IH" [OF r _ carriesD(1) [OF c "2.prems"(3) t] "2.prems"(4)] "2.prems"(2) by simp
  from carries_trans [OF c this] show ?case by (simp add: p)
next
  case (3 env es)
  then obtain u t where s: "at_on_write env s = Ret u t" and r: "at_run env es t = Ret p s'"
    by (auto elim!: bind_ioE)
  have t: "list_all honest (trace t)"
    using leavesD [OF at_run_extends r] "3.prems"(4) by (auto simp: extends_trace_def)
  have c: "carries [] s t" by (rule carries_on_write [OF s "3.prems"(3) t])
  have "carries p t s'" using "3.IH" [OF r _ carriesD(1) [OF c "3.prems"(3) t] "3.prems"(4)] "3.prems"(2) by simp
  from carries_trans [OF c this] show ?case by simp
next
  case (4 env es)
  then obtain u t where s: "at_on_read env None None s = Ret u t" and r: "at_run env es t = Ret p s'"
    by (auto elim!: bind_ioE)
  have t: "list_all honest (trace t)"
    using leavesD [OF at_run_extends r] "4.prems"(4) by (auto simp: extends_trace_def)
  have c: "carries [] s t" by (rule carries_same [OF leavesD [OF same_output_on_read s]])
  have "carries p t s'" using "4.IH" [OF r _ carriesD(1) [OF c "4.prems"(3) t] "4.prems"(4)] "4.prems"(2) by simp
  from carries_trans [OF c this] show ?case by simp
qed

lemma on_write_step:
  fixes s :: "('u, 'a) async_tcp_scheme"
  assumes "served tcp_reactor h m s" and "unflushed (out_buffer s)" and "0 < v" and "v \<le> length (sb_unread (out_buffer s))"
    and "replies s = Ok (int v) # rs"
  shows "\<exists>s'. at_on_write env s = Ret () s' \<and> unflushed (out_buffer s') \<and> replies s' = rs
    \<and> sent_in (trace s') = sent_in (trace s) @ take v (sb_unread (out_buffer s))
    \<and> sb_unread (out_buffer s') = drop v (sb_unread (out_buffer s))
    \<and> served tcp_reactor h (if v = length (sb_unread (out_buffer s)) then and m (not SOCKET_EVENT_WRITE) else m) s'"
proof -
  let ?b = "out_buffer s"
  let ?c = "?b\<lparr>rpos := rpos ?b + v\<rparr>"
  have wf: "sb_wf ?b" by (rule unflushedD(1) [OF assms(2)])
  have small: "v < 2 ^ 63" using assms(4) length_sb_unread [OF wf] sb_wfD(6) [OF wf] by linarith
  have con: "sb_consumes v ?b ?c" using assms(4) by (simp add: sb_consumes_def)
  note wf' = sb_consumes_wf [OF wf con] and un = sb_consumes_unread [OF wf con]
  have uf: "unflushed ?c" using assms(2) wf' by (auto simp: unflushed_def)
  define t where "t = (log_reply (SysSend (fd s) (sb_unread ?b) 0) (Ok (int v)) s)\<lparr>out_buffer := ?c\<rparr>"
  have t: "out_buffer t = ?c" "replies t = rs" "sent_in (trace t) = sent_in (trace s) @ take v (sb_unread ?b)"
    "served tcp_reactor h m t"
    using assms(1,5) by (simp_all add: t_def log_reply_def sent_in_append served_def)
  have send: "quiet (sock_send (Some (sb_unread ?b)) 0) s
      = Ret (int v) (log_reply (SysSend (fd s) (sb_unread ?b) 0) (Ok (int v)) s)"
    using assms(5) by (simp add: quiet_def sock_send_def sys_retry_def io_simps log_reply_def)
  have all: "v = length (sb_unread ?b) \<longleftrightarrow> sb_readable ?c = 0"
    using assms(4) by (auto simp: sb_readable_unread [OF wf'] un)
  have start: "at_on_write env s = (if sb_readable ?c = 0
      then on_handler tcp_reactor tcp_reactor_update AssertFailed (disable_writing env True) t else Ret () t)"
    using send assms(3,4) t(1) sb_readable_unread [OF wf] readable_block_unread [OF wf] sb_skip_wf [OF wf small]
    by (auto simp: at_on_write_def io_simps t_def)
  obtain L' where L': "on_handler tcp_reactor tcp_reactor_update AssertFailed (disable_writing env True) t
      = Ret () (tcp_reactor_update (rloop_update (\<lambda>_. Some L')) t)"
    "served tcp_reactor h (and m (not SOCKET_EVENT_WRITE)) (tcp_reactor_update (rloop_update (\<lambda>_. Some L')) t)"
    using tcp_part.on_handler_disable(1) [OF t(4)] by blast
  show ?thesis
    using start all L' t uf un by (cases "sb_readable ?c = 0") auto
qed

text \<open>
  C3. The stream over an asynchronous connection: in any run of \<open>Send\<close> calls from the loop
  thread and other threads, of \<open>OnWrite\<close> and of \<open>OnRead\<close>, whatever part of each block the
  system takes, the bytes that went out followed by those that wait in the output buffer are
  the bytes accepted, in the order of the calls.
\<close>

theorem async_stream_in_order:
  assumes "at_run env es s = Ret p s'" and "list_all block_sized es" and "unflushed (out_buffer s)"
    and "list_all honest (trace s')"
  shows "sent_in (trace s') @ sb_unread (out_buffer s') = sent_in (trace s) @ sb_unread (out_buffer s) @ p
    \<and> unflushed (out_buffer s')"
  using carriesD [OF at_run_carries [OF assms] assms(3,4)] by blast

text \<open>
  C34. The output buffer is never flushed: once a connection has had to buffer anything, all it
  accepts afterwards goes through the buffer, no more than 1048576 bytes are ever accepted, and
  a block for which the rest does not suffice is refused with 0 although all the earlier ones
  may long be sent.
\<close>

theorem async_send_capacity:
  assumes "at_run env es s = Ret p s'" and "list_all block_sized es" and "unflushed (out_buffer s)"
    and "list_all honest (trace s')" and "0 < wpos (out_buffer s)"
    and "MAX_BUFFER_SIZE < wpos (out_buffer s') + length data" and "length data < 2 ^ 63"
    and "rloop (tcp_reactor s') \<noteq> None"
  shows "wpos (out_buffer s') = wpos (out_buffer s) + length p \<and> wpos (out_buffer s') \<le> MAX_BUFFER_SIZE
    \<and> at_send env False data s' = Ret 0 s'"
proof -
  note c = carriesD [OF at_run_carries [OF assms(1-4)] assms(3,4)]
  have "out_write data s' = Ret False s'"
    using c(1) assms(7) by (cases rule: out_write_cases) (use assms(6) in auto)
  then show ?thesis
    using c(3) assms(5,8) unflushedD(2) [OF c(1)] by (auto simp: at_send_def io_simps)
qed

text \<open>
  C14. What is buffered gets out: for a socket served by its loop, as many \<open>OnWrite\<close> events
  as the system takes positive portions of the buffered bytes run without fault, send just
  these bytes, leave nothing unread in the buffer and switch the write interest off.
\<close>

theorem async_send_drains:
  assumes "served tcp_reactor h m s" and "unflushed (out_buffer s)" and "vs \<noteq> []"
    and "list_all (\<lambda>v. 0 < v) vs" and "sum_list vs = length (sb_unread (out_buffer s))"
    and "replies s = map (\<lambda>v. Ok (int v)) vs @ rs"
  shows "\<exists>s'. at_run env (replicate (length vs) AtWritable) s = Ret [] s'
    \<and> sent_in (trace s') = sent_in (trace s) @ sb_unread (out_buffer s)
    \<and> sb_unread (out_buffer s') = [] \<and> replies s' = rs
    \<and> served tcp_reactor h (and m (not SOCKET_EVENT_WRITE)) s'"
  using assms
proof (induction vs arbitrary: s)
  case (Cons v vs)
  let ?u = "sb_unread (out_buffer s)"
  obtain t where t: "at_on_write env s = Ret () t" "unflushed (out_buffer t)" "replies t = map (\<lambda>v. Ok (int v)) vs @ rs"
    "sent_in (trace t) = sent_in (trace s) @ take v ?u" "sb_unread (out_buffer t) = drop v ?u"
    "served tcp_reactor h (if v = length ?u then and m (not SOCKET_EVENT_WRITE) else m) t"
    using on_write_step [of h m s v "map (\<lambda>v. Ok (int v)) vs @ rs" env] Cons.prems by auto
  show ?case
  proof (cases "vs = []")
    case True
    then show ?thesis using t Cons.prems(5) by (auto simp: bind_io_def ret_def)
  next
    case False
    have "0 < sum_list vs" using False Cons.prems(4) by (cases vs) auto
    then have "v \<noteq> length ?u" using Cons.prems(5) by simp
    moreover have "sum_list vs = length (sb_unread (out_buffer t))" using t(5) Cons.prems(5) by simp
    ultimately obtain s' where "at_run env (replicate (length vs) AtWritable) t = Ret [] s'"
      "sent_in (trace s') = sent_in (trace t) @ drop v ?u" "sb_unread (out_buffer s') = []" "replies s' = rs"
      "served tcp_reactor h (and m (not SOCKET_EVENT_WRITE)) s'"
      using Cons.IH [of t] False t(2,3,5,6) Cons.prems(4) by auto
    then show ?thesis using t(1,4) by (auto simp: bind_io_def)
  qed
qed simp

text \<open>A socket in use for the examples: descriptor 5, handler 1, the given bytes waiting.\<close>

definition demo_async :: "char list \<Rightarrow> unit bound loop \<Rightarrow> reply list \<Rightarrow> unit async_tcp" where
  "demo_async waiting L rs = \<lparr>fd = 5, err = None, replies = rs, waits = [], errno = 0, trace = [],
     tcp_address = addr_new, tcp_peer = addr_new, tcp_reuse_addr = False, tcp_reuse_port = False,
     tcp_reactor = \<lparr>rloop = Some L, rhandler = Some 1, allocations = []\<rparr>,
     in_buffer = \<lparr>bytes = [], limit = MAX_BUFFER_SIZE, opos = 0, rpos = 0, wpos = 0\<rparr>,
     out_buffer = \<lparr>bytes = waiting, limit = MAX_BUFFER_SIZE, opos = 0, rpos = 0, wpos = length waiting\<rparr>\<rparr>"

lemma demo_async_facts:
  "length waiting \<le> MAX_BUFFER_SIZE \<Longrightarrow> unflushed (out_buffer (demo_async waiting L rs))"
  "sb_unread (out_buffer (demo_async waiting L rs)) = waiting" "trace (demo_async waiting L rs) = []"
  "wpos (out_buffer (demo_async waiting L rs)) = length waiting" "replies (demo_async waiting L rs) = rs"
  "served tcp_reactor 1 0 (demo_async waiting demo_handler_loop rs)"
  using demo_in_sync
  by (simp_all add: demo_async_def unflushed_def sb_wf_def MAX_BUFFER_SIZE_def vec_max_def sb_unread_def slice_def
      served_def)

lemma demo_other_thread_send:
  "\<exists>s'. at_run idle_env [AtSend False ''de''] (demo_async ''abc'' demo_handler_loop [Ok 2, Ok 0]) = Ret ''de'' s'
    \<and> list_all honest (trace s') \<and> rloop (tcp_reactor s') \<noteq> None"
proof -
  let ?s = "demo_async ''abc'' demo_handler_loop [Ok 2, Ok 0]"
  have "unflushed (out_buffer ?s)" "wpos (out_buffer ?s) = 3" by (simp_all add: demo_async_facts MAX_BUFFER_SIZE_def)
  then obtain b where b: "out_write ''de'' ?s = Ret True (?s\<lparr>out_buffer := b\<rparr>)"
    using out_write_cases [of ?s "''de''"] by (auto simp: MAX_BUFFER_SIZE_def)
  let ?t = "?s\<lparr>out_buffer := b, err := None\<rparr>"
  have r: "replies ?t = Ok 2 # Ok 0 # []" "fd ?t \<noteq> INVALID_SOCKET" "rhandler (tcp_reactor ?t) = Some 1"
    "rloop (tcp_reactor ?t) = Some demo_handler_loop" "err ?s = None" "rloop (tcp_reactor ?s) \<noteq> None"
    by (simp_all add: demo_async_def)
  obtain L' where "enable_writing idle_env False 1 demo_handler_loop = Ret True L'"
    by (simp add: enable_writing_def change_events_def with_handler_def demo_handler_loop_def update_def invoke_def
        invoke_later_def put_handler_def wakeup_def Let_def)
  then have "at_enable_writing idle_env False ?t
      = Ret True (tcp_reactor_update (rloop_update (\<lambda>_. Some L')) (after_block False 2 ?t))"
    unfolding at_enable_writing_def at_init_handler_def
    using tcp_part.enable_present [of ?t demo_handler_loop 1 2 "[]" "enable_writing idle_env False"] r by simp
  then show ?thesis
    using b r(5,6) by (auto simp: at_send_def io_simps quiet_def after_block_def demo_async_def)
qed

theorem async_stream_in_order_witness:
  "\<exists>s'. at_run idle_env [AtSend False ''de''] (demo_async ''abc'' demo_handler_loop [Ok 2, Ok 0]) = Ret ''de'' s'
    \<and> sent_in (trace s') @ sb_unread (out_buffer s') = ''abcde''"
proof -
  obtain s' where s': "at_run idle_env [AtSend False ''de''] (demo_async ''abc'' demo_handler_loop [Ok 2, Ok 0]) = Ret ''de'' s'"
    "list_all honest (trace s')"
    using demo_other_thread_send by blast
  have "unflushed (out_buffer (demo_async ''abc'' demo_handler_loop [Ok 2, Ok 0]))"
    by (rule demo_async_facts) (simp add: MAX_BUFFER_SIZE_def)
  from async_stream_in_order [OF s'(1) _ this s'(2)] s'(1) show ?thesis by (simp add: demo_async_facts)
qed

theorem async_send_capacity_witness:
  "\<exists>s'. at_run idle_env [AtSend False ''de''] (demo_async ''abc'' demo_handler_loop [Ok 2, Ok 0]) = Ret ''de'' s'
    \<and> at_send idle_env False (replicate MAX_BUFFER_SIZE CHR ''x'') s' = Ret 0 s'"
proof -
  obtain s' where s': "at_run idle_env [AtSend False ''de''] (demo_async ''abc'' demo_handler_loop [Ok 2, Ok 0]) = Ret ''de'' s'"
    "list_all honest (trace s')" "rloop (tcp_reactor s') \<noteq> None"
    using demo_other_thread_send by blast
  have u: "unflushed (out_buffer (demo_async ''abc'' demo_handler_loop [Ok 2, Ok 0]))"
    by (rule demo_async_facts) (simp add: MAX_BUFFER_SIZE_def)
  have bs: "list_all block_sized [AtSend False ''de'']" and small: "length (replicate MAX_BUFFER_SIZE CHR ''x'') < 2 ^ 63"
    by (simp_all add: MAX_BUFFER_SIZE_def)
  have "wpos (out_buffer s') = 5"
    using carriesD(3) [OF at_run_carries [OF s'(1) bs u s'(2)] u s'(2)] by (simp add: demo_async_facts)
  then have "MAX_BUFFER_SIZE < wpos (out_buffer s') + length (replicate MAX_BUFFER_SIZE CHR ''x'')" by simp
  from async_send_capacity [OF s'(1) bs u s'(2) _ this small s'(3)] s'(1) show ?thesis
    by (simp add: demo_async_facts)
qed

theorem async_send_drains_witness:
  "\<exists>s'. at_run idle_env [AtWritable, AtWritable] (demo_async ''abc'' demo_handler_loop [Ok 2, Ok 1]) = Ret [] s'
    \<and> sent_in (trace s') = ''abc'' \<and> sb_unread (out_buffer s') = []"
proof -
  let ?s = "demo_async ''abc'' demo_handler_loop [Ok 2, Ok 1]"
  have "unflushed (out_buffer ?s)" by (rule demo_async_facts) (simp add: MAX_BUFFER_SIZE_def)
  moreover have "replies ?s = map (\<lambda>v. Ok (int v)) [2, 1] @ []" by (simp add: demo_async_facts)
  ultimately show ?thesis
    using async_send_drains [OF demo_async_facts(6), of "''abc''" "[Ok 2, Ok 1]" "[2, 1]" "[]" idle_env]
    by (auto simp: demo_async_facts numeral_2_eq_2)
qed

text \<open>
  C24. \<open>OnRead\<close> of a socket served by its loop, whose input buffer has the default limit and was
  never flushed, when the system has 1 to 2048 bytes for it, after any number of interrupted
  calls. As long as 2048 bytes fit behind the writing position, those bytes are appended to the
  unread ones and the application is called on that state. After that nothing is received any
  more: no system call is made, the connection is reported as lost and reading is switched off,
  although the peer is there and data waits.
\<close>

theorem async_read_outcomes:
  assumes "served tcp_reactor h m s" and "unflushed (in_buffer s)"
    and "list_all (\<lambda>r. r = Failed EINTR) early" and "replies s = early @ Done (int (length data)) data a # rs"
    and "0 < length data" and "length data \<le> 2048"
  shows "if wpos (in_buffer s) + 2048 \<le> MAX_BUFFER_SIZE
    then \<exists>t. at_on_read env (Some f) c s = f t \<and> sb_unread (in_buffer t) = sb_unread (in_buffer s) @ data
      \<and> unflushed (in_buffer t) \<and> out_buffer t = out_buffer s \<and> replies t = rs
    else \<exists>t. at_on_read env k (Some g) s = g False t \<and> trace t = trace s \<and> in_buffer t = in_buffer s
      \<and> out_buffer t = out_buffer s \<and> served tcp_reactor h (and m (not SOCKET_EVENT_READ)) t"
proof (cases "wpos (in_buffer s) + 2048 \<le> MAX_BUFFER_SIZE")
  case True
  let ?b = "in_buffer s"
  have wf: "sb_wf ?b" by (rule unflushedD(1) [OF assms(2)])
  obtain b1 where b1: "sb_reserve 2048 ?b = Ret True b1" "sb_extends [] ?b b1" "wpos b1 + 2048 \<le> length (bytes b1)"
    using sb_reserve_room [OF wf] unflushed_room [OF assms(2)] True by blast
  have "wpos b1 + length data \<le> length (bytes b1)" using b1(3) assms(6) by simp
  note fill = sb_fill_advance [OF sb_extendsD(1) [OF b1(2)] this]
  let ?c = "b1\<lparr>bytes := patch (wpos b1) data (bytes b1), wpos := wpos b1 + length data\<rparr>"
  have ext: "sb_extends data ?b ?c" using sb_extends_trans [OF b1(2) fill(3)] by simp
  let ?call = "SysRecv (fd s) (sb_writable b1) 0"
  have "replies (s\<lparr>err := None\<rparr>) = early @ Done (int (length data)) data a # rs" using assms(4) by simp
  from sys_retry_done [OF this assms(3), of ?call]
  obtain t where t: "sys_retry ?call (s\<lparr>err := None\<rparr>) = Ret (Some (int (length data), data, a)) t" "replies t = rs"
    by blast
  have more: "net.more t = net.more s"
    using retry_effect [of ?call "early @ Done (int (length data)) data a # rs" "s\<lparr>err := None\<rparr>"] t(1) assms(4)
    by (auto simp: sys_retry_def)
  have "quiet (sock_receive True (sb_writable b1) 0) s = Ret (int (length data), data) (t\<lparr>err := err s\<rparr>)"
    using t(1) by (simp add: quiet_def sock_receive_def io_simps)
  then have "at_on_read env (Some f) c s = f (t\<lparr>err := err s, in_buffer := ?c\<rparr>)"
    using b1(1) fill(1,2) assms(5) by (simp add: at_on_read_def io_simps on_buffer_def)
  moreover have "out_buffer t = out_buffer s" by (rule more_out_buffer(1) [OF more])
  ultimately show ?thesis
    using True t(2) sb_extends_unread [OF wf ext] unflushed_extends [OF assms(2) ext]
    by (auto intro!: exI [of _ "t\<lparr>err := err s, in_buffer := ?c\<rparr>"])
next
  case False
  then have "sb_reserve 2048 (in_buffer s) = Ret False (in_buffer s)"
    using unflushed_full [OF assms(2), of 2048] by simp
  moreover have "fill_writable [] (in_buffer s) = Ret () (in_buffer s)"
    using sb_wfD(4) [OF unflushedD(1) [OF assms(2)]] by (simp add: fill_writable_def patch_nil)
  moreover obtain L' where "on_handler tcp_reactor tcp_reactor_update AssertFailed (disable_reading env True) s
      = Ret () (tcp_reactor_update (rloop_update (\<lambda>_. Some L')) s)"
    "served tcp_reactor h (and m (not SOCKET_EVENT_READ)) (tcp_reactor_update (rloop_update (\<lambda>_. Some L')) s)"
    using tcp_part.on_handler_disable(2) [OF assms(1)] by blast
  ultimately show ?thesis
    using False
    by (auto simp: at_on_read_def io_simps on_buffer_def
        intro!: exI [of _ "tcp_reactor_update (rloop_update (\<lambda>_. Some L')) s"])
qed

theorem async_read_outcomes_witness:
  "\<exists>t :: unit async_tcp. at_on_read idle_env (Some (ret ())) None
       (demo_async [] demo_handler_loop [Failed EINTR, Done 3 ''abc'' []]) = Ret () t
     \<and> sb_unread (in_buffer t) = ''abc''"
proof -
  let ?s = "demo_async [] demo_handler_loop [Failed EINTR, Done 3 ''abc'' []]"
  have i: "unflushed (in_buffer ?s)" "wpos (in_buffer ?s) = 0" "sb_unread (in_buffer ?s) = []"
    by (simp_all add: demo_async_def unflushed_def sb_wf_def MAX_BUFFER_SIZE_def vec_max_def sb_unread_def slice_def)
  have r: "replies ?s = [Failed EINTR] @ Done (int (length ''abc'')) ''abc'' [] # []"
    by (simp add: demo_async_facts)
  have l: "list_all (\<lambda>r. r = Failed EINTR) [Failed EINTR]" "0 < length ''abc''" "length ''abc'' \<le> 2048"
    by simp_all
  from async_read_outcomes [OF demo_async_facts(6) i(1) l(1) r l(2,3), of idle_env "ret ()" None None "\<lambda>_. ret ()"]
  show ?thesis using i(2,3) by (auto simp: ret_def MAX_BUFFER_SIZE_def)
qed

text \<open>
  \<open>Connected(s, addr)\<close> on an asynchronous socket that is served already: it closes the
  old descriptor and reports success for the new one, but the handler stays. The loop goes on
  watching the closed descriptor, and the new one is not watched at all.
\<close>

theorem reattached_socket_unserved:
  fixes s :: "('u, 'a) async_tcp_scheme"
  assumes "rloop (tcp_reactor s) = Some L" and "rhandler (tcp_reactor s) = Some h" and "in_sync L"
    and "registry_of L h = Some (fd s, m)" and "d \<notin> fst ` ran (registry_of L)" and "d \<noteq> INVALID_SOCKET"
    and "\<not> addr_empty a" and "addr_empty (tcp_peer s)"
    and "replies s = Ok 0 # Ok SOCK_STREAM # Done 0 [] a # Ok flags # Ok 0 # rs"
  shows "\<exists>s' L'. at_connected_fd env True d None s = Ret True s' \<and> fd s' = d
    \<and> (SysClose (fd s), Ok 0) \<in> set (trace s') \<and> rloop (tcp_reactor s') = Some L'
    \<and> rhandler (tcp_reactor s') = Some h \<and> registry_of L' h = Some (fd s, or m SOCKET_EVENT_READ)
    \<and> d \<notin> fst ` ran (registry_of L')"
proof -
  obtain ob where ob: "objects L h = Some ob" "hsocket ob = fd s" using assms(4) by (auto simp: registry_of_def)
  then have "(fd s, h) \<in> set (handlers L)" using assms(3) unfolding in_sync_def by metis
  then have "fd_ok (fd s)" using assms(3) unfolding in_sync_def by blast
  then have old: "fd s \<noteq> INVALID_SOCKET" by (simp add: fd_ok_def)
  have "(fd s, m) \<in> ran (registry_of L)" using assms(4) by (auto simp: ran_def)
  then have new: "d \<noteq> fd s" using assms(5) by force
  define t where "t = log_reply (SysGetPeerName d) (Done 0 [] a) (log_reply (SysGetOption d SOL_SOCKET SO_TYPE) (Ok SOCK_STREAM)
    ((log_reply (SysClose (fd s)) (Ok 0) s)\<lparr>fd := d\<rparr>))"
  have t: "replies t = Ok flags # Ok 0 # rs" "fd t = d" "rloop (tcp_reactor t) = Some L" "rhandler (tcp_reactor t) = Some h"
    "(SysClose (fd s), Ok 0) \<in> set (trace t)"
    using assms(1,2,9) by (simp_all add: t_def log_reply_def)
  obtain L' where L': "enable_reading env True h L = Ret True L'"
    "registry_of L' = (registry_of L)(h \<mapsto> (fd s, or m SOCKET_EVENT_READ))"
    using in_sync_change [OF assms(3,4), of "\<lambda>ev. or ev SOCKET_EVENT_READ" env] by (auto simp: enable_reading_def)
  let ?s' = "tcp_reactor_update (rloop_update (\<lambda>_. Some L')) (after_block False flags t)"
  have e: "at_enable_reading env True t = Ret True ?s'"
    unfolding at_enable_reading_def at_init_handler_def
    using tcp_part.enable_present [OF t(3,4) _ t(1), of "enable_reading env True" True L'] L'(1) assms(6) t(2) by simp
  have "at_connected_fd env True d None s = at_enable_reading env True t"
    using assms(6-9) old new
    by (simp add: at_connected_fd_def at_connected_def sock_attach_def quiet_def sock_close_def close_socket_def checked_def
        tcp_connected_def sock_valid_def sock_type_def sock_get_option_def sys_call_def sock_connected_address_def
        named_address_def io_simps log_reply_def t_def)
  moreover have "d \<notin> fst ` ran (registry_of L')"
    using assms(4,5) new ran_map_upd_Some [of "registry_of L" h "(fd s, m)"] L'(2)
    by (auto simp: ran_def split: if_splits)
  ultimately show ?thesis
    using e t(2,4,5) L'(2) by (intro exI [of _ ?s'] exI [of _ L']) (simp add: after_block_def log_reply_def)
qed

theorem reattached_socket_unserved_witness:
  "\<exists>s' :: unit async_tcp. at_connected_fd idle_env True 9 None
     (demo_async [] demo_handler_loop [Ok 0, Ok SOCK_STREAM, Done 0 [] (addr_reset AF_INET), Ok 2, Ok 0]) = Ret True s'
     \<and> fd s' = 9"
proof -
  let ?s = "demo_async [] demo_handler_loop [Ok 0, Ok SOCK_STREAM, Done 0 [] (addr_reset AF_INET), Ok 2, Ok 0]"
  have r: "registry_of demo_handler_loop = [1 \<mapsto> (5, 0)]"
    by (auto simp: registry_of_def demo_handler_loop_def fun_eq_iff)
  have w: "9 \<notin> fst ` ran (registry_of demo_handler_loop)" "(9 :: int) \<noteq> INVALID_SOCKET"
    by (auto simp: r ran_def)
  have a: "\<not> addr_empty (addr_reset AF_INET)" "addr_empty (tcp_peer ?s)"
    by (simp_all add: addr_empty_def demo_async_def addr_new_def)
  have "rloop (tcp_reactor ?s) = Some demo_handler_loop" "rhandler (tcp_reactor ?s) = Some 1" "fd ?s = 5"
    "replies ?s = Ok 0 # Ok SOCK_STREAM # Done 0 [] (addr_reset AF_INET) # Ok 2 # Ok 0 # []"
    by (simp_all add: demo_async_def)
  with reattached_socket_unserved [of ?s demo_handler_loop 1 0 9 "addr_reset AF_INET" 2 "[]" idle_env]
    demo_in_sync w a
  show ?thesis by auto
qed

end
