(* ===== verification/AsyncUdp.thy ===== *)
theory AsyncUdp
  imports Reactor
begin

text \<open>
  \<open>AsyncUdpSocket\<close>: the state of \<open>UdpSocket\<close> with the part shared with the loop, the input
  buffer and the queue of datagrams to send, each a buffer of its own with the address it goes
  to, the empty one for a connected socket.
\<close>

subsection \<open>The class\<close>

record 'u async_udp = udp +
  udp_reactor :: "'u reactor"
  udp_in_buffer :: stream_buffer
  out_buffers :: "(stream_buffer \<times> address) list"

type_synonym ('r, 'u, 'a) audp_io = "('r, ('u, 'a) async_udp_ext udp_ext) io"

definition au_init :: "'u bound loop option \<Rightarrow> (unit, 'u, 'a) audp_io \<Rightarrow> (unit, 'u, 'a) audp_io" where
  "au_init L base = bind_io base (\<lambda>_.
     bind_io (on_buffer (sb_new DEFAULT_BUFFER_SIZE MAX_BUFFER_SIZE)) (\<lambda>(_, i).
     bind_io (modify (\<lambda>s. s\<lparr>udp_reactor := (udp_reactor s)\<lparr>rloop := L, rhandler := None\<rparr>,
       udp_in_buffer := i, out_buffers := []\<rparr>)) (\<lambda>_.
     if L = None then fail AssertFailed else ret ())))"

definition au_new :: "'u bound loop option \<Rightarrow> (unit, 'u, 'a) audp_io" where
  "au_new L = au_init L udp_new"

definition au_new_family :: "'u bound loop option \<Rightarrow> 16 word \<Rightarrow> (unit, 'u, 'a) audp_io" where
  "au_new_family L f = au_init L (udp_new_family f)"

text \<open>The reuse rules have their default, true.\<close>

definition au_new_address :: "'u bound loop option \<Rightarrow> address \<Rightarrow> (unit, 'u, 'a) audp_io" where
  "au_new_address L a = au_init L (udp_new_address a True True)"

definition au_isolate :: "'u bound env \<Rightarrow> (unit, 'u bound) action \<Rightarrow> bool \<Rightarrow> (unit, 'u, 'a) audp_io" where
  "au_isolate = isolate udp_reactor udp_reactor_update"

definition au_delete :: "'u bound env \<Rightarrow> (unit, 'u bound) action \<Rightarrow> bool \<Rightarrow> (unit, 'u, 'a) audp_io" where
  "au_delete env others inl = bind_io (au_isolate env others inl) (\<lambda>_.
     bind_io (modify (\<lambda>s. s\<lparr>out_buffers := []\<rparr>)) (\<lambda>_. sock_delete))"

definition au_init_handler :: "'u bound env \<Rightarrow> bool \<Rightarrow> (bool, 'u, 'a) audp_io" where
  "au_init_handler env inl = init_handler udp_reactor udp_reactor_update env inl
     (''AsyncUdpSocket::InitHandler : Event loop is not set.'',
      ''AsyncUdpSocket::InitHandler : Socket is not opened.'',
      ''AsyncUdpSocket::InitHandler : New event handler failed.'')"

definition au_enable_reading :: "'u bound env \<Rightarrow> bool \<Rightarrow> (bool, 'u, 'a) audp_io" where
  "au_enable_reading env inl = enable_io udp_reactor udp_reactor_update (enable_reading env inl) (au_init_handler env inl)"

definition au_enable_writing :: "'u bound env \<Rightarrow> bool \<Rightarrow> (bool, 'u, 'a) audp_io" where
  "au_enable_writing env inl = enable_io udp_reactor udp_reactor_update (enable_writing env inl) (au_init_handler env inl)"

definition au_close :: "'u bound env \<Rightarrow> (unit, 'u bound) action \<Rightarrow> bool \<Rightarrow> (bool, 'u, 'a) audp_io" where
  "au_close env others inl = bind_io (au_isolate env others inl) (\<lambda>_. udp_close)"

definition au_open :: "inet \<Rightarrow> 'u bound env \<Rightarrow> (unit, 'u bound) action \<Rightarrow> bool \<Rightarrow> address \<Rightarrow> bool \<Rightarrow> bool
    \<Rightarrow> (bool, 'u, 'a) audp_io" where
  "au_open I env others inl a ra rp = bind_io (and_io (udp_open I a ra rp) (au_enable_reading env inl)) (\<lambda>ok.
     if ok then ret True else bind_io (quiet (au_close env others inl)) (\<lambda>_. ret False))"

subsection \<open>Sending and receiving\<close>

text \<open>\<open>_out_buffers.push(BufferAddress(new StreamBuffer(p, n), addr))\<close>.\<close>

definition au_push :: "char list \<Rightarrow> address \<Rightarrow> (unit, 'u, 'a) audp_io" where
  "au_push data a = bind_io (on_buffer (sb_new_data data DEFAULT_BUFFER_SIZE MAX_BUFFER_SIZE)) (\<lambda>(_, b).
     modify (\<lambda>s. s\<lparr>out_buffers := out_buffers s @ [(b, a)]\<rparr>))"

text \<open>
  The steps the two forms share: \<open>send\<close> is the direct call, \<open>a\<close> the address kept with a
  queued datagram. \<open>sent < n\<close> compares as \<open>size_t\<close>.
\<close>

definition au_send_with :: "'u bound env \<Rightarrow> bool \<Rightarrow> char list \<Rightarrow> address \<Rightarrow> (int, 'u, 'a) audp_io
    \<Rightarrow> (int, 'u, 'a) audp_io" where
  "au_send_with env inl data a send = bind_io (gets (\<lambda>s. rloop (udp_reactor s))) (\<lambda>L.
     if L = None then fail AssertFailed
     else if \<not> inl then
       bind_io (au_push data a) (\<lambda>_.
       bind_io (quiet (au_enable_writing env inl)) (\<lambda>_. ret (int (length data))))
     else
       bind_io (gets out_buffers) (\<lambda>q.
       bind_io (if q = [] then send else ret 0) (\<lambda>sent.
       if of_ssize sent < length data
       then bind_io (au_push data a) (\<lambda>_. bind_io (quiet (au_enable_writing env inl)) (\<lambda>_. ret sent))
       else ret sent)))"

definition au_send_to :: "'u bound env \<Rightarrow> bool \<Rightarrow> char list \<Rightarrow> address \<Rightarrow> (int, 'u, 'a) audp_io" where
  "au_send_to env inl data a = au_send_with env inl data a (sock_send_to (Some data) a 0)"

definition au_send :: "'u bound env \<Rightarrow> bool \<Rightarrow> char list \<Rightarrow> (int, 'u, 'a) audp_io" where
  "au_send env inl data = au_send_with env inl data addr_new (sock_send (Some data) 0)"

text \<open>
  The forms for the callback; the inherited form on a buffer calls the virtual one on a block.
\<close>

definition au_send_buffer_to :: "'u bound env \<Rightarrow> bool \<Rightarrow> stream_buffer option \<Rightarrow> address option
    \<Rightarrow> (int \<times> stream_buffer, 'u, 'a) audp_io" where
  "au_send_buffer_to env inl buf addr = (case buf of None \<Rightarrow> fail AssertFailed
     | Some b \<Rightarrow> (case addr of None \<Rightarrow> fail AssertFailed
       | Some a \<Rightarrow> send_buffer (\<lambda>p. case p of None \<Rightarrow> fail WildPointer | Some data \<Rightarrow> au_send_to env inl data a) b))"

definition au_send_buffer :: "'u bound env \<Rightarrow> bool \<Rightarrow> stream_buffer option \<Rightarrow> (int \<times> stream_buffer, 'u, 'a) audp_io" where
  "au_send_buffer env inl buf = (case buf of None \<Rightarrow> fail AssertFailed
     | Some b \<Rightarrow> send_buffer (\<lambda>p. case p of None \<Rightarrow> fail WildPointer | Some data \<Rightarrow> au_send env inl data) b)"

text \<open>The forms that only report that they do not work, by the name in their text.\<close>

definition au_refuse :: "char list \<Rightarrow> (int, 'a) io" where
  "au_refuse what = reject LogicError (''AysncUdpSocket::'' @ what @ '' : Function not work in this mode.'') EACCES (- 1)"

definition au_on_read :: "(address \<Rightarrow> (unit, 'u, 'a) audp_io) option \<Rightarrow> int \<Rightarrow> (unit, 'u, 'a) audp_io" where
  "au_on_read received d = bind_io get_fd (\<lambda>own. if d \<noteq> own then fail AssertFailed
     else bind_io (gets udp_in_buffer) (\<lambda>b.
     bind_io (on_buffer (sb_reserve RECEIVE_BUFFER_SIZE b)) (\<lambda>(ok, b1).
     bind_io (if ok then quiet (sock_receive_from True (sb_writable b1) (Some addr_new) 0)
       else ret (0, [], Some addr_new)) (\<lambda>(n, data, a).
     bind_io (on_buffer (fill_writable data b1)) (\<lambda>(_, b2).
     bind_io (modify (\<lambda>s. s\<lparr>udp_in_buffer := if 0 < n then snd (sb_advance (nat n) b2) else b2\<rparr>)) (\<lambda>_.
     if 0 < n then (case received of None \<Rightarrow> ret () | Some f \<Rightarrow> f (case a of None \<Rightarrow> addr_new | Some a \<Rightarrow> a))
     else ret ()))))))"

text \<open>The loop of \<open>OnWrite\<close> over the queue, which another thread cannot touch meanwhile.\<close>

fun au_drain :: "(stream_buffer \<times> address) list \<Rightarrow> (unit, 'u, 'a) audp_io" where
  "au_drain [] = ret ()"
| "au_drain ((b, a) # q) = bind_io (lift_pure (readable_block b)) (\<lambda>data.
     bind_io (quiet (if addr_empty a then sock_send (Some data) 0 else sock_send_to (Some data) a 0)) (\<lambda>r.
     if r \<le> 0 then ret ()
     else bind_io (modify (\<lambda>s. s\<lparr>out_buffers := q\<rparr>)) (\<lambda>_. au_drain q)))"

definition au_on_write :: "'u bound env \<Rightarrow> int \<Rightarrow> (unit, 'u, 'a) audp_io" where
  "au_on_write env d = bind_io get_fd (\<lambda>own. if d \<noteq> own then fail AssertFailed
     else bind_io (gets out_buffers) (\<lambda>q. bind_io (au_drain q) (\<lambda>_.
     bind_io (gets out_buffers) (\<lambda>q.
     if q = [] then on_handler udp_reactor udp_reactor_update AssertFailed (disable_writing env True) else ret ()))))"

interpretation udp_part: reactor_part
    "udp_reactor :: ('u, ('u, 'a) async_udp_ext udp_ext net_scheme) getter" udp_reactor_update
  by unfold_locales (simp_all add: log_reply_def)

subsection \<open>What goes out\<close>

text \<open>
  Datagrams with their address, none for the peer of a connected socket: those the system took,
  of a trace, and those in the queue. The system takes a datagram as a whole.
\<close>

type_synonym gram = "char list \<times> address option"

definition peer :: "address \<Rightarrow> address option" where
  "peer a = (if addr_empty a then None else Some a)"

fun grams_in :: "(syscall \<times> reply) list \<Rightarrow> gram list" where
  "grams_in [] = []"
| "grams_in ((SysSend d data flags, Done v x a) # t) = (data, None) # grams_in t"
| "grams_in ((SysSendTo d data flags b n, Done v x a) # t) = (data, peer b) # grams_in t"
| "grams_in (_ # t) = grams_in t"

fun takes_whole :: "syscall \<times> reply \<Rightarrow> bool" where
  "takes_whole (SysSend d data flags, Done v x a) \<longleftrightarrow> v = int (length data)"
| "takes_whole (SysSendTo d data flags b n, Done v x a) \<longleftrightarrow> v = int (length data)"
| "takes_whole _ \<longleftrightarrow> True"

fun no_gram :: "syscall \<Rightarrow> bool" where
  "no_gram (SysSend d data flags) = False"
| "no_gram (SysSendTo d data flags b n) = False"
| "no_gram _ = True"

lemma grams_in_append: "grams_in (t @ u) = grams_in t @ grams_in u"
  by (induction t rule: grams_in.induct) auto

lemma grams_in_no_gram: "no_gram c \<Longrightarrow> grams_in [(c, r)] = []"
  by (cases c) auto

lemma grams_in_failures:
  "list_all (\<lambda>x. \<exists>code. x = Failed code) early \<Longrightarrow> grams_in (map (Pair c) early) = []"
proof (induction early)
  case (Cons r early)
  then show ?case by (cases c) auto
qed simp

definition queued :: "('u, 'a) async_udp_scheme \<Rightarrow> gram list" where
  "queued s = map (\<lambda>(b, a). (sb_unread b, peer a)) (out_buffers s)"

definition good_queue :: "('u, 'a) async_udp_scheme \<Rightarrow> bool" where
  "good_queue s = list_all (\<lambda>(b, a). sb_wf b \<and> sb_unread b \<noteq> []) (out_buffers s)"

definition same_queue_out :: "('u, 'a) async_udp_scheme \<Rightarrow> ('u, 'a) async_udp_scheme \<Rightarrow> bool" where
  "same_queue_out s s' \<longleftrightarrow> out_buffers s' = out_buffers s \<and> grams_in (trace s') = grams_in (trace s)
     \<and> (\<exists>t. trace s' = trace s @ t)"

interpretation udp_out: reactor_frame "same_queue_out :: ('u, 'a) async_udp_scheme \<Rightarrow> _" no_gram
    udp_reactor udp_reactor_update
  by unfold_locales (auto simp: same_queue_out_def log_reply_def grams_in_append grams_in_no_gram)

definition extends_udp_trace :: "('u, 'a) async_udp_scheme \<Rightarrow> ('u, 'a) async_udp_scheme \<Rightarrow> bool" where
  "extends_udp_trace s s' \<longleftrightarrow> (\<exists>t. trace s' = trace s @ t)"

interpretation udp_trace: reactor_frame "extends_udp_trace :: ('u, 'a) async_udp_scheme \<Rightarrow> _" "\<lambda>_. True"
    udp_reactor udp_reactor_update
  by unfold_locales (auto simp: extends_udp_trace_def log_reply_def)

text \<open>From one state to a later one, the datagrams \<open>p\<close> were added at the end.\<close>

definition delivers :: "gram list \<Rightarrow> ('u, 'a) async_udp_scheme \<Rightarrow> ('u, 'a) async_udp_scheme \<Rightarrow> bool" where
  "delivers p s s' \<longleftrightarrow> (good_queue s \<and> list_all takes_whole (trace s') \<longrightarrow> good_queue s'
      \<and> grams_in (trace s') @ queued s' = grams_in (trace s) @ queued s @ p)"

lemma delivers_trans:
  assumes "delivers p s t" and "delivers q t u" and "extends_udp_trace t u"
  shows "delivers (p @ q) s u"
  unfolding delivers_def
proof
  assume u: "good_queue s \<and> list_all takes_whole (trace u)"
  then have "list_all takes_whole (trace t)" using assms(3) by (auto simp: extends_udp_trace_def)
  then have "good_queue t \<and> grams_in (trace t) @ queued t = grams_in (trace s) @ queued s @ p"
    using assms(1) u by (simp add: delivers_def)
  then show "good_queue u \<and> grams_in (trace u) @ queued u = grams_in (trace s) @ queued s @ p @ q"
    using assms(2) u unfolding delivers_def by (metis append_assoc)
qed

lemma delivers_same: "same_queue_out s t \<Longrightarrow> delivers [] s t"
  by (auto simp: delivers_def same_queue_out_def good_queue_def queued_def)

lemma delivers_refl: "delivers [] s s"
  by (simp add: delivers_def)

lemma more_out_buffers:
  fixes s s' :: "('u, 'a) async_udp_scheme"
  shows "net.more s = net.more s' \<Longrightarrow> out_buffers s = out_buffers s'"
  by (cases s; cases s'; simp)

lemma gram_sent:
  assumes "retry c rs s = Ret r s'" and "\<And>v x b. grams_in [(c, Done v x b)] = [g]"
    and "\<And>v x b. takes_whole (c, Done v x b) \<longleftrightarrow> v = int (length (fst g))"
  shows "net.more s' = net.more s \<and> fd s' = fd s \<and> (\<exists>t. trace s' = trace s @ t)
    \<and> (case r of None \<Rightarrow> grams_in (trace s') = grams_in (trace s)
       | Some (v, x) \<Rightarrow> grams_in (trace s') = grams_in (trace s) @ [g]
           \<and> (list_all takes_whole (trace s') \<longrightarrow> v = int (length (fst g))))"
proof -
  obtain early q where e: "trace s' = trace s @ map (Pair c) (early @ [q])" "fd s' = fd s" "net.more s' = net.more s"
    and early: "list_all (\<lambda>x. \<exists>code. x = Failed code) early"
    and q: "case r of None \<Rightarrow> \<exists>code. q = Failed code | Some (v, d, a) \<Rightarrow> q = Done v d a"
    using retry_effect [OF assms(1)] by blast
  have "grams_in [(c, Failed code)] = []" for code by (cases c) auto
  then show ?thesis
    using e q assms(2,3) by (cases r) (auto simp: grams_in_append grams_in_failures [OF early])
qed

text \<open>A direct call: the value is -1 and nothing went out, or the datagram did.\<close>

lemma direct_send_effect:
  assumes "sock_send_to (Some data) a flags s = Ret v s' \<and> g = (data, peer a)
    \<or> sock_send (Some data) flags s = Ret v s' \<and> g = (data, None)"
  shows "net.more s' = net.more s \<and> fd s' = fd s \<and> (\<exists>t. trace s' = trace s @ t)
    \<and> (v = - 1 \<and> grams_in (trace s') = grams_in (trace s)
       \<or> grams_in (trace s') = grams_in (trace s) @ [g] \<and> (list_all takes_whole (trace s') \<longrightarrow> v = int (length data)))"
proof -
  obtain c r t msg where t: "retry c (replies s) s = Ret r t"
    and c: "\<And>v x b. grams_in [(c, Done v x b)] = [g]" "\<And>v x b. takes_whole (c, Done v x b) \<longleftrightarrow> v = int (length data)"
    and g: "fst g = data"
    and k: "(case r of None \<Rightarrow> bind_io (report send_set_error msg) (\<lambda>_. ret (- 1)) | Some (v, _) \<Rightarrow> ret v) t = Ret v s'"
  proof (cases "sock_send_to (Some data) a flags s = Ret v s' \<and> g = (data, peer a)")
    case True
    then obtain n r t where "retry (SysSendTo (fd s) data flags a n) (replies s) s = Ret r t"
      "(case r of None \<Rightarrow> bind_io (report send_set_error (on_fd ''Socket::SendTo'' (fd s))) (\<lambda>_. ret (- 1))
          | Some (v, _) \<Rightarrow> ret v) t = Ret v s'"
      by (auto simp: sock_send_to_def get_fd_def lift_pure_def sys_retry_def bind_out_eq_Ret elim!: bind_ioE)
    then show ?thesis using that [of "SysSendTo (fd s) data flags a n" r t] True by auto
  next
    case False
    then have "sock_send (Some data) flags s = Ret v s'" and g: "g = (data, None)" using assms by auto
    then obtain r t where "retry (SysSend (fd s) data flags) (replies s) s = Ret r t"
      "(case r of None \<Rightarrow> bind_io (report send_set_error (on_fd ''Socket::Send'' (fd s))) (\<lambda>_. ret (- 1))
          | Some (v, _) \<Rightarrow> ret v) t = Ret v s'"
      by (auto simp: sock_send_def get_fd_def sys_retry_def elim!: bind_ioE)
    then show ?thesis by (intro that [of "SysSend (fd s) data flags" r t]) (simp_all add: g)
  qed
  have "\<And>v x b. takes_whole (c, Done v x b) \<longleftrightarrow> v = int (length (fst g))" using c(2) g by simp
  note e = gram_sent [OF t c(1) this]
  show ?thesis
    using e k g by (cases r) (auto simp: ret_def elim!: bind_ioE dest!: report_state)
qed

lemma sb_new_data_gram:
  assumes "sb_new_data data DEFAULT_BUFFER_SIZE MAX_BUFFER_SIZE = Ret u b"
  shows "sb_wf b \<and> sb_unread b = data \<and> length data \<le> DEFAULT_BUFFER_SIZE"
  using assms slice_patch_same [of 0 data "replicate 4096 CHR 0x00"]
  by (auto simp: sb_new_data_def sb_wf_def sb_unread_def vec_max_def DEFAULT_BUFFER_SIZE_def MAX_BUFFER_SIZE_def
      split: if_splits)

lemma push_effect:
  assumes "au_push data a s = Ret u t"
  shows "\<exists>b. t = s\<lparr>out_buffers := out_buffers s @ [(b, a)]\<rparr> \<and> sb_wf b \<and> sb_unread b = data"
proof -
  obtain u b where b: "sb_new_data data DEFAULT_BUFFER_SIZE MAX_BUFFER_SIZE = Ret u b"
    and t: "t = s\<lparr>out_buffers := out_buffers s @ [(b, a)]\<rparr>"
    using assms by (auto simp: au_push_def on_buffer_def modify_def bind_out_eq_Ret elim!: bind_ioE)
  then show ?thesis using sb_new_data_gram [OF b] by blast
qed

lemma push_delivers:
  assumes "au_push data a s = Ret u t" and "data \<noteq> []"
  shows "delivers [(data, peer a)] s t \<and> extends_udp_trace s t"
  using push_effect [OF assms(1)] assms(2)
  by (auto simp: delivers_def queued_def good_queue_def extends_udp_trace_def)

lemma enable_delivers:
  fixes s :: "('u, 'a) async_udp_scheme"
  assumes "quiet (au_enable_writing env inl) s = Ret r s'"
  shows "delivers [] s s' \<and> extends_udp_trace s s'"
proof -
  have "leaves same_queue_out (quiet (au_enable_writing env inl) :: (bool, 'u, 'a) audp_io)"
    unfolding au_enable_writing_def au_init_handler_def by (intro frame_rules)
  from leavesD [OF this assms] have "same_queue_out s s'" .
  then show ?thesis using delivers_same by (auto simp: same_queue_out_def extends_udp_trace_def)
qed

lemma extends_udp_trans: "extends_udp_trace s t \<Longrightarrow> extends_udp_trace t u \<Longrightarrow> extends_udp_trace s u"
  by (rule udp_trace.trans)

lemma queue_delivers:
  assumes "bind_io (au_push data a) (\<lambda>_. bind_io (quiet (au_enable_writing env inl)) (\<lambda>_. ret v)) s = Ret r s'"
    and "data \<noteq> []"
  shows "delivers [(data, peer a)] s s' \<and> extends_udp_trace s s' \<and> r = v"
proof -
  obtain t q where t: "au_push data a s = Ret () t" "quiet (au_enable_writing env inl) t = Ret q s'" "r = v"
    using assms(1) by (auto simp: ret_def elim!: bind_ioE)
  note p = push_delivers [OF t(1) assms(2)] and e = enable_delivers [OF t(2)]
  show ?thesis
    using delivers_trans [of "[(data, peer a)]" s t "[]" s'] p e t(3) extends_udp_trans by auto
qed

text \<open>What one call hands over: nothing exactly where the direct call failed.\<close>

definition handed_over :: "bool \<Rightarrow> char list \<Rightarrow> address option \<Rightarrow> ('u, 'a) async_udp_scheme \<Rightarrow> int \<Rightarrow> gram list" where
  "handed_over inl data b s r = (if inl \<and> out_buffers s = [] \<and> r < 0 then [] else [(data, b)])"

lemma send_with_delivers:
  fixes s :: "('u, 'a) async_udp_scheme"
  assumes run: "au_send_with env inl data a send s = Ret r s'" and data: "data \<noteq> []" "length data < 2 ^ 63"
    and send: "\<And>v t. send s = Ret v t \<Longrightarrow> net.more t = net.more s \<and> (\<exists>x. trace t = trace s @ x)
      \<and> (v = - 1 \<and> grams_in (trace t) = grams_in (trace s)
       \<or> grams_in (trace t) = grams_in (trace s) @ [(data, peer a)]
           \<and> (list_all takes_whole (trace t) \<longrightarrow> v = int (length data)))"
  shows "(list_all takes_whole (trace s') \<longrightarrow> delivers (handed_over inl data (peer a) s r) s s') \<and> extends_udp_trace s s'"
proof (cases "inl \<and> out_buffers s = []")
  case False
  then have "au_send_with env inl data a send s = (if rloop (udp_reactor s) = None then Fault AssertFailed
      else bind_io (au_push data a) (\<lambda>_. bind_io (quiet (au_enable_writing env inl))
        (\<lambda>_. ret (if inl then 0 else int (length data)))) s)"
    using data by (auto simp: au_send_with_def bind_io_def gets_def fail_def ret_def of_ssize_def)
  then have "bind_io (au_push data a) (\<lambda>_. bind_io (quiet (au_enable_writing env inl))
        (\<lambda>_. ret (if inl then 0 else int (length data)))) s = Ret r s'"
    using run by (simp split: if_splits)
  from queue_delivers [OF this data(1)] False show ?thesis by (auto simp: handed_over_def)
next
  case True
  then obtain v t where v: "send s = Ret v t"
    and k: "(if of_ssize v < length data
       then bind_io (au_push data a) (\<lambda>_. bind_io (quiet (au_enable_writing env inl)) (\<lambda>_. ret v))
       else ret v) t = Ret r s'"
    using run by (auto simp: au_send_with_def gets_def fail_def elim!: bind_ioE split: if_splits)
  note s1 = send [OF v]
  have ext: "extends_udp_trace s t" using s1 by (simp add: extends_udp_trace_def)
  have out: "out_buffers t = []" using s1 more_out_buffers [of t s] True by simp
  show ?thesis
  proof (cases "of_ssize v < length data")
    case False
    then have rt: "r = v" "s' = t" using k by (simp_all add: ret_def)
    have "delivers (handed_over inl data (peer a) s r) s s'" if h: "list_all takes_whole (trace s')"
      using s1 h rt True out by (auto simp: delivers_def handed_over_def queued_def good_queue_def)
    then show ?thesis using ext rt by simp
  next
    case less: True
    then have "bind_io (au_push data a) (\<lambda>_. bind_io (quiet (au_enable_writing env inl)) (\<lambda>_. ret v)) t = Ret r s'"
      using k by simp
    from queue_delivers [OF this data(1)] have q: "delivers [(data, peer a)] t s'" "extends_udp_trace t s'" by simp_all
    have False if h: "list_all takes_whole (trace s')"
    proof -
      have "list_all takes_whole (trace t)" using h q(2) by (auto simp: extends_udp_trace_def)
      then have "v = - 1 \<or> v = int (length data)" using s1 by auto
      then show False using less data(2) by (auto simp: of_ssize_minus_one of_ssize_def)
    qed
    then show ?thesis using extends_udp_trans [OF ext q(2)] by blast
  qed
qed

lemma drain_delivers:
  fixes s :: "('u, 'a) async_udp_scheme"
  assumes "au_drain q s = Ret u s'" and "out_buffers s = q"
  shows "delivers [] s s' \<and> extends_udp_trace s s'"
  using assms
proof (induction q arbitrary: s rule: au_drain.induct)
  case 1
  then show ?case by (simp add: ret_def delivers_refl extends_udp_trace_def)
next
  case (2 b a q)
  let ?g = "(sb_unread b, peer a)"
  obtain data r t where data: "readable_block b = Ret data ()"
    and r: "quiet (if addr_empty a then sock_send (Some data) 0 else sock_send_to (Some data) a 0) s = Ret r t"
    and k: "(if r \<le> 0 then ret () else bind_io (modify (\<lambda>s. s\<lparr>out_buffers := q\<rparr>)) (\<lambda>_. au_drain q)) t = Ret u s'"
    using "2.prems"(1) by (auto simp: lift_pure_def bind_out_eq_Ret elim!: bind_ioE)
  obtain z where z: "(if addr_empty a then sock_send (Some data) 0 else sock_send_to (Some data) a 0) (s\<lparr>err := None\<rparr>) = Ret r z"
    "t = z\<lparr>err := err s\<rparr>"
    using r by (auto simp: quiet_def bind_out_eq_Ret)
  note e = direct_send_effect [of data a 0 "s\<lparr>err := None\<rparr>" r z "(data, peer a)"]
  have "net.more z = net.more s \<and> (\<exists>x. trace z = trace s @ x) \<and> (r = - 1 \<and> grams_in (trace z) = grams_in (trace s)
       \<or> grams_in (trace z) = grams_in (trace s) @ [(data, peer a)] \<and> (list_all takes_whole (trace z) \<longrightarrow> r = int (length data)))"
    using e z(1) by (auto simp: peer_def split: if_splits)
  then have t: "out_buffers t = (b, a) # q" "extends_udp_trace s t"
    "r = - 1 \<and> grams_in (trace t) = grams_in (trace s)
      \<or> grams_in (trace t) = grams_in (trace s) @ [(data, peer a)] \<and> (list_all takes_whole (trace t) \<longrightarrow> r = int (length data))"
    using more_out_buffers [of z "s\<lparr>err := None\<rparr>"] z(2) "2.prems"(2) by (auto simp: extends_udp_trace_def)
  have eq: "data = sb_unread b" if "good_queue s"
    using that "2.prems"(2) readable_block_unread [of b] data by (auto simp: good_queue_def)
  show ?case
  proof (cases "r \<le> 0")
    case True
    then have "s' = t" using k by (simp add: ret_def)
    moreover have "delivers [] s t"
      using t eq True "2.prems"(2) by (auto simp: delivers_def queued_def good_queue_def)
    ultimately show ?thesis using t(2) by simp
  next
    case False
    let ?t = "t\<lparr>out_buffers := q\<rparr>"
    have d: "au_drain q ?t = Ret u s'" using k False by (auto simp: modify_def elim!: bind_ioE)
    have "delivers [] s ?t"
      using t eq False "2.prems"(2) by (auto simp: delivers_def queued_def good_queue_def)
    moreover have "extends_udp_trace s ?t" using t(2) by (simp add: extends_udp_trace_def)
    moreover have "delivers [] ?t s' \<and> extends_udp_trace ?t s'" using "2.IH" [OF False d] by simp
    ultimately show ?thesis
      using delivers_trans [of "[]" s ?t "[]" s'] extends_udp_trans by auto
  qed
qed

subsection \<open>The life of a socket\<close>

datatype au_event = AuSendTo bool "char list" address | AuSend bool "char list" | AuWritable

text \<open>A run, with the datagrams the application handed over.\<close>

fun au_step :: "'u bound env \<Rightarrow> au_event \<Rightarrow> (gram list, 'u, 'a) audp_io" where
  "au_step env (AuSendTo inl data a) s = bind_out (au_send_to env inl data a s)
     (\<lambda>r. Ret (handed_over inl data (peer a) s r))"
| "au_step env (AuSend inl data) s = bind_out (au_send env inl data s) (\<lambda>r. Ret (handed_over inl data None s r))"
| "au_step env AuWritable s = bind_out (au_on_write env (fd s) s) (\<lambda>_. Ret [])"

fun au_run :: "'u bound env \<Rightarrow> au_event list \<Rightarrow> (gram list, 'u, 'a) audp_io" where
  "au_run env [] = ret []"
| "au_run env (e # es) = bind_io (au_step env e) (\<lambda>p. bind_io (au_run env es) (\<lambda>q. ret (p @ q)))"

fun real_gram :: "au_event \<Rightarrow> bool" where
  "real_gram (AuSendTo inl data a) = (data \<noteq> [] \<and> length data < 2 ^ 63)"
| "real_gram (AuSend inl data) = (data \<noteq> [] \<and> length data < 2 ^ 63)"
| "real_gram AuWritable = True"

lemma peer_new: "peer addr_new = None"
  by (simp add: peer_def addr_empty_def addr_new_def)

lemma on_write_delivers:
  fixes s :: "('u, 'a) async_udp_scheme"
  assumes "au_on_write env d s = Ret u s'"
  shows "delivers [] s s' \<and> extends_udp_trace s s'"
proof -
  obtain q t where t: "au_drain (out_buffers s) s = Ret q t"
    and k: "(if out_buffers t = [] then on_handler udp_reactor udp_reactor_update AssertFailed (disable_writing env True)
      else ret ()) t = Ret u s'"
    using assms by (auto simp: au_on_write_def gets_def get_fd_def fail_def elim!: bind_ioE split: if_splits)
  have "leaves same_queue_out (if out_buffers t = []
      then on_handler udp_reactor udp_reactor_update AssertFailed (disable_writing env True)
      else ret () :: (unit, 'u, 'a) audp_io)" for t :: "('u, 'a) async_udp_scheme"
    by (intro frame_rules)
  from leavesD [OF this k] have "delivers [] t s'" "extends_udp_trace t s'"
    using delivers_same by (auto simp: same_queue_out_def extends_udp_trace_def)
  then show ?thesis
    using drain_delivers [OF t refl] delivers_trans [of "[]" s t "[]" s'] extends_udp_trans by auto
qed

lemma step_delivers:
  fixes s :: "('u, 'a) async_udp_scheme"
  assumes "au_step env e s = Ret p s'" and "real_gram e"
  shows "(list_all takes_whole (trace s') \<longrightarrow> delivers p s s') \<and> extends_udp_trace s s'"
proof (cases e)
  case (AuSendTo inl data a)
  then obtain r where r: "au_send_to env inl data a s = Ret r s'" "p = handed_over inl data (peer a) s r"
    using assms(1) by (auto simp: bind_out_eq_Ret)
  show ?thesis
    using send_with_delivers [OF r(1) [unfolded au_send_to_def]] assms(2) AuSendTo r(2)
      direct_send_effect [of data a 0 s _ _ "(data, peer a)"] by auto
next
  case (AuSend inl data)
  then obtain r where r: "au_send env inl data s = Ret r s'" "p = handed_over inl data None s r"
    using assms(1) by (auto simp: bind_out_eq_Ret)
  show ?thesis
    using send_with_delivers [OF r(1) [unfolded au_send_def]] assms(2) AuSend r(2)
      direct_send_effect [of data _ 0 s _ _ "(data, None)"] by (auto simp: peer_new)
next
  case AuWritable
  then show ?thesis using assms(1) on_write_delivers by (auto simp: bind_out_eq_Ret)
qed

text \<open>
  C9. Datagrams keep their order and their addresses: in any run of \<open>SendTo\<close> and \<open>Send\<close>
  of blocks that are not empty, from the loop thread and other threads, and of \<open>OnWrite\<close>,
  the datagrams that went out followed by those in the queue are those handed over, each with
  its address, where only a direct call the system refused hands nothing over.
\<close>

theorem async_datagrams_in_order:
  assumes "au_run env es s = Ret p s'" and "list_all real_gram es" and "good_queue s"
    and "list_all takes_whole (trace s')"
  shows "grams_in (trace s') @ queued s' = grams_in (trace s) @ queued s @ p \<and> good_queue s'"
proof -
  have "(list_all takes_whole (trace s') \<longrightarrow> delivers p s s') \<and> extends_udp_trace s s'"
    using assms(1,2)
  proof (induction es arbitrary: s p)
    case Nil
    then show ?case by (simp add: ret_def delivers_refl extends_udp_trace_def)
  next
    case (Cons e es)
    then obtain p1 t p2 where t: "au_step env e s = Ret p1 t" "au_run env es t = Ret p2 s'" "p = p1 @ p2"
      by (auto simp: ret_def elim!: bind_ioE)
    note s1 = step_delivers [OF t(1)] and s2 = Cons.IH [OF t(2)]
    have ext: "extends_udp_trace s t" "extends_udp_trace t s'" using s1 s2 Cons.prems(2) by simp_all
    have "list_all takes_whole (trace t)" if "list_all takes_whole (trace s')"
      using that ext(2) by (auto simp: extends_udp_trace_def)
    then show ?case
      using s1 s2 Cons.prems(2) t(3) delivers_trans [OF _ _ ext(2)] extends_udp_trans [OF ext] by auto
  qed
  then show ?thesis using assms(3,4) by (simp add: delivers_def)
qed

text \<open>
  What must not be queued: a datagram over 4096 bytes that has to wait, from another
  thread or behind others, fails an assertion; and an empty one from another thread is sent
  again at every \<open>OnWrite\<close>, and nothing behind it ever goes out.
\<close>

theorem queued_datagram_limits:
  assumes "rloop (udp_reactor s) \<noteq> None" and "DEFAULT_BUFFER_SIZE < length data"
    and "\<not> inl \<or> out_buffers s \<noteq> [] \<and> length data < 2 ^ 63"
    and "out_buffers t = (b, addr_new) # q" and "readable_block b = Ret [] ()"
    and "replies t = replicate n (Ok 0) @ rs"
  shows "au_send_to env inl data a s = Fault AssertFailed
    \<and> (\<exists>t'. au_run env (replicate n AuWritable) t = Ret [] t' \<and> out_buffers t' = out_buffers t
      \<and> grams_in (trace t') = grams_in (trace t) @ replicate n ([], None) \<and> replies t' = rs)"
proof
  have "au_push data a s = Fault AssertFailed"
    using assms(2) by (simp add: au_push_def io_simps on_buffer_def sb_new_data_def vec_max_def DEFAULT_BUFFER_SIZE_def)
  then show "au_send_to env inl data a s = Fault AssertFailed"
    using assms(1-3) by (auto simp: au_send_to_def au_send_with_def io_simps of_ssize_def DEFAULT_BUFFER_SIZE_def)
  show "\<exists>t'. au_run env (replicate n AuWritable) t = Ret [] t' \<and> out_buffers t' = out_buffers t
      \<and> grams_in (trace t') = grams_in (trace t) @ replicate n ([], None) \<and> replies t' = rs"
    using assms(4-6)
  proof (induction n arbitrary: t)
    case (Suc n)
    let ?t = "log_reply (SysSend (fd t) [] 0) (Ok 0) t"
    have "au_step env AuWritable t = Ret [] ?t"
      using Suc.prems by (simp add: au_on_write_def io_simps addr_empty_def addr_new_def quiet_def sock_send_def
          sys_retry_def log_reply_def)
    moreover obtain t' where "au_run env (replicate n AuWritable) ?t = Ret [] t'" "out_buffers t' = out_buffers ?t"
      "grams_in (trace t') = grams_in (trace ?t) @ replicate n ([], None)" "replies t' = rs"
      using Suc.IH [of ?t] Suc.prems by (auto simp: log_reply_def)
    ultimately show ?case by (auto simp: bind_io_def ret_def log_reply_def grams_in_append)
  qed (simp add: ret_def)
qed

definition demo_async_udp :: "(stream_buffer \<times> address) list \<Rightarrow> reply list \<Rightarrow> unit async_udp" where
  "demo_async_udp q rs = \<lparr>fd = 5, err = None, replies = rs, waits = [], errno = 0, trace = [],
     udp_address = addr_new, udp_reuse_addr = False, udp_reuse_port = False,
     udp_reactor = \<lparr>rloop = Some demo_handler_loop, rhandler = Some 1, allocations = []\<rparr>,
     udp_in_buffer = \<lparr>bytes = [], limit = MAX_BUFFER_SIZE, opos = 0, rpos = 0, wpos = 0\<rparr>, out_buffers = q\<rparr>"

definition gram_buffer :: "char list \<Rightarrow> stream_buffer" where
  "gram_buffer p = \<lparr>bytes = p, limit = MAX_BUFFER_SIZE, opos = 0, rpos = 0, wpos = length p\<rparr>"

lemma gram_buffer_facts:
  "length p \<le> 4096 \<Longrightarrow> sb_wf (gram_buffer p)" "sb_unread (gram_buffer p) = p"
  "length p \<le> 4096 \<Longrightarrow> readable_block (gram_buffer p) = Ret p ()"
proof -
  show wf: "sb_wf (gram_buffer p)" if "length p \<le> 4096"
    using that by (simp add: sb_wf_def gram_buffer_def vec_max_def MAX_BUFFER_SIZE_def)
  show u: "sb_unread (gram_buffer p) = p" by (simp add: sb_unread_def gram_buffer_def slice_def)
  show "readable_block (gram_buffer p) = Ret p ()" if "length p \<le> 4096"
    using readable_block_unread [OF wf [OF that]] u by simp
qed

theorem async_datagrams_in_order_witness:
  "\<exists>s'. au_run idle_env [AuWritable]
      (demo_async_udp [(gram_buffer ''ab'', addr_reset AF_INET), (gram_buffer ''c'', addr_new)] [Ok 2, Failed EINTR, Ok 1]) = Ret [] s'
    \<and> grams_in (trace s') @ queued s' = [(''ab'', Some (addr_reset AF_INET)), (''c'', None)]"
proof -
  let ?s = "demo_async_udp [(gram_buffer ''ab'', addr_reset AF_INET), (gram_buffer ''c'', addr_new)] [Ok 2, Failed EINTR, Ok 1]"
  have a: "\<not> addr_empty (addr_reset AF_INET)" "addr_empty addr_new" "\<exists>n. addr_length (addr_reset AF_INET) = Ret n ()"
    by (simp_all add: addr_empty_def addr_length_def ss_family_reset addr_new_def)
  then obtain n where n: "addr_length (addr_reset AF_INET) = Ret n ()" by blast
  define t where "t = (log_reply (SysSend 5 ''c'' 0) (Ok 1) (log_reply (SysSend 5 ''c'' 0) (Failed EINTR)
    (log_reply (SysSendTo 5 ''ab'' 0 (addr_reset AF_INET) n) (Ok 2) ?s)))\<lparr>out_buffers := []\<rparr>"
  have sv: "served udp_reactor 1 0 t"
    using demo_in_sync by (simp add: served_def t_def demo_async_udp_def log_reply_def)
  obtain L' where L': "on_handler udp_reactor udp_reactor_update AssertFailed (disable_writing idle_env True) t
      = Ret () (udp_reactor_update (rloop_update (\<lambda>_. Some L')) t)"
    using udp_part.on_handler_disable(1) [OF sv] by blast
  let ?s' = "udp_reactor_update (rloop_update (\<lambda>_. Some L')) t"
  have drain: "au_drain (out_buffers ?s) ?s = Ret () t"
    using a n by (simp add: t_def demo_async_udp_def gram_buffer_facts io_simps quiet_def sock_send_def sock_send_to_def
        sys_retry_def is_interrupted_def log_reply_def)
  have e: "out_buffers t = []" by (simp add: t_def)
  have s': "au_run idle_env [AuWritable] ?s = Ret [] ?s'"
    using drain e L' by (simp add: au_on_write_def io_simps)
  have "good_queue ?s" by (simp add: good_queue_def demo_async_udp_def gram_buffer_facts)
  moreover have "list_all takes_whole (trace ?s')"
    by (simp add: t_def demo_async_udp_def log_reply_def)
  ultimately have "grams_in (trace ?s') @ queued ?s' = grams_in (trace ?s) @ queued ?s @ []"
    using async_datagrams_in_order [OF s'] by simp
  moreover have "grams_in (trace ?s) @ queued ?s @ [] = [(''ab'', Some (addr_reset AF_INET)), (''c'', None)]"
    using a by (simp add: demo_async_udp_def queued_def gram_buffer_facts peer_def)
  ultimately show ?thesis using s' by metis
qed

theorem queued_datagram_limits_witness:
  "au_send_to idle_env False (replicate 5000 CHR ''x'') addr_new (demo_async_udp [] []) = Fault AssertFailed
   \<and> (\<exists>t'. au_run idle_env [AuWritable, AuWritable]
       (demo_async_udp [(gram_buffer [], addr_new), (gram_buffer ''ab'', addr_new)] [Ok 0, Ok 0]) = Ret [] t'
     \<and> grams_in (trace t') = [([], None), ([], None)])"
proof -
  let ?t = "demo_async_udp [(gram_buffer [], addr_new), (gram_buffer ''ab'', addr_new)] [Ok 0, Ok 0]"
  have "rloop (udp_reactor (demo_async_udp [] [])) \<noteq> None" "DEFAULT_BUFFER_SIZE < length (replicate 5000 CHR ''x'')"
    and "\<not> False \<or> out_buffers (demo_async_udp [] []) \<noteq> [] \<and> length (replicate 5000 CHR ''x'') < 2 ^ 63"
    and "out_buffers ?t = (gram_buffer [], addr_new) # [(gram_buffer ''ab'', addr_new)]"
    and "readable_block (gram_buffer []) = Ret [] ()"
    and "replies ?t = replicate 2 (Ok 0) @ []"
    by (simp_all add: demo_async_udp_def DEFAULT_BUFFER_SIZE_def gram_buffer_facts numeral_2_eq_2)
  from queued_datagram_limits [OF this, of idle_env addr_new] show ?thesis
    by (auto simp: numeral_2_eq_2 demo_async_udp_def)
qed

end
