(* ===== verification/AsyncAcceptor.thy ===== *)
theory AsyncAcceptor
  imports Reactor
begin

text \<open>
  \<open>AsyncTcpAcceptor\<close>: the state of \<open>TcpAcceptor\<close> with the part shared with the loop. The
  callback of the application, which gets the accepted descriptor and its address and says
  whether it took the descriptor over, is an argument, none where it is not set.
\<close>

subsection \<open>The class\<close>

record 'u async_acceptor = acceptor +
  acc_reactor :: "'u reactor"

type_synonym ('r, 'u, 'a) aacc_io = "('r, ('u, 'a) async_acceptor_ext acceptor_ext) io"

type_synonym ('u, 'a) accepted_callback = "(int \<Rightarrow> address \<Rightarrow> (bool, 'u, 'a) aacc_io) option"

definition aa_init :: "'u bound loop option \<Rightarrow> (unit, 'u, 'a) aacc_io \<Rightarrow> (unit, 'u, 'a) aacc_io" where
  "aa_init L base = bind_io base (\<lambda>_.
     bind_io (modify (\<lambda>s. s\<lparr>acc_reactor := (acc_reactor s)\<lparr>rloop := L, rhandler := None\<rparr>\<rparr>)) (\<lambda>_.
     if L = None then fail AssertFailed else ret ()))"

definition aa_new :: "'u bound loop option \<Rightarrow> (unit, 'u, 'a) aacc_io" where
  "aa_new L = aa_init L acc_new"

definition aa_new_family :: "'u bound loop option \<Rightarrow> 16 word \<Rightarrow> (unit, 'u, 'a) aacc_io" where
  "aa_new_family L f = aa_init L (acc_new_family f)"

definition aa_new_address :: "'u bound loop option \<Rightarrow> address \<Rightarrow> bool \<Rightarrow> bool \<Rightarrow> (unit, 'u, 'a) aacc_io" where
  "aa_new_address L a ra rp = aa_init L (acc_new_address a ra rp)"

definition aa_isolate :: "'u bound env \<Rightarrow> (unit, 'u bound) action \<Rightarrow> bool \<Rightarrow> (unit, 'u, 'a) aacc_io" where
  "aa_isolate = isolate acc_reactor acc_reactor_update"

definition aa_delete :: "'u bound env \<Rightarrow> (unit, 'u bound) action \<Rightarrow> bool \<Rightarrow> (unit, 'u, 'a) aacc_io" where
  "aa_delete env others inl = bind_io (aa_isolate env others inl) (\<lambda>_. sock_delete)"

text \<open>The result of \<open>_handler->EnableReading()\<close> is not looked at.\<close>

definition aa_enable_reading :: "'u bound env \<Rightarrow> bool \<Rightarrow> ('u, 'a) accepted_callback \<Rightarrow> (bool, 'u, 'a) aacc_io" where
  "aa_enable_reading env inl cb = bind_io (gets (\<lambda>s. rloop (acc_reactor s))) (\<lambda>L.
     if L = None then reject LogicError ''AsyncTcpAcceptor::EnableReading : Event loop is not set.'' EINVAL False
     else case cb of
       None \<Rightarrow> reject LogicError ''AsyncTcpAcceptor::EnableReading : Accepted callback is not set.'' EINVAL False
     | Some _ \<Rightarrow> bind_io sock_valid (\<lambda>v.
     if \<not> v then reject LogicError ''AsyncTcpAcceptor::EnableReading : Socket is not opened yet.'' EBADF False
     else unless (sock_block False) False
       (unless (make_handler acc_reactor acc_reactor_update env inl
           ''AsyncTcpAcceptor::EnableReading : New EventHandler failed.'' False) False
       (bind_io (on_handler acc_reactor acc_reactor_update AssertFailed (enable_reading env inl)) (\<lambda>_. ret True)))))"

definition aa_close :: "'u bound env \<Rightarrow> (unit, 'u bound) action \<Rightarrow> bool \<Rightarrow> (bool, 'u, 'a) aacc_io" where
  "aa_close env others inl = bind_io (aa_isolate env others inl) (\<lambda>_. acc_close)"

definition aa_open :: "inet \<Rightarrow> 'u bound env \<Rightarrow> (unit, 'u bound) action \<Rightarrow> bool \<Rightarrow> ('u, 'a) accepted_callback
    \<Rightarrow> address \<Rightarrow> bool \<Rightarrow> bool \<Rightarrow> (bool, 'u, 'a) aacc_io" where
  "aa_open I env others inl cb a ra rp = bind_io (and_io (acc_open I a ra rp) (aa_enable_reading env inl cb)) (\<lambda>ok.
     if ok then ret True else bind_io (quiet (aa_close env others inl)) (\<lambda>_. ret False))"

text \<open>The forms of \<open>Accept\<close> and \<open>AcceptFrom\<close> are closed to the application.\<close>

definition aa_no_accept :: "char list \<Rightarrow> (int, 'a) io" where
  "aa_no_accept what = reject LogicError what EACCES INVALID_SOCKET"

definition aa_no_accept_throw :: "char list \<Rightarrow> (exception + int, 'a) io" where
  "aa_no_accept_throw what = ret (Inl \<lparr>xtype = TLogicException, xmessage = what, xcode = EACCES\<rparr>)"

definition aa_on_read :: "('u, 'a) accepted_callback \<Rightarrow> int \<Rightarrow> (unit, 'u, 'a) aacc_io" where
  "aa_on_read cb d = (case cb of None \<Rightarrow> fail AssertFailed
     | Some f \<Rightarrow> bind_io get_fd (\<lambda>own. if d \<noteq> own then fail AssertFailed
       else bind_io (quiet (sock_accept_from (Some addr_new))) (\<lambda>(v, a).
         if v \<noteq> INVALID_SOCKET
         then bind_io (f v (case a of None \<Rightarrow> addr_new | Some a \<Rightarrow> a)) (\<lambda>taken.
           if taken then ret () else bind_io (quiet (close_socket v)) (\<lambda>_. ret ()))
         else ret ())))"

interpretation acc_part: reactor_part
    "acc_reactor :: ('u, ('u, 'a) async_acceptor_ext acceptor_ext net_scheme) getter" acc_reactor_update
  by unfold_locales (simp_all add: log_reply_def)

interpretation acc_ledger: reactor_frame
    "balanced {#} {#} :: ('u, 'a) async_acceptor_scheme \<Rightarrow> _" plain_call acc_reactor acc_reactor_update
  by unfold_locales (simp_all add: balanced_def owns_def)

subsection \<open>What becomes of the connections\<close>

fun accepted_in :: "(syscall \<times> reply) list \<Rightarrow> (int \<times> address) multiset" where
  "accepted_in [] = {#}"
| "accepted_in ((SysAccept d, Done v x a) # t) = (if v = INVALID_SOCKET then {#} else {#(v, a)#}) + accepted_in t"
| "accepted_in (_ # t) = accepted_in t"

lemma accepted_in_append: "accepted_in (t @ u) = accepted_in t + accepted_in u"
  by (induction t rule: accepted_in.induct) (auto simp: ac_simps)

lemma accepted_in_failures:
  "list_all (\<lambda>x. \<exists>code. x = Failed code) early \<Longrightarrow> accepted_in (map (Pair c) early) = {#}"
  by (induction early) auto

text \<open>As many \<open>OnRead\<close> events, with an application that decides by descriptor and address.\<close>

fun aa_serve :: "(int \<Rightarrow> address \<Rightarrow> bool) \<Rightarrow> int \<Rightarrow> nat \<Rightarrow> (unit, 'u, 'a) aacc_io" where
  "aa_serve takes d 0 = ret ()"
| "aa_serve takes d (Suc n) = bind_io (aa_on_read (Some (\<lambda>v a. ret (takes v a))) d) (\<lambda>_. aa_serve takes d n)"

definition served_by :: "(int \<Rightarrow> address \<Rightarrow> bool) \<Rightarrow> 'a net_scheme \<Rightarrow> 'a net_scheme \<Rightarrow> bool" where
  "served_by takes s s' \<longleftrightarrow> fd s' = fd s \<and> opened_in (trace s') = opened_in (trace s)
     \<and> (\<exists>N. accepted_in (trace s') = accepted_in (trace s) + N
       \<and> closed_in (trace s') = closed_in (trace s) + image_mset fst {# (v, a) \<in># N. \<not> takes v a #})"

lemma served_by_trans: "served_by takes s t \<Longrightarrow> served_by takes t u \<Longrightarrow> served_by takes s u"
  by (auto simp: served_by_def)

lemma close_socket_accepts:
  "quiet (close_socket v) s = Ret r s' \<Longrightarrow> accepted_in (trace s') = accepted_in (trace s)"
  by (auto simp: quiet_def close_socket_def checked_def sys_call_def ret_def bind_out_eq_Ret log_reply_def
      accepted_in_append elim!: bind_ioE split: list.splits reply.splits option.splits dest!: report_state)

lemma accept_from_effect:
  assumes "quiet (sock_accept_from (Some x)) s = Ret (v, a) s'"
  shows "fd s' = fd s \<and> opened_in (trace s') = opened_in (trace s) \<and> closed_in (trace s') = closed_in (trace s)
    \<and> accepted_in (trace s') = accepted_in (trace s) + (if v = INVALID_SOCKET then {#} else {#(v, the a)#})"
proof -
  obtain u where u: "sock_accept_from (Some x) (s\<lparr>err := None\<rparr>) = Ret (v, a) u" "s' = u\<lparr>err := err s\<rparr>"
    using assms by (auto simp: quiet_def bind_out_eq_Ret)
  obtain r t where t: "retry (SysAccept (fd s)) (replies s) (s\<lparr>err := None\<rparr>) = Ret r t"
    and k: "(case r of None \<Rightarrow> bind_io (report accept_set_error (on_fd ''Socket::AcceptFrom'' (fd s)))
         (\<lambda>_. ret (INVALID_SOCKET, Some addr_new)) | Some (v, _, a) \<Rightarrow> ret (v, Some a)) t = Ret (v, a) u"
    using u(1) by (auto simp: sock_accept_from_def get_fd_def sys_retry_def elim!: bind_ioE)
  obtain early q where e: "trace t = trace s @ map (Pair (SysAccept (fd s))) (early @ [q])"
    and early: "list_all (\<lambda>x. \<exists>code. x = Failed code) early"
    and q: "case r of None \<Rightarrow> \<exists>code. q = Failed code | Some (v, d, a) \<Rightarrow> q = Done v d a"
    using retry_effect [OF t] by auto
  have "neutral (quiet (sock_accept_from (Some x)) :: (int \<times> address option, 'a) io)"
    by (intro frame_rules) simp
  from neutralD [OF this assms] show ?thesis
    using k q e u(2) accepted_in_failures [OF early]
    by (cases r) (auto simp: ret_def accepted_in_append elim!: bind_ioE dest!: report_state)
qed

lemma on_read_served:
  assumes "aa_on_read (Some (\<lambda>v a. ret (takes v a))) d s = Ret u s'"
  shows "served_by takes s s'"
proof -
  obtain v a t where t: "quiet (sock_accept_from (Some addr_new)) s = Ret (v, a) t"
    and k: "(if v \<noteq> INVALID_SOCKET
         then bind_io (ret (takes v (case a of None \<Rightarrow> addr_new | Some a \<Rightarrow> a))) (\<lambda>taken.
           if taken then ret () else bind_io (quiet (close_socket v)) (\<lambda>_. ret ()))
         else ret ()) t = Ret u s'"
    using assms by (auto simp: aa_on_read_def get_fd_def fail_def elim!: bind_ioE split: if_splits)
  note e = accept_from_effect [OF t]
  have a: "v \<noteq> INVALID_SOCKET \<Longrightarrow> \<exists>b. a = Some b"
    using t by (auto simp: quiet_def sock_accept_from_def bind_out_eq_Ret ret_def elim!: bind_ioE split: option.splits)
  show ?thesis
  proof (cases "v = INVALID_SOCKET \<or> takes v (the a)")
    case True
    then have "s' = t" using k a by (auto simp: ret_def split: if_splits)
    then show ?thesis using e True by (auto simp: served_by_def)
  next
    case False
    then obtain r where c: "quiet (close_socket v) t = Ret r s'"
      using k a by (auto simp: ret_def elim!: bind_ioE split: if_splits)
    then obtain w where w: "close_socket v (t\<lparr>err := None\<rparr>) = Ret r w" "s' = w\<lparr>err := err t\<rparr>"
      by (auto simp: quiet_def bind_out_eq_Ret)
    show ?thesis
      using e False close_socket_accounts [OF w(1)] w(2) close_socket_accepts [OF c]
      by (auto simp: served_by_def)
  qed
qed

text \<open>
  C15. Connections are not lost: in any run of \<open>OnRead\<close> events the connections accepted are
  offered to the application with their addresses, and the descriptors closed are just those
  of the connections it did not take over.
\<close>

theorem accepted_connections_kept_or_closed:
  assumes "aa_serve takes (fd s) n s = Ret () s'"
  shows "\<exists>N. accepted_in (trace s') = accepted_in (trace s) + N
    \<and> closed_in (trace s') = closed_in (trace s) + image_mset fst {# (v, a) \<in># N. \<not> takes v a #}
    \<and> fd s' = fd s \<and> opened_in (trace s') = opened_in (trace s)"
proof -
  have "served_by takes s s'"
    using assms
  proof (induction n arbitrary: s)
    case (Suc n)
    then obtain t where t: "aa_on_read (Some (\<lambda>v a. ret (takes v a))) (fd s) s = Ret () t" "aa_serve takes (fd s) n t = Ret () s'"
      by (auto elim!: bind_ioE)
    have "served_by takes s t" by (rule on_read_served [OF t(1)])
    moreover have "fd t = fd s" using calculation by (simp add: served_by_def)
    then have "served_by takes t s'" using Suc.IH [of t] t(2) by simp
    ultimately show ?case by (rule served_by_trans)
  qed (simp add: ret_def served_by_def)
  then show ?thesis by (auto simp: served_by_def)
qed

definition demo_acceptor :: "reply list \<Rightarrow> unit async_acceptor" where
  "demo_acceptor rs = \<lparr>fd = 5, err = None, replies = rs, waits = [], errno = 0, trace = [],
     acc_address = addr_new, acc_reuse_addr = True, acc_reuse_port = True, acc_backlog = - 1,
     acc_reactor = \<lparr>rloop = None, rhandler = None, allocations = []\<rparr>\<rparr>"

theorem accepted_connections_kept_or_closed_witness:
  "\<exists>s'. aa_serve (\<lambda>v a. v = 7) 5 2 (demo_acceptor [Done 7 [] (addr_reset AF_INET), Failed EINTR, Done 8 [] addr_new, Ok 0])
      = Ret () s' \<and> closed_in (trace s') = {#8#}"
proof -
  let ?s = "demo_acceptor [Done 7 [] (addr_reset AF_INET), Failed EINTR, Done 8 [] addr_new, Ok 0]"
  obtain s' where s': "aa_serve (\<lambda>v a. v = 7) (fd ?s) 2 ?s = Ret () s'"
    and n: "accepted_in (trace s') = {#(7, addr_reset AF_INET), (8, addr_new)#}"
    by (simp add: demo_acceptor_def aa_on_read_def io_simps quiet_def sock_accept_from_def sys_retry_def is_interrupted_def
        log_reply_def close_socket_def checked_def sys_call_def numeral_2_eq_2)
  from accepted_connections_kept_or_closed [OF s'] n s' show ?thesis
    by (auto simp: demo_acceptor_def)
qed

text \<open>
  C16. \<open>Open\<close> of an asynchronous acceptor never leaks: whatever fails on the way, on failure
  the object holds no descriptor and every one opened since was closed. Without an accepted
  callback it always fails, however well binding and listening go.
\<close>

theorem acceptor_open_all_or_nothing:
  assumes "aa_open I env others inl cb a ra rp s = Ret ok s'"
  shows "balanced {#} {#} s s' \<and> (ok \<or> fd s' = INVALID_SOCKET) \<and> (cb \<noteq> None \<or> \<not> ok)"
proof -
  obtain opened t where t: "and_io (acc_open I a ra rp) (aa_enable_reading env inl cb) s = Ret opened t"
    and k: "(if opened then ret True else bind_io (quiet (aa_close env others inl)) (\<lambda>_. ret False)) t = Ret ok s'"
    using assms by (auto simp: aa_open_def elim!: bind_ioE)
  have "leaves (balanced {#} {#}) (and_io (acc_open I a ra rp) (aa_enable_reading env inl cb) :: (bool, 'a, 'b) aacc_io)"
    unfolding acc_open_def ensure_open_def aa_enable_reading_def by (intro frame_rules) simp_all
  from leavesD [OF this t] have b: "balanced {#} {#} s t" .
  have none: "\<not> opened" if "cb = None"
    using t that by (auto simp: and_io_def aa_enable_reading_def reject_def ret_def gets_def elim!: bind_ioE split: if_splits)
  show ?thesis
  proof (cases opened)
    case True
    then show ?thesis using k b none by (auto simp: ret_def)
  next
    case False
    then obtain q where q: "quiet (aa_close env others inl) t = Ret q s'" "\<not> ok"
      using k by (auto simp: ret_def elim!: bind_ioE)
    have "leaves (balanced {#} {#}) (quiet (aa_close env others inl) :: (bool, 'a, 'b) aacc_io)"
      unfolding aa_close_def aa_isolate_def acc_close_def by (intro frame_rules)
    from leavesD [OF this q(1)] have "balanced {#} {#} s s'" using ledger.trans [OF b] by blast
    moreover have "fd s' = INVALID_SOCKET"
      using q(1) sock_close_accounts
      by (fastforce simp: quiet_def aa_close_def acc_close_def bind_out_eq_Ret elim!: bind_ioE)
    ultimately show ?thesis using q(2) by simp
  qed
qed

theorem acceptor_open_all_or_nothing_witness:
  "\<exists>s'. aa_open demo_inet (\<lambda>_ _ L. Ret () L) (\<lambda>L. Ret () L) True None (addr_reset AF_INET) True True
       (demo_acceptor [Ok 0, Ok 0, Ok 0, Ok 0, Ok 0]) = Ret False s' \<and> fd s' = INVALID_SOCKET"
proof -
  let ?s = "demo_acceptor [Ok 0, Ok 0, Ok 0, Ok 0, Ok 0]"
  have a: "\<not> addr_empty (addr_reset AF_INET)" "\<exists>n. addr_length (addr_reset AF_INET) = Ret n ()"
    by (simp_all add: addr_empty_def addr_length_def ss_family_reset)
  then obtain s' ok where s': "aa_open demo_inet (\<lambda>_ _ L. Ret () L) (\<lambda>L. Ret () L) True None (addr_reset AF_INET) True True ?s = Ret ok s'"
    by (auto simp: demo_acceptor_def aa_open_def acc_open_def ensure_open_def sock_valid_def sock_reuse_address_def
        sock_reuse_port_def sock_reuse_def sock_bind_def sock_listen_def checked_def sys_call_def io_simps log_reply_def
        aa_enable_reading_def reject_def report_as_def set_as_def aa_close_def aa_isolate_def isolate_def quiet_def
        acc_close_def sock_close_def close_socket_def)
  from acceptor_open_all_or_nothing [OF s'] s' show ?thesis by auto
qed

end
