(* ===== verification/AsyncEcho.thy ===== *)
theory AsyncEcho
  imports AsyncTcp AsyncUdp AsyncAcceptor EchoPrograms RandomRW StreamRW
begin

text \<open>
  The asynchronous echo servers and clients of \<open>examples/echo\<close>. The TCP servers are an acceptor
  with a list of connections on the same event loop; the loop, like the system, is lent to a
  connection while it is at work. The events of the loop are given as a list; \<open>others\<close> and \<open>env\<close>
  are the arguments of the asynchronous classes, \<open>inl\<close> says whether the program runs in the loop
  thread when it opens and destroys its objects.
\<close>

subsection \<open>The callbacks of a connection\<close>

text \<open>
  \<open>OnReceived\<close>: the text is printed where there is one; then what is unread in the buffer is
  sent, and the part that was taken is flushed.
\<close>

definition peek_text :: "stream_buffer \<Rightarrow> (bool, 'a) io" where
  "peek_text b = bind_io (on_buffer (rr_new_ptr True 0 b)) (\<lambda>(r, b).
     bind_io (on_buffer (rr_string r 0 b)) (\<lambda>(r, _). ret (fst r)))"

text \<open>A connection of the servers: \<open>deleted\<close> is set when the object is.\<close>

record 'u echo_connection = "'u async_tcp" +
  deleted :: bool

type_synonym ('r, 'u, 'a) connection_io = "('r, 'u, 'a echo_connection_ext) atcp_io"

definition echo_received :: "'u bound env \<Rightarrow> (unit, 'u, 'a) atcp_io" where
  "echo_received env = bind_io (gets in_buffer) (\<lambda>b. bind_io (peek_text b) (\<lambda>_.
     bind_io (quiet (at_send_buffer env True b)) (\<lambda>(_, b).
     modify (\<lambda>s. s\<lparr>in_buffer := snd (sb_flush b)\<rparr>))))"

text \<open>\<open>OnConnected\<close> for a connection of the list: the object deletes itself.\<close>

definition echo_connected :: "'u bound env \<Rightarrow> (unit, 'u bound) action \<Rightarrow> bool \<Rightarrow> (unit, 'u, 'a) connection_io" where
  "echo_connected env others connected = (if connected then ret ()
     else bind_io (modify (\<lambda>s. s\<lparr>deleted := True\<rparr>)) (\<lambda>_. at_delete env others True))"

definition connection_event :: "'u bound env \<Rightarrow> (unit, 'u bound) action \<Rightarrow> (unit, 'u, 'a) connection_io" where
  "connection_event env others = at_on_read env (Some (echo_received env)) (Some (echo_connected env others))"

subsection \<open>The TCP servers\<close>

record 'u echo_server = "'u async_acceptor" +
  connections :: "(nat \<times> 'u echo_connection) list"

type_synonym ('r, 'u, 'a) server_io = "('r, ('u, ('u, 'a) echo_server_ext) async_acceptor_ext acceptor_ext) io"

definition run_connection :: "('r, 'u, 'c) atcp_io \<Rightarrow> ('u, 'c) async_tcp_scheme
    \<Rightarrow> ('r \<times> ('u, 'c) async_tcp_scheme, 'u, 'a) aacc_io" where
  "run_connection m x s =
     (let share = (\<lambda>p q. q\<lparr>rloop := rloop p, allocations := allocations p\<rparr>) in
      bind_out (m (tcp_reactor_update (share (acc_reactor s)) (lend s x))) (\<lambda>r y.
        Ret (r, y) (acc_reactor_update (share (tcp_reactor y)) (lend y s))))"

fun put_connection :: "nat \<Rightarrow> 'c \<Rightarrow> (nat \<times> 'c) list \<Rightarrow> (nat \<times> 'c) list" where
  "put_connection k y [] = []"
| "put_connection k y ((j, x) # cs) = (if j = k then (k, y) # cs else (j, x) # put_connection k y cs)"

fun drop_connection :: "nat \<Rightarrow> (nat \<times> 'c) list \<Rightarrow> (nat \<times> 'c) list" where
  "drop_connection k [] = []"
| "drop_connection k ((j, x) # cs) = (if j = k then cs else (j, x) # drop_connection k cs)"

definition on_connection :: "nat \<Rightarrow> ('r, 'u, unit) connection_io \<Rightarrow> ('r, 'u, 'a) server_io" where
  "on_connection k m = bind_io (gets connections) (\<lambda>cs. case map_of cs k of None \<Rightarrow> fail WildPointer
     | Some x \<Rightarrow> bind_io (run_connection m x) (\<lambda>(r, y).
         bind_io (modify (\<lambda>s. s\<lparr>connections := put_connection k y (connections s)\<rparr>)) (\<lambda>_. ret r)))"

text \<open>
  \<open>OnAccepted\<close>. \<open>k\<close> is the address of the new object, none where \<open>new (std::nothrow)\<close> fails;
  \<open>blank\<close> is what its memory holds before the constructor. The two servers differ in how
  \<open>Connected\<close> reports an error.
\<close>

definition add_connection :: "inet \<Rightarrow> 'u echo_connection \<Rightarrow> nat \<Rightarrow> int \<Rightarrow> address \<Rightarrow> (unit, 'u, 'a) server_io" where
  "add_connection I blank k v a = bind_io (gets (\<lambda>s. rloop (acc_reactor s))) (\<lambda>L.
     bind_io (run_connection (bind_io (at_new_connected L v (Some a)) (\<lambda>_. modify (\<lambda>s. s\<lparr>deleted := False\<rparr>))) blank) (\<lambda>(_, x).
     bind_io (shown I (ret a)) (\<lambda>_.
     modify (\<lambda>s. s\<lparr>connections := connections s @ [(k, x)]\<rparr>))))"

definition own_error :: "('r, 'a) io \<Rightarrow> ('r, 'a) io" where
  "own_error m s = bind_out (m (s\<lparr>err := Some err_new\<rparr>)) (\<lambda>r t. Ret r (t\<lparr>err := err s\<rparr>))"

definition accepted1 :: "inet \<Rightarrow> 'u bound env \<Rightarrow> 'u echo_connection \<Rightarrow> nat \<Rightarrow> int \<Rightarrow> address
    \<Rightarrow> (bool, 'u, 'a) server_io" where
  "accepted1 I env blank k v a = (if v = INVALID_SOCKET then fail AssertFailed
     else bind_io (add_connection I blank k v a) (\<lambda>_.
     bind_io (on_connection k (throwing Not (at_connected env True))) (\<lambda>r. case r of
       Inl x \<Rightarrow> fail AssertFailed | Inr _ \<Rightarrow> ret True)))"

definition accepted2 :: "inet \<Rightarrow> 'u bound env \<Rightarrow> 'u echo_connection \<Rightarrow> nat option \<Rightarrow> int \<Rightarrow> address
    \<Rightarrow> (bool, 'u, 'a) server_io" where
  "accepted2 I env blank new v a = (if v = INVALID_SOCKET then fail AssertFailed
     else case new of None \<Rightarrow> ret False
     | Some k \<Rightarrow> bind_io (add_connection I blank k v a) (\<lambda>_.
         bind_io (on_connection k (own_error (at_connected env True))) (\<lambda>ok.
         if ok then ret True else fail AssertFailed)))"

text \<open>The list is searched for the object before that is deleted; nothing comes between the two.\<close>

definition connection_readable :: "'u bound env \<Rightarrow> (unit, 'u bound) action \<Rightarrow> nat \<Rightarrow> (unit, 'u, 'a) server_io" where
  "connection_readable env others k = bind_io (on_connection k
       (bind_io (connection_event env others) (\<lambda>_. gets deleted))) (\<lambda>gone.
     modify (\<lambda>s. if gone then s\<lparr>connections := drop_connection k (connections s)\<rparr> else s))"

text \<open>
  What the loop calls: the acceptor with the next allocation of \<open>OnAccepted\<close>, or a connection.
\<close>

datatype 'x echo_event = Acceptable 'x | Readable nat | Writable nat

fun serve_events :: "('x \<Rightarrow> int \<Rightarrow> address \<Rightarrow> (bool, 'u, 'a) server_io) \<Rightarrow> 'u bound env
    \<Rightarrow> (unit, 'u bound) action \<Rightarrow> 'x echo_event list \<Rightarrow> (unit, 'u, 'a) server_io" where
  "serve_events accepted env others [] = ret ()"
| "serve_events accepted env others (Acceptable new # es) = bind_io get_fd (\<lambda>d.
     bind_io (aa_on_read (Some (accepted new)) d) (\<lambda>_. serve_events accepted env others es))"
| "serve_events accepted env others (Readable k # es) = bind_io (connection_readable env others k) (\<lambda>_.
     serve_events accepted env others es)"
| "serve_events accepted env others (Writable k # es) = bind_io (on_connection k (at_on_write env)) (\<lambda>_.
     serve_events accepted env others es)"

text \<open>\<open>Open()\<close> of the base class, which calls the virtual form.\<close>

definition aa_open_own :: "inet \<Rightarrow> 'u bound env \<Rightarrow> (unit, 'u bound) action \<Rightarrow> bool \<Rightarrow> ('u, 'a) accepted_callback
    \<Rightarrow> (bool, 'u, 'a) aacc_io" where
  "aa_open_own I env others inl cb =
     bind_io (modify (\<lambda>s. if addr_empty (acc_address s) then s\<lparr>acc_address := addr_reset AF_INET\<rparr> else s)) (\<lambda>_.
     bind_io (gets acc_address) (\<lambda>a. bind_io (gets acc_reuse_addr) (\<lambda>ra. bind_io (gets acc_reuse_port) (\<lambda>rp.
     aa_open I env others inl cb a ra rp))))"

definition new_loop :: "'u bound env \<Rightarrow> int \<Rightarrow> ('u bound loop, 'a) io" where
  "new_loop env wake s = bind_out (loop_new env wake True) (\<lambda>_ L. Ret L s)"

definition server_new :: "'u bound loop option \<Rightarrow> 16 word \<Rightarrow> (unit, 'u, 'a) server_io" where
  "server_new L port = bind_io (make_address (addr_new_port port AF_INET)) (\<lambda>a.
     bind_io (aa_new_address L a True True) (\<lambda>_. modify (\<lambda>s. s\<lparr>connections := []\<rparr>)))"

text \<open>The destructors; that of the first server deletes the connections, in order.\<close>

fun delete_connections :: "'u bound env \<Rightarrow> (unit, 'u bound) action \<Rightarrow> bool \<Rightarrow> 'u echo_connection list
    \<Rightarrow> (unit, 'u, 'a) server_io" where
  "delete_connections env others inl [] = ret ()"
| "delete_connections env others inl (x # xs) = bind_io (run_connection (at_delete env others inl) x) (\<lambda>_.
     delete_connections env others inl xs)"

definition server_delete1 :: "'u bound env \<Rightarrow> (unit, 'u bound) action \<Rightarrow> bool \<Rightarrow> (unit, 'u, 'a) server_io" where
  "server_delete1 env others inl = bind_io (gets connections) (\<lambda>cs.
     bind_io (delete_connections env others inl (map snd cs)) (\<lambda>_.
     bind_io (modify (\<lambda>s. s\<lparr>connections := []\<rparr>)) (\<lambda>_. aa_delete env others inl)))"

definition server_delete2 :: "'u bound env \<Rightarrow> (unit, 'u bound) action \<Rightarrow> bool \<Rightarrow> (unit, 'u, 'a) server_io" where
  "server_delete2 env others inl = aa_delete env others inl"

definition delete_loop :: "'u bound env \<Rightarrow> bool \<Rightarrow> (unit, 'u, 'a) aacc_io" where
  "delete_loop env inl = bind_io (on_loop acc_reactor acc_reactor_update (loop_delete env inl)) (\<lambda>_. ret ())"

text \<open>
  \<open>main\<close>: the server object while it serves, its whole life, and the loop around it, which is
  destroyed last.
\<close>

definition server_session1 :: "inet \<Rightarrow> 'u bound env \<Rightarrow> (unit, 'u bound) action \<Rightarrow> 'u echo_connection
    \<Rightarrow> char list list \<Rightarrow> nat echo_event list \<Rightarrow> 'u bound loop \<Rightarrow> (exception option, 'u, 'a) server_io" where
  "server_session1 I env others blank args es L =
     bind_io (server_new (Some L) (server_port 9007 args)) (\<lambda>_.
     unless_thrown (throwing Not (aa_open_own I env others True (Some (\<lambda>v a. ret True)))) (\<lambda>_.
       bind_io (shown I acc_get_address) (\<lambda>_.
       bind_io (serve_events (accepted1 I env blank) env others es) (\<lambda>_. ret None))))"

definition server_life1 :: "inet \<Rightarrow> 'u bound env \<Rightarrow> (unit, 'u bound) action \<Rightarrow> 'u echo_connection
    \<Rightarrow> char list list \<Rightarrow> nat echo_event list \<Rightarrow> 'u bound loop \<Rightarrow> (unit, 'u, 'a) server_io" where
  "server_life1 I env others blank args es L = bind_io (server_session1 I env others blank args es L) (\<lambda>_.
     server_delete1 env others True)"

definition echo_server1 :: "inet \<Rightarrow> 'u bound env \<Rightarrow> (unit, 'u bound) action \<Rightarrow> int \<Rightarrow> 'u echo_connection
    \<Rightarrow> char list list \<Rightarrow> nat echo_event list \<Rightarrow> (unit, 'u, 'a) server_io" where
  "echo_server1 I env others wake blank args es = bind_io (new_loop env wake) (\<lambda>L.
     bind_io (server_life1 I env others blank args es L) (\<lambda>_. delete_loop env True))"

definition server_life2 :: "inet \<Rightarrow> 'u bound env \<Rightarrow> (unit, 'u bound) action \<Rightarrow> 'u echo_connection
    \<Rightarrow> char list list \<Rightarrow> nat option echo_event list \<Rightarrow> 'u bound loop \<Rightarrow> (unit, 'u, 'a) server_io" where
  "server_life2 I env others blank args es L =
     bind_io (server_new (Some L) (server_port 9007 args)) (\<lambda>_.
     bind_io (aa_open_own I env others True (Some (\<lambda>v a. ret True))) (\<lambda>ok.
     bind_io (if ok then bind_io (shown I acc_get_address) (\<lambda>_. serve_events (accepted2 I env blank) env others es)
       else ret ()) (\<lambda>_.
     server_delete2 env others True)))"

definition echo_server2 :: "inet \<Rightarrow> 'u bound env \<Rightarrow> (unit, 'u bound) action \<Rightarrow> int \<Rightarrow> 'u echo_connection
    \<Rightarrow> char list list \<Rightarrow> nat option echo_event list \<Rightarrow> (unit, 'u, 'a) server_io" where
  "echo_server2 I env others wake blank args es = bind_io with_error (\<lambda>_. bind_io (new_loop env wake) (\<lambda>L.
     bind_io (server_life2 I env others blank args es L) (\<lambda>_. delete_loop env True)))"

subsection \<open>The UDP servers\<close>

definition udp_echo_received :: "inet \<Rightarrow> 'u bound env \<Rightarrow> address \<Rightarrow> (unit, 'u, 'a) audp_io" where
  "udp_echo_received I env a = bind_io (gets udp_in_buffer) (\<lambda>b. bind_io (shown I (ret a)) (\<lambda>_.
     bind_io (peek_text b) (\<lambda>_.
     bind_io (quiet (au_send_buffer_to env True (Some b) (Some a))) (\<lambda>(_, b).
     modify (\<lambda>s. s\<lparr>udp_in_buffer := snd (sb_flush b)\<rparr>)))))"

definition au_open_own :: "inet \<Rightarrow> 'u bound env \<Rightarrow> (unit, 'u bound) action \<Rightarrow> bool \<Rightarrow> (bool, 'u, 'a) audp_io" where
  "au_open_own I env others inl =
     bind_io (modify (\<lambda>s. if addr_empty (udp_address s) then s\<lparr>udp_address := addr_reset AF_INET\<rparr> else s)) (\<lambda>_.
     bind_io (gets udp_address) (\<lambda>a. bind_io (gets udp_reuse_addr) (\<lambda>ra. bind_io (gets udp_reuse_port) (\<lambda>rp.
     au_open I env others inl a ra rp))))"

text \<open>What the loop calls, for reading or for writing.\<close>

fun serve_datagrams :: "inet \<Rightarrow> 'u bound env \<Rightarrow> bool list \<Rightarrow> (unit, 'u, 'a) audp_io" where
  "serve_datagrams I env [] = ret ()"
| "serve_datagrams I env (reading # es) = bind_io get_fd (\<lambda>d.
     bind_io (if reading then au_on_read (Some (udp_echo_received I env)) d else au_on_write env d) (\<lambda>_.
     serve_datagrams I env es))"

definition udp_echo_new :: "'u bound loop option \<Rightarrow> char list list \<Rightarrow> (unit, 'u, 'a) audp_io" where
  "udp_echo_new L args = bind_io (make_address (addr_new_port (server_port 9007 args) AF_INET)) (au_new_address L)"

definition udp_echo_end :: "'u bound env \<Rightarrow> (unit, 'u bound) action \<Rightarrow> (unit, 'u, 'a) audp_io" where
  "udp_echo_end env others = bind_io (au_delete env others True) (\<lambda>_.
     bind_io (on_loop udp_reactor udp_reactor_update (loop_delete env True)) (\<lambda>_. ret ()))"

definition echo_server3 :: "inet \<Rightarrow> 'u bound env \<Rightarrow> (unit, 'u bound) action \<Rightarrow> int \<Rightarrow> char list list \<Rightarrow> bool list
    \<Rightarrow> (unit, 'u, 'a) audp_io" where
  "echo_server3 I env others wake args es = bind_io (new_loop env wake) (\<lambda>L.
     bind_io (udp_echo_new (Some L) args) (\<lambda>_.
     bind_io (unless_thrown (throwing Not (au_open_own I env others True)) (\<lambda>_.
       bind_io (shown I udp_get_address) (\<lambda>_.
       bind_io (serve_datagrams I env es) (\<lambda>_. ret None)))) (\<lambda>_.
     udp_echo_end env others)))"

definition echo_server4 :: "inet \<Rightarrow> 'u bound env \<Rightarrow> (unit, 'u bound) action \<Rightarrow> int \<Rightarrow> char list list \<Rightarrow> bool list
    \<Rightarrow> (unit, 'u, 'a) audp_io" where
  "echo_server4 I env others wake args es = bind_io with_error (\<lambda>_. bind_io (new_loop env wake) (\<lambda>L.
     bind_io (udp_echo_new (Some L) args) (\<lambda>_.
     bind_io (au_open_own I env others True) (\<lambda>ok.
     bind_io (if ok then bind_io (shown I udp_get_address) (\<lambda>_. serve_datagrams I env es) else ret ()) (\<lambda>_.
     udp_echo_end env others)))))"

subsection \<open>The clients\<close>

text \<open>
  A client runs in another thread than its loop. \<open>OnReceived\<close> reads the whole text, prints it and
  flushes. The words of the input are a list; where it has ended, \<open>line\<close> keeps its value.
\<close>

definition take_text :: "stream_buffer \<Rightarrow> (stream_buffer, 'a) io" where
  "take_text b = bind_io (\<lambda>s. bind_out (sr_new_ptr True False) (\<lambda>_ r. Ret r s)) (\<lambda>r.
     bind_io (on_buffer (sr_string r b)) (\<lambda>(_, b). ret (snd (sb_flush b))))"

definition client_received :: "(unit, 'u, 'a) atcp_io" where
  "client_received = bind_io (gets in_buffer) (\<lambda>b. bind_io (take_text b) (\<lambda>b. modify (\<lambda>s. s\<lparr>in_buffer := b\<rparr>)))"

definition udp_client_received :: "address \<Rightarrow> (unit, 'u, 'a) audp_io" where
  "udp_client_received a = bind_io (gets udp_in_buffer) (\<lambda>b. bind_io (take_text b) (\<lambda>b.
     modify (\<lambda>s. s\<lparr>udp_in_buffer := b\<rparr>)))"

definition send_message :: "'u bound env \<Rightarrow> char list \<Rightarrow> (unit, 'u, 'a) atcp_io" where
  "send_message env m = bind_io (own_error (at_send env False m)) (\<lambda>_. ret ())"

definition udp_send_message :: "'u bound env \<Rightarrow> char list \<Rightarrow> (unit, 'u, 'a) audp_io" where
  "udp_send_message env m = bind_io (own_error (au_send env False m)) (\<lambda>_. ret ())"

definition quits :: "char list \<Rightarrow> bool" where
  "quits line \<longleftrightarrow> line = ''q'' \<or> line = ''Q''"

fun user_input :: "(char list \<Rightarrow> (unit, 'a) io) \<Rightarrow> nat \<Rightarrow> char list \<Rightarrow> char list list \<Rightarrow> (unit, 'a) io" where
  "user_input send 0 line ws = fail Diverges"
| "user_input send (Suc n) line ws = (let line = (case ws of [] \<Rightarrow> line | w # _ \<Rightarrow> w) in
     if quits line then ret () else bind_io (send line) (\<lambda>_. user_input send n line (tl ws)))"

definition echo_client1 :: "inet \<Rightarrow> 'u bound env \<Rightarrow> (unit, 'u bound) action \<Rightarrow> 'u bound loop \<Rightarrow> nat
    \<Rightarrow> char list list \<Rightarrow> char list list \<Rightarrow> (unit, 'u, 'a) atcp_io" where
  "echo_client1 I env others L n args ws = bind_io (at_new (Some L)) (\<lambda>_.
     bind_io (bind_io (target_address I 9007 args) (\<lambda>a.
       unless_thrown (throwing Not (at_connect I env others False a)) (\<lambda>_.
       bind_io (user_input (send_message env) n [] ws) (\<lambda>_. ret None)))) (\<lambda>_.
     at_delete env others False))"

definition echo_client2 :: "inet \<Rightarrow> 'u bound env \<Rightarrow> (unit, 'u bound) action \<Rightarrow> 'u bound loop \<Rightarrow> nat
    \<Rightarrow> char list list \<Rightarrow> char list list \<Rightarrow> (unit, 'u, 'a) atcp_io" where
  "echo_client2 I env others L n args ws = bind_io with_error (\<lambda>_. bind_io (at_new (Some L)) (\<lambda>_.
     bind_io (bind_io (target_address I 9007 args) (at_connect I env others False)) (\<lambda>ok.
     bind_io (if ok then user_input (send_message env) n [] ws else ret ()) (\<lambda>_.
     at_delete env others False))))"

text \<open>The constructor of the UDP client connects; it is the inherited form, which may throw.\<close>

definition udp_echo_connect :: "inet \<Rightarrow> 'u bound loop \<Rightarrow> char list list \<Rightarrow> (exception + bool, 'u, 'a) audp_io" where
  "udp_echo_connect I L args = bind_io (au_new (Some L)) (\<lambda>_.
     bind_io (target_address I 9007 args) (udp_connect_throw I))"

definition echo_client3 :: "inet \<Rightarrow> 'u bound env \<Rightarrow> (unit, 'u bound) action \<Rightarrow> 'u bound loop \<Rightarrow> nat
    \<Rightarrow> char list list \<Rightarrow> char list list \<Rightarrow> (unit, 'u, 'a) audp_io" where
  "echo_client3 I env others L n args ws = bind_io (unless_thrown (udp_echo_connect I L args) (\<lambda>_.
     bind_io (user_input (udp_send_message env) n [] ws) (\<lambda>_. ret None))) (\<lambda>_. au_delete env others False)"

text \<open>Nothing catches the exception in the last one: the program is terminated.\<close>

definition echo_client4 :: "inet \<Rightarrow> 'u bound env \<Rightarrow> (unit, 'u bound) action \<Rightarrow> 'u bound loop \<Rightarrow> nat
    \<Rightarrow> char list list \<Rightarrow> char list list \<Rightarrow> (unit, 'u, 'a) audp_io" where
  "echo_client4 I env others L n args ws = bind_io (udp_echo_connect I L args) (\<lambda>r. case r of
     Inl x \<Rightarrow> fail AssertFailed
   | Inr _ \<Rightarrow> bind_io (user_input (udp_send_message env) n [] ws) (\<lambda>_. au_delete env others False))"

subsection \<open>The input of a client\<close>

lemma user_input_sends:
  assumes "\<not> list_ex quits xs" and "quits q" and "length xs < n"
  shows "user_input send n line (xs @ q # ys) = foldr (\<lambda>w k. bind_io (send w) (\<lambda>_. k)) xs (ret ())"
  using assms
proof (induction xs arbitrary: n line)
  case Nil
  then show ?case by (cases n) auto
next
  case (Cons x xs)
  then show ?case by (cases n) auto
qed

lemma user_input_repeats:
  assumes "\<not> list_ex quits ws" and "\<not> quits line"
  shows "user_input send n line ws s \<noteq> Ret r s'"
  using assms
proof (induction n arbitrary: line ws s)
  case (Suc n)
  define l where "l = (case ws of [] \<Rightarrow> line | w # _ \<Rightarrow> w)"
  have l: "\<not> quits l" "\<not> list_ex quits (tl ws)"
    using Suc.prems by (cases ws; simp add: l_def)+
  then show ?case using Suc.IH [OF l(2,1)] by (auto simp: l_def [symmetric] elim!: bind_ioE)
qed (simp add: fail_def)

text \<open>
  The input of the clients: every word before the first \<open>q\<close> or \<open>Q\<close> is sent, in order, and
  nothing after it. Where the input ends without one, the loop does not: the last word is sent
  again and again, and no number of turns lets the program return.
\<close>

theorem client_input:
  assumes "\<not> list_ex quits xs" and "quits q" and "length xs < n"
  shows "user_input send n [] (xs @ q # ys) = foldr (\<lambda>w k. bind_io (send w) (\<lambda>_. k)) xs (ret ())
    \<and> (\<forall>k s r s'. user_input send k [] xs s \<noteq> Ret r s')"
  by (intro conjI allI user_input_sends [OF assms] user_input_repeats [OF assms(1)]) (simp add: quits_def)

theorem client_input_witness:
  "\<forall>(send :: char list \<Rightarrow> (unit, unit) io) s r s'.
     user_input send 3 [] [''hello'', ''you'', ''q'', ''more''] = bind_io (send ''hello'') (\<lambda>_. bind_io (send ''you'') (\<lambda>_. ret ()))
     \<and> user_input send 3 [] [''hello'', ''you''] s \<noteq> Ret r s'"
proof (intro allI)
  fix send :: "char list \<Rightarrow> (unit, unit) io" and s r s'
  have q: "\<not> list_ex quits [''hello'', ''you'']" "quits ''q''" "length [''hello'', ''you''] < 3" by (simp_all add: quits_def)
  from client_input [OF q, of send "[''more'']"]
  show "user_input send 3 [] [''hello'', ''you'', ''q'', ''more''] = bind_io (send ''hello'') (\<lambda>_. bind_io (send ''you'') (\<lambda>_. ret ()))
     \<and> user_input send 3 [] [''hello'', ''you''] s \<noteq> Ret r s'"
    by simp
qed

end
