(* ===== verification/ServerBooks.thy ===== *)
theory ServerBooks
  imports AsyncEcho
begin

text \<open>
  The books of a server on an asynchronous acceptor: the descriptors it holds itself and those of
  its connections, against those opened, accepted and closed. What the operations of a connection
  leave alone is stated in the locales \<open>output_frame\<close> and \<open>stream_frame\<close>; the locale
  \<open>server_books\<close> is the part of the accounts that the echo and the HTTP servers have in common.
\<close>

subsection \<open>What a connection leaves alone\<close>

text \<open>
  A relation that the output buffer of a connection has nothing to do with goes through sending,
  and one that neither buffer has to do with through every operation of a connection, the
  callbacks of the echo server included.
\<close>

locale output_frame = reactor_frame R permitted tcp_reactor tcp_reactor_update
  for R :: "('u, 'a) async_tcp_scheme \<Rightarrow> ('u, 'a) async_tcp_scheme \<Rightarrow> bool" and permitted +
  assumes output_free: "R s (s\<lparr>out_buffer := b\<rparr>)"
begin

lemma leaves_output [frame_rules]:
  "leaves R (modify (\<lambda>s. s\<lparr>out_buffer := b\<rparr>))" "leaves R (modify (\<lambda>s. if c then s\<lparr>out_buffer := b\<rparr> else s))"
  by (auto intro!: leavesI simp: modify_def output_free same)

lemma leaves_sending [frame_rules]:
  assumes "\<And>d data. permitted (SysSend d data 0)"
  shows "leaves R (at_send env inl data)" "leaves R (at_send_buffer env inl b)" "leaves R (at_on_write env)"
proof -
  have W: "leaves R (at_enable_writing env inl)"
    unfolding at_enable_writing_def at_init_handler_def by (intro frame_rules)
  show "leaves R (at_on_write env)" unfolding at_on_write_def by (intro frame_rules assms)
  show S: "leaves R (at_send env inl data)" for data
    unfolding at_send_def out_write_def tcp_send_timed_def tcp_send_def
    by (intro frame_rules W assms conjI mode_permitted)
  show "leaves R (at_send_buffer env inl b)"
    unfolding at_send_buffer_def send_buffer_def by (intro frame_rules S)
qed

end

locale stream_frame = output_frame R permitted
  for R :: "('u, 'a) async_tcp_scheme \<Rightarrow> ('u, 'a) async_tcp_scheme \<Rightarrow> bool" and permitted +
  assumes input_free: "R s (s\<lparr>in_buffer := i\<rparr>)"

context stream_frame begin

lemma leaves_input [frame_rules]: "leaves R (modify (\<lambda>s. s\<lparr>in_buffer := i\<rparr>))"
  by (auto intro!: leavesI simp: modify_def input_free)

lemma leaves_connected [frame_rules]:
  assumes "\<And>d l n. permitted (SysGetOption d l n)" and "\<And>d. permitted (SysGetPeerName d)"
  shows "leaves R (at_connected env inl)"
  unfolding at_connected_def tcp_connected_def at_enable_reading_def at_init_handler_def
  by (intro frame_rules assms)

lemma leaves_reading:
  assumes "\<And>d n. permitted (SysRecv d n 0)" and "leaves R f" and "leaves R (g False)"
  shows "leaves R (at_on_read env (Some f) (Some g))"
  unfolding at_on_read_def option.case by (intro frame_rules assms)

end

text \<open>The ledger of descriptors, and the calls of \<open>accept\<close>, for a connection and for the server.\<close>

definition same_accepted :: "'a net_scheme \<Rightarrow> 'a net_scheme \<Rightarrow> bool" where
  "same_accepted s s' \<longleftrightarrow> accepted_in (trace s') = accepted_in (trace s)"

fun no_accept :: "syscall \<Rightarrow> bool" where
  "no_accept (SysAccept d) = False"
| "no_accept c = True"

lemma no_accept_accounts: "no_accept c \<Longrightarrow> accepted_in [(c, r)] = {#}"
  by (cases c) auto

interpretation accepts: frame same_accepted no_accept
  by unfold_locales (simp_all add: same_accepted_def log_reply_def accepted_in_append no_accept_accounts)

interpretation conn_ledger: stream_frame "balanced {#} {#} :: ('u, 'a) async_tcp_scheme \<Rightarrow> _" plain_call
  by unfold_locales (simp_all add: balanced_def owns_def)

interpretation conn_accepts: stream_frame "same_accepted :: ('u, 'a) async_tcp_scheme \<Rightarrow> _" no_accept
  by unfold_locales (simp_all add: same_accepted_def log_reply_def accepted_in_append no_accept_accounts)

context frame begin

lemma leaves_own_error [frame_rules]: "leaves R m \<Longrightarrow> leaves R (own_error m)"
  by (rule leavesI) (auto simp: own_error_def bind_out_eq_Ret intro: with_err)

end

lemma sock_delete_fd: "sock_delete s = Ret u s' \<Longrightarrow> fd s' = INVALID_SOCKET"
  by (auto simp: sock_delete_def get_fd_def ret_def elim!: bind_ioE split: if_splits dest!: quiet_close_accounts)

lemma accepts_put_fd [frame_rules]: "leaves same_accepted (put_fd d)"
  by (auto intro!: leavesI simp: put_fd_def same_accepted_def)

lemma accepts_sock_delete [frame_rules]: "leaves same_accepted sock_delete"
  unfolding sock_delete_def sock_close_def close_socket_def by (intro frame_rules; simp)

lemma leaves_delete [frame_rules]:
  "leaves (balanced {#} {#}) (at_delete env others inl)" "leaves same_accepted (at_delete env others inl)"
  unfolding at_delete_def at_isolate_def by (intro frame_rules)+

lemma at_delete_fd: "at_delete env others inl s = Ret u s' \<Longrightarrow> fd s' = INVALID_SOCKET"
  by (auto simp: at_delete_def elim!: bind_ioE dest: sock_delete_fd)

subsection \<open>The accounts\<close>

text \<open>
  From one state to a later one: what was held, opened and accepted, with \<open>A\<close> that came in
  otherwise, is what is held and what was closed. \<open>H\<close> is what the connections hold.
\<close>

type_synonym ('u, 'a) holder = "('u, 'a) async_acceptor_scheme \<Rightarrow> int multiset"

definition settles :: "('u, 'a) holder \<Rightarrow> int multiset \<Rightarrow> ('u, 'a) async_acceptor_scheme \<Rightarrow> ('u, 'a) async_acceptor_scheme \<Rightarrow> bool" where
  "settles H A s s' \<longleftrightarrow> (\<exists>O' C' N. opened_in (trace s') = opened_in (trace s) + O' \<and> closed_in (trace s') = closed_in (trace s) + C'
     \<and> accepted_in (trace s') = accepted_in (trace s) + N \<and> owns s + H s + O' + image_mset fst N + A = owns s' + H s' + C')"

definition held :: "('k \<times> 'a net_scheme) list \<Rightarrow> int multiset" where
  "held cs = sum_list (map (\<lambda>c. owns (snd c)) cs)"

lemma settles_refl: "settles H {#} s s"
  by (simp add: settles_def)

lemma settles_trans:
  assumes "settles H A s t" and "settles H B t u"
  shows "settles H (A + B) s u"
proof -
  obtain O1 C1 N1 where 1: "opened_in (trace t) = opened_in (trace s) + O1" "closed_in (trace t) = closed_in (trace s) + C1"
     "accepted_in (trace t) = accepted_in (trace s) + N1" "owns s + H s + O1 + image_mset fst N1 + A = owns t + H t + C1"
    using assms(1) by (auto simp: settles_def)
  obtain O2 C2 N2 where 2: "opened_in (trace u) = opened_in (trace t) + O2" "closed_in (trace u) = closed_in (trace t) + C2"
     "accepted_in (trace u) = accepted_in (trace t) + N2" "owns t + H t + O2 + image_mset fst N2 + B = owns u + H u + C2"
    using assms(2) by (auto simp: settles_def)
  have "owns s + H s + (O1 + O2) + image_mset fst (N1 + N2) + (A + B)
      = (owns s + H s + O1 + image_mset fst N1 + A) + (O2 + image_mset fst N2 + B)" by (simp add: ac_simps)
  also have "\<dots> = (owns t + H t + O2 + image_mset fst N2 + B) + C1" unfolding 1(4) by (simp add: ac_simps)
  also have "\<dots> = owns u + H u + (C1 + C2)" unfolding 2(4) by (simp add: ac_simps)
  finally have "owns s + H s + (O1 + O2) + image_mset fst (N1 + N2) + (A + B) = owns u + H u + (C1 + C2)" .
  then show ?thesis unfolding settles_def using 1(1-3) 2(1-3)
    by (intro exI [of _ "O1 + O2"] exI [of _ "C1 + C2"] exI [of _ "N1 + N2"]) (simp add: ac_simps)
qed

lemmas settles_step = settles_trans [where A = "{#}" and B = "{#}", simplified]

text \<open>What has nothing to do with the connections, nor with what is known of them.\<close>

definition same_books :: "('u, 'a) holder \<Rightarrow> (('u, 'a) async_acceptor_scheme \<Rightarrow> bool)
    \<Rightarrow> ('u, 'a) async_acceptor_scheme \<Rightarrow> ('u, 'a) async_acceptor_scheme \<Rightarrow> bool" where
  "same_books H P s s' \<longleftrightarrow> H s' = H s \<and> (P s \<longrightarrow> P s')"

text \<open>A callback for accepted connections that takes the descriptor over, or leaves it.\<close>

definition takes_over :: "('u, 'a) holder \<Rightarrow> (('u, 'a) async_acceptor_scheme \<Rightarrow> bool)
    \<Rightarrow> (int \<Rightarrow> address \<Rightarrow> (bool, 'u, 'a) aacc_io) \<Rightarrow> bool" where
  "takes_over H P accepted \<longleftrightarrow> (\<forall>v a s r s'. accepted v a s = Ret r s' \<and> P s \<longrightarrow>
     settles H (if r then as_set v else {#}) s s' \<and> P s')"

interpretation server_ledger: reactor_frame "balanced {#} {#} :: ('u, 'a) async_acceptor_scheme \<Rightarrow> _"
    plain_call acc_reactor acc_reactor_update
  by unfold_locales (simp_all add: balanced_def owns_def)

interpretation server_accepts: reactor_frame "same_accepted :: ('u, 'a) async_acceptor_scheme \<Rightarrow> _"
    no_accept acc_reactor acc_reactor_update
  by unfold_locales (simp_all add: same_accepted_def)

text \<open>The ledger of an operation of one connection, and what it leaves of the server.\<close>

lemma run_connection_effect:
  assumes "run_connection m x s = Ret (r, y) s'"
  shows "\<exists>t. m t = Ret r y \<and> fd t = fd x \<and> async_tcp.more t = async_tcp.more x \<and> trace t = trace s \<and> trace s' = trace y
    \<and> fd s' = fd s \<and> async_acceptor.more s' = async_acceptor.more s"
  using assms
  by (intro exI [of _ "tcp_reactor_update (\<lambda>q. q\<lparr>rloop := rloop (acc_reactor s), allocations := allocations (acc_reactor s)\<rparr>) (lend s x)"])
    (auto simp: run_connection_def Let_def bind_out_eq_Ret lend_def)

lemma run_connection_ledger:
  assumes "run_connection m x s = Ret (r, y) s'" and "leaves (balanced {#} {#}) m" and "leaves same_accepted m"
  shows "\<exists>O' C'. opened_in (trace s') = opened_in (trace s) + O' \<and> closed_in (trace s') = closed_in (trace s) + C'
    \<and> accepted_in (trace s') = accepted_in (trace s) \<and> owns x + O' = owns y + C'"
proof -
  obtain t where t: "m t = Ret r y" "fd t = fd x" "trace t = trace s" "trace s' = trace y"
    using run_connection_effect [OF assms(1)] by blast
  moreover have "owns t = owns x" using t(2) by (simp add: owns_def)
  ultimately show ?thesis
    using leavesD [OF assms(2) t(1)] leavesD [OF assms(3) t(1)] by (auto simp: balanced_def same_accepted_def)
qed

lemma ledger_settles:
  assumes "run_connection m x s = Ret (r, y) t" and "leaves (balanced {#} {#}) m" and "leaves same_accepted m"
    and "trace s' = trace t" and "fd s' = fd s" and "H s' + owns x = H s + owns y"
  shows "settles H {#} s s'"
proof -
  obtain O' C' where b: "opened_in (trace t) = opened_in (trace s) + O'" "closed_in (trace t) = closed_in (trace s) + C'"
    "accepted_in (trace t) = accepted_in (trace s)" "owns x + O' = owns y + C'"
    using run_connection_ledger [OF assms(1-3)] by blast
  have "owns s + H s + O' + owns x = owns s + H s + (owns x + O')" by (simp add: ac_simps)
  also have "\<dots> = owns s + (H s + owns y) + C'" unfolding b(4) by (simp add: ac_simps)
  also have "\<dots> = owns s' + H s' + C' + owns x" using assms(5) unfolding assms(6) [symmetric] by (simp add: owns_def ac_simps)
  finally show ?thesis unfolding settles_def using b(1-3) assms(4)
    by (intro exI [of _ O'] exI [of _ C'] exI [of _ "{#}"]) simp
qed

text \<open>Connections that are deleted, with what they held.\<close>

definition disposes :: "int multiset \<Rightarrow> ('u, 'a) async_acceptor_scheme \<Rightarrow> ('u, 'a) async_acceptor_scheme \<Rightarrow> bool" where
  "disposes M s s' \<longleftrightarrow> fd s' = fd s \<and> async_acceptor.more s' = async_acceptor.more s \<and> accepted_in (trace s') = accepted_in (trace s)
     \<and> (\<exists>O' C'. opened_in (trace s') = opened_in (trace s) + O' \<and> closed_in (trace s') = closed_in (trace s) + C' \<and> M + O' = C')"

lemma disposes_none [simp]: "disposes {#} s s"
  by (simp add: disposes_def)

lemma disposes_more:
  assumes "run_connection (at_delete env others inl) x s = Ret (q, y) t" and "disposes M t s'"
  shows "disposes (owns x + M) s s'"
proof -
  obtain w where "at_delete env others inl w = Ret q y" and w: "fd t = fd s" "async_acceptor.more t = async_acceptor.more s"
    using run_connection_effect [OF assms(1)] by blast
  then have "owns y = {#}" using at_delete_fd by (auto simp: owns_def)
  then obtain O' C' where b: "opened_in (trace t) = opened_in (trace s) + O'" "closed_in (trace t) = closed_in (trace s) + C'"
    "accepted_in (trace t) = accepted_in (trace s)" "owns x + O' = C'"
    using run_connection_ledger [OF assms(1) leaves_delete] by auto
  obtain O2 C2 where n: "fd s' = fd t" "async_acceptor.more s' = async_acceptor.more t" "accepted_in (trace s') = accepted_in (trace t)"
    "opened_in (trace s') = opened_in (trace t) + O2" "closed_in (trace s') = closed_in (trace t) + C2" "M + O2 = C2"
    using assms(2) by (auto simp: disposes_def)
  have "owns x + M + (O' + O2) = C' + C2" unfolding b(4) [symmetric] n(6) [symmetric] by (simp add: ac_simps)
  then show ?thesis unfolding disposes_def using n(1-5) b(1-3) w
    by (intro conjI exI [of _ "O' + O2"] exI [of _ "C' + C2"]) (simp_all add: add.assoc)
qed

lemma disposes_settles:
  assumes "disposes M s t" and "trace s' = trace t" and "fd s' = fd t" and "H s = H s' + M"
  shows "settles H {#} s s'"
proof -
  obtain O' C' where b: "opened_in (trace t) = opened_in (trace s) + O'" "closed_in (trace t) = closed_in (trace s) + C'" "M + O' = C'"
    and c: "accepted_in (trace t) = accepted_in (trace s)" "fd t = fd s"
    using assms(1) by (auto simp: disposes_def)
  have "owns s + H s + O' = owns s' + H s' + C'" using b(3) c(2) assms(3,4) by (auto simp: owns_def ac_simps)
  then show ?thesis unfolding settles_def using b(1,2) c(1) assms(2) by (intro exI [of _ O'] exI [of _ C'] exI [of _ "{#}"]) simp
qed

subsection \<open>The acceptor\<close>

lemma own_members [frame_rules]:
  "leaves (balanced {#} {#}) (modify (\<lambda>s. if c s then s\<lparr>acc_address := a\<rparr> else s))"
  "leaves same_accepted (modify (\<lambda>s. if c s then s\<lparr>acc_address := a\<rparr> else s))"
  by (auto intro!: leavesI simp: modify_def balanced_def owns_def same_accepted_def)

lemma create_frames [frame_rules]:
  "leaves same_accepted (sock_create d t p)" "leaves same_accepted sock_close"
  unfolding sock_create_def init_socket_def sock_close_def close_socket_def
  by (intro frame_rules; simp)+

lemmas open_defs = aa_open_own_def aa_open_def acc_open_def ensure_open_def aa_enable_reading_def aa_close_def aa_isolate_def acc_close_def

lemma open_frames [frame_rules]:
  "leaves (balanced {#} {#}) (aa_open_own I env others inl cb :: (bool, 'u, 'a) aacc_io)"
  "leaves same_accepted (aa_open_own I env others inl cb :: (bool, 'u, 'a) aacc_io)"
  unfolding open_defs by (intro frame_rules; simp)+

lemma delete_frames [frame_rules]:
  "leaves (balanced {#} {#}) (aa_delete env others inl :: (unit, 'u, 'a) aacc_io)"
  "leaves same_accepted (aa_delete env others inl :: (unit, 'u, 'a) aacc_io)"
  unfolding aa_delete_def aa_isolate_def by (intro frame_rules; simp)+

lemma shown_frames [frame_rules]:
  "leaves (balanced {#} {#}) (shown I acc_get_address :: (unit, 'u, 'a) aacc_io)"
  "leaves same_accepted (shown I acc_get_address :: (unit, 'u, 'a) aacc_io)"
  unfolding shown_def acc_get_address_def by (intro frame_rules; simp)+

lemma aa_delete_fd: "aa_delete env others inl s = Ret u s' \<Longrightarrow> fd s' = INVALID_SOCKET"
  by (auto simp: aa_delete_def elim!: bind_ioE dest: sock_delete_fd)

locale server_books = reactor_frame "same_books H P" "\<lambda>_. True" acc_reactor acc_reactor_update
  for H :: "('u, 'a) holder" and P +
  assumes members_free: "same_books H P s (s\<lparr>fd := d\<rparr>)" "same_books H P s (s\<lparr>acc_address := a\<rparr>)"
begin

lemma leaves_members [frame_rules]:
  "leaves (same_books H P) (put_fd d)" "leaves (same_books H P) (modify (\<lambda>s. s\<lparr>fd := d\<rparr>))"
  "leaves (same_books H P) (modify (\<lambda>s. if c s then s\<lparr>acc_address := a\<rparr> else s))"
  using members_free by (auto intro!: leavesI simp: put_fd_def modify_def same_books_def)

lemma leaves_sockets [frame_rules]:
  "leaves (same_books H P) (sock_create d t p)" "leaves (same_books H P) sock_close" "leaves (same_books H P) sock_delete"
  "leaves (same_books H P) (close_socket v)"
  unfolding sock_create_def init_socket_def sock_delete_def sock_close_def close_socket_def
  by (intro frame_rules TrueI)+

lemma leaves_server [frame_rules]:
  "leaves (same_books H P) (aa_open_own I env others inl cb)" "leaves (same_books H P) (aa_delete env others inl)"
  "leaves (same_books H P) (shown I acc_get_address)"
  unfolding open_defs aa_delete_def shown_def acc_get_address_def by (intro frame_rules conjI TrueI)+

lemma settled_step:
  assumes "m s = Ret r s'" and "leaves (balanced {#} {#}) m" and "leaves same_accepted m" and "leaves (same_books H P) m" and "P s"
  shows "settles H {#} s s' \<and> P s' \<and> H s' = H s"
  using leavesD [OF assms(2,1)] leavesD [OF assms(3,1)] leavesD [OF assms(4,1)] assms(5)
  by (fastforce simp: settles_def balanced_def same_accepted_def same_books_def ac_simps)

text \<open>The operations of the acceptor itself.\<close>

lemma opened_settled:
  "aa_open_own I env others inl cb s = Ret ok t \<Longrightarrow> P s \<Longrightarrow> settles H {#} s t \<and> P t \<and> H t = H s"
  "throwing Not (aa_open_own I env others inl cb) s = Ret r t \<Longrightarrow> P s \<Longrightarrow> settles H {#} s t \<and> P t \<and> H t = H s"
  by (rule settled_step, assumption, (intro frame_rules)+, assumption)+

lemma shown_settled: "shown I acc_get_address s = Ret u t \<Longrightarrow> P s \<Longrightarrow> settles H {#} s t \<and> P t \<and> H t = H s"
  by (rule settled_step, assumption, (intro frame_rules)+, assumption)

lemma deleted_settled:
  "aa_delete env others inl s = Ret u t \<Longrightarrow> P s \<Longrightarrow> settles H {#} s t \<and> P t \<and> H t = H s \<and> fd t = INVALID_SOCKET"
  using settled_step [where m = "aa_delete env others inl", OF _ delete_frames leaves_server(2)] aa_delete_fd by blast

lemma close_settles:
  assumes "quiet (close_socket v) s = Ret r s'" and "P s"
  shows "settles H A s s' \<longleftrightarrow> A = {#v#}" and "P s'"
proof -
  have "leaves (same_books H P) (quiet (close_socket v))" by (intro frame_rules)
  note b = leavesD [OF this assms(1)]
  obtain t where t: "close_socket v (s\<lparr>err := None\<rparr>) = Ret r t" "s' = t\<lparr>err := err s\<rparr>"
    using assms(1) by (auto simp: quiet_def bind_out_eq_Ret)
  then have "owns s' = owns s" "opened_in (trace s') = opened_in (trace s)" "closed_in (trace s') = closed_in (trace s) + {#v#}"
    "accepted_in (trace s') = accepted_in (trace s)"
    using close_socket_accounts [OF t(1)] close_socket_accepts [OF assms(1)] by (simp_all add: owns_def)
  then show "settles H A s s' \<longleftrightarrow> A = {#v#}" "P s'" using b assms(2) by (auto simp: settles_def same_books_def)
qed

text \<open>Accepting: the callback takes the descriptor over, or it is closed.\<close>

lemma accepting_settled:
  assumes "aa_on_read (Some f) d s = Ret u s'" and "takes_over H P f" and "P s"
  shows "settles H {#} s s' \<and> P s'"
proof -
  obtain v a t where t: "quiet (sock_accept_from (Some addr_new)) s = Ret (v, a) t"
    and k: "(if v \<noteq> INVALID_SOCKET
         then bind_io (f v (case a of None \<Rightarrow> addr_new | Some a \<Rightarrow> a)) (\<lambda>taken.
           if taken then ret () else bind_io (quiet (close_socket v)) (\<lambda>_. ret ())) else ret ()) t = Ret u s'"
    using assms(1) by (auto simp: aa_on_read_def get_fd_def fail_def elim!: bind_ioE split: if_splits)
  have "leaves (same_books H P) (quiet (sock_accept_from (Some addr_new)))" by (intro frame_rules TrueI)
  from leavesD [OF this t] have c: "H t = H s" "P t" using assms(3) by (auto simp: same_books_def)
  note e = accept_from_effect [OF t]
  show ?thesis
  proof (cases "v = INVALID_SOCKET")
    case True
    then show ?thesis using k e c by (auto simp: ret_def settles_def owns_def)
  next
    case False
    obtain taken w where w: "f v (case a of None \<Rightarrow> addr_new | Some a \<Rightarrow> a) t = Ret taken w"
      and z: "(if taken then ret () else bind_io (quiet (close_socket v)) (\<lambda>_. ret ())) w = Ret u s'"
      using k False by (auto elim!: bind_ioE)
    have f: "settles H (if taken then as_set v else {#}) t w" "P w"
      using assms(2) w c(2) unfolding takes_over_def by metis+
    have g: "settles H (if taken then {#} else {#v#}) w s' \<and> P s'"
      using z f(2) close_settles [of v w _ s'] by (auto simp: ret_def settles_refl elim!: bind_ioE split: if_splits)
    have "settles H {#v#} t s'" using settles_trans [OF f(1) conjunct1 [OF g]] False by (auto simp: as_set_def split: if_splits)
    then obtain O' C' N where p: "opened_in (trace s') = opened_in (trace t) + O'" "closed_in (trace s') = closed_in (trace t) + C'"
      "accepted_in (trace s') = accepted_in (trace t) + N" "owns t + H t + O' + image_mset fst N + {#v#} = owns s' + H s' + C'"
      by (auto simp: settles_def)
    have "owns t = owns s" using e by (simp add: owns_def)
    then have "settles H {#} s s'" unfolding settles_def using p e c(1) False
      by (intro exI [of _ O'] exI [of _ C'] exI [of _ "N + {#(v, the a)#}"]) (simp add: ac_simps)
    then show ?thesis using g by simp
  qed
qed

end

end
