(* ===== verification/EchoLedger.thy ===== *)
theory EchoLedger
  imports ServerBooks
begin

text \<open>
  The descriptors of the asynchronous TCP echo servers, the acceptor's and those of the
  connections, while the server is at work and at the end of the program, on the accounts of
  theory \<open>ServerBooks\<close>.
\<close>

subsection \<open>The life of a connection\<close>

context stream_frame begin

lemma leaves_echo_received [frame_rules]:
  assumes "\<And>d data. permitted (SysSend d data 0)"
  shows "leaves R (echo_received env)"
  unfolding echo_received_def peek_text_def by (intro frame_rules assms)

end

text \<open>A connection keeps its descriptor, or is deleted and has none.\<close>

definition stays_or_goes :: "('u, 'a echo_connection_ext) async_tcp_scheme \<Rightarrow> ('u, 'a echo_connection_ext) async_tcp_scheme \<Rightarrow> bool" where
  "stays_or_goes s s' \<longleftrightarrow> (fd s' = fd s \<and> deleted s' = deleted s) \<or> (deleted s' \<and> fd s' = INVALID_SOCKET)"

definition same_mark :: "('u, 'a echo_connection_ext) async_tcp_scheme \<Rightarrow> ('u, 'a echo_connection_ext) async_tcp_scheme \<Rightarrow> bool" where
  "same_mark s s' \<longleftrightarrow> deleted s' = deleted s"

interpretation conn_life: stream_frame stays_or_goes "\<lambda>_. True"
  by unfold_locales (auto simp: stays_or_goes_def log_reply_def)

interpretation conn_mark: stream_frame same_mark "\<lambda>_. True"
  by unfold_locales (auto simp: same_mark_def log_reply_def)

lemma mark_frames [frame_rules]:
  "leaves same_mark (put_fd d)" "leaves same_mark sock_delete" "leaves same_mark (at_delete env others inl)"
proof -
  show P: "leaves same_mark (put_fd d)" for d by (auto intro!: leavesI simp: put_fd_def same_mark_def)
  show S: "leaves same_mark sock_delete"
    unfolding sock_delete_def sock_close_def close_socket_def by (intro frame_rules P; simp)
  show "leaves same_mark (at_delete env others inl)"
    unfolding at_delete_def at_isolate_def by (intro frame_rules S)
qed

lemma echo_connected_frames:
  "leaves (balanced {#} {#}) (echo_connected env others c)" "leaves same_accepted (echo_connected env others c)"
  "leaves stays_or_goes (echo_connected env others c)"
proof -
  have M: "leaves (balanced {#} {#}) (modify (\<lambda>s. s\<lparr>deleted := True\<rparr>))" "leaves same_accepted (modify (\<lambda>s. s\<lparr>deleted := True\<rparr>))"
    by (auto intro!: leavesI simp: modify_def balanced_def owns_def same_accepted_def)
  show "leaves (balanced {#} {#}) (echo_connected env others c)" "leaves same_accepted (echo_connected env others c)"
    unfolding echo_connected_def by (intro frame_rules M)+
  show "leaves stays_or_goes (echo_connected env others c)"
  proof (rule leavesI)
    fix s u s'
    assume "echo_connected env others c s = Ret u s'"
    then have "c \<and> s' = s \<or> at_delete env others True (s\<lparr>deleted := True\<rparr>) = Ret u s'"
      by (auto simp: echo_connected_def ret_def modify_def elim!: bind_ioE split: if_splits)
    then show "stays_or_goes s s'"
      using at_delete_fd leavesD [OF mark_frames(3)] by (fastforce simp: stays_or_goes_def same_mark_def)
  qed
qed

lemma connection_event_frames:
  "leaves (balanced {#} {#}) (connection_event env others)" "leaves same_accepted (connection_event env others)"
  "leaves stays_or_goes (connection_event env others)"
  unfolding connection_event_def
  by (intro conn_ledger.leaves_reading conn_accepts.leaves_reading conn_life.leaves_reading echo_connected_frames frame_rules;
      simp)+

subsection \<open>The connections of the server\<close>

lemma held_put: "map_of cs k = Some x \<Longrightarrow> held (put_connection k y cs) + owns x = held cs + owns y"
  by (induction k y cs rule: put_connection.induct) (auto simp: held_def ac_simps)

lemma map_of_put: "map_of cs k = Some x \<Longrightarrow> map_of (put_connection k y cs) k = Some y"
  by (induction k y cs rule: put_connection.induct) auto

lemma held_drop: "map_of cs k = Some x \<Longrightarrow> held (drop_connection k cs) + owns x = held cs"
  by (induction k cs rule: drop_connection.induct) (auto simp: held_def ac_simps)

definition connections_hold :: "('u, ('u, 'a) echo_server_ext) holder" where
  "connections_hold s = held (connections s)"

definition none_deleted :: "('u, ('u, 'a) echo_server_ext) async_acceptor_scheme \<Rightarrow> bool" where
  "none_deleted s \<longleftrightarrow> list_all (\<lambda>c. \<not> deleted (snd c)) (connections s)"

interpretation echo_books: server_books connections_hold none_deleted
  by unfold_locales (auto simp: same_books_def connections_hold_def none_deleted_def log_reply_def)

lemma more_fields:
  "async_tcp.more t = async_tcp.more x \<Longrightarrow> deleted t = deleted x"
  "async_acceptor.more s' = async_acceptor.more s \<Longrightarrow> connections s' = connections s"
  by (cases t; cases x; simp) (cases s; cases s'; simp)

lemma on_connection_settled:
  assumes "on_connection k m s = Ret r s'" and "leaves (balanced {#} {#}) m" and "leaves same_accepted m"
  shows "settles connections_hold {#} s s' \<and> (\<exists>x y t. map_of (connections s) k = Some x \<and> m t = Ret r y \<and> fd t = fd x
    \<and> deleted t = deleted x \<and> connections s' = put_connection k y (connections s))"
proof -
  obtain x y t where x: "map_of (connections s) k = Some x" and t: "run_connection m x s = Ret (r, y) t"
    and s': "s' = t\<lparr>connections := put_connection k y (connections t)\<rparr>"
    using assms(1) by (auto simp: on_connection_def gets_def fail_def modify_def ret_def elim!: bind_ioE split: option.splits)
  obtain u where u: "m u = Ret r y" "fd u = fd x" "deleted u = deleted x" "fd t = fd s" "connections t = connections s"
    using run_connection_effect [OF t] more_fields by blast
  have "connections_hold s' + owns x = connections_hold s + owns y"
    using held_put [OF x, of y] s' u(5) by (simp add: connections_hold_def)
  then have "settles connections_hold {#} s s'" using u(4) s' by (intro ledger_settles [OF t assms(2,3)]) simp_all
  then show ?thesis using x u s' by auto
qed

lemma deleted_put:
  "list_all (\<lambda>c. \<not> deleted (snd c)) cs \<Longrightarrow> list_all (\<lambda>c. \<not> deleted (snd c)) (drop_connection k (put_connection k y cs))"
  "list_all (\<lambda>c. \<not> deleted (snd c)) cs \<Longrightarrow> \<not> deleted y \<Longrightarrow> list_all (\<lambda>c. \<not> deleted (snd c)) (put_connection k y cs)"
  by (induction k y cs rule: put_connection.induct) auto

lemma listed_alive: "map_of (connections s) k = Some x \<Longrightarrow> none_deleted s \<Longrightarrow> \<not> deleted x"
  by (fastforce simp: none_deleted_def list_all_iff dest: map_of_SomeD)

lemma connection_readable_settled:
  assumes "connection_readable env others k s = Ret u s'" and "none_deleted s"
  shows "settles connections_hold {#} s s' \<and> none_deleted s'"
proof -
  let ?m = "bind_io (connection_event env others) (\<lambda>_. gets deleted) :: (bool, 'a, unit) connection_io"
  obtain gone t where t: "on_connection k ?m s = Ret gone t"
    and s': "s' = (if gone then t\<lparr>connections := drop_connection k (connections t)\<rparr> else t)"
    using assms(1) by (auto simp: connection_readable_def modify_def elim!: bind_ioE)
  have "leaves (balanced {#} {#}) ?m" "leaves same_accepted ?m" by (intro frame_rules connection_event_frames)+
  note con = on_connection_settled [OF t this]
  then obtain x y q where x: "map_of (connections s) k = Some x" "?m q = Ret gone y" "fd q = fd x" "deleted q = deleted x"
    "connections t = put_connection k y (connections s)" by blast
  obtain v where v: "connection_event env others q = Ret v y" "gone = deleted y"
    using x(2) by (auto simp: gets_def elim!: bind_ioE)
  have life: "stays_or_goes q y" by (rule leavesD [OF connection_event_frames(3) v(1)])
  note alive = listed_alive [OF x(1) assms(2)]
  show ?thesis
  proof (cases gone)
    case True
    then have "owns y = {#}" using life v(2) x(4) alive by (auto simp: stays_or_goes_def owns_def)
    then have "held (connections s') = held (connections t)"
      using held_drop [OF map_of_put [OF x(1), of y]] True s' x(5) by simp
    then have "settles connections_hold {#} t s'" using True s' by (simp add: settles_def connections_hold_def owns_def)
    then show ?thesis using settles_step con deleted_put(1) assms(2) True s' x(5) by (fastforce simp: none_deleted_def)
  next
    case False
    then show ?thesis using con deleted_put(2) assms(2) s' x(5) v(2) by (simp add: none_deleted_def)
  qed
qed

text \<open>Accepting: what both forms of \<open>OnAccepted\<close> come to.\<close>

lemma shown_state: "shown I (ret a) s = Ret u s' \<Longrightarrow> s' = s"
  by (auto simp: shown_def quiet_def ret_def lift_pure_def bind_out_eq_Ret elim!: bind_ioE)

lemma at_new_connected_effect:
  "at_new_connected L v a s = Ret u s' \<Longrightarrow> fd s' = v \<and> trace s' = trace s"
  by (auto simp: at_new_connected_def at_init_def tcp_new_connected_def tcp_init_def modify_def on_buffer_def fail_def ret_def
      bind_out_eq_Ret elim!: bind_ioE split: if_splits)

lemma add_connection_effect:
  assumes "add_connection I blank k v a s = Ret u s'"
  shows "\<exists>x. connections s' = connections s @ [(k, x)] \<and> fd x = v \<and> \<not> deleted x \<and> trace s' = trace s \<and> fd s' = fd s"
proof -
  obtain L x q t where r: "run_connection (bind_io (at_new_connected L v (Some a)) (\<lambda>_. modify (\<lambda>s. s\<lparr>deleted := False\<rparr>))) blank s = Ret (q, x) t"
    and s': "s' = t\<lparr>connections := connections t @ [(k, x)]\<rparr>"
    using assms by (auto simp: add_connection_def gets_def modify_def elim!: bind_ioE dest!: shown_state)
  from run_connection_effect [OF r] obtain b where
    b: "bind_io (at_new_connected L v (Some a)) (\<lambda>_. modify (\<lambda>s. s\<lparr>deleted := False\<rparr>)) b = Ret q x"
    "trace b = trace s" "trace t = trace x" "fd t = fd s" "connections t = connections s" using more_fields(2) by blast
  have "fd x = v" "\<not> deleted x" "trace x = trace b"
    using b(1) by (auto simp: modify_def elim!: bind_ioE dest!: at_new_connected_effect)
  then show ?thesis using b s' by auto
qed

lemma on_connection_alive:
  assumes "on_connection k m s = Ret r s'" and "leaves (balanced {#} {#}) m" and "leaves same_accepted m" and "leaves same_mark m"
    and "none_deleted s"
  shows "settles connections_hold {#} s s' \<and> none_deleted s'"
proof -
  note con = on_connection_settled [OF assms(1-3)]
  then obtain z y q where z: "map_of (connections s) k = Some z" "m q = Ret r y" "deleted q = deleted z"
    "connections s' = put_connection k y (connections s)" by blast
  have "\<not> deleted y" using listed_alive [OF z(1) assms(5)] leavesD [OF assms(4) z(2)] z(3) by (simp add: same_mark_def)
  then show ?thesis using con assms(5) z(4) deleted_put(2) by (simp add: none_deleted_def)
qed

lemma connected_settled:
  assumes "add_connection I blank k v a s = Ret u t" and "on_connection k m t = Ret r s'"
    and "leaves (balanced {#} {#}) m" and "leaves same_accepted m" and "leaves same_mark m" and "none_deleted s"
  shows "settles connections_hold (as_set v) s s' \<and> none_deleted s'"
proof -
  obtain x where x: "connections t = connections s @ [(k, x)]" "fd x = v" "\<not> deleted x" "trace t = trace s" "fd t = fd s"
    using add_connection_effect [OF assms(1)] by blast
  then have 1: "settles connections_hold (as_set v) s t"
    by (simp add: settles_def connections_hold_def held_def owns_def as_set_def)
  have "none_deleted t" using x(1,3) assms(6) by (simp add: none_deleted_def)
  from on_connection_alive [OF assms(2-5) this] settles_trans [OF 1, of "{#}" s'] show ?thesis by simp
qed

lemma connected_frames:
  "leaves (balanced {#} {#}) (at_connected env inl)" "leaves same_accepted (at_connected env inl)"
  "leaves same_mark (at_connected env inl)"
  by (intro frame_rules; simp)+

lemma accepted1_takes_over: "takes_over connections_hold none_deleted (accepted1 I env blank k)"
  unfolding takes_over_def
proof (intro allI impI, elim conjE)
  fix v a s r s'
  assume r: "accepted1 I env blank k v a s = Ret r s'" and alive: "none_deleted s"
  obtain u t q where "add_connection I blank k v a s = Ret u t" and q: "on_connection k (throwing Not (at_connected env True)) t = Ret q s'"
    and "r = True"
    using r by (auto simp: accepted1_def fail_def ret_def elim!: bind_ioE split: if_splits sum.splits)
  moreover have "leaves (balanced {#} {#}) (throwing Not (at_connected env True))"
    "leaves same_accepted (throwing Not (at_connected env True))" "leaves same_mark (throwing Not (at_connected env True))"
    by (intro frame_rules connected_frames)+
  ultimately show "settles connections_hold (if r then as_set v else {#}) s s' \<and> none_deleted s'"
    using connected_settled alive by simp
qed

lemma accepted2_takes_over: "takes_over connections_hold none_deleted (accepted2 I env blank new)"
  unfolding takes_over_def
proof (intro allI impI, elim conjE)
  fix v a s r s'
  assume r: "accepted2 I env blank new v a s = Ret r s'" and alive: "none_deleted s"
  show "settles connections_hold (if r then as_set v else {#}) s s' \<and> none_deleted s'"
  proof (cases new)
    case None
    then show ?thesis using r alive by (auto simp: accepted2_def fail_def ret_def settles_refl split: if_splits)
  next
    case (Some k)
    then obtain u t q where "add_connection I blank k v a s = Ret u t" and q: "on_connection k (own_error (at_connected env True)) t = Ret q s'"
      and "r = True"
      using r by (auto simp: accepted2_def fail_def ret_def elim!: bind_ioE split: if_splits)
    moreover have "leaves (balanced {#} {#}) (own_error (at_connected env True))"
      "leaves same_accepted (own_error (at_connected env True))" "leaves same_mark (own_error (at_connected env True))"
      by (intro frame_rules connected_frames)+
    ultimately show ?thesis using connected_settled alive by simp
  qed
qed

lemma serve_events_settled:
  "serve_events accepted env others es s = Ret u s' \<Longrightarrow> (\<And>x. takes_over connections_hold none_deleted (accepted x)) \<Longrightarrow>
     none_deleted s \<Longrightarrow> settles connections_hold {#} s s' \<and> none_deleted s'"
proof (induction es arbitrary: s)
  case Nil
  then show ?case by (simp add: ret_def settles_refl)
next
  case (Cons e es)
  have "\<exists>t. settles connections_hold {#} s t \<and> none_deleted t \<and> serve_events accepted env others es t = Ret u s'"
  proof (cases e)
    case (Acceptable new)
    then obtain v t where "aa_on_read (Some (accepted new)) (fd s) s = Ret v t" "serve_events accepted env others es t = Ret u s'"
      using Cons.prems(1) by (auto simp: get_fd_def elim!: bind_ioE)
    then show ?thesis using echo_books.accepting_settled Cons.prems(2,3) by blast
  next
    case (Readable k)
    then obtain v t where "connection_readable env others k s = Ret v t" "serve_events accepted env others es t = Ret u s'"
      using Cons.prems(1) by (auto elim!: bind_ioE)
    then show ?thesis using connection_readable_settled Cons.prems(3) by blast
  next
    case (Writable k)
    then obtain v t where t: "on_connection k (at_on_write env) s = Ret v t" "serve_events accepted env others es t = Ret u s'"
      using Cons.prems(1) by (auto elim!: bind_ioE)
    have "leaves (balanced {#} {#}) (at_on_write env)" "leaves same_accepted (at_on_write env)" "leaves same_mark (at_on_write env)"
      by (intro frame_rules; simp)+
    from on_connection_alive [OF t(1) this Cons.prems(3)] t(2) show ?thesis by blast
  qed
  then show ?case using Cons.IH Cons.prems(2) settles_step by blast
qed

subsection \<open>The whole program\<close>

lemma server_new_effect:
  "server_new L port s = Ret u s' \<Longrightarrow> trace s' = trace s \<and> fd s' = INVALID_SOCKET \<and> connections s' = []"
  by (auto simp: server_new_def make_address_def aa_new_address_def aa_init_def acc_new_address_def acc_init_def modify_def
      fail_def ret_def bind_out_eq_Ret elim!: bind_ioE split: if_splits)

lemma delete_connections_settled:
  "delete_connections env others inl xs s = Ret u s' \<Longrightarrow> disposes (sum_list (map owns xs)) s s'"
  by (induction xs arbitrary: s) (auto simp: ret_def elim!: bind_ioE intro: disposes_more)

lemma served_session:
  assumes "unless_thrown (throwing Not (aa_open_own I env others True cb)) (\<lambda>_. bind_io (shown I acc_get_address) (\<lambda>_.
      bind_io (serve_events accepted env others es) (\<lambda>_. ret None))) s = Ret x s'"
    and "\<And>x. takes_over connections_hold none_deleted (accepted x)" and "none_deleted s"
  shows "settles connections_hold {#} s s' \<and> none_deleted s'"
proof -
  obtain r t where r: "throwing Not (aa_open_own I env others True cb) s = Ret r t"
    and k: "(case r of Inl x \<Rightarrow> ret (Some x) | Inr v \<Rightarrow> bind_io (shown I acc_get_address) (\<lambda>_.
      bind_io (serve_events accepted env others es) (\<lambda>_. ret None))) t = Ret x s'"
    using assms(1) by (auto simp: unless_thrown_def elim!: bind_ioE)
  have 1: "settles connections_hold {#} s t \<and> none_deleted t \<and> connections_hold t = connections_hold s"
    by (rule echo_books.opened_settled(2) [OF r assms(3)])
  show ?thesis
  proof (cases r)
    case (Inl a)
    then show ?thesis using 1 k by (simp add: ret_def)
  next
    case (Inr b)
    then obtain u v w where u: "shown I acc_get_address t = Ret u v" and w: "serve_events accepted env others es v = Ret w s'"
      using k by (auto simp: ret_def elim!: bind_ioE)
    have 2: "settles connections_hold {#} t v \<and> none_deleted v \<and> connections_hold v = connections_hold t"
      using echo_books.shown_settled [OF u] 1 by simp
    have "settles connections_hold {#} v s' \<and> none_deleted s'" using serve_events_settled [OF w assms(2)] 2 by simp
    then show ?thesis using settles_step 1 2 by blast
  qed
qed

text \<open>From the constructor to any point at which the loop is at work, or \<open>Open\<close> has thrown.\<close>

lemma server_session_settled:
  assumes "server_session1 I env others blank args es L s = Ret x s'"
  shows "\<exists>t. settles connections_hold {#} t s' \<and> none_deleted s' \<and> trace t = trace s \<and> fd t = INVALID_SOCKET \<and> connections t = []"
proof -
  obtain u s2 where s2: "server_new (Some L) (server_port 9007 args) s = Ret u s2"
    and s3: "unless_thrown (throwing Not (aa_open_own I env others True (Some (\<lambda>v a. ret True)))) (\<lambda>_.
       bind_io (shown I acc_get_address) (\<lambda>_. bind_io (serve_events (accepted1 I env blank) env others es) (\<lambda>_. ret None))) s2 = Ret x s'"
    using assms by (auto simp: server_session1_def elim!: bind_ioE)
  note n = server_new_effect [OF s2]
  have "settles connections_hold {#} s2 s' \<and> none_deleted s'"
    by (rule served_session [OF s3 accepted1_takes_over]) (use n in \<open>simp add: none_deleted_def\<close>)
  then show ?thesis using n by blast
qed

text \<open>
  C18. The first TCP echo server while it serves: after any events of the loop, whatever the
  system replied, the descriptors opened and those of the clients accepted, each as often, are
  those closed, that of the acceptor, and those of the connections in the list: clients that left
  are closed, none is leaked or closed twice. No connection in the list is deleted. This holds
  where the calls return: the loop reads behind the end of its map of handlers when the
  connection that leaves has the greatest descriptor of the loop.
\<close>

theorem echo_server_accounts:
  assumes "server_session1 I env others blank args es L s = Ret x s'" and "trace s = []"
  shows "opened_in (trace s') + image_mset fst (accepted_in (trace s'))
      = closed_in (trace s') + owns s' + held (connections s')
    \<and> list_all (\<lambda>c. \<not> deleted (snd c)) (connections s')"
proof -
  obtain t where "settles connections_hold {#} t s'" "none_deleted s'" "trace t = trace s" "fd t = INVALID_SOCKET" "connections t = []"
    using server_session_settled [OF assms(1)] by blast
  then show ?thesis
    using assms(2) by (auto simp: settles_def connections_hold_def none_deleted_def owns_def held_def ac_simps)
qed

text \<open>
  The destructor closes the rest. It returns only if the wake-up descriptor of the loop is greater
  than those of the sockets, which it is not where the loop is made first, as \<open>main\<close> does: there
  the last handler to be removed is the last of the map (\<open>first_hang_up_faults\<close> in theory
  \<open>EchoSession\<close> shows the same for a client).
\<close>

theorem echo_server_closes_all:
  assumes "server_life1 I env others blank args es L s = Ret () s'" and "trace s = []"
  shows "opened_in (trace s') + image_mset fst (accepted_in (trace s')) = closed_in (trace s')"
proof -
  obtain x s3 v s4 where s3: "server_session1 I env others blank args es L s = Ret x s3"
    and s4: "delete_connections env others True (map snd (connections s3)) s3 = Ret v s4"
    and e: "aa_delete env others True (s4\<lparr>connections := []\<rparr>) = Ret () s'"
    using assms(1)
    by (auto simp: server_life1_def server_delete1_def gets_def modify_def bind_out_eq_Ret bind_io_def)
  obtain s2 where 1: "settles connections_hold {#} s2 s3" and n: "trace s2 = []" "fd s2 = INVALID_SOCKET" "connections s2 = []"
    using server_session_settled [OF s3] assms(2) by auto
  have 2: "settles connections_hold {#} s3 (s4\<lparr>connections := []\<rparr>)"
    by (rule disposes_settles [OF delete_connections_settled [OF s4]]) (simp_all add: connections_hold_def held_def comp_def)
  have f: "settles connections_hold {#} (s4\<lparr>connections := []\<rparr>) s' \<and> connections_hold s' = {#} \<and> fd s' = INVALID_SOCKET"
    using echo_books.deleted_settled [OF e] by (simp add: none_deleted_def connections_hold_def held_def)
  have "settles connections_hold {#} s2 s'" using settles_step 1 2 f by blast
  then show ?thesis using n f by (auto simp: settles_def connections_hold_def owns_def held_def)
qed

text \<open>The second one has no destructor: what its connections still hold is leaked.\<close>

theorem echo_server_leaks:
  assumes "server_life2 I env others blank args es L s = Ret () s'" and "trace s = []"
  shows "opened_in (trace s') + image_mset fst (accepted_in (trace s')) = closed_in (trace s') + held (connections s')"
proof -
  obtain u s2 ok s3 v s4 where s2: "server_new (Some L) (server_port 9007 args) s = Ret u s2"
    and s3: "aa_open_own I env others True (Some (\<lambda>v a. ret True)) s2 = Ret ok s3"
    and s4: "(if ok then bind_io (shown I acc_get_address) (\<lambda>_. serve_events (accepted2 I env blank) env others es)
       else ret ()) s3 = Ret v s4"
    and e: "aa_delete env others True s4 = Ret () s'"
    using assms(1)
    by (auto simp: server_life2_def server_delete2_def bind_out_eq_Ret bind_io_def)
  note n = server_new_effect [OF s2]
  have 1: "settles connections_hold {#} s2 s3 \<and> none_deleted s3"
    using echo_books.opened_settled(1) [OF s3] n by (simp add: none_deleted_def)
  have 2: "settles connections_hold {#} s3 s4 \<and> none_deleted s4"
  proof (cases ok)
    case True
    then obtain q t where q: "shown I acc_get_address s3 = Ret q t" "serve_events (accepted2 I env blank) env others es t = Ret v s4"
      using s4 by (auto elim!: bind_ioE)
    have "settles connections_hold {#} s3 t \<and> none_deleted t" using echo_books.shown_settled [OF q(1)] 1 by simp
    then show ?thesis using serve_events_settled [OF q(2) accepted2_takes_over] settles_step by blast
  qed (use s4 1 in \<open>simp add: ret_def settles_refl\<close>)
  note f = echo_books.deleted_settled [OF e conjunct2 [OF 2]]
  have "settles connections_hold {#} s2 s'" using settles_step 1 2 f by blast
  then show ?thesis using n f assms(2) by (auto simp: settles_def connections_hold_def owns_def held_def)
qed

end
