(* ===== verification/EchoStream.thy ===== *)
theory EchoStream
  imports EchoLedger EchoRuns
begin

text \<open>
  What the asynchronous echo servers do with the data: the stream of a TCP connection, and the
  datagrams of the UDP server.
\<close>

subsection \<open>The life of a TCP connection\<close>

text \<open>The events of one connection, for reading or for writing; none come once it is deleted.\<close>

definition connection_step :: "'u bound env \<Rightarrow> (unit, 'u bound) action \<Rightarrow> bool \<Rightarrow> (unit, 'u, 'a) connection_io" where
  "connection_step env others reading = bind_io (gets deleted) (\<lambda>d. if d then ret ()
     else if reading then connection_event env others else at_on_write env)"

fun connection_run :: "'u bound env \<Rightarrow> (unit, 'u bound) action \<Rightarrow> bool list \<Rightarrow> (unit, 'u, 'a) connection_io" where
  "connection_run env others [] = ret ()"
| "connection_run env others (e # es) = bind_io (connection_step env others e) (\<lambda>_. connection_run env others es)"

text \<open>Before each event a block still fits behind what is in the input buffer.\<close>

fun has_room :: "'u bound env \<Rightarrow> (unit, 'u bound) action \<Rightarrow> bool list
    \<Rightarrow> ('u, 'a echo_connection_ext) async_tcp_scheme \<Rightarrow> bool" where
  "has_room env others [] s \<longleftrightarrow> True"
| "has_room env others (e # es) s \<longleftrightarrow> wpos (in_buffer s) + 2048 \<le> MAX_BUFFER_SIZE \<and>
     (case connection_step env others e s of Ret u t \<Rightarrow> has_room env others es t | Fault x \<Rightarrow> True)"

subsection \<open>Sending leaves the input alone\<close>

definition keeps_input :: "('u, 'a) async_tcp_scheme \<Rightarrow> ('u, 'a) async_tcp_scheme \<Rightarrow> bool" where
  "keeps_input s s' \<longleftrightarrow> in_buffer s' = in_buffer s \<and> (\<exists>u. trace s' = trace s @ u \<and> received_in u = [])"

fun not_recv :: "syscall \<Rightarrow> bool" where
  "not_recv (SysRecv d n flags) = False"
| "not_recv c = True"

lemma received_in_not_recv: "not_recv c \<Longrightarrow> received_in [(c, r)] = []"
  by (cases c; cases r; simp)

interpretation input_kept: output_frame "keeps_input :: ('u, 'a) async_tcp_scheme \<Rightarrow> _" not_recv
proof (unfold_locales, goal_cases)
  case (2 s t u)
  then obtain x y where "trace t = trace s @ x" "received_in x = []" "trace u = trace t @ y" "received_in y = []"
    "in_buffer t = in_buffer s" "in_buffer u = in_buffer t"
    by (auto simp: keeps_input_def)
  then show ?case unfolding keeps_input_def by (intro conjI exI [of _ "x @ y"]) (auto simp: received_in_append)
next
  case (3 c s r)
  then show ?case by (auto simp: keeps_input_def log_reply_def received_in_not_recv)
qed (auto simp: keeps_input_def)

definition keeps_streams :: "('u, 'a) async_tcp_scheme \<Rightarrow> ('u, 'a) async_tcp_scheme \<Rightarrow> bool" where
  "keeps_streams s s' \<longleftrightarrow> in_buffer s' = in_buffer s \<and> out_buffer s' = out_buffer s
     \<and> (\<exists>u. trace s' = trace s @ u \<and> list_all (\<lambda>x. not_stream (fst x)) u)"

interpretation streams_kept: reactor_frame "keeps_streams :: ('u, 'a) async_tcp_scheme \<Rightarrow> _" not_stream
    tcp_reactor tcp_reactor_update
  by unfold_locales (fastforce simp: keeps_streams_def log_reply_def)+

lemma keeps_streams_delete: "leaves keeps_streams (at_delete env others inl)"
proof -
  have P: "leaves keeps_streams (put_fd d)" for d by (rule leavesI) (simp add: put_fd_def keeps_streams_def)
  show ?thesis
    unfolding at_delete_def at_isolate_def sock_delete_def sock_close_def close_socket_def
    by (intro frame_rules P) simp
qed

text \<open>The application is told no more bytes than it handed over.\<close>

lemma at_send_bound:
  assumes "at_send env inl data s = Ret r s'" and "list_all honest (trace s')"
  shows "r \<le> int (length data)"
proof (cases inl)
  case False
  then show ?thesis
    using assms(1) by (auto simp: at_send_def gets_def unless_def fail_def ret_def elim!: bind_ioE split: if_splits)
next
  case True
  obtain v t u q where v: "(if sb_empty (out_buffer s) then tcp_send_timed 0 (Some data) else ret 0) s = Ret v t"
    and w: "(if of_ssize v < length data
         then bind_io (out_write (drop (if v < 0 then 0 else nat v) data)) (\<lambda>ok. ret (if ok then int (length data) else v))
         else ret v) t = Ret r u"
    and e: "(if sb_empty (out_buffer u) then ret True else quiet (at_enable_writing env inl)) u = Ret q s'"
    using assms(1) True by (auto simp: at_send_def gets_def fail_def ret_def elim!: bind_ioE split: if_splits)
  have "\<exists>x. trace s' = trace u @ x"
    using e same_output_at_enable [of env inl u q s'] by (auto simp: same_output_def ret_def split: if_splits)
  moreover have "trace u = trace t" using w out_write_state by (fastforce simp: ret_def elim!: bind_ioE split: if_splits)
  ultimately have "list_all honest (trace t)" using assms(2) by auto
  then have "v \<le> int (length data)" using v tcp_send_now [of data s v t] by (auto simp: ret_def split: if_splits)
  then show ?thesis using w by (auto simp: ret_def elim!: bind_ioE split: if_splits)
qed

text \<open>
  All that a connection has taken in and not given out is in its buffers: what was sent, what
  waits in the output buffer and what is unread in the input buffer, in this order.
\<close>

definition passed :: "('u, 'a) async_tcp_scheme \<Rightarrow> char list" where
  "passed s = sent_in (trace s) @ sb_unread (out_buffer s) @ sb_unread (in_buffer s)"

definition sound :: "('u, 'a) async_tcp_scheme \<Rightarrow> bool" where
  "sound s \<longleftrightarrow> unflushed (out_buffer s) \<and> sb_wf (in_buffer s) \<and> limit (in_buffer s) = MAX_BUFFER_SIZE"

lemma peek_text_state: "peek_text b s = Ret ok s' \<Longrightarrow> s' = s"
  by (auto simp: peek_text_def on_buffer_def ret_def bind_out_eq_Ret elim!: bind_ioE)

lemma send_buffer_unread:
  assumes "quiet (at_send_buffer env inl b) s = Ret (r, c) s'" and "sb_wf b"
  shows "\<exists>t. at_send env inl (sb_unread b) (s\<lparr>err := None\<rparr>) = Ret r t \<and> s' = t\<lparr>err := err s\<rparr>
    \<and> c = (if 0 < r then snd (sb_skip (nat r) b) else b)"
  using assms(1)
  by (auto simp: quiet_def at_send_buffer_def send_buffer_def lift_pure_def readable_block_unread [OF assms(2)] ret_def
      bind_out_eq_Ret elim!: bind_ioE)

lemma flushed_part:
  assumes "sb_wf b" and "r \<le> int (length (sb_unread b))" and "c = (if 0 < r then snd (sb_skip (nat r) b) else b)"
  shows "sb_wf (snd (sb_flush c))" "limit (snd (sb_flush c)) = limit b" "sb_unread (snd (sb_flush c)) = drop (nat r) (sb_unread b)"
    "wpos (snd (sb_flush c)) = (if nat r = length (sb_unread b) then 0 else wpos b)"
proof -
  have "sb_wf c \<and> limit c = limit b \<and> wpos c = wpos b \<and> sb_unread c = drop (nat r) (sb_unread b)"
  proof (cases "0 < r")
    case True
    have n: "nat r \<le> length (sb_unread b)" using assms(2) by simp
    have small: "nat r < 2 ^ 63" using n length_sb_unread [OF assms(1)] sb_wfD(6) [OF assms(1)] by linarith
    have con: "sb_consumes (nat r) b c" using assms(3) True n sb_skip_wf [OF assms(1) small] by (simp add: sb_consumes_def)
    then show ?thesis using sb_consumes_wf [OF assms(1) con] sb_consumes_unread [OF assms(1) con]
      by (auto simp: sb_consumes_def)
  qed (use assms in simp)
  moreover from this have "rpos c = wpos c \<longleftrightarrow> nat r = length (sb_unread b)"
    using length_sb_unread [of c] sb_wfD(2) [of c] assms(2) by auto
  ultimately show "sb_wf (snd (sb_flush c))" "limit (snd (sb_flush c)) = limit b"
    "sb_unread (snd (sb_flush c)) = drop (nat r) (sb_unread b)"
    "wpos (snd (sb_flush c)) = (if nat r = length (sb_unread b) then 0 else wpos b)"
    using sb_flush_wf [of c] sb_flush_contents [of c] by (auto simp: sb_flush_def sb_clear_def Let_def)
qed

lemma echo_received_passes:
  fixes s :: "('u, 'a) async_tcp_scheme"
  assumes "echo_received env s = Ret u s'" and "sound s" and "list_all honest (trace s')"
  shows "sound s' \<and> passed s' = passed s \<and> (\<exists>x. trace s' = trace s @ x \<and> received_in x = [])"
proof -
  let ?b = "in_buffer s"
  have wf: "sb_wf ?b" "limit ?b = MAX_BUFFER_SIZE" "unflushed (out_buffer s)" using assms(2) by (simp_all add: sound_def)
  obtain r c w where q: "quiet (at_send_buffer env True ?b) s = Ret (r, c) w" and s': "s' = w\<lparr>in_buffer := snd (sb_flush c)\<rparr>"
    using assms(1) by (auto simp: echo_received_def gets_def modify_def elim!: bind_ioE dest!: peek_text_state)
  obtain t where t: "at_send env True (sb_unread ?b) (s\<lparr>err := None\<rparr>) = Ret r t" "w = t\<lparr>err := err s\<rparr>"
    "c = (if 0 < r then snd (sb_skip (nat r) ?b) else ?b)"
    using send_buffer_unread [OF q wf(1)] by blast
  have h: "list_all honest (trace t)" using assms(3) s' t(2) by simp
  have small: "length (sb_unread ?b) < 2 ^ 63" using length_sb_unread [OF wf(1)] sb_wfD(6) [OF wf(1)] by linarith
  have "carries (take (nat r) (sb_unread ?b)) (s\<lparr>err := None\<rparr>) t"
    by (rule at_send_carries [OF t(1) small _ h]) (simp add: wf(3))
  from carriesD [OF this _ h] wf(3) have out: "unflushed (out_buffer t)"
    "sent_in (trace t) @ sb_unread (out_buffer t) = sent_in (trace s) @ sb_unread (out_buffer s) @ take (nat r) (sb_unread ?b)"
    by simp_all
  note f = flushed_part [OF wf(1) at_send_bound [OF t(1) h] t(3)]
  have "leaves keeps_input (quiet (at_send_buffer env True ?b) :: (int \<times> stream_buffer, 'u, 'a) atcp_io)"
    by (intro frame_rules) simp
  from leavesD [OF this q] obtain x where "trace w = trace s @ x" "received_in x = []" by (auto simp: keeps_input_def)
  then have "\<exists>x. trace s' = trace s @ x \<and> received_in x = []" using s' by simp
  moreover have "sound s'" using out(1) f wf(2) s' t(2) by (simp add: sound_def)
  moreover have "passed s' = (sent_in (trace t) @ sb_unread (out_buffer t)) @ drop (nat r) (sb_unread ?b)"
    using f(3) s' t(2) by (simp add: passed_def)
  then have "passed s' = passed s" unfolding out(2) by (simp add: passed_def)
  ultimately show ?thesis by simp
qed

definition keeps_buffers :: "('u, 'a) async_tcp_scheme \<Rightarrow> ('u, 'a) async_tcp_scheme \<Rightarrow> bool" where
  "keeps_buffers s s' \<longleftrightarrow> in_buffer s' = in_buffer s \<and> out_buffer s' = out_buffer s"

interpretation buffers_kept: reactor_frame "keeps_buffers :: ('u, 'a) async_tcp_scheme \<Rightarrow> _" "\<lambda>_. True"
    tcp_reactor tcp_reactor_update
  by unfold_locales (auto simp: keeps_buffers_def log_reply_def)

lemma deletes_streams: "leaves keeps_streams (echo_connected env others c)"
proof -
  have M: "leaves keeps_streams (modify (\<lambda>s. s\<lparr>deleted := True\<rparr>))"
    by (auto intro!: leavesI simp: modify_def keeps_streams_def)
  show ?thesis unfolding echo_connected_def by (intro frame_rules M keeps_streams_delete)
qed

lemma keeps_streams_passed:
  assumes "keeps_streams s s'"
  shows "passed s' = passed s" "sound s' = sound s" "\<exists>x. trace s' = trace s @ x \<and> received_in x = []"
  using assms stream_free_calls by (auto simp: keeps_streams_def passed_def sound_def sent_in_append)

interpretation conn_logs: stream_frame "logs_more :: ('u, 'a) async_tcp_scheme \<Rightarrow> _" "\<lambda>_. True"
  by unfold_locales (auto simp: logs_more_def)

text \<open>The end of a connection.\<close>

definition hang_up :: "'u bound env \<Rightarrow> (unit, 'u bound) action \<Rightarrow> (unit, 'u, 'a) connection_io" where
  "hang_up env others = bind_io (on_handler tcp_reactor tcp_reactor_update AssertFailed (disable_reading env True)) (\<lambda>_.
     echo_connected env others False)"

lemma hang_up_streams: "leaves keeps_streams (hang_up env others)"
  unfolding hang_up_def by (intro frame_rules deletes_streams)

lemma connection_event_passes:
  fixes s :: "('u, 'a echo_connection_ext) async_tcp_scheme"
  assumes "connection_event env others s = Ret u s'" and "sound s" and "list_all honest (trace s')"
    and "wpos (in_buffer s) + 2048 \<le> MAX_BUFFER_SIZE"
  shows "sound s' \<and> (\<exists>x. trace s' = trace s @ x \<and> passed s' = passed s @ received_in x)"
proof -
  let ?b = "in_buffer s"
  have wf: "sb_wf ?b" "limit ?b = MAX_BUFFER_SIZE" "unflushed (out_buffer s)" using assms(2) by (simp_all add: sound_def)
  obtain b1 where b1: "sb_reserve 2048 ?b = Ret True b1" "sb_extends [] ?b b1" "2048 \<le> sb_writable b1"
    using room_for_block [OF wf(1,2) assms(4)] .
  obtain n data t y b2 where t: "quiet (sock_receive True (sb_writable b1) 0) s = Ret (n, data) t"
    and b2: "fill_writable data b1 = Ret y b2"
    and k: "(if 0 < n then bind_io (modify (\<lambda>s. s\<lparr>in_buffer := snd (sb_advance (nat n) b2)\<rparr>)) (\<lambda>_. echo_received env)
       else bind_io (modify (\<lambda>s. s\<lparr>in_buffer := b2\<rparr>)) (\<lambda>_.
         bind_io (on_handler tcp_reactor tcp_reactor_update AssertFailed (disable_reading env True)) (\<lambda>_.
         echo_connected env others False))) t = Ret u s'"
    using assms(1) b1(1) unfolding connection_event_def at_on_read_def option.case
    by (auto simp: gets_def on_buffer_def bind_out_eq_Ret elim!: bind_ioE)
  define c where "c = (if 0 < n then snd (sb_advance (nat n) b2) else b2)"
  have k': "(if 0 < n then echo_received env else hang_up env others) (t\<lparr>in_buffer := c\<rparr>) = Ret u s'"
    using k by (simp add: c_def modify_def hang_up_def bind_io_def split: if_splits)
  have "leaves keeps_buffers (quiet (sock_receive True (sb_writable b1) 0))" by (intro frame_rules TrueI)
  from leavesD [OF this t] have bufs: "out_buffer t = out_buffer s" by (simp add: keeps_buffers_def)
  obtain q where q: "sock_receive True (sb_writable b1) 0 (s\<lparr>err := None\<rparr>) = Ret (n, data) q" "trace t = trace q"
    using t by (rule quietE)
  obtain x where x: "trace t = trace s @ x" "sent_in x = []" "received_in x = data"
    "list_all honest x \<longrightarrow> length data \<le> sb_writable b1 \<and> nat n = length data"
    using receive_call [OF q(1)] q(2) by fastforce
  have "leaves logs_more (echo_received env :: (unit, 'u, 'a) connection_io)" by (intro frame_rules TrueI)
  then have "\<exists>z. trace s' = trace t @ z"
    using k' leavesD [of logs_more "echo_received env" "t\<lparr>in_buffer := c\<rparr>" u s'] leavesD [OF hang_up_streams, of env others "t\<lparr>in_buffer := c\<rparr>" u s']
    by (auto simp: logs_more_def keeps_streams_def split: if_splits)
  then have h: "length data \<le> sb_writable b1" "nat n = length data" using x assms(3) by auto
  have e: "sb_extends data ?b c" unfolding c_def by (rule delivered_block [OF b1(2) b2 h])
  have s1: "sound (t\<lparr>in_buffer := c\<rparr>)" using wf bufs sb_extendsD(1,4) [OF e] by (simp add: sound_def)
  have p1: "passed (t\<lparr>in_buffer := c\<rparr>) = passed s @ received_in x"
    using bufs x sb_extends_unread [OF wf(1) e] by (simp add: passed_def sent_in_append)
  have "sound s' \<and> passed s' = passed (t\<lparr>in_buffer := c\<rparr>) \<and> (\<exists>z. trace s' = trace t @ z \<and> received_in z = [])"
  proof (cases "0 < n")
    case True
    then show ?thesis using echo_received_passes [OF _ s1 assms(3)] k' by fastforce
  next
    case False
    then have "hang_up env others (t\<lparr>in_buffer := c\<rparr>) = Ret u s'" using k' by simp
    from keeps_streams_passed [OF leavesD [OF hang_up_streams this]] s1 show ?thesis by simp
  qed
  then obtain z where "sound s'" "passed s' = passed s @ received_in x" "trace s' = trace s @ x @ z" "received_in z = []"
    using p1 x(1) by auto
  then show ?thesis by (intro conjI exI [of _ "x @ z"]) (simp_all add: received_in_append)
qed

lemma on_write_passes:
  fixes s :: "('u, 'a) async_tcp_scheme"
  assumes "at_on_write env s = Ret u s'" and "sound s" and "list_all honest (trace s')"
  shows "sound s' \<and> (\<exists>x. trace s' = trace s @ x \<and> passed s' = passed s @ received_in x)"
proof -
  have uf: "unflushed (out_buffer s)" using assms(2) by (simp add: sound_def)
  note c = carriesD [OF carries_on_write [OF assms(1) uf assms(3)] uf assms(3)]
  have "leaves keeps_input (at_on_write env :: (unit, 'u, 'a) atcp_io)" by (intro frame_rules) simp
  from leavesD [OF this assms(1)] obtain x where "in_buffer s' = in_buffer s" "trace s' = trace s @ x" "received_in x = []"
    by (auto simp: keeps_input_def)
  then show ?thesis using c assms(2) by (intro conjI exI [of _ x]) (auto simp: sound_def passed_def)
qed

lemma connection_step_logs: "leaves logs_more (connection_step env others e)"
proof -
  have "leaves logs_more (echo_connected env others c)" for c
    by (rule leavesI) (auto dest!: leavesD [OF deletes_streams] simp: keeps_streams_def logs_more_def)
  then show ?thesis
    unfolding connection_step_def connection_event_def
    by (intro frame_rules conn_logs.leaves_reading TrueI) simp_all
qed

lemma connection_run_logs: "leaves logs_more (connection_run env others es)"
proof (induction es)
  case (Cons e es)
  show ?case unfolding connection_run.simps by (intro frame_rules connection_step_logs Cons.IH)
qed (simp, intro frame_rules)

text \<open>
  C19. A connection of the asynchronous TCP echo servers: in any run of its events, whatever the
  system takes or delivers, the bytes sent, those in the output buffer and those unread in the
  input buffer are, in this order, the bytes received: nothing is lost, doubled or reordered. It
  holds as long as a block fits in the input buffer at each event, and up to the end of the
  connection.
\<close>

theorem connection_echoes:
  assumes "connection_run env others es s = Ret () s'" and "has_room env others es s" and "sound s"
    and "trace s' = trace s @ x" and "list_all honest (trace s')"
  shows "sent_in (trace s') @ sb_unread (out_buffer s') @ sb_unread (in_buffer s')
    = sent_in (trace s) @ sb_unread (out_buffer s) @ sb_unread (in_buffer s) @ received_in x"
proof -
  have "sound s' \<and> (\<exists>x. trace s' = trace s @ x \<and> passed s' = passed s @ received_in x)"
    using assms(1-3,5)
  proof (induction es arbitrary: s)
    case Nil
    then show ?case by (simp add: ret_def)
  next
    case (Cons e es)
    obtain u t where t: "connection_step env others e s = Ret u t" "connection_run env others es t = Ret () s'"
      using Cons.prems(1) by (auto elim!: bind_ioE)
    have room: "wpos (in_buffer s) + 2048 \<le> MAX_BUFFER_SIZE" "has_room env others es t"
      using Cons.prems(2) t(1) by simp_all
    obtain y where "trace s' = trace t @ y" using leavesD [OF connection_run_logs t(2)] by (auto simp: logs_more_def)
    then have h: "list_all honest (trace t)" using Cons.prems(4) by simp
    have "sound t \<and> (\<exists>x. trace t = trace s @ x \<and> passed t = passed s @ received_in x)"
    proof (cases "deleted s")
      case True
      then show ?thesis using t(1) Cons.prems(3) by (simp add: connection_step_def gets_def ret_def bind_io_def)
    next
      case False
      then have "(if e then connection_event env others else at_on_write env) s = Ret u t"
        using t(1) by (simp add: connection_step_def gets_def bind_io_def)
      then show ?thesis
        using connection_event_passes [OF _ Cons.prems(3) h room(1)] on_write_passes [OF _ Cons.prems(3) h]
        by (cases e) auto
    qed
    then obtain p where p: "sound t" "trace t = trace s @ p" "passed t = passed s @ received_in p" by blast
    from Cons.IH [OF t(2) room(2) p(1) Cons.prems(4)] obtain q where
      "sound s'" "trace s' = trace t @ q" "passed s' = passed t @ received_in q" by blast
    then show ?case using p by (intro conjI exI [of _ "p @ q"]) (simp_all add: received_in_append)
  qed
  then show ?thesis using assms(4) by (auto simp: passed_def)
qed

subsection \<open>The UDP server\<close>

lemma peek_text_ok:
  assumes "sb_wf b"
  shows "\<exists>ok. peek_text b s = Ret ok s"
proof -
  note w = sb_wfD [OF assms]
  have z: "sz_add 0 0 = 0" by (simp add: sz_add_exact)
  have n: "sb_peekable 0 b = int (length (sb_data b))" "of_ssize (sb_peekable 0 b) = length (sb_data b)"
    using sb_peekable_wf [OF assms, of 0] of_ssize_peekable [OF assms, of 0] by simp_all
  have l: "length (sb_data b) = wpos b - opos b" by (rule length_sb_data [OF assms])
  have "sz_add 0 (length (sb_data b)) = length (sb_data b)" using l w by (intro sz_add_exact [THEN trans]) auto
  moreover have "sb_peek_ptr 0 b = Some (opos b)" using w by (simp add: sb_peek_ptr_def sz_sub_exact)
  ultimately have "\<exists>x. rr_string \<lparr>rr_stream = True, rr_offset = 0\<rparr> 0 b = Ret x b"
    using n l w by (auto simp: rr_string_def rr_string_n_def rr_beyond_def rr_pos_def z Let_def)
  then show ?thesis
    by (auto simp: peek_text_def on_buffer_def rr_new_ptr_def io_simps)
qed

text \<open>One send that the system answers at once, taking the datagram as a whole or refusing it.\<close>

lemma au_send_answered:
  assumes "rloop (udp_reactor s) = Some L" and "out_buffers s = []" and "addr_length a = Ret k ()" and "replies s = r # rs"
    and "length data < 2 ^ 63" and "r = Ok (int (length data)) \<or> (\<exists>code. r = Failed code \<and> code \<notin> {EAGAIN, EINTR, EPIPE})"
    and "err s = None"
  shows "au_send_to env True data a s
    = Ret (if r = Ok (int (length data)) then int (length data) else - 1) (log_reply (SysSendTo (fd s) data 0 a k) r s)"
proof (cases "r = Ok (int (length data))")
  case True
  then have "sock_send_to (Some data) a 0 s = Ret (int (length data)) (log_reply (SysSendTo (fd s) data 0 a k) r s)"
    using assms(3,4) by (simp add: sock_send_to_def sys_retry_def io_simps lift_pure_def)
  then show ?thesis
    using True assms(1,2,5) by (simp add: au_send_to_def au_send_with_def io_simps of_ssize_exact)
next
  case False
  then obtain code where code: "r = Failed code" "code \<notin> {EAGAIN, EINTR, EPIPE}" using assms(6) by blast
  then have "sock_send_to (Some data) a 0 s = Ret (- 1) (log_reply (SysSendTo (fd s) data 0 a k) r s)"
    using assms(3,4,7)
    by (simp add: sock_send_to_def sys_retry_def io_simps lift_pure_def is_interrupted_def report_def send_set_error_def set_as_def
        log_reply_def)
  then show ?thesis
    using code assms(1,2,5) by (simp add: au_send_to_def au_send_with_def io_simps of_ssize_minus_one)
qed

text \<open>
  C39. The UDP echo servers send with each datagram all that is unread in their input buffer to the
  sender of the last one: with nothing left over that is the echo. But a datagram the system
  refused to send stays there: it goes out together with the next one, to whoever sent that, and if
  that is refused too both stay.
\<close>

theorem udp_echo_sends_unread:
  assumes "rloop (udp_reactor s) = Some L" and "out_buffers s = []" and "sb_wf (udp_in_buffer s)"
    and "limit (udp_in_buffer s) = MAX_BUFFER_SIZE" and "wpos (udp_in_buffer s) + 2048 \<le> MAX_BUFFER_SIZE"
    and "replies s = Done (int (length data)) data a # r # rs" and "0 < length data" and "length data \<le> 2048"
    and "sb_unread (udp_in_buffer s) @ data = all"
    and "r = Ok (int (length all)) \<or> (\<exists>code. r = Failed code \<and> code \<notin> {EAGAIN, EINTR, EPIPE})"
    and "addr_length a = Ret k ()" and "addr_string I a = Ret text ()"
  shows "\<exists>s' n. au_on_read (Some (udp_echo_received I env)) (fd s) s = Ret () s'
    \<and> trace s' = trace s @ [(SysRecvFrom (fd s) n 0, Done (int (length data)) data a), (SysSendTo (fd s) all 0 a k, r)]
    \<and> sb_unread (udp_in_buffer s') = (if r = Ok (int (length all)) then [] else all)
    \<and> sb_wf (udp_in_buffer s') \<and> limit (udp_in_buffer s') = MAX_BUFFER_SIZE
    \<and> wpos (udp_in_buffer s') \<le> wpos (udp_in_buffer s) + length data \<and> replies s' = rs
    \<and> fd s' = fd s \<and> out_buffers s' = [] \<and> rloop (udp_reactor s') = Some L"
proof -
  let ?b = "udp_in_buffer s" and ?v = "if r = Ok (int (length all)) then int (length all) else - 1"
  obtain b1 where b1: "sb_reserve 2048 ?b = Ret True b1" "sb_extends [] ?b b1" "2048 \<le> sb_writable b1"
    using room_for_block [OF assms(3-5)] .
  note wf1 = sb_extendsD(1) [OF b1(2)]
  note w = b1(3)
  then obtain b2 where b2: "fill_writable data b1 = Ret () b2"
    using sb_fill_advance(1) [OF wf1] sb_wfD(4) [OF wf1] assms(8) by (auto simp: sb_writable_wf [OF wf1])
  define c where "c = snd (sb_advance (length data) b2)"
  have e: "sb_extends data ?b c"
    using delivered_block [OF b1(2) b2, of "int (length data)"] assms(7,8) w by (simp add: c_def)
  note wf = sb_extendsD(1) [OF e]
  have un: "sb_unread c = all" using sb_extends_unread [OF assms(3) e] assms(9) by simp
  have "length (sb_unread c) < 2 ^ 63" using length_sb_unread [OF wf] sb_wfD(6) [OF wf] by linarith
  then have small: "length all < 2 ^ 63" by (simp add: un)
  define t where "t = (log_reply (SysRecvFrom (fd s) (sb_writable b1) 0) (Done (int (length data)) data a) s)\<lparr>udp_in_buffer := c\<rparr>"
  have t: "rloop (udp_reactor t) = Some L" "out_buffers t = []" "replies t = r # rs" "fd t = fd s" "udp_in_buffer t = c"
    "trace t = trace s @ [(SysRecvFrom (fd s) (sb_writable b1) 0, Done (int (length data)) data a)]"
    using assms(1,2,6) by (simp_all add: t_def log_reply_def)
  have recv: "au_on_read (Some f) (fd s) s = f a t" for f
    using b1(1) b2 assms(6,7)
    by (simp add: au_on_read_def io_simps on_buffer_def quiet_def sock_receive_from_def sys_retry_def log_reply_def t_def c_def)
  obtain ok where ok: "peek_text c t = Ret ok t" using peek_text_ok [OF wf] by blast
  have sh: "shown I (ret a) t = Ret () t" using assms(12) by (simp add: shown_def quiet_def io_simps lift_pure_def)
  have send: "au_send_to env True all a (t\<lparr>err := None\<rparr>) = Ret ?v (log_reply (SysSendTo (fd s) all 0 a k) r (t\<lparr>err := None\<rparr>))"
    using au_send_answered [of "t\<lparr>err := None\<rparr>" L a k r rs all env] t small assms(10,11) by simp
  define d where "d = (if 0 < ?v then snd (sb_skip (nat ?v) c) else c)"
  note f = flushed_part [OF wf _ d_def]
  have echo: "udp_echo_received I env a t = Ret () ((log_reply (SysSendTo (fd s) all 0 a k) r t)\<lparr>udp_in_buffer := snd (sb_flush d)\<rparr>)"
    using ok sh send t(5) readable_block_unread [OF wf] un
    by (simp add: udp_echo_received_def io_simps quiet_def au_send_buffer_to_def send_buffer_def lift_pure_def d_def log_reply_def
        split: reply.split)
  show ?thesis
    unfolding recv echo using f un t sb_extendsD(4,5) [OF e] assms(4)
    by (auto simp: log_reply_def)
qed

text \<open>Another client, at port 53.\<close>

definition demo_client :: address where
  "demo_client = patch 2 (mem16 (htons 53)) (addr_reset AF_INET)"

lemma demo_client_facts: "addr_length demo_client = Ret 16 ()" "\<exists>text. addr_string demo_names demo_client = Ret text ()"
  "\<exists>text. addr_string demo_names demo_peer = Ret text ()"
  by (simp_all add: demo_client_def demo_peer_def addr_length_def addr_string_def addr_port_def ss_family_patch demo_names_def)

theorem udp_echo_sends_unread_witness:
  "\<exists>s1 s2. au_on_read (Some (udp_echo_received demo_names idle_env)) 5
       (demo_async_udp [] [Done 1 ''x'' demo_peer, Failed ECONNREFUSED, Done 1 ''y'' demo_client, Ok 2]) = Ret () s1
     \<and> au_on_read (Some (udp_echo_received demo_names idle_env)) 5 s1 = Ret () s2
     \<and> (SysSendTo 5 ''xy'' 0 demo_client 16, Ok 2) \<in> set (trace s2)"
proof -
  let ?rs = "[Done 1 ''x'' demo_peer, Failed ECONNREFUSED, Done 1 ''y'' demo_client, Ok 2]"
  let ?s = "demo_async_udp [] ?rs"
  obtain t1 t2 where t: "addr_string demo_names demo_peer = Ret t1 ()" "addr_string demo_names demo_client = Ret t2 ()"
    using demo_client_facts(2,3) by blast
  have "udp_in_buffer ?s = gram_buffer []" by (simp add: demo_async_udp_def gram_buffer_def)
  then have b: "sb_wf (udp_in_buffer ?s)" "sb_unread (udp_in_buffer ?s) = []" "wpos (udp_in_buffer ?s) = 0"
    "limit (udp_in_buffer ?s) = MAX_BUFFER_SIZE"
    using gram_buffer_facts(1,2) [of "[]"] by (simp_all add: gram_buffer_def)
  have s: "rloop (udp_reactor ?s) = Some demo_handler_loop" "out_buffers ?s = []" "replies ?s = ?rs" "fd ?s = 5"
    by (simp_all add: demo_async_udp_def)
  have "\<exists>s1. au_on_read (Some (udp_echo_received demo_names idle_env)) (fd ?s) ?s = Ret () s1 \<and> fd s1 = fd ?s
      \<and> sb_unread (udp_in_buffer s1) = ''x'' \<and> sb_wf (udp_in_buffer s1) \<and> limit (udp_in_buffer s1) = MAX_BUFFER_SIZE
      \<and> wpos (udp_in_buffer s1) \<le> 1 \<and> replies s1 = drop 2 ?rs \<and> out_buffers s1 = []
      \<and> rloop (udp_reactor s1) = Some demo_handler_loop"
    using udp_echo_sends_unread [of ?s demo_handler_loop "''x''" demo_peer "Failed ECONNREFUSED" "drop 2 ?rs" "''x''" 16 demo_names t1 idle_env]
      s b demo_peer_length t(1)
    by (auto simp: MAX_BUFFER_SIZE_def)
  then obtain s1 where s1: "au_on_read (Some (udp_echo_received demo_names idle_env)) 5 ?s = Ret () s1" "fd s1 = 5"
    "sb_unread (udp_in_buffer s1) = ''x''" "sb_wf (udp_in_buffer s1)" "limit (udp_in_buffer s1) = MAX_BUFFER_SIZE"
    "wpos (udp_in_buffer s1) \<le> 1" "replies s1 = drop 2 ?rs" "out_buffers s1 = []"
    "rloop (udp_reactor s1) = Some demo_handler_loop"
    unfolding s(4) by blast
  have "\<exists>s2. au_on_read (Some (udp_echo_received demo_names idle_env)) (fd s1) s1 = Ret () s2
      \<and> (SysSendTo (fd s1) ''xy'' 0 demo_client 16, Ok 2) \<in> set (trace s2)"
    using udp_echo_sends_unread [of s1 demo_handler_loop "''y''" demo_client "Ok 2" "[]" "''xy''" 16 demo_names t2 idle_env]
      s1 demo_client_facts(1) t(2)
    by (auto simp: MAX_BUFFER_SIZE_def)
  then show ?thesis using s1(1,2) by auto
qed

definition demo_connection :: "reply list \<Rightarrow> unit echo_connection" where
  "demo_connection rs = async_tcp.extend ((demo_async [] demo_handler_loop rs)\<lparr>in_buffer := demo_block\<rparr>) \<lparr>deleted = False\<rparr>"

theorem connection_echoes_witness:
  "\<exists>s'. connection_run idle_env (Ret ()) [True] (demo_connection [Done 3 ''abc'' [], Ok 2, Ok 0, Ok 3]) = Ret () s'
     \<and> received_in (trace s') = ''abc''
     \<and> sent_in (trace s') @ sb_unread (out_buffer s') @ sb_unread (in_buffer s') = ''abc''"
proof -
  let ?s = "demo_connection [Done 3 ''abc'' [], Ok 2, Ok 0, Ok 3]"
  have "\<exists>s'. connection_event idle_env (Ret ()) ?s = Ret () s' \<and> (\<exists>f. trace s' = [(SysRecv 5 4096 0, Done 3 ''abc'' []),
     (SysGetFlags 5, Ok 2), (SysSetFlags 5 f, Ok 0), (SysSend 5 ''abc'' 0, Ok 3)])"
    by (simp add: demo_connection_def demo_async_def demo_block_def connection_event_def at_on_read_def on_buffer_def run_simps
       sock_receive_def Let_def async_tcp.extend_def
       sb_reserve_def sb_writable_def fill_writable_def patch_def sb_advance_def echo_received_def peek_text_def
       rr_new_ptr_def rr_string_def rr_string_n_def rr_beyond_def rr_pos_def sb_peekable_def sb_peek_ptr_def
       at_send_buffer_def send_buffer_def at_send_def tcp_send_timed_def sock_send_def sock_block_def readable_block_def sb_readable_def slice_def
       sb_skip_def sb_flush_def MAX_BUFFER_SIZE_def sz_sub_def sz_add_def sb_empty_def checked_def unless_def of_ssize_def to_ssize_def)
  then obtain s' f where e: "connection_event idle_env (Ret ()) ?s = Ret () s'" and
    t: "trace s' = [(SysRecv 5 4096 0, Done 3 ''abc'' []), (SysGetFlags 5, Ok 2), (SysSetFlags 5 f, Ok 0), (SysSend 5 ''abc'' 0, Ok 3)]"
    by blast
  have r: "connection_run idle_env (Ret ()) [True] ?s = Ret () s'"
    using e by (simp add: connection_step_def io_simps demo_connection_def async_tcp.extend_def)
  have p: "has_room idle_env (Ret ()) [True] ?s" "sound ?s" "trace ?s = []" "sb_unread (out_buffer ?s) = []" "sb_unread (in_buffer ?s) = []"
    by (simp_all add: demo_connection_def async_tcp.extend_def demo_async_def demo_block_def sound_def unflushed_def sb_wf_def
        sb_unread_def MAX_BUFFER_SIZE_def vec_max_def split: outcome.split)
  have "trace s' = trace ?s @ trace s'" by (simp add: p(3))
  from connection_echoes [OF r p(1,2) this] have
    "sent_in (trace s') @ sb_unread (out_buffer s') @ sb_unread (in_buffer s') = received_in (trace s')"
    by (simp add: p(3-5) t)
  then show ?thesis using r by (auto simp: t)
qed

end
