(* ===== verification/EchoSession.thy ===== *)
theory EchoSession
  imports EchoStream
begin

text \<open>
  Sessions of the first asynchronous TCP echo server: clients come, one of them hangs up, and the
  ways the server ends.
\<close>

subsection \<open>A session\<close>

text \<open>A loop with its wake-up pipe, and a server object not yet constructed.\<close>

definition demo_wake_loop :: "int \<Rightarrow> unit bound loop" where
  "demo_wake_loop wake = \<lparr>stopped = False, lselector = sel_new, handlers = [(wake, WAKEUP)], current_handler = None,
     event_handling = False, queue = [], queue_invoking = False, pipe_bytes = 0, pipe_alive = True,
     objects = [WAKEUP \<mapsto> \<lparr>hsocket = wake, hevents = 0, detached = False, read_callback = Some OnWakeupRead, write_callback = None\<rparr>]\<rparr>"

definition demo_echo_server :: "nat option list \<Rightarrow> reply list \<Rightarrow> unit echo_server" where
  "demo_echo_server as rs = \<lparr>fd = INVALID_SOCKET, err = None, replies = rs, waits = [], errno = 0, trace = [],
     acc_address = addr_new, acc_reuse_addr = False, acc_reuse_port = False, acc_backlog = 5,
     acc_reactor = \<lparr>rloop = None, rhandler = None, allocations = as\<rparr>, connections = []\<rparr>"

lemma peer_facts: "ss_family demo_peer = 2" "\<exists>text. addr_string demo_names demo_peer = Ret text ()" "addr_length demo_peer = Ret 16 ()"
  by (simp_all add: demo_peer_def addr_string_def addr_length_def addr_port_def demo_names_def)

lemma small_heaps: "make_heap [x] = [x]" "make_heap [x, y] = (if x < y then [y, x] else [x, y])"
  "make_heap [x, y, z] = (if x < y then (if y < z then [z, y, x] else [y, x, z]) else if x < z then [z, y, x] else [x, y, z])"
  by (simp_all add: make_heap_def sift_down.simps larger_child_def swap_at_def)

lemmas loop_simps = on_loop_def handler_new_def invoke_def attach_in_loop_def register_handler_def with_handler_def put_handler_def
  set_interest_def on_selector_def set_read_callback_def set_write_callback_def on_handler_def enable_reading_def disable_reading_def change_events_def
  update_def update_handler_def isolate_def detach_wait_def detach_def remove_handler_def handler_delete_def
  sel_set_def sel_remove_def sel_put_def fd_put_def fd_ok_def sel_new_def small_heaps has_event_def
  make_handler_def allocate_def put_rhandler_def

lemmas session_simps = server_life1_def server_session1_def server_new_def make_address_def addr_new_port_def addr_set_port_def server_port_def
    ss_family_patch run_simps aa_new_address_def aa_init_def acc_new_address_def acc_init_def
    aa_open_own_def aa_open_def acc_open_def ensure_open_def sock_valid_def throwing_def unless_thrown_def addr_empty_def unless_def
    sock_create_def init_socket_def lift_pure_def sock_reuse_address_def sock_reuse_port_def sock_reuse_def checked_def sock_bind_def sock_listen_def
    put_fd_def addr_length_def aa_enable_reading_def sock_block_def Let_def loop_simps shown_def acc_get_address_def peer_facts(1,3)
    sock_address_def named_address_def aa_on_read_def sock_accept_from_def accepted1_def add_connection_def run_connection_def
    at_new_connected_def lend_def on_connection_def at_connected_def server_delete1_def aa_delete_def sock_delete_def sock_close_def close_socket_def
    connection_readable_def connection_event_def aa_isolate_def at_init_def on_buffer_def sb_new_def vec_max_def DEFAULT_BUFFER_SIZE_def MAX_BUFFER_SIZE_def
    tcp_new_connected_def tcp_init_def addr_copy_def tcp_connected_def sock_type_def sock_get_option_def
    sock_connected_address_def addr_eq_def at_enable_reading_def enable_io_def at_init_handler_def init_handler_def at_on_read_def sb_reserve_def sb_writable_def sz_sub_def
    sz_add_def sock_receive_def fill_writable_def echo_connected_def at_delete_def at_isolate_def

definition demo_replies :: "reply list" where
  "demo_replies = [Ok 5, Ok 0, Ok 0, Ok 0, Ok 0, Ok 2, Ok 0, Done 0 [] demo_peer,
     Done 6 [] demo_peer, Ok 1, Done 0 [] demo_peer, Ok 2, Ok 0, Ok 0, Ok 0, Ok 0]"

lemmas demo_session_simps = session_simps demo_echo_server_def demo_wake_loop_def demo_connection_def demo_async_def
  async_tcp.extend_def demo_replies_def

text \<open>
  The pipe of the loop below the sockets, as in \<open>main\<close>: two clients come, the first one hangs up
  and is closed, the second one stays.
\<close>

definition session_replies :: "reply list" where
  "session_replies = [Ok 5, Ok 0, Ok 0, Ok 0, Ok 0, Ok 2, Ok 0, Done 0 [] demo_peer,
     Done 6 [] demo_peer, Ok 1, Done 0 [] demo_peer, Ok 2, Ok 0,
     Done 7 [] demo_peer, Ok 1, Done 0 [] demo_peer, Ok 2, Ok 0, Ok 0, Ok 0]"

theorem echo_server_accounts_witness:
  "\<exists>x s'. server_session1 demo_names idle_env (Ret ()) (demo_connection []) [] [Acceptable 77, Acceptable 78, Readable 77]
       (demo_wake_loop 4) (demo_echo_server [Some 2, Some 3, Some 4] session_replies) = Ret x s'
     \<and> accepted_in (trace s') = {#(7, demo_peer), (6, demo_peer)#} \<and> closed_in (trace s') = {#6#} \<and> held (connections s') = {#7#}"
proof -
  let ?m = "server_session1 demo_names idle_env (Ret ()) (demo_connection []) [] [Acceptable 77, Acceptable 78, Readable 77] (demo_wake_loop 4)"
  let ?s = "demo_echo_server [Some 2, Some 3, Some 4] session_replies"
  obtain p where p: "addr_string demo_names demo_peer = Ret p ()"
    using peer_facts(2) by blast
  have "\<exists>x s'. ?m ?s = Ret x s' \<and> accepted_in (trace s') = {#(7, demo_peer), (6, demo_peer)#}
     \<and> opened_in (trace s') = {#5#} \<and> closed_in (trace s') = {#6#} \<and> owns s' = {#5#}"
    by (simp add: p demo_session_simps session_replies_def owns_def)
  then obtain x s' where s': "?m ?s = Ret x s'" "accepted_in (trace s') = {#(7, demo_peer), (6, demo_peer)#}"
     "opened_in (trace s') = {#5#}" "closed_in (trace s') = {#6#}" "owns s' = {#5#}"
    by blast
  have "trace ?s = []" by (simp add: demo_echo_server_def)
  from echo_server_accounts [OF s'(1) this] s' show ?thesis by (auto simp: add_mset_commute)
qed
text \<open>The whole life, where the number of the pipe is greater than those of the sockets.\<close>

theorem echo_server_closes_all_witness:
  "\<exists>s'. server_life1 demo_names idle_env (Ret ()) (demo_connection []) [] [Acceptable 77, Readable 77] (demo_wake_loop 9)
       (demo_echo_server [Some 2, Some 3] demo_replies) = Ret () s'
     \<and> accepted_in (trace s') = {#(6, demo_peer)#} \<and> closed_in (trace s') = {#5, 6#}"
proof -
  let ?s = "demo_echo_server [Some 2, Some 3] demo_replies"
  obtain p where p: "addr_string demo_names demo_peer = Ret p ()"
    using peer_facts(2) by blast
  have "\<exists>s'. server_life1 demo_names idle_env (Ret ()) (demo_connection []) [] [Acceptable 77, Readable 77] (demo_wake_loop 9) ?s = Ret () s'
     \<and> accepted_in (trace s') = {#(6, demo_peer)#} \<and> opened_in (trace s') = {#5#}"
    by (simp add: p demo_session_simps)
  then obtain s' where s': "server_life1 demo_names idle_env (Ret ()) (demo_connection []) [] [Acceptable 77, Readable 77] (demo_wake_loop 9) ?s = Ret () s'"
    "accepted_in (trace s') = {#(6, demo_peer)#}" "opened_in (trace s') = {#5#}"
    by blast
  have "trace ?s = []" by (simp add: demo_echo_server_def)
  from echo_server_closes_all [OF s'(1) this] s' show ?thesis by (auto simp: add_mset_commute)
qed

subsection \<open>How the server ends\<close>

text \<open>
  With the usual numbers, the pipe of the loop below the sockets, the first client that hangs up
  brings the server down: its handler is the last one of the map.
\<close>

theorem first_hang_up_faults:
  "server_life1 demo_names idle_env (Ret ()) (demo_connection []) [] [Acceptable 77, Readable 77] (demo_wake_loop 4)
     (demo_echo_server [Some 2, Some 3] demo_replies) = Fault OutOfBounds"
proof -
  obtain p where p: "addr_string demo_names demo_peer = Ret p ()"
    using peer_facts(2) by blast
  show ?thesis by (simp add: p demo_session_simps)
qed

lemma lone_loop_faults:
  assumes "fd_ok wake"
  shows "\<exists>L. new_loop env wake s = Ret L s \<and> loop_delete env True L = Fault OutOfBounds"
  using assms by (simp add: new_loop_def loop_new_def loop_delete_def loop_simps Let_def)

text \<open>
  The end of the first server when its socket cannot be created, whatever the reason: the
  exception is reported, and then the destructor of the loop, which removes the only handler of
  its map, reads behind the end of that. The program does not get to its return.
\<close>

theorem failed_server_faults:
  assumes "fd_ok wake" and "replies s = Failed code # rs"
  shows "echo_server1 I env others wake blank args es s = Fault OutOfBounds"
proof -
  have set: "\<exists>e. set_as cls m code (Some err_new) = Ret () (Some e) \<and> throw_error e \<noteq> None" if "cls \<noteq> NoErrorClass" for cls m
    using that throw_error_cases [of "err_set cls m code err_new"] by (cases cls) (auto simp: set_as_def err_set_def)
  have "\<exists>e. open_set_error ''Socket::InitSocket'' code (Some err_new) = Ret () (Some e) \<and> throw_error e \<noteq> None"
    unfolding open_set_error_def using set [of LogicError] set [of RuntimeError] set [of GeneralError] by simp
  then obtain e x where e: "open_set_error ''Socket::InitSocket'' code (Some err_new) = Ret () (Some e)" "throw_error e = Some x"
    by blast
  show ?thesis
    using assms
    by (simp add: echo_server1_def new_loop_def loop_new_def loop_delete_def delete_loop_def report_def e aa_close_def acc_close_def session_simps)
qed

theorem failed_server_faults_witness:
  "echo_server1 demo_names idle_env (Ret ()) 3 (demo_connection []) [] [] (demo_echo_server [] [Failed EMFILE]) = Fault OutOfBounds"
proof -
  have "fd_ok 3" "replies (demo_echo_server [] [Failed EMFILE]) = Failed EMFILE # []"
    by (simp_all add: fd_ok_def demo_echo_server_def)
  from failed_server_faults [OF this] show ?thesis .
qed

end
