(* ===== verification/HttpPrograms.thy ===== *)
theory HttpPrograms
  imports Http AsyncEcho
begin

text \<open>
  The HTTP server and client of \<open>examples/http\<close>. The server is an acceptor with a map of
  connections, each an asynchronous socket with the request it is reading; the client is one
  exchange on a \<open>TcpSocket\<close>. An exception nothing catches ends the program, like a failed
  assertion.
\<close>

subsection \<open>A connection\<close>

record 'u http_connection = "'u async_tcp" +
  request :: http_message
  released :: bool

type_synonym ('r, 'u, 'a) http_io = "('r, 'u, 'a http_connection_ext) atcp_io"

definition http_connection_new :: "'u bound loop option \<Rightarrow> int \<Rightarrow> address \<Rightarrow> (unit, 'u, 'a) http_io" where
  "http_connection_new L d a = bind_io (at_new_connected L d (Some a)) (\<lambda>_.
     modify (\<lambda>s. s\<lparr>request := http_request_new HTTP11, released := False\<rparr>))"

definition send_response :: "'u bound env \<Rightarrow> http_message \<Rightarrow> (unit, 'u, 'a) http_io" where
  "send_response env response = bind_io (on_buffer (sb_new DEFAULT_BUFFER_SIZE MAX_BUFFER_SIZE)) (\<lambda>(_, b).
     bind_io (on_buffer (hm_to_buffer response b)) (\<lambda>(_, b).
     bind_io (quiet (at_send_buffer env True b)) (\<lambda>_. ret ())))"

definition handle_request :: "'u bound env \<Rightarrow> (unit, 'u, 'a) http_io" where
  "handle_request env = bind_io (gets request) (\<lambda>m. bind_io (lift_pure (hm_string m)) (\<lambda>_.
     send_response env (http_response_new HTTP11)))"

definition http_received :: "'u bound env \<Rightarrow> (unit, 'u, 'a) http_io" where
  "http_received env = bind_io (gets request) (\<lambda>m. bind_io (gets in_buffer) (\<lambda>b.
     bind_io (\<lambda>s. bind_out (hm_from_buffer m b) (\<lambda>ok (m, b). Ret ok (s\<lparr>request := m, in_buffer := b\<rparr>))) (\<lambda>ok.
     if ok then bind_io (handle_request env) (\<lambda>_. modify (\<lambda>s. s\<lparr>request := request_reset (request s)\<rparr>))
     else ret ())))"

text \<open>
  \<open>OnConnected\<close> looks the socket up in the map, whose keys are \<open>ks\<close>; \<open>k\<close> is that of the
  connection itself. Finding another one fails an assertion.
\<close>

definition http_connected :: "'u bound env \<Rightarrow> (unit, 'u bound) action \<Rightarrow> int list \<Rightarrow> int \<Rightarrow> bool \<Rightarrow> (unit, 'u, 'a) http_io" where
  "http_connected env others ks k connected = (if connected then ret ()
     else bind_io get_fd (\<lambda>d. if d \<notin> set ks then ret ()
     else if d \<noteq> k then fail AssertFailed
     else bind_io (modify (\<lambda>s. s\<lparr>released := True\<rparr>)) (\<lambda>_. at_delete env others True)))"

subsection \<open>The server\<close>

record 'u http_server = "'u async_acceptor" +
  http_connections :: "(int \<times> 'u http_connection) list"

type_synonym ('r, 'u, 'a) http_server_io = "('r, 'u, ('u, 'a) http_server_ext) aacc_io"

definition http_accepted :: "'u bound env \<Rightarrow> 'u http_connection \<Rightarrow> int \<Rightarrow> address \<Rightarrow> (bool, 'u, 'a) http_server_io" where
  "http_accepted env blank v a = (if v = INVALID_SOCKET then fail AssertFailed
     else bind_io (gets http_connections) (\<lambda>cs. if map_of cs v \<noteq> None then fail AssertFailed
     else bind_io (gets (\<lambda>s. rloop (acc_reactor s))) (\<lambda>L.
     bind_io (run_connection (http_connection_new L v a) blank) (\<lambda>(_, x).
     bind_io (run_connection (throwing Not (at_connected env True)) x) (\<lambda>(r, x). case r of
       Inl e \<Rightarrow> fail AssertFailed
     | Inr _ \<Rightarrow> bind_io (modify (\<lambda>s. s\<lparr>http_connections := map_insert v x cs\<rparr>)) (\<lambda>_. ret True))))))"

text \<open>An event of a connection of the map; a deleted one is erased.\<close>

definition http_on :: "int \<Rightarrow> (unit, 'u, unit) http_io \<Rightarrow> (unit, 'u, 'a) http_server_io" where
  "http_on k m = bind_io (gets http_connections) (\<lambda>cs. case map_of cs k of None \<Rightarrow> fail WildPointer
     | Some x \<Rightarrow> bind_io (run_connection m x) (\<lambda>(_, y).
         modify (\<lambda>s. s\<lparr>http_connections := (if released y then filter (\<lambda>c. fst c \<noteq> k) cs else map_insert k y cs)\<rparr>)))"

definition http_readable :: "'u bound env \<Rightarrow> (unit, 'u bound) action \<Rightarrow> int \<Rightarrow> (unit, 'u, 'a) http_server_io" where
  "http_readable env others k = bind_io (gets http_connections) (\<lambda>cs.
     http_on k (at_on_read env (Some (http_received env)) (Some (http_connected env others (map fst cs) k))))"

datatype http_event = ClientWaits | RequestArrives int | ResponseLeaves int

fun http_serve :: "'u bound env \<Rightarrow> (unit, 'u bound) action \<Rightarrow> 'u http_connection \<Rightarrow> http_event list
    \<Rightarrow> (unit, 'u, 'a) http_server_io" where
  "http_serve env others blank [] = ret ()"
| "http_serve env others blank (ClientWaits # es) = bind_io get_fd (\<lambda>d.
     bind_io (aa_on_read (Some (http_accepted env blank)) d) (\<lambda>_. http_serve env others blank es))"
| "http_serve env others blank (RequestArrives k # es) = bind_io (http_readable env others k) (\<lambda>_.
     http_serve env others blank es)"
| "http_serve env others blank (ResponseLeaves k # es) = bind_io (http_on k (at_on_write env)) (\<lambda>_.
     http_serve env others blank es)"

definition http_server_new :: "'u bound loop option \<Rightarrow> address \<Rightarrow> (unit, 'u, 'a) http_server_io" where
  "http_server_new L a = bind_io (aa_new_address L a True True) (\<lambda>_. modify (\<lambda>s. s\<lparr>http_connections := []\<rparr>))"

fun http_delete_connections :: "'u bound env \<Rightarrow> (unit, 'u bound) action \<Rightarrow> 'u http_connection list
    \<Rightarrow> (unit, 'u, 'a) http_server_io" where
  "http_delete_connections env others [] = ret ()"
| "http_delete_connections env others (x # xs) = bind_io (run_connection (at_delete env others True) x) (\<lambda>_.
     http_delete_connections env others xs)"

definition http_server_delete :: "'u bound env \<Rightarrow> (unit, 'u bound) action \<Rightarrow> (unit, 'u, 'a) http_server_io" where
  "http_server_delete env others = bind_io (gets http_connections) (\<lambda>cs.
     bind_io (http_delete_connections env others (map snd cs)) (\<lambda>_. aa_delete env others True))"

text \<open>
  \<open>main\<close>: the server object while it serves, its whole life, and the loop around it, which is
  destroyed last.
\<close>

definition http_session :: "inet \<Rightarrow> 'u bound env \<Rightarrow> (unit, 'u bound) action \<Rightarrow> 'u http_connection
    \<Rightarrow> char list list \<Rightarrow> http_event list \<Rightarrow> 'u bound loop \<Rightarrow> (unit, 'u, 'a) http_server_io" where
  "http_session I env others blank args es L =
     bind_io (make_address (addr_new_port (server_port 8080 args) AF_INET)) (\<lambda>a.
     bind_io (http_server_new (Some L) a) (\<lambda>_.
     bind_io (throwing Not (aa_open_own I env others True (Some (\<lambda>v a. ret True)))) (\<lambda>r. case r of
       Inl x \<Rightarrow> fail AssertFailed
     | Inr _ \<Rightarrow> http_serve env others blank es)))"

definition http_server_life :: "inet \<Rightarrow> 'u bound env \<Rightarrow> (unit, 'u bound) action \<Rightarrow> 'u http_connection
    \<Rightarrow> char list list \<Rightarrow> http_event list \<Rightarrow> 'u bound loop \<Rightarrow> (unit, 'u, 'a) http_server_io" where
  "http_server_life I env others blank args es L = bind_io (http_session I env others blank args es L) (\<lambda>_.
     http_server_delete env others)"

definition http_server_main :: "inet \<Rightarrow> 'u bound env \<Rightarrow> (unit, 'u bound) action \<Rightarrow> int \<Rightarrow> 'u http_connection
    \<Rightarrow> char list list \<Rightarrow> http_event list \<Rightarrow> (unit, 'u, 'a) http_server_io" where
  "http_server_main I env others wake blank args es = bind_io (new_loop env wake) (\<lambda>L.
     bind_io (http_server_life I env others blank args es L) (\<lambda>_. delete_loop env True))"

subsection \<open>The client\<close>

text \<open>
  The text of the response, none where an error is printed. A host is given only with two
  arguments; otherwise a string is made of the null pointer.
\<close>

definition http_exchange :: "(char list option, 'a tcp_ext) io" where
  "http_exchange = (let rq = http_request_new_url ''GET'' ''google.com'' HTTP11 in
     bind_io (on_buffer (sb_new DEFAULT_BUFFER_SIZE MAX_BUFFER_SIZE)) (\<lambda>(_, b).
     bind_io (on_buffer (hm_to_buffer rq b)) (\<lambda>(ok, b). if \<not> ok then ret None
     else bind_io (quiet (tcp_send_buffer b)) (\<lambda>(v, b). if v \<le> 0 then ret None
     else bind_io (lift_pure (hm_string rq)) (\<lambda>_.
     bind_io (quiet (tcp_receive_buffer (sb_clear b))) (\<lambda>(v, _, b). if v \<le> 0 then ret None
     else bind_io (\<lambda>s. bind_out (hm_from_buffer (http_response_new HTTP11) b) (\<lambda>ok (m, b). Ret m s)) (\<lambda>m.
     bind_io (lift_pure (hm_string m)) (\<lambda>t. ret (Some t)))))))))"

definition http_client :: "inet \<Rightarrow> char list list \<Rightarrow> (char list option, 'a tcp_ext) io" where
  "http_client I args = (case args of
       [] \<Rightarrow> fail AssertFailed
     | [h, p] \<Rightarrow> bind_io tcp_new (\<lambda>_. closing (bind_io (make_address (addr_new_host I h (port_or 8080 p) AF_INET)) (\<lambda>a.
         bind_io (quiet (tcp_connect I a)) (\<lambda>ok. if ok then http_exchange else ret None))))
     | _ \<Rightarrow> fail LogicErrorThrown)"

end
