(* ===== verification/HttpRuns.thy ===== *)
theory HttpRuns
  imports HttpPrograms EchoSession
begin

text \<open>What the HTTP server does with requests and connections, and how it gets on with the client.\<close>

subsection \<open>The messages\<close>

definition server_answer :: "char list" where
  "server_answer = ''HTTP/1.1 200 OK'' @ CRLF @ CRLF"

definition client_question :: "char list" where
  "client_question = ''GET google.com HTTP/1.1'' @ CRLF @ CRLF"

lemma text_lengths: "length server_answer = 19" "length client_question = 27"
  by (simp_all add: server_answer_def client_question_def CRLF_def)

lemma start_lines:
  "print_start HTTP11 (StatusLine 200 []) = Ret ''HTTP/1.1 200 OK'' ()"
  "print_start HTTP11 (RequestLine ''GET'' ''google.com'') = Ret ''GET google.com HTTP/1.1'' ()"
  by code_simp+

lemma emits_server_answer: "emits (hm_to_buffer (http_response_new HTTP11)) server_answer"
  using to_buffer_image [of "http_response_new HTTP11" "''HTTP/1.1 200 OK''"] start_lines(1)
  by (simp add: http_response_new_def hm_new_def msg_image_def or_else_def server_answer_def)

lemma emits_client_question: "emits (hm_to_buffer (http_request_new_url ''GET'' ''google.com'' HTTP11)) client_question"
  using to_buffer_image [of "http_request_new_url ''GET'' ''google.com'' HTTP11" "''GET google.com HTTP/1.1''"] start_lines(2)
  by (simp add: http_request_new_url_def hm_new_def msg_image_def or_else_def client_question_def)

lemma new_buffer:
  "\<exists>b. sb_new DEFAULT_BUFFER_SIZE MAX_BUFFER_SIZE = Ret () b \<and> sb_wf b \<and> sb_unread b = [] \<and> (n \<le> 4096 \<longrightarrow> sb_room n b)"
  by (auto simp: sb_new_def DEFAULT_BUFFER_SIZE_def MAX_BUFFER_SIZE_def vec_max_def sb_wf_def sb_unread_def sb_room_def sb_cap_def)

subsection \<open>Answering\<close>

text \<open>Sending leaves the request and the input alone.\<close>

definition keeps_request :: "('u, 'a http_connection_ext) async_tcp_scheme \<Rightarrow> ('u, 'a http_connection_ext) async_tcp_scheme \<Rightarrow> bool" where
  "keeps_request s s' \<longleftrightarrow> request s' = request s \<and> in_buffer s' = in_buffer s"

interpretation request_kept: output_frame "keeps_request :: ('u, 'a http_connection_ext) async_tcp_scheme \<Rightarrow> _" "\<lambda>_. True"
  by unfold_locales (auto simp: keeps_request_def log_reply_def)

text \<open>The calls by which the system refuses a block on the descriptor \<open>d\<close>.\<close>

fun send_refused :: "int \<Rightarrow> syscall \<times> reply \<Rightarrow> bool" where
  "send_refused d (SysSetFlags e flags, Failed code) \<longleftrightarrow> e = d"
| "send_refused d (SysSend e data flags, Failed code) \<longleftrightarrow> e = d \<and> \<not> is_interrupted code"
| "send_refused d _ \<longleftrightarrow> False"

lemma retry_refused:
  "retry c rs s = Ret r s' \<Longrightarrow> fd s' = fd s \<and> (\<exists>u code. trace s' = trace s @ u \<and> (r = None \<longrightarrow>
     (c, Failed code) \<in> set u \<and> \<not> is_interrupted code))"
proof (induction c rs s rule: retry.induct)
  case (2 c code rs s)
  then show ?case by (cases "is_interrupted code") (fastforce simp: log_reply_def)+
qed (auto simp: log_reply_def)

lemma sys_call_logged:
  "sys_call c s = Ret r t \<Longrightarrow> fd t = fd s \<and> (\<exists>x. trace t = trace s @ [(c, x)] \<and> (r = None \<longrightarrow> (\<exists>code. x = Failed code)))"
  by (auto simp: sys_call_def log_reply_def split: list.splits reply.splits)

lemma sock_block_refused:
  assumes "sock_block b s = Ret ok t"
  shows "fd t = fd s \<and> (\<exists>u. trace t = trace s @ u \<and> (\<not> ok \<longrightarrow> list_ex (send_refused (fd s)) u))"
proof -
  obtain r y flags where y: "sys_call (SysGetFlags (fd s)) s = Ret r y"
    and k: "checked (SysSetFlags (fd s) flags) control_set_error (on_fd ''Socket::Block'' (fd s) @ bracket (flag_text b)) y = Ret ok t"
    using assms unfolding sock_block_def get_fd_def Let_def by (auto elim!: bind_ioE)
  obtain q z where z: "sys_call (SysSetFlags (fd s) flags) y = Ret q z"
    and e: "(case q of None \<Rightarrow> bind_io (report control_set_error (on_fd ''Socket::Block'' (fd s) @ bracket (flag_text b))) (\<lambda>_. ret False)
     | Some _ \<Rightarrow> ret True) z = Ret ok t"
    using k unfolding checked_def by (auto elim!: bind_ioE)
  obtain x where x: "trace z = trace y @ [(SysSetFlags (fd s) flags, x)]" "q = None \<longrightarrow> (\<exists>code. x = Failed code)"
    and "fd z = fd y" using sys_call_logged [OF z] by blast
  obtain w where w: "trace y = trace s @ [(SysGetFlags (fd s), w)]" and "fd y = fd s"
    using sys_call_logged [OF y] by blast
  moreover have "\<exists>e. t = z\<lparr>err := e\<rparr>" and "ok \<longleftrightarrow> q \<noteq> None"
    using e by (auto simp: ret_def elim!: bind_ioE dest!: report_state split: option.splits intro: exI [of _ "err z"])
  ultimately show ?thesis using x \<open>fd z = fd y\<close> by auto
qed

lemma sock_send_refused:
  assumes "sock_send (Some data) 0 s = Ret v t"
  shows "\<exists>u. trace t = trace s @ u \<and> (list_all honest (trace t) \<and> v < 0 \<longrightarrow> list_ex (send_refused (fd s)) u)"
proof -
  obtain r y where y: "retry (SysSend (fd s) data 0) (replies s) s = Ret r y"
    and k: "(case r of None \<Rightarrow> bind_io (report send_set_error (on_fd ''Socket::Send'' (fd s))) (\<lambda>_. ret (- 1))
       | Some (v, _) \<Rightarrow> ret v) y = Ret v t"
    using assms by (auto simp: sock_send_def get_fd_def sys_retry_def elim!: bind_ioE)
  obtain u code where u: "trace y = trace s @ u"
    "r = None \<longrightarrow> (SysSend (fd s) data 0, Failed code) \<in> set u \<and> \<not> is_interrupted code"
    using retry_refused [OF y] by blast
  show ?thesis
  proof (cases r)
    case None
    then obtain e where "t = y\<lparr>err := e\<rparr>"
      using k by (auto simp: ret_def elim!: bind_ioE dest!: report_state)
    then have "trace t = trace s @ u" using u by simp
    moreover have "list_ex (send_refused (fd s)) u" using u(2) None by (force simp: list_ex_iff)
    ultimately show ?thesis by blast
  next
    case (Some q)
    obtain "is" x where e: "trace y = trace s @ map (Pair (SysSend (fd s) data 0)) (is @ [x])"
      and x: "case r of None \<Rightarrow> \<exists>code. x = Failed code | Some (v, d, a) \<Rightarrow> x = Done v d a"
      using retry_effect [OF y] by blast
    obtain d a where q: "q = (v, d, a)" "t = y" using k Some by (cases q) (auto simp: ret_def)
    then have "list_all honest (trace t) \<longrightarrow> 0 \<le> v" using e x Some by simp
    then show ?thesis using u q(2) by auto
  qed
qed

lemma tcp_send_refused:
  assumes "tcp_send_timed 0 (Some data) s = Ret v t" and "list_all honest (trace t)" and "v < 0"
  shows "\<exists>u. trace t = trace s @ u \<and> list_ex (send_refused (fd s)) u"
proof -
  obtain ok y where y: "sock_block False s = Ret ok y"
    and k: "(if ok then sock_send (Some data) 0 else ret (- 1)) y = Ret v t"
    using assms(1) by (auto simp: tcp_send_timed_def unless_def elim!: bind_ioE split: if_splits)
  obtain u where u: "fd y = fd s" "trace y = trace s @ u" "\<not> ok \<longrightarrow> list_ex (send_refused (fd s)) u"
    using sock_block_refused [OF y] by blast
  show ?thesis
  proof (cases ok)
    case True
    then obtain w where "trace t = trace y @ w" "list_ex (send_refused (fd y)) w"
      using sock_send_refused [of data y v t] k assms(2,3) by auto
    then show ?thesis using u by auto
  next
    case False
    then show ?thesis using k u by (auto simp: ret_def)
  qed
qed

text \<open>A block that fits is taken whole, unless nothing waits and the system refuses it.\<close>

lemma at_send_whole:
  assumes "at_send env True data s = Ret r s'" and "unflushed (out_buffer s)" and "list_all honest (trace s')"
    and "wpos (out_buffer s) + length data \<le> MAX_BUFFER_SIZE"
  shows "r = int (length data)
    \<or> r = - 1 \<and> sb_empty (out_buffer s) \<and> (\<exists>u. trace s' = trace s @ u \<and> list_ex (send_refused (fd s)) u)"
proof -
  have len: "length data < 2 ^ 63" using assms(4) by (simp add: MAX_BUFFER_SIZE_def)
  obtain v t u q where v: "(if sb_empty (out_buffer s) then tcp_send_timed 0 (Some data) else ret 0) s = Ret v t"
    and w: "(if of_ssize v < length data
         then bind_io (out_write (drop (if v < 0 then 0 else nat v) data)) (\<lambda>ok. ret (if ok then int (length data) else v))
         else ret v) t = Ret r u"
    and e: "(if sb_empty (out_buffer u) then ret True else quiet (at_enable_writing env True)) u = Ret q s'"
    using assms(1) by (auto simp: at_send_def gets_def fail_def ret_def elim!: bind_ioE split: if_splits)
  obtain x where x: "trace s' = trace u @ x"
    using e same_output_at_enable [of env True u q s'] by (auto simp: same_output_def ret_def split: if_splits)
  have ut: "trace u = trace t" using w out_write_state by (fastforce simp: ret_def elim!: bind_ioE split: if_splits)
  then have ht: "list_all honest (trace t)" using assms(3) x by auto
  then have b: "- 1 \<le> v" "v \<le> int (length data)" "out_buffer t = out_buffer s"
    using v tcp_send_now [of data s v t] by (auto simp: ret_def split: if_splits)
  let ?d = "drop (if v < 0 then 0 else nat v) data"
  have uf: "unflushed (out_buffer t)" using b(3) assms(2) by simp
  have small: "length ?d < 2 ^ 63" using len by simp
  show ?thesis
  proof (cases "of_ssize v < length data")
    case True
    then obtain ok where ok: "out_write ?d t = Ret ok u" "r = (if ok then int (length data) else v)"
      using w by (auto simp: ret_def elim!: bind_ioE)
    from uf small have "ok"
    proof (cases rule: out_write_cases)
      case (2)
      then show ?thesis using assms(4) b(3) by simp
    qed (use ok in auto)
    then show ?thesis using ok by simp
  next
    case False
    then have r: "r = v" using w by (simp add: ret_def)
    show ?thesis
    proof (cases "0 \<le> v")
      case True
      then show ?thesis using r False b(2) len of_ssize_nonneg [of v] by simp
    next
      case neg: False
      then have empty: "sb_empty (out_buffer s)" "tcp_send_timed 0 (Some data) s = Ret v t"
        using v by (auto simp: ret_def split: if_splits)
      then obtain y where "trace t = trace s @ y" "list_ex (send_refused (fd s)) y"
        using tcp_send_refused [OF empty(2) ht] neg by auto
      then have "trace s' = trace s @ (y @ x)" "list_ex (send_refused (fd s)) (y @ x)" using x ut by simp_all
      then show ?thesis using r neg b(1) empty(1) by (intro disjI2) (auto intro!: exI [of _ "y @ x"])
    qed
  qed
qed

text \<open>
  C20. A request that is complete is answered with the status line \<open>200 OK\<close> and a blank line,
  behind what waits in the output buffer, in full; only where nothing waits and the system refuses
  to make the socket non-blocking or to send is it not answered. This holds as long as the answer
  fits behind the writing position of the output buffer (19 octets below 1048576; beyond it,
  answers are dropped) and the system is honest about sizes. What follows the request stays in
  the input buffer, and the connection is ready for the next one, but keeps the memory of the
  body.
\<close>

theorem request_answered:
  fixes s :: "('a, 'b http_connection_ext) async_tcp_scheme"
  assumes "http_received env s = Ret () s'" and "hm_from_buffer (request s) (in_buffer s) = Ret True (m, b)"
    and "unflushed (out_buffer s)" and "wpos (out_buffer s) + 19 \<le> MAX_BUFFER_SIZE" and "list_all honest (trace s')"
  shows "(\<exists>u. trace s' = trace s @ u
      \<and> (sent_in (trace s') @ sb_unread (out_buffer s') = sent_in (trace s) @ sb_unread (out_buffer s) @ server_answer
        \<or> sent_in (trace s') @ sb_unread (out_buffer s') = sent_in (trace s) @ sb_unread (out_buffer s)
          \<and> sb_empty (out_buffer s) \<and> list_ex (send_refused (fd s)) u))
    \<and> in_buffer s' = b \<and> request s' = request_reset m \<and> body (request s') = body m"
proof -
  let ?t = "s\<lparr>request := m, in_buffer := b\<rparr>"
  obtain a0 where n: "sb_new DEFAULT_BUFFER_SIZE MAX_BUFFER_SIZE = Ret () a0" "sb_wf a0" "sb_unread a0 = []" "sb_room (length server_answer) a0"
    using new_buffer [of "length server_answer"] by (auto simp: text_lengths)
  obtain a where a: "hm_to_buffer (http_response_new HTTP11) a0 = Ret True a" "sb_extends server_answer a0 a"
    using emitsD [OF emits_server_answer n(2,4)] by blast
  have wf: "sb_wf a" "sb_unread a = server_answer" using sb_extendsD(1) [OF a(2)] sb_extends_unread [OF n(2) a(2)] n(3) by simp_all
  obtain q w where q: "quiet (at_send_buffer env True a) ?t = Ret q w" and s': "s' = w\<lparr>request := request_reset (request w)\<rparr>"
    using assms(1,2) n(1) a(1)
    by (auto simp: http_received_def handle_request_def send_response_def gets_def modify_def ret_def on_buffer_def lift_pure_def
        bind_out_eq_Ret elim!: bind_ioE)
  obtain r c where rc: "q = (r, c)" by (cases q)
  obtain t where t: "at_send env True server_answer (?t\<lparr>err := None\<rparr>) = Ret r t" "w = t\<lparr>err := err ?t\<rparr>"
    using send_buffer_unread [OF q [unfolded rc] wf(1)] wf(2) by auto
  have h: "list_all honest (trace t)" using assms(5) s' t(2) by simp
  have uf: "unflushed (out_buffer (?t\<lparr>err := None\<rparr>))" using assms(3) by simp
  have whole: "r = int (length server_answer) \<or> r = - 1 \<and> sb_empty (out_buffer s)
      \<and> (\<exists>u. trace t = trace s @ u \<and> list_ex (send_refused (fd s)) u)"
    using at_send_whole [OF t(1) uf h] assms(4) by (simp add: text_lengths)
  have c: "carries (take (nat r) server_answer) (?t\<lparr>err := None\<rparr>) t"
    by (rule at_send_carries [OF t(1) _ uf h]) (simp add: text_lengths)
  have out: "sent_in (trace s') @ sb_unread (out_buffer s')
      = sent_in (trace s) @ sb_unread (out_buffer s) @ take (nat r) server_answer"
    using carriesD(2) [OF c uf h] s' t(2) by simp
  obtain u where u: "trace t = trace s @ u" using carries_ext [OF c] by auto
  have tr: "trace s' = trace t" using s' t(2) by simp
  have "leaves keeps_request (at_send env True server_answer :: (int, 'a, 'b) http_io)"
    by (intro frame_rules TrueI)
  from leavesD [OF this t(1)] have kept: "in_buffer t = b \<and> request t = m" by (simp add: keeps_request_def)
  have "\<exists>u. trace s' = trace s @ u
      \<and> (sent_in (trace s') @ sb_unread (out_buffer s') = sent_in (trace s) @ sb_unread (out_buffer s) @ server_answer
        \<or> sent_in (trace s') @ sb_unread (out_buffer s') = sent_in (trace s) @ sb_unread (out_buffer s)
          \<and> sb_empty (out_buffer s) \<and> list_ex (send_refused (fd s)) u)"
    using whole
  proof
    assume "r = int (length server_answer)"
    then show ?thesis using out u tr by (intro exI [of _ u]) simp
  next
    assume "r = - 1 \<and> sb_empty (out_buffer s) \<and> (\<exists>u. trace t = trace s @ u \<and> list_ex (send_refused (fd s)) u)"
    then show ?thesis using out tr by auto
  qed
  then show ?thesis using kept s' t(2) by (auto simp: request_reset_def hm_reset_def Let_def)
qed

subsection \<open>What stops the server\<close>

lemma received_faults: "hm_from_buffer (request s) (in_buffer s) = Fault x \<Longrightarrow> http_received env s = Fault x"
  by (simp add: http_received_def io_simps)

text \<open>
  C40. The client and the server of the repository cannot talk to each other: the request the
  client packs, once it has arrived, makes the server construct a string from the null pointer,
  and so does the answer of the server at the client. Neither has a Content-Length.
\<close>

theorem client_and_server_fault:
  assumes "sb_wf b" and "sb_room 27 b" and "sb_unread b = []"
    and "hm_to_buffer (http_request_new_url ''GET'' ''google.com'' HTTP11) b = Ret ok c"
    and "sb_wf (in_buffer s)" and "request s = http_request_new HTTP11" and "sb_unread (in_buffer s) = sb_unread c"
    and "hm_to_buffer (http_response_new HTTP11) b = Ret ok' d" and "sb_wf e" and "sb_unread e = sb_unread d"
  shows "http_received env s = Fault LogicErrorThrown
    \<and> hm_from_buffer (http_response_new HTTP11) e = Fault LogicErrorThrown"
proof -
  have room: "sb_room (length client_question) b" "sb_room (length server_answer) b" using assms(2) by (simp_all add: text_lengths sb_room_def)
  have "sb_extends client_question b c" using emitsD [OF emits_client_question assms(1) room(1)] assms(4) by auto
  then have u: "sb_unread (in_buffer s) = client_question" using sb_extends_unread [OF assms(1)] assms(3,7) by simp
  have "sb_extends server_answer b d" using emitsD [OF emits_server_answer assms(1) room(2)] assms(8) by auto
  then have v: "sb_unread e = server_answer" using sb_extends_unread [OF assms(1)] assms(3,10) by simp
  have "hm_from_buffer (request s) (in_buffer s) = Fault LogicErrorThrown"
    by (rule missing_content_length_throws [where line = "''GET google.com HTTP/1.1''" and hs = "[]" and rest = "[]", OF assms(5)])
      (use u assms(6) in \<open>simp_all add: http_request_new_def hm_new_def text_line_def CRLF_def client_question_def\<close>)
  moreover have "hm_from_buffer (http_response_new HTTP11) e = Fault LogicErrorThrown"
    by (rule missing_content_length_throws [where line = "''HTTP/1.1 200 OK''" and hs = "[]" and rest = "[]", OF assms(9)])
      (use v in \<open>simp_all add: http_response_new_def hm_new_def text_line_def CRLF_def server_answer_def\<close>)
  ultimately show ?thesis using received_faults by blast
qed

text \<open>
  A connection that has served a request with a body keeps its memory: a later request with
  a longer body, as soon as the body is there, is copied beyond it.
\<close>

theorem longer_body_overflows:
  assumes "sb_wf (in_buffer s)" and "request s = request_reset m" and "body m = Some p"
    and "line \<noteq> []" and "text_line line" and "list_all hf_ok hs" and "distinct (map fst hs)"
    and "get_field ''Content-Length'' hs = Some v" and "extract_long v = int n"
    and "sb_unread (in_buffer s) = line @ CRLF @ concat (map hf_wire hs) @ CRLF @ rest"
    and "length p < n" and "n \<le> 2 + length rest"
  shows "http_received env s = Fault OutOfBounds"
proof -
  let ?m = "request_reset m"
  have m: "state ?m = READY" "headers ?m = []" "body ?m = Some p"
    using assms(3) by (simp_all add: request_reset_def hm_reset_def Let_def)
  obtain c where c: "sb_wf c" "sb_unread c = CRLF @ rest" "hm_from_buffer ?m (in_buffer s) =
      bind_out (hm_end_headers ((parsed line hs ?m)\<lparr>state := HEADER\<rparr>)) (\<lambda>_ m1.
        bind_out (if state m1 = BODY then hm_read_body reader_on (m1, c) else Ret () (m1, c)) (\<lambda>_ s.
          if state (fst s) = DONE then Ret True (fst s, snd (sb_flush (snd s))) else Ret False s))"
    using from_buffer_head [OF assms(1) m(1,2) assms(4-7,10)] by blast
  have small: "n < 2 ^ 64" using assms(12) c(2) length_sb_unread [OF c(1)] sb_wfD(6) [OF c(1)] by (simp add: CRLF_facts)
  have e: "hm_end_headers ((parsed line hs ?m)\<lparr>state := HEADER\<rparr>) = Ret () ((parsed line hs ?m)\<lparr>body_len := n, state := BODY\<rparr>)"
    using end_headers_len [of "(parsed line hs ?m)\<lparr>state := HEADER\<rparr>" v n] assms(8,9,11) small by (simp add: parsed_fields)
  have "n \<le> length (sb_unread c)" using assms(12) c(2) by (simp add: CRLF_facts)
  then have "hm_read_body reader_on ((parsed line hs ?m)\<lparr>body_len := n, state := BODY\<rparr>, c) = Fault OutOfBounds"
    using assms(11) m(3)
    by (auto simp: hm_read_body_def Let_def sr_bytes_def sb_readable_unread [OF c(1)] sb_read_wf [OF c(1)] parsed_fields)
  then show ?thesis using c(3) e assms(2) by (simp add: received_faults)
qed

subsection \<open>Instances\<close>

definition demo_text :: "char list \<Rightarrow> char list \<Rightarrow> stream_buffer" where
  "demo_text n rest = (let t = ''PUT / HTTP/1.1'' @ CRLF @ ''Content-Length:'' @ n @ CRLF @ CRLF @ rest in
     \<lparr>bytes = t, limit = MAX_BUFFER_SIZE, opos = 0, rpos = 0, wpos = length t\<rparr>)"

lemma demo_text_facts:
  "length n + length rest \<le> 100 \<Longrightarrow> sb_wf (demo_text n rest)"
  "sb_unread (demo_text n rest) = ''PUT / HTTP/1.1'' @ CRLF @ concat (map hf_wire [(''Content-Length'', n)]) @ CRLF @ rest"
  by (auto simp: demo_text_def Let_def sb_wf_def vec_max_def MAX_BUFFER_SIZE_def CRLF_def sb_unread_def slice_def hf_wire_def hf_line_def)

definition demo_http :: "http_message \<Rightarrow> stream_buffer \<Rightarrow> reply list \<Rightarrow> unit http_connection" where
  "demo_http m b rs = async_tcp.extend ((demo_async [] demo_handler_loop rs)\<lparr>in_buffer := b\<rparr>) \<lparr>request = m, released = False\<rparr>"

lemma demo_http_facts:
  "in_buffer (demo_http m b rs) = b" "request (demo_http m b rs) = m" "out_buffer (demo_http m b rs) = out_buffer (demo_async [] demo_handler_loop rs)"
  "replies (demo_http m b rs) = rs" "trace (demo_http m b rs) = []" "rloop (tcp_reactor (demo_http m b rs)) = Some demo_handler_loop"
  by (simp_all add: demo_http_def demo_async_def async_tcp.extend_def)

theorem longer_body_overflows_witness:
  "http_received idle_env (demo_http (request_reset demo_post) (demo_text ''4'' ''abcd'') []) = Fault OutOfBounds"
proof (rule longer_body_overflows [where line = "''PUT / HTTP/1.1''" and hs = "[(''Content-Length'', ''4'')]" and rest = "''abcd''"])
  show "extract_long ''4'' = int 4" by code_simp
  show "body demo_post = Some ''xyz''" by (simp add: demo_post_def)
qed (simp_all add: demo_http_facts demo_text_facts text_line_def CRLF_def hf_ok_def c_str_def)

theorem client_and_server_fault_witness:
  "\<exists>c d. hm_to_buffer (http_request_new_url ''GET'' ''google.com'' HTTP11) wide_buffer = Ret True c
    \<and> hm_to_buffer (http_response_new HTTP11) wide_buffer = Ret True d
    \<and> http_received idle_env (demo_http (http_request_new HTTP11) c []) = Fault LogicErrorThrown
    \<and> hm_from_buffer (http_response_new HTTP11) d = Fault LogicErrorThrown"
proof -
  obtain c where c: "hm_to_buffer (http_request_new_url ''GET'' ''google.com'' HTTP11) wide_buffer = Ret True c"
    "sb_extends client_question wide_buffer c"
    using emitsD [OF emits_client_question wide_buffer_facts(1)] by (auto simp: wide_buffer_facts text_lengths)
  obtain d where d: "hm_to_buffer (http_response_new HTTP11) wide_buffer = Ret True d" "sb_extends server_answer wide_buffer d"
    using emitsD [OF emits_server_answer wide_buffer_facts(1)] by (auto simp: wide_buffer_facts text_lengths)
  have "http_received idle_env (demo_http (http_request_new HTTP11) c []) = Fault LogicErrorThrown
      \<and> hm_from_buffer (http_response_new HTTP11) d = Fault LogicErrorThrown"
    by (rule client_and_server_fault [OF wide_buffer_facts(1) _ wide_buffer_facts(2) c(1) _ _ _ d(1)])
      (simp_all add: wide_buffer_facts demo_http_facts sb_extendsD(1) [OF c(2)] sb_extendsD(1) [OF d(2)])
  then show ?thesis using c(1) d(1) by blast
qed

theorem request_answered_witness:
  "\<exists>s'. http_received idle_env (demo_http (http_request_new HTTP11) (demo_text ''0'' ''PUT'') [Ok 2, Ok 0, Ok 19]) = Ret () s'
     \<and> sent_in (trace s') = server_answer \<and> body (request s') = None"
proof -
  let ?s = "demo_http (http_request_new HTTP11) (demo_text ''0'' ''PUT'') [Ok 2, Ok 0, Ok 19]"
  let ?m = "(parsed ''PUT / HTTP/1.1'' [(''Content-Length'', ''0'')] (http_request_new HTTP11))\<lparr>body_len := 0, state := DONE\<rparr>"
  have "extract_long ''0'' = int 0" by code_simp
  then have "\<exists>b. hm_from_buffer (http_request_new HTTP11) (demo_text ''0'' ''PUT'') = Ret True (?m, b)"
    using from_buffer_message [where b = "demo_text ''0'' ''PUT''" and m = "http_request_new HTTP11" and line = "''PUT / HTTP/1.1''"
      and hs = "[(''Content-Length'', ''0'')]" and v = "''0''" and n = 0 and rest = "''PUT''"]
    by (simp add: demo_text_facts http_request_new_def hm_new_def text_line_def CRLF_def hf_ok_def c_str_def) blast
  then obtain b where m: "hm_from_buffer (request ?s) (in_buffer ?s) = Ret True (?m, b)" by (auto simp: demo_http_facts)
  have "\<exists>t. hm_string ?m = Ret t ()" 
    by (simp add: hm_string_def parsed_def http_request_new_def hm_new_def next_word_def or_else_def is_space_def)
  then obtain x where x: "hm_string ?m = Ret x ()" by blast
  obtain a0 where n: "sb_new DEFAULT_BUFFER_SIZE MAX_BUFFER_SIZE = Ret () a0" "sb_wf a0" "sb_unread a0 = []" "sb_room (length server_answer) a0"
    using new_buffer [of "length server_answer"] by (auto simp: text_lengths)
  obtain a where a: "hm_to_buffer (http_response_new HTTP11) a0 = Ret True a" "sb_extends server_answer a0 a"
    using emitsD [OF emits_server_answer n(2,4)] by blast
  have wf: "sb_wf a" "sb_unread a = server_answer" using sb_extendsD(1) [OF a(2)] sb_extends_unread [OF n(2) a(2)] n(3) by simp_all
  have "\<exists>s' f. http_received idle_env ?s = Ret () s' \<and> trace s' = [(SysGetFlags 5, Ok 2), (SysSetFlags 5 f, Ok 0), (SysSend 5 server_answer 0, Ok 19)]"
    using m x n(1) a(1) readable_block_unread [OF wf(1)] wf(2)
    by (simp add: http_received_def handle_request_def send_response_def run_simps demo_http_facts on_buffer_def lift_pure_def
        at_send_buffer_def send_buffer_def at_send_def tcp_send_timed_def sock_send_def sock_block_def checked_def unless_def
        demo_http_def demo_async_def async_tcp.extend_def text_lengths sb_empty_def of_ssize_def)
  then obtain s' f where s': "http_received idle_env ?s = Ret () s'"
    and t: "trace s' = [(SysGetFlags 5, Ok 2), (SysSetFlags 5 f, Ok 0), (SysSend 5 server_answer 0, Ok 19)]"
    by blast
  have "unflushed (out_buffer ?s)" "wpos (out_buffer ?s) = 0"
    by (simp_all add: demo_http_facts demo_async_facts MAX_BUFFER_SIZE_def)
  then have "wpos (out_buffer ?s) + 19 \<le> MAX_BUFFER_SIZE" "list_all honest (trace s')"
    by (simp_all add: t text_lengths MAX_BUFFER_SIZE_def)
  from request_answered [OF s' m \<open>unflushed (out_buffer ?s)\<close> this] have "body (request s') = body ?m"
    by (elim conjE)
  then show ?thesis using s' t by (auto simp: text_lengths parsed_fields http_request_new_def hm_new_def)
qed

subsection \<open>The map of the server\<close>

text \<open>A connection keeps its descriptor as long as it lives, and has none once it is deleted.\<close>

definition http_keeps :: "('u, 'a http_connection_ext) async_tcp_scheme \<Rightarrow> ('u, 'a http_connection_ext) async_tcp_scheme \<Rightarrow> bool" where
  "http_keeps s s' \<longleftrightarrow> (fd s' = fd s \<and> released s' = released s) \<or> (released s' \<and> fd s' = INVALID_SOCKET)"

interpretation http_life: stream_frame "http_keeps :: ('u, 'a http_connection_ext) async_tcp_scheme \<Rightarrow> _" "\<lambda>_. True"
  by unfold_locales (auto simp: http_keeps_def log_reply_def)

definition http_alive :: "('u, 'a http_connection_ext) async_tcp_scheme \<Rightarrow> ('u, 'a http_connection_ext) async_tcp_scheme \<Rightarrow> bool" where
  "http_alive s s' \<longleftrightarrow> fd s' = fd s \<and> released s' = released s"

interpretation http_live: stream_frame "http_alive :: ('u, 'a http_connection_ext) async_tcp_scheme \<Rightarrow> _" "\<lambda>_. True"
  by unfold_locales (auto simp: http_alive_def log_reply_def)

definition http_mark :: "('u, 'a http_connection_ext) async_tcp_scheme \<Rightarrow> ('u, 'a http_connection_ext) async_tcp_scheme \<Rightarrow> bool" where
  "http_mark s s' \<longleftrightarrow> released s' = released s"

interpretation http_marked: stream_frame "http_mark :: ('u, 'a http_connection_ext) async_tcp_scheme \<Rightarrow> _" "\<lambda>_. True"
  by unfold_locales (auto simp: http_mark_def log_reply_def)

lemma mark_put [frame_rules]: "leaves http_mark (put_fd d)"
  by (auto intro!: leavesI simp: put_fd_def http_mark_def)

lemma mark_delete: "leaves http_mark (at_delete env others inl)"
  unfolding at_delete_def at_isolate_def sock_delete_def sock_close_def close_socket_def by (intro frame_rules; simp)

lemma received_keeps: "leaves http_keeps (http_received env)"
proof -
  have F: "leaves http_keeps (\<lambda>s. bind_out (hm_from_buffer m b) (\<lambda>ok (m, b). Ret ok (s\<lparr>request := m, in_buffer := b\<rparr>)))"
    and G: "leaves http_keeps (modify (\<lambda>s. s\<lparr>request := request_reset (request s)\<rparr>))" for m b
    by (auto intro!: leavesI simp: http_keeps_def modify_def bind_out_eq_Ret split: prod.splits)
  show ?thesis
    unfolding http_received_def handle_request_def send_response_def by (intro frame_rules F G TrueI)
qed

lemma connected_keeps: "leaves http_keeps (http_connected env others ks k c)"
proof (rule leavesI)
  fix s u s'
  assume "http_connected env others ks k c s = Ret u s'"
  then have "s' = s \<or> at_delete env others True (s\<lparr>released := True\<rparr>) = Ret u s'"
    by (auto simp: http_connected_def ret_def get_fd_def modify_def fail_def elim!: bind_ioE split: if_splits)
  then show "http_keeps s s'" using leavesD [OF mark_delete] at_delete_fd
    by (fastforce simp: http_keeps_def http_mark_def)
qed

definition keyed :: "(int \<times> 'u http_connection) list \<Rightarrow> bool" where
  "keyed cs \<longleftrightarrow> sorted_wrt (<) (map fst cs) \<and> list_all (\<lambda>(k, x). fd x = k \<and> \<not> released x) cs"

lemma keyed_insert:
  assumes "keyed cs" and "fd x = k" and "\<not> released x"
  shows "keyed (map_insert k x cs)"
proof -
  have "set (map_insert k x cs) \<subseteq> insert (k, x) (set cs)" for cs :: "(int \<times> 'a http_connection) list"
    by (induction k x cs rule: map_insert.induct) auto
  moreover have "sorted_wrt (<) (map fst cs) \<Longrightarrow> sorted_wrt (<) (map fst (map_insert k x cs))
      \<and> fst ` set (map_insert k x cs) = insert k (fst ` set cs)" for cs :: "(int \<times> 'a http_connection) list"
    by (induction k x cs rule: map_insert.induct) auto
  ultimately show ?thesis using assms unfolding keyed_def list_all_iff by blast
qed

lemma keyed_filter: "keyed cs \<Longrightarrow> keyed (filter P cs)"
  by (induction cs) (auto simp: keyed_def list_all_iff)

lemma http_more_fields:
  "async_tcp.more t = async_tcp.more x \<Longrightarrow> released t = released x"
  "async_acceptor.more s' = async_acceptor.more s \<Longrightarrow> http_connections s' = http_connections s"
  by (cases t; cases x; simp) (cases s; cases s'; simp)

lemma run_http:
  assumes "run_connection m x s = Ret (r, y) s'"
  shows "\<exists>t. m t = Ret r y \<and> fd t = fd x \<and> released t = released x \<and> http_connections s' = http_connections s"
  using run_connection_effect [OF assms] http_more_fields by blast

lemma http_on_keyed:
  assumes "http_on k m s = Ret u s'" and "leaves http_keeps m" and "keyed (http_connections s)"
  shows "keyed (http_connections s')"
proof -
  obtain x r y t where x: "map_of (http_connections s) k = Some x" and r: "run_connection m x s = Ret (r, y) t"
    and s': "http_connections s' = (if released y then filter (\<lambda>c. fst c \<noteq> k) (http_connections s) else map_insert k y (http_connections s))"
    using assms(1) by (auto simp: http_on_def gets_def modify_def fail_def elim!: bind_ioE split: option.splits)
  have "fd x = k" "\<not> released x" using map_of_SomeD [OF x] assms(3) by (auto simp: keyed_def list_all_iff)
  then have "released y \<or> fd y = k" using run_http [OF r] leavesD [OF assms(2)] by (fastforce simp: http_keeps_def)
  then show ?thesis using s' assms(3) by (cases "released y") (auto intro: keyed_insert keyed_filter)
qed

lemma http_new_effect:
  "http_connection_new L d a s = Ret u s' \<Longrightarrow> fd s' = d \<and> \<not> released s'"
  by (auto simp: http_connection_new_def modify_def elim!: bind_ioE dest!: at_new_connected_effect)

lemma http_accepted_keyed:
  assumes "http_accepted env blank v a s = Ret taken s'" and "keyed (http_connections s)"
  shows "keyed (http_connections s')"
proof -
  obtain L q x t r y w where r: "run_connection (http_connection_new L v a) blank s = Ret (q, x) t"
    "run_connection (throwing Not (at_connected env True)) x t = Ret (r, y) w"
    and s': "http_connections s' = map_insert v y (http_connections s)"
    using assms(1)
    by (auto simp: http_accepted_def gets_def modify_def fail_def ret_def elim!: bind_ioE split: if_splits sum.splits)
  have x: "fd x = v" "\<not> released x" using run_http [OF r(1)] http_new_effect by blast+
  have "leaves http_alive (throwing Not (at_connected env True) :: (exception + bool, 'a, unit) http_io)"
    by (intro frame_rules TrueI)
  then have "fd y = v" "\<not> released y" using x run_http [OF r(2)] leavesD by (fastforce simp: http_alive_def)+
  then show ?thesis using s' assms(2) by (auto intro: keyed_insert)
qed

definition same_http :: "('u, ('u, 'a) http_server_ext) async_acceptor_scheme \<Rightarrow> ('u, ('u, 'a) http_server_ext) async_acceptor_scheme \<Rightarrow> bool" where
  "same_http s s' \<longleftrightarrow> http_connections s' = http_connections s"

interpretation http_rest: reactor_frame "same_http :: ('u, ('u, 'a) http_server_ext) async_acceptor_scheme \<Rightarrow> _"
    "\<lambda>_. True" acc_reactor acc_reactor_update
  by unfold_locales (simp_all add: same_http_def log_reply_def)

lemma http_accepting_keyed:
  assumes "aa_on_read (Some (http_accepted env blank)) d s = Ret u s'" and "keyed (http_connections s)"
  shows "keyed (http_connections s')"
proof -
  obtain v a t where t: "quiet (sock_accept_from (Some addr_new)) s = Ret (v, a) t"
    and k: "(if v \<noteq> INVALID_SOCKET
       then bind_io (http_accepted env blank v (case a of None \<Rightarrow> addr_new | Some a \<Rightarrow> a)) (\<lambda>taken.
         if taken then ret () else bind_io (quiet (close_socket v)) (\<lambda>_. ret ()))
       else ret ()) t = Ret u s'"
    using assms(1) by (auto simp: aa_on_read_def get_fd_def fail_def elim!: bind_ioE split: if_splits)
  have A: "leaves same_http (quiet (sock_accept_from (Some addr_new)) :: (int \<times> address option, 'a, 'b) http_server_io)"
    by (intro frame_rules TrueI)
  have C: "leaves same_http (quiet (close_socket v) :: (bool, 'a, 'b) http_server_io)"
    unfolding close_socket_def by (intro frame_rules TrueI)
  have t': "keyed (http_connections t)" using leavesD [OF A t] assms(2) by (simp add: same_http_def)
  show ?thesis
  proof (cases "v = INVALID_SOCKET")
    case True
    then show ?thesis using k t' by (simp add: ret_def)
  next
    case False
    then obtain taken w where w: "http_accepted env blank v (case a of None \<Rightarrow> addr_new | Some a \<Rightarrow> a) t = Ret taken w"
      and e: "(if taken then ret () else bind_io (quiet (close_socket v)) (\<lambda>_. ret ())) w = Ret u s'"
      using k by (auto elim!: bind_ioE)
    have "http_connections s' = http_connections w"
      using e leavesD [OF C] by (auto simp: ret_def same_http_def elim!: bind_ioE split: if_splits)
    then show ?thesis using http_accepted_keyed [OF w t'] by simp
  qed
qed

text \<open>
  C21. The map of the HTTP server: through any events of the loop, whatever the system replies,
  its keys are ascending, each is the descriptor of its connection, and none of the connections
  in it is deleted. So the search in \<open>OnConnected\<close> finds the connection itself.
\<close>

theorem http_map_keyed:
  assumes "http_serve env others blank es s = Ret () s'" and "keyed (http_connections s)"
  shows "keyed (http_connections s')"
  using assms
proof (induction es arbitrary: s)
  case Nil
  then show ?case by (simp add: ret_def)
next
  case (Cons e es)
  have W: "leaves http_keeps (at_on_write env :: (unit, 'a, unit) http_io)" by (intro frame_rules TrueI)
  have R: "leaves http_keeps (at_on_read env (Some (http_received env)) (Some (http_connected env others ks k)))" for ks k
    by (intro http_life.leaves_reading received_keeps connected_keeps TrueI)
  have "\<exists>t. keyed (http_connections t) \<and> http_serve env others blank es t = Ret () s'"
  proof (cases e)
    case ClientWaits
    then show ?thesis using Cons.prems by (auto simp: get_fd_def elim!: bind_ioE dest: http_accepting_keyed)
  next
    case (RequestArrives k)
    then show ?thesis using Cons.prems http_on_keyed [OF _ R] by (fastforce simp: http_readable_def gets_def elim!: bind_ioE)
  next
    case (ResponseLeaves k)
    then show ?thesis using Cons.prems http_on_keyed [OF _ W] by (fastforce elim!: bind_ioE)
  qed
  then show ?case using Cons.IH by blast
qed

definition demo_http_server :: "reply list \<Rightarrow> unit http_server" where
  "demo_http_server rs = \<lparr>fd = 5, err = None, replies = rs, waits = [], errno = 0, trace = [],
     acc_address = addr_new, acc_reuse_addr = True, acc_reuse_port = True, acc_backlog = 5,
     acc_reactor = \<lparr>rloop = Some (demo_wake_loop 9), rhandler = None, allocations = [Some 3]\<rparr>, http_connections = []\<rparr>"

theorem http_map_keyed_witness:
  "\<exists>s'. http_serve idle_env (Ret ()) (demo_http (http_request_new HTTP11) demo_block []) [ClientWaits]
       (demo_http_server [Done 6 [] demo_peer, Ok 1, Done 0 [] demo_peer, Ok 2, Ok 0]) = Ret () s'
     \<and> map fst (http_connections s') = [6] \<and> keyed (http_connections s')"
proof -
  let ?s = "demo_http_server [Done 6 [] demo_peer, Ok 1, Done 0 [] demo_peer, Ok 2, Ok 0]"
  obtain s' where s': "http_serve idle_env (Ret ()) (demo_http (http_request_new HTTP11) demo_block []) [ClientWaits] ?s = Ret () s'"
    "map fst (http_connections s') = [6]"
    by (simp add: demo_http_server_def http_accepted_def http_connection_new_def demo_http_def demo_async_def async_tcp.extend_def
        demo_wake_loop_def session_simps)
  have "keyed (http_connections ?s)" by (simp add: demo_http_server_def keyed_def)
  from http_map_keyed [OF s'(1) this] show ?thesis by (intro exI [of _ s'] conjI s')
qed

end
