(* ===== verification/HttpLedger.thy ===== *)
theory HttpLedger
  imports HttpRuns
begin

text \<open>
  The descriptors of the HTTP server, on the accounts of theory \<open>ServerBooks\<close>: those of the
  acceptor and of the connections of the map, while the server is at work and at its end.
\<close>

subsection \<open>The events of a connection\<close>

definition same_transport :: "('u, 'a http_connection_ext) async_tcp_scheme \<Rightarrow> ('u, 'a http_connection_ext) async_tcp_scheme \<Rightarrow> bool" where
  "same_transport s s' \<longleftrightarrow> fd s' = fd s \<and> trace s' = trace s"

lemma transport_received:
  "leaves same_transport (\<lambda>s. bind_out (hm_from_buffer m b) (\<lambda>ok (m, b). Ret ok (s\<lparr>request := m, in_buffer := b\<rparr>)))"
  "leaves same_transport (modify (\<lambda>s. s\<lparr>request := request_reset (request s)\<rparr>))"
  "leaves same_transport (modify (\<lambda>s. s\<lparr>released := True\<rparr>))"
  by (auto intro!: leavesI simp: same_transport_def modify_def bind_out_eq_Ret split: prod.splits)

lemma transport_frames:
  "leaves same_transport m \<Longrightarrow> leaves (balanced {#} {#}) m" "leaves same_transport m \<Longrightarrow> leaves same_accepted m"
  by (rule leavesI, drule (1) leavesD, simp add: same_transport_def balanced_def owns_def same_accepted_def)+

lemmas ledger_received [frame_rules] = transport_received [THEN transport_frames(1)] transport_received [THEN transport_frames(2)]

lemma http_event_frames:
  "leaves (balanced {#} {#}) (at_on_read env (Some (http_received env)) (Some (http_connected env others ks k)))"
  "leaves same_accepted (at_on_read env (Some (http_received env)) (Some (http_connected env others ks k)))"
proof -
  have "leaves (balanced {#} {#}) (http_received env)" "leaves same_accepted (http_received env)"
    unfolding http_received_def handle_request_def send_response_def by (intro frame_rules; simp)+
  moreover have "leaves (balanced {#} {#}) (http_connected env others ks k False)" "leaves same_accepted (http_connected env others ks k False)"
    unfolding http_connected_def by (intro frame_rules)+
  ultimately show "leaves (balanced {#} {#}) (at_on_read env (Some (http_received env)) (Some (http_connected env others ks k)))"
    "leaves same_accepted (at_on_read env (Some (http_received env)) (Some (http_connected env others ks k)))"
    by (intro conn_ledger.leaves_reading conn_accepts.leaves_reading; simp)+
qed

subsection \<open>The map\<close>

lemma held_insert:
  "map_of cs k = None \<Longrightarrow> held (map_insert k y cs) = held cs + owns y"
  "sorted_wrt (<) (map fst cs) \<Longrightarrow> map_of cs k = Some x \<Longrightarrow> held (map_insert k y cs) + owns x = held cs + owns y"
proof -
  show "map_of cs k = None \<Longrightarrow> held (map_insert k y cs) = held cs + owns y"
    by (induction k y cs rule: map_insert.induct) (auto simp: held_def ac_simps split: if_splits)
  show "sorted_wrt (<) (map fst cs) \<Longrightarrow> map_of cs k = Some x \<Longrightarrow> held (map_insert k y cs) + owns x = held cs + owns y"
    by (induction k y cs rule: map_insert.induct)
      (auto simp: held_def ac_simps split: if_splits dest!: map_of_SomeD dest: bspec)
qed

lemma held_filter:
  fixes cs :: "(int \<times> 'a net_scheme) list"
  shows "sorted_wrt (<) (map fst cs) \<Longrightarrow> map_of cs k = Some x \<Longrightarrow> held (filter (\<lambda>c. fst c \<noteq> k) cs) + owns x = held cs"
proof (induction cs)
  case (Cons c cs)
  show ?case
  proof (cases "fst c = k")
    case True
    then have "filter (\<lambda>c. fst c \<noteq> k) cs = cs" using Cons.prems(1) by (auto simp: filter_id_conv)
    then show ?thesis using True Cons.prems(2) by (cases c) (simp add: held_def ac_simps)
  next
    case False
    then show ?thesis using Cons by (cases c) (auto simp: held_def ac_simps)
  qed
qed simp

definition http_hold :: "('u, ('u, 'a) http_server_ext) holder" where
  "http_hold s = held (http_connections s)"

definition http_keyed :: "('u, ('u, 'a) http_server_ext) async_acceptor_scheme \<Rightarrow> bool" where
  "http_keyed s \<longleftrightarrow> keyed (http_connections s)"

interpretation http_books: server_books http_hold http_keyed
  by unfold_locales (auto simp: same_books_def http_hold_def http_keyed_def log_reply_def)

subsection \<open>The events of the server\<close>

lemma http_on_settled:
  assumes "http_on k m s = Ret u s'" and "leaves (balanced {#} {#}) m" and "leaves same_accepted m" and "leaves http_keeps m"
    and "http_keyed s"
  shows "settles http_hold {#} s s' \<and> http_keyed s'"
proof -
  obtain x r y t where x: "map_of (http_connections s) k = Some x" and r: "run_connection m x s = Ret (r, y) t"
    and s': "s' = t\<lparr>http_connections := if released y then filter (\<lambda>c. fst c \<noteq> k) (http_connections s)
       else map_insert k y (http_connections s)\<rparr>"
    using assms(1) by (auto simp: http_on_def gets_def modify_def fail_def elim!: bind_ioE split: option.splits)
  obtain v where v: "m v = Ret r y" "fd v = fd x" "released v = released x" "fd t = fd s"
    using run_connection_effect [OF r] http_more_fields(1) by blast
  have sorted: "sorted_wrt (<) (map fst (http_connections s))" and "\<not> released x"
    using assms(5) map_of_SomeD [OF x] by (auto simp: http_keyed_def keyed_def list_all_iff)
  then have "released y \<Longrightarrow> owns y = {#}" using leavesD [OF assms(4) v(1)] v(3) by (auto simp: http_keeps_def owns_def)
  then have "http_hold s' + owns x = http_hold s + owns y"
    using s' held_filter [OF sorted x] held_insert(2) [OF sorted x, of y] by (simp add: http_hold_def)
  then have "settles http_hold {#} s s'" using v(4) s' by (intro ledger_settles [OF r assms(2,3)]) simp_all
  then show ?thesis using http_on_keyed [OF assms(1,4)] assms(5) by (simp add: http_keyed_def)
qed

lemma http_new_trace: "http_connection_new L d a s = Ret u s' \<Longrightarrow> trace s' = trace s"
  by (auto simp: http_connection_new_def modify_def elim!: bind_ioE dest!: at_new_connected_effect)

lemma http_accepted_takes_over: "takes_over http_hold http_keyed (http_accepted env blank)"
  unfolding takes_over_def
proof (intro allI impI, elim conjE)
  fix v a s r s'
  assume acc: "http_accepted env blank v a s = Ret r s'" and key: "http_keyed s"
  obtain L q x t p y w where new: "run_connection (http_connection_new L v a) blank s = Ret (q, x) t"
    and con: "run_connection (throwing Not (at_connected env True)) x t = Ret (p, y) w" and v: "v \<noteq> INVALID_SOCKET"
    and none: "map_of (http_connections s) v = None" and r
    and s': "s' = w\<lparr>http_connections := map_insert v y (http_connections s)\<rparr>"
    using acc
    by (auto simp: http_accepted_def gets_def modify_def fail_def ret_def elim!: bind_ioE split: if_splits sum.splits)
  obtain b where b: "http_connection_new L v a b = Ret q x" "trace b = trace s" "trace t = trace x" "fd t = fd s"
    using run_connection_effect [OF new] by blast
  have t: "trace t = trace s" "owns x = {#v#}"
    using b(2,3) http_new_trace [OF b(1)] http_new_effect [of L v a b q x] b(1) v by (simp_all add: owns_def)
  have F: "leaves (balanced {#} {#}) (throwing Not (at_connected env True) :: (exception + bool, 'a, unit) http_io)"
    "leaves same_accepted (throwing Not (at_connected env True) :: (exception + bool, 'a, unit) http_io)"
    by (intro frame_rules; simp)+
  obtain O' C' where c: "opened_in (trace w) = opened_in (trace t) + O'" "closed_in (trace w) = closed_in (trace t) + C'"
    "accepted_in (trace w) = accepted_in (trace t)" "{#v#} + O' = owns y + C'"
    using run_connection_ledger [OF con F] t(2) by auto
  have "fd w = fd s" using run_connection_effect [OF con] b(4) by auto
  then have own: "owns s' = owns s" "http_hold s' = http_hold s + owns y"
    using held_insert(1) [OF none, of y] s' by (simp_all add: http_hold_def owns_def)
  have "owns s + http_hold s + O' + {#v#} = owns s + http_hold s + ({#v#} + O')" by (simp add: ac_simps)
  also have "\<dots> = owns s' + http_hold s' + C'" unfolding c(4) own by (simp add: ac_simps)
  finally have "settles http_hold {#v#} s s'" unfolding settles_def using c(1-3) s' t(1)
    by (intro exI [of _ O'] exI [of _ C'] exI [of _ "{#}"]) simp
  then show "settles http_hold (if r then as_set v else {#}) s s' \<and> http_keyed s'"
    using \<open>r\<close> v http_accepted_keyed [OF acc] key by (simp add: as_set_def http_keyed_def)
qed

lemma http_serve_settled:
  "http_serve env others blank es s = Ret u s' \<Longrightarrow> http_keyed s \<Longrightarrow> settles http_hold {#} s s' \<and> http_keyed s'"
proof (induction es arbitrary: s)
  case Nil
  then show ?case by (simp add: ret_def settles_refl)
next
  case (Cons e es)
  have R: "leaves http_keeps (at_on_read env (Some (http_received env)) (Some (http_connected env others ks k)))" for ks k
    by (intro http_life.leaves_reading received_keeps connected_keeps TrueI)
  have "\<exists>t. settles http_hold {#} s t \<and> http_keyed t \<and> http_serve env others blank es t = Ret u s'"
  proof (cases e)
    case ClientWaits
    then obtain v t where "aa_on_read (Some (http_accepted env blank)) (fd s) s = Ret v t" "http_serve env others blank es t = Ret u s'"
      using Cons.prems(1) by (auto simp: get_fd_def elim!: bind_ioE)
    then show ?thesis using http_books.accepting_settled http_accepted_takes_over Cons.prems(2) by blast
  next
    case (RequestArrives k)
    then obtain v t where t: "http_readable env others k s = Ret v t" "http_serve env others blank es t = Ret u s'"
      using Cons.prems(1) by (auto elim!: bind_ioE)
    then obtain ks where "http_on k (at_on_read env (Some (http_received env)) (Some (http_connected env others ks k))) s = Ret v t"
      by (auto simp: http_readable_def gets_def elim!: bind_ioE)
    from http_on_settled [OF this http_event_frames R Cons.prems(2)] t(2) show ?thesis by blast
  next
    case (ResponseLeaves k)
    then obtain v t where t: "http_on k (at_on_write env) s = Ret v t" "http_serve env others blank es t = Ret u s'"
      using Cons.prems(1) by (auto elim!: bind_ioE)
    have "leaves (balanced {#} {#}) (at_on_write env :: (unit, 'a, unit) http_io)"
      "leaves same_accepted (at_on_write env :: (unit, 'a, unit) http_io)" "leaves http_keeps (at_on_write env :: (unit, 'a, unit) http_io)"
      by (intro frame_rules; simp)+
    from http_on_settled [OF t(1) this Cons.prems(2)] t(2) show ?thesis by blast
  qed
  then show ?case using Cons.IH settles_step by blast
qed

subsection \<open>The whole program\<close>

lemma http_delete_connections_settled:
  "http_delete_connections env others xs s = Ret u s' \<Longrightarrow> disposes (sum_list (map owns xs)) s s'"
  by (induction xs arbitrary: s) (auto simp: ret_def elim!: bind_ioE intro: disposes_more)

lemma http_server_new_effect:
  "http_server_new L a s = Ret u s' \<Longrightarrow> trace s' = trace s \<and> fd s' = INVALID_SOCKET \<and> http_connections s' = []"
  by (auto simp: http_server_new_def aa_new_address_def aa_init_def acc_new_address_def acc_init_def modify_def
      fail_def ret_def bind_out_eq_Ret elim!: bind_ioE split: if_splits)

lemma make_address_state: "make_address m s = Ret a s' \<Longrightarrow> s' = s"
  by (auto simp: make_address_def fail_def ret_def bind_out_eq_Ret elim!: bind_ioE split: outcome.splits)

text \<open>From the constructor to any point at which the loop is at work.\<close>

lemma http_session_settled:
  assumes "http_session I env others blank args es L s = Ret x s'"
  shows "\<exists>t. settles http_hold {#} t s' \<and> http_keyed s' \<and> trace t = trace s \<and> fd t = INVALID_SOCKET \<and> http_connections t = []"
proof -
  obtain a s1 u s2 r s3 where a: "make_address (addr_new_port (server_port 8080 args) AF_INET) s = Ret a s1"
    and s2: "http_server_new (Some L) a s1 = Ret u s2"
    and s3: "throwing Not (aa_open_own I env others True (Some (\<lambda>v a. ret True))) s2 = Ret r s3"
    and s4: "http_serve env others blank es s3 = Ret x s'"
    using assms by (auto simp: http_session_def fail_def elim!: bind_ioE split: sum.splits)
  have n: "trace s2 = trace s" "fd s2 = INVALID_SOCKET" "http_connections s2 = []"
    using http_server_new_effect [OF s2] make_address_state [OF a] by simp_all
  have k2: "http_keyed s2" using n by (simp add: http_keyed_def keyed_def)
  have 1: "settles http_hold {#} s2 s3" "http_keyed s3" using http_books.opened_settled(2) [OF s3 k2] by simp_all
  then show ?thesis using http_serve_settled [OF s4 1(2)] settles_step n by blast
qed

text \<open>
  C22. The HTTP server while it serves: after any events of the loop, whatever the system replied,
  the descriptors opened and those of the clients accepted, each as often, are those closed, that
  of the acceptor, and those of the connections of the map, where each stands under its own
  number and none is deleted: clients that left are closed, no descriptor is leaked or closed
  twice. This holds where the calls return: the loop reads behind the end of its map of handlers
  when the connection that leaves has the greatest descriptor of the loop, and an \<open>Open\<close> that
  throws ends the program.
\<close>

theorem http_server_accounts:
  assumes "http_session I env others blank args es L s = Ret () s'" and "trace s = []"
  shows "opened_in (trace s') + image_mset fst (accepted_in (trace s'))
      = closed_in (trace s') + owns s' + held (http_connections s')
    \<and> list_all (\<lambda>(k, c). fd c = k \<and> \<not> released c) (http_connections s')"
proof -
  obtain t where "settles http_hold {#} t s'" "http_keyed s'" "trace t = trace s" "fd t = INVALID_SOCKET" "http_connections t = []"
    using http_session_settled [OF assms(1)] by blast
  then show ?thesis
    using assms(2) by (auto simp: settles_def http_hold_def http_keyed_def keyed_def owns_def held_def ac_simps list_all_iff)
qed

text \<open>
  The destructor closes the rest. It returns only if the wake-up descriptor of the loop is greater
  than those of the sockets, which it is not where the loop is made first, as \<open>main\<close> does.
\<close>

theorem http_server_closes_all:
  assumes "http_server_life I env others blank args es L s = Ret () s'" and "trace s = []"
  shows "opened_in (trace s') + image_mset fst (accepted_in (trace s')) = closed_in (trace s')"
proof -
  obtain v s4 w s5 where s4: "http_session I env others blank args es L s = Ret v s4"
    and s5: "http_delete_connections env others (map snd (http_connections s4)) s4 = Ret w s5"
    and e: "aa_delete env others True s5 = Ret () s'"
    using assms(1)
    by (auto simp: http_server_life_def http_server_delete_def gets_def elim!: bind_ioE)
  obtain s2 where 2: "settles http_hold {#} s2 s4" "http_keyed s4" and n: "trace s2 = []" "fd s2 = INVALID_SOCKET" "http_connections s2 = []"
    using http_session_settled [OF s4] assms(2) by auto
  define t where "t = s5\<lparr>http_connections := []\<rparr>"
  have 3: "settles http_hold {#} s4 t"
    by (rule disposes_settles [OF http_delete_connections_settled [OF s5]])
      (simp_all add: t_def http_hold_def held_def comp_def)
  have "http_connections s5 = http_connections s4"
    using http_delete_connections_settled [OF s5] http_more_fields(2) by (auto simp: disposes_def)
  then have f: "settles http_hold {#} s5 s'" "http_hold s' = http_hold s5" "fd s' = INVALID_SOCKET"
    using http_books.deleted_settled [OF e] 2(2) by (simp_all add: http_keyed_def)
  have "settles http_hold {#} s2 t" using settles_step 2(1) 3 by blast
  then show ?thesis using f n by (auto simp: settles_def http_hold_def held_def owns_def t_def)
qed

text \<open>A client comes and goes, another one stays to the end.\<close>

definition demo_idle_server :: "reply list \<Rightarrow> unit http_server" where
  "demo_idle_server rs = \<lparr>fd = INVALID_SOCKET, err = None, replies = rs, waits = [], errno = 0, trace = [],
     acc_address = addr_new, acc_reuse_addr = False, acc_reuse_port = False, acc_backlog = 5,
     acc_reactor = \<lparr>rloop = None, rhandler = None, allocations = [Some 2, Some 3, Some 4]\<rparr>, http_connections = []\<rparr>"

definition http_replies :: "reply list" where
  "http_replies = [Ok 5, Ok 0, Ok 0, Ok 0, Ok 0, Ok 2, Ok 0,
     Done 6 [] demo_peer, Ok 1, Done 0 [] demo_peer, Ok 2, Ok 0, Ok 0, Ok 0,
     Done 7 [] demo_peer, Ok 1, Done 0 [] demo_peer, Ok 2, Ok 0, Ok 0, Ok 0]"

lemmas http_session_simps = http_server_life_def http_session_def http_server_new_def http_server_delete_def http_readable_def http_on_def
  http_accepted_def http_connection_new_def http_connected_def http_received_def demo_http_def demo_idle_server_def
  http_replies_def demo_wake_loop_def demo_async_def async_tcp.extend_def session_simps

text \<open>The pipe of the loop below the sockets, as in \<open>main\<close>: the first of two clients hangs up.\<close>

definition http_session_replies :: "reply list" where
  "http_session_replies = [Ok 5, Ok 0, Ok 0, Ok 0, Ok 0, Ok 2, Ok 0,
     Done 6 [] demo_peer, Ok 1, Done 0 [] demo_peer, Ok 2, Ok 0,
     Done 7 [] demo_peer, Ok 1, Done 0 [] demo_peer, Ok 2, Ok 0, Ok 0, Ok 0]"

theorem http_server_accounts_witness:
  "\<exists>s'. http_session demo_names idle_env (Ret ()) (demo_http (http_request_new HTTP11) demo_block []) []
       [ClientWaits, ClientWaits, RequestArrives 6] (demo_wake_loop 4) (demo_idle_server http_session_replies) = Ret () s'
     \<and> image_mset fst (accepted_in (trace s')) = {#6, 7#} \<and> closed_in (trace s') = {#6#} \<and> held (http_connections s') = {#7#}"
proof -
  let ?s = "demo_idle_server http_session_replies"
  let ?m = "http_session demo_names idle_env (Ret ()) (demo_http (http_request_new HTTP11) demo_block []) []
       [ClientWaits, ClientWaits, RequestArrives 6] (demo_wake_loop 4)"
  have "\<exists>s'. ?m ?s = Ret () s' \<and> accepted_in (trace s') = {#(7, demo_peer), (6, demo_peer)#}
     \<and> opened_in (trace s') = {#5#} \<and> closed_in (trace s') = {#6#} \<and> owns s' = {#5#}"
    by (simp add: http_session_simps http_session_replies_def owns_def)
  then obtain s' where s': "?m ?s = Ret () s'" "accepted_in (trace s') = {#(7, demo_peer), (6, demo_peer)#}"
     "opened_in (trace s') = {#5#}" "closed_in (trace s') = {#6#}" "owns s' = {#5#}"
    by blast
  have "trace ?s = []" by (simp add: demo_idle_server_def)
  from http_server_accounts [OF s'(1) this] s' show ?thesis by (auto simp: add_mset_commute)
qed

theorem http_server_closes_all_witness:
  "\<exists>s'. http_server_life demo_names idle_env (Ret ()) (demo_http (http_request_new HTTP11) demo_block []) []
       [ClientWaits, RequestArrives 6, ClientWaits] (demo_wake_loop 9) (demo_idle_server http_replies) = Ret () s'
     \<and> image_mset fst (accepted_in (trace s')) = {#6, 7#} \<and> closed_in (trace s') = {#5, 6, 7#}"
proof -
  let ?s = "demo_idle_server http_replies"
  let ?m = "http_server_life demo_names idle_env (Ret ()) (demo_http (http_request_new HTTP11) demo_block []) []
       [ClientWaits, RequestArrives 6, ClientWaits] (demo_wake_loop 9)"
  have "\<exists>s'. ?m ?s = Ret () s' \<and> accepted_in (trace s') = {#(7, demo_peer), (6, demo_peer)#} \<and> opened_in (trace s') = {#5#}"
    by (simp add: http_session_simps)
  then obtain s' where s': "?m ?s = Ret () s'"
    "accepted_in (trace s') = {#(7, demo_peer), (6, demo_peer)#}" "opened_in (trace s') = {#5#}"
    by blast
  have "trace ?s = []" by (simp add: demo_idle_server_def)
  from http_server_closes_all [OF s'(1) this] s' show ?thesis by (auto simp: add_mset_commute)
qed

end
