(* ===== verification/Spec2Isabelle.thy ===== *)
theory Spec2Isabelle
  imports DnsMemory HttpFloat PipeThread Resolver EchoRuns EchoSession HttpLedger
begin

text \<open>
  A verification development for the network library \<open>netb\<close> (\<open>src/netb\<close>) and the programs
  that use it (\<open>src/examples\<close>): buffers and serialisation, DNS and HTTP messages, addresses,
  sockets, the event loop and the asynchronous sockets it serves; a DNS resolver, echo servers
  and clients, an HTTP server and client.

  \<^bold>\<open>The program.\<close> A \<open>StreamBuffer\<close> is a byte vector with three positions. \<open>StreamReader\<close> and
  \<open>StreamWriter\<close> move integers, blocks and strings in and out of it in order, \<open>RandomReader\<close> and
  \<open>RandomWriter\<close> look at and change a place; the DNS classes and \<open>HttpMessage\<close> pack and unpack
  messages through them. \<open>Socket\<close> wraps the system calls, \<open>SocketAddress\<close> a \<open>sockaddr_storage\<close>,
  \<open>SocketError\<close> sorts \<open>errno\<close> into the classes of \<open>Error\<close>, which are thrown as the exceptions of
  \<open>Exception\<close>. \<open>TcpSocket\<close>, \<open>TcpAcceptor\<close> and \<open>UdpSocket\<close> add addresses, timed forms and
  the transfer of whole buffers. \<open>EventLoop\<close> waits in a \<open>SocketSelector\<close>, calls the
  \<open>EventHandler\<close> of each ready descriptor, and runs functors that other threads queue, woken
  by a \<open>SocketPipe\<close>. \<open>AsyncTcpSocket\<close>, \<open>AsyncTcpAcceptor\<close> and \<open>AsyncUdpSocket\<close> tie a
  socket to a loop by a handler. \<open>EventLoopThread\<close> runs a loop in a thread of its own. The
  programs of \<open>examples\<close> compose these: \<open>DnsResolver\<close> sends a query over a \<open>UdpSocket\<close>, the
  echo programs send back what they receive, on plain sockets, on buffers and on a loop, and
  the HTTP server answers requests it parses on a loop.

  \<^bold>\<open>How the code is modelled.\<close> An object is a record with the members of the class; a derived
  class extends the record. An operation is a function from the state to an \<open>outcome\<close>
  (\<open>Prelude\<close>): it returns a value and the new state, or it is a fault, that is a failing
  assertion, an escaping standard exception, undefined behaviour, or a call that does not return.
  The library is compiled with its assertions on. The overload without the pointer to an
  \<open>Error\<close> returns a sum, the exception it throws or its result. Pointers that may be null are
  options. \<open>size_t\<close> and \<open>ssize_t\<close> are 64 bits wide with their wrap-around written out, the
  integers of the wire formats are words, characters are octets; the code is that of Linux on a
  little-endian machine. Arguments stand for what is not in the repository:
  the replies of the system calls, one per call, and those of \<open>select\<close>; the conversions of
  addresses in the C library (the record \<open>inet\<close>); \<open>rand()\<close>; the content of an uninitialised
  local; what \<open>new (std::nothrow) EventHandler\<close> yields; and the callbacks and functors of the
  application, which may change the whole state.

  \<^bold>\<open>The theories.\<close>
  \<^item> \<open>Prelude\<close>: machine sizes, outcomes, memory images of integers, decimal numbers.
  \<^item> \<open>StreamBuf\<close>, \<open>StreamSpec\<close> (\<open>StreamBuffer\<close>): the operations; their contract, a byte queue
    with a rewindable front, and the refinement of it by every run that fits the capacity and
    calls each operation where \<open>op_ok\<close> allows it; the rest (\<open>Flush(n)\<close> across the reading
    position, a \<open>Read(n)\<close> that wraps below the origin) breaks the order of the positions. The
    locale \<open>byte_stream\<close> is what the serialisers use of it.
  \<^item> \<open>StreamRW\<close> (\<open>StreamReader\<close>, \<open>StreamWriter\<close>), \<open>RandomRW\<close> (\<open>RandomReader\<close>,
    \<open>RandomWriter\<close>): the locales \<open>codec\<close>, a writer with its reader, and \<open>cell\<close>, an update with
    its peek, are interpreted for each width of integer, and \<open>codec\<close> for domain names too.
  \<^item> \<open>DnsName\<close>, \<open>DnsRecords\<close> (\<open>DnsRecord\<close>), \<open>DnsMsg\<close> (\<open>DnsMessage\<close>): names with their
    compression, the record data and the messages; round trips, the exact octets
    written, and that reading ends. The relations \<open>name_at\<close>, \<open>rd_at\<close>, \<open>rec_at\<close>
    and \<open>message_at\<close> are the standard format, as far as the code reads it, with names compressed
    by a pointer into the message; what stands in it is read. The two loops of
    the reader of names have bounds, more octets than the buffer holds, which are
    proved to be enough.
  \<^item> \<open>DnsMemory\<close> (\<open>Message\<close>): the same reading with an address for each object made by \<open>new\<close>
    and a heap of the addresses in use, the constructors and destructors of messages and records.
    Without the addresses it is that of \<open>DnsMsg\<close>; with them, it tells what is deleted and what
    is left over.
  \<^item> \<open>Http\<close> (\<open>HttpMessage\<close>): printing, parsing and the incremental reading, whose header loop
    runs with a bound of the same kind; the locale \<open>dictionary\<close> for the header fields.
    \<open>HttpFloat\<close>: reading a \<open>double\<close> from a field, as 64 bits computed on exact fractions.
  \<^item> \<open>Errors\<close> (\<open>Error\<close>, \<open>ErrorClass\<close>, \<open>ErrorCode\<close>, \<open>Exception\<close>, \<open>SocketError\<close>): the locale
    \<open>error_setter\<close> is the contract of the functions that sort \<open>errno\<close>, with the codes each asserts
    on.
  \<^item> \<open>Address\<close> (\<open>SocketAddress\<close>): the bytes of an address; the locale \<open>comparison\<close>, by an
    order on keys, for the operators.
  \<^item> \<open>Selector\<close> (\<open>SocketSelector\<close>): the heap of descriptors (locale \<open>max_front\<close>), the interest
    sets and the wait, whose answers follow the documented contract of \<open>select\<close>.
  \<^item> \<open>EventLoop\<close> (\<open>EventLoop\<close>, \<open>EventHandler\<close>): the operations, which take a flag that says
    whether the caller is the loop thread; one iteration of \<open>Run\<close>; and the relation
    \<open>loop_step\<close>, the same iteration in steps interleaved with calls of other threads. Such a
    call is one step, also \<open>InvokeLater\<close>, where the code gives the mutex back between the push and
    the wake-up. What the application does in callbacks and functors is a program of such calls,
    the datatype \<open>app\<close>. \<open>in_sync\<close> is the invariant that ties the map of handlers
    to the selector, and \<open>registry_of\<close> the abstract state it refines.
  \<^item> \<open>Sockets\<close>, \<open>SocketOwnership\<close> (\<open>Socket\<close>): the operations over the replies of the system,
    with a trace of calls and replies. The locale \<open>frame\<close> carries a relation that single calls
    respect through all operations, the classes on top included; its instances are the account
    of descriptors and, further on, what the asynchronous classes leave alone.
  \<^item> \<open>TcpUdp\<close> (\<open>TcpSocket\<close>, \<open>TcpAcceptor\<close>, \<open>UdpSocket\<close>).
  \<^item> \<open>Reactor\<close>, \<open>AsyncTcp\<close>, \<open>AsyncAcceptor\<close>, \<open>AsyncUdp\<close>: the asynchronous classes. The loop is
    a part of the state of the socket, found through the locale \<open>reactor_part\<close>, so that a call
    changes buffers, handler and selector together; \<open>reactor_frame\<close> extends \<open>frame\<close> by it. The
    properties are about runs of calls and events: order of the bytes and datagrams, draining,
    capacity, what becomes of accepted connections.
  \<^item> \<open>PipeThread\<close> (\<open>SocketPipe\<close>, \<open>EventLoopThread\<close>): the pair of connected sockets, and the
    thread as a step relation of its two threads on top of \<open>loop_step\<close>.
  \<^item> \<open>BufferTransfer\<close>: sending and receiving whole buffers over a trace.
  \<^item> \<open>Resolver\<close> (\<open>examples/dns\<close>): the class and its program; a lookup returns the answer.
  \<^item> \<open>EchoPrograms\<close>, \<open>EchoRuns\<close> (\<open>examples/tcp\<close>, \<open>examples/udp\<close>): each program is a function
    of its arguments. Their loops have the number of replies of the system as bound; a turn
    takes a reply, so more changes nothing (\<open>server_loops_bounded\<close>).
  \<^item> \<open>AsyncEcho\<close>, \<open>ServerBooks\<close>, \<open>EchoLedger\<close>,
    \<open>EchoStream\<close>, \<open>EchoSession\<close> (\<open>examples/echo\<close>): the
    servers and clients on a loop, over a list of the events it delivers. A server is an acceptor
    with a list of connections, to which it lends the loop and the system. The locales
    \<open>output_frame\<close> and \<open>stream_frame\<close> extend
    \<open>reactor_frame\<close> by the buffers of a connection; they carry the account of
    descriptors, and what is in the streams, through the servers. The locale
    \<open>server_books\<close> is what this account needs of any server with connections; the
    echo server and the HTTP server are its interpretations. The clients read words from a list,
    with a bound on the turns.
  \<^item> \<open>HttpPrograms\<close>, \<open>HttpRuns\<close>, \<open>HttpLedger\<close> (\<open>examples/http\<close>): the server, whose connections
    keep the request they are reading, and the client; what is answered, why the two stop each
    other, and that the server, while it is at work, closes or holds what it opened and accepted.

  \<^bold>\<open>What the theorems show.\<close> Most say that an operation or a run of operations does what it is
  for: the buffer is a queue, messages are read back, the selector holds just the interest that
  was set, no wake-up is lost, descriptors are neither leaked nor closed twice, an error is thrown
  with the class, message and code last given to it, streams and
  datagrams keep their order. Where the code does something else, the theorem states what it
  does: the tail a reclaiming write loses, the shifted body of an HTTP message, the SOA record
  that is not consumed, the objects a malformed DNS message leaves behind, the wrong handler
  forgotten on removal, the assertions a call that would block runs into, the connection whose
  buffer is never flushed, the datagram sent to another client, the loop whose destruction reads
  behind its map.

  \<^bold>\<open>Not modelled.\<close> The floating point forms other than
  \<open>GetHeaderAsFloat\<close>, which are declared without a definition. Failing allocations
  other than that of a handler. Output to the console and \<open>Dump\<close>. Data races: the
  operations of other threads are atomic, and the buffers that the code reads without their mutex
  are read as if it held it. Pointers into a buffer that is changed later. The Windows branches of
  \<open>Socket\<close>, \<open>Config\<close> and the initialiser of
  \<open>SocketConfig.cpp\<close>, which does nothing on Linux. What the programs print; that
  \<open>main\<close> of the asynchronous servers never returns from \<open>Run\<close> (they are
  given finite lists of events).
\<close>

end
